(* ===== verification/Prelude.thy ===== *)
theory Prelude
  imports Main "HOL-Library.Word"
begin

text \<open>
  What every other theory of the development shares: names for the machine integers of the
  C code (\<open>unsigned long\<close> is \<open>u64\<close>, \<open>unsigned int\<close> is \<open>u32\<close>), the low-order masks the drivers
  write as hexadecimal literals, and generic lemmas on words, lists and options. The collection
  \<open>word_masks\<close> turns the masks into \<open>take_bit\<close>, so that a goal about shifts and masks is
  settled bit by bit with \<open>bit_eq_iff\<close> and \<open>bit_simps\<close>.
\<close>

unbundle bit_operations_syntax

type_synonym u64 = "64 word"
type_synonym u32 = "32 word"

named_theorems word_masks "hexadecimal masks of the C code as bit operations"

section \<open>Masks\<close>

lemma low_mask_numerals:
  "(0x1FF :: u64) = mask 9" "(0xFFF :: u64) = mask 12" "(0x1FFFFF :: u64) = mask 21"
  "(0x3FFFFFFF :: u64) = mask 30" "(0xFF :: u64) = mask 8" "(0x1F :: u64) = mask 5"
  "(0x3 :: u64) = mask 2" "(0xFFFF :: u64) = mask 16" "(0x7FFFFFFFFFFFFF :: u64) = mask 55"
  by (simp_all add: mask_eq_exp_minus_1)

lemma and_low_mask [word_masks]:
  fixes x :: u64
  shows "x AND 0x1FF = take_bit 9 x" and "x AND 0xFFF = take_bit 12 x"
    and "x AND 0x1FFFFF = take_bit 21 x" and "x AND 0x3FFFFFFF = take_bit 30 x"
    and "x AND 0xFF = take_bit 8 x" and "x AND 0x1F = take_bit 5 x"
    and "x AND 0x3 = take_bit 2 x" and "x AND 0xFFFF = take_bit 16 x"
    and "x AND 0x7FFFFFFFFFFFFF = take_bit 55 x"
  unfolding take_bit_eq_mask low_mask_numerals by (rule refl)+

lemma and_one_eq_0_iff [word_masks]: "x AND 1 = 0 \<longleftrightarrow> \<not> bit x 0" for x :: u64
  by (simp add: and_one_eq bit_0 even_iff_mod_2_eq_zero [symmetric] odd_iff_mod_2_eq_one)

lemma range_mask_numerals:
  "(0x000FFFFFFFFFF000 :: u64) = push_bit 12 (mask 40)"
  "(0x000FFFFFFFE00000 :: u64) = push_bit 21 (mask 31)"
  "(0x000FFFFFC0000000 :: u64) = push_bit 30 (mask 22)"
  "(0xFFFF000000000000 :: u64) = push_bit 48 (mask 16)"
  by (simp_all add: mask_eq_exp_minus_1)

lemma bit_addr_mask: "bit (0x000FFFFFFFFFF000 :: u64) n \<longleftrightarrow> 12 \<le> n \<and> n < 52"
  by (auto simp: range_mask_numerals bit_simps)

lemma bit_2mb_mask: "bit (0x000FFFFFFFE00000 :: u64) n \<longleftrightarrow> 21 \<le> n \<and> n < 52"
  by (auto simp: range_mask_numerals bit_simps)

lemma bit_1gb_mask: "bit (0x000FFFFFC0000000 :: u64) n \<longleftrightarrow> 30 \<le> n \<and> n < 52"
  by (auto simp: range_mask_numerals bit_simps)

lemma bit_canonical_high: "bit (0xFFFF000000000000 :: u64) n \<longleftrightarrow> 48 \<le> n \<and> n < 64"
  by (auto simp: range_mask_numerals bit_simps)

text \<open>The simplifier reads a word numeral's bits off the integer: the same masks as integers.\<close>

lemma int_range_mask_numerals:
  "(0x000FFFFFFFFFF000 :: int) = push_bit 12 (mask 40)"
  "(0x000FFFFFFFE00000 :: int) = push_bit 21 (mask 31)"
  "(0x000FFFFFC0000000 :: int) = push_bit 30 (mask 22)"
  "(0xFFFF000000000000 :: int) = push_bit 48 (mask 16)"
  by (simp_all add: mask_eq_exp_minus_1)

lemma int_bit_range_masks:
  "bit (0x000FFFFFFFFFF000 :: int) n \<longleftrightarrow> 12 \<le> n \<and> n < 52"
  "bit (0x000FFFFFFFE00000 :: int) n \<longleftrightarrow> 21 \<le> n \<and> n < 52"
  "bit (0x000FFFFFC0000000 :: int) n \<longleftrightarrow> 30 \<le> n \<and> n < 52"
  "bit (0xFFFF000000000000 :: int) n \<longleftrightarrow> 48 \<le> n \<and> n < 64"
  by (auto simp: int_range_mask_numerals bit_simps)

lemmas bit_range_masks =
  bit_addr_mask bit_2mb_mask bit_1gb_mask bit_canonical_high int_bit_range_masks

lemma bit_u64_bound: "bit x n \<Longrightarrow> n < 64" for x :: u64
  using bit_imp_le_length [of x n] by simp

lemma drop_bit_and_one_iff [word_masks]: "drop_bit n x AND 1 = 0 \<longleftrightarrow> \<not> bit x n" for x :: u64
  by (simp add: and_one_eq_0_iff bit_drop_bit_eq)

lemma and_pow2_iff [word_masks]:
  fixes x :: u64
  shows "x AND 2 = 0 \<longleftrightarrow> \<not> bit x 1" and "x AND 4 = 0 \<longleftrightarrow> \<not> bit x 2"
    and "x AND 0x20 = 0 \<longleftrightarrow> \<not> bit x 5" and "x AND 0x40 = 0 \<longleftrightarrow> \<not> bit x 6"
    and "x AND 0x80 = 0 \<longleftrightarrow> \<not> bit x 7" and "x AND 0x100 = 0 \<longleftrightarrow> \<not> bit x 8"
    and "x AND 0x8000000000000000 = 0 \<longleftrightarrow> \<not> bit x 63"
  using and_exp_eq_0_iff_not_bit [of x 1] and_exp_eq_0_iff_not_bit [of x 2]
    and_exp_eq_0_iff_not_bit [of x 5] and_exp_eq_0_iff_not_bit [of x 6]
    and_exp_eq_0_iff_not_bit [of x 7] and_exp_eq_0_iff_not_bit [of x 8]
    and_exp_eq_0_iff_not_bit [of x 63]
  by simp_all

lemma single_flag_bits:
  "bit (1 :: u64) n \<longleftrightarrow> n = 0" "bit (2 :: u64) n \<longleftrightarrow> n = 1" "bit (4 :: u64) n \<longleftrightarrow> n = 2"
  "bit (0x20 :: u64) n \<longleftrightarrow> n = 5" "bit (0x80 :: u64) n \<longleftrightarrow> n = 7"
proof -
  have "(2 :: u64) = push_bit 1 1" "(4 :: u64) = push_bit 2 1" "(0x20 :: u64) = push_bit 5 1" "(0x80 :: u64) = push_bit 7 1"
    by simp_all
  then show "bit (1 :: u64) n \<longleftrightarrow> n = 0" "bit (2 :: u64) n \<longleftrightarrow> n = 1" "bit (4 :: u64) n \<longleftrightarrow> n = 2"
    "bit (0x20 :: u64) n \<longleftrightarrow> n = 5" "bit (0x80 :: u64) n \<longleftrightarrow> n = 7"
    by (auto simp only: bit_push_bit_iff bit_1_iff) simp_all
qed

lemmas bit_of_shift [word_masks] = bit_drop_bit_eq

section \<open>Words split at a bit position\<close>

lemma word_eq_split:
  fixes x y :: "'a::len word"
  assumes "drop_bit n x = drop_bit n y" and "take_bit n x = take_bit n y"
  shows "x = y"
  using assms bits_ident [of n x] bits_ident [of n y] by metis

lemma unat_take_bit_less: "unat (take_bit n x) < 2 ^ n" for x :: "'a::len word"
  by (simp add: unsigned_take_bit_eq)

lemma unat_less_exp_iff: "unat x < 2 ^ n \<longleftrightarrow> take_bit n x = x" for x :: "'a::len word"
  by (metis take_bit_nat_eq_self_iff unsigned_take_bit_eq unsigned_word_eqI)

lemma unat_less_exp_bits: "unat x < 2 ^ n \<Longrightarrow> bit x k \<Longrightarrow> k < n" for x :: "'a::len word"
  by (metis bit_take_bit_iff unat_less_exp_iff)

lemma drop_bit_mono_cong:
  fixes x y :: "'a::len word"
  assumes "drop_bit m x = drop_bit m y" and "m \<le> n"
  shows "drop_bit n x = drop_bit n y"
proof -
  have drop: "drop_bit n z = drop_bit (n - m) (drop_bit m z)" for z :: "'a word"
    using assms(2) by (simp add: drop_bit_drop_bit)
  show ?thesis by (simp only: drop assms(1))
qed

lemma unat_of_nat_small: "n < 2 ^ 64 \<Longrightarrow> unat (of_nat n :: u64) = n"
  by (simp only: unat_of_nat) simp

lemma unat_add_wrap: "unat (x + y :: u64) = (if unat x + unat y < 2 ^ 64 then unat x + unat y else unat x + unat y - 2 ^ 64)"
  using unat_plus_if_size [of x y] by (simp add: word_size)

lemma unat_add_small: "unat a + unat b < 2 ^ 64 \<Longrightarrow> unat (a + b) = unat a + unat b" for a b :: u64
  by (simp add: unat_add_wrap)

lemma unat_u64: "unat (x :: u64) < 2 ^ 64"
  using unsigned_less [of x] by simp

lemma frame_plus_offset:
  fixes x y :: u64
  assumes "take_bit 12 x = 0" and "unat y < 4096"
  shows "drop_bit 12 (x + y) = drop_bit 12 x"
proof -
  have y: "take_bit 12 y = y" using assms(2) unat_less_exp_iff [of y 12] by simp
  have "bit x n \<Longrightarrow> 12 \<le> n" and "bit y n \<Longrightarrow> n < 12" for n
    using arg_cong [OF assms(1), of "\<lambda>w. bit w n"] arg_cong [OF y, of "\<lambda>w. bit w n"]
    by (auto simp: bit_take_bit_iff)
  then have disj: "x AND y = 0"
    by (fastforce simp: bit_eq_iff bit_and_iff)
  have "drop_bit 12 (x OR y) = drop_bit 12 x"
    by (subst y [symmetric]) (auto simp: bit_eq_iff bit_drop_bit_eq bit_or_iff bit_take_bit_iff)
  then show ?thesis by (simp add: disjunctive_add_eq_or disj)
qed

section \<open>Lists\<close>

text \<open>The drivers' loops run over ranges like \<open>[0..<512]\<close>, which are kept folded.\<close>

declare upt_rec_numeral [simp del]

lemma length_filter_upt_le: "length (filter P [a..<b]) \<le> b - a"
  using length_filter_le [of P "[a..<b]"] by simp

text \<open>\<open>List.map_filter\<close>: the pages that count, with what they count as.\<close>

lemma map_filter_append: "List.map_filter f (xs @ ys) = List.map_filter f xs @ List.map_filter f ys"
  by (simp add: List.map_filter_def)

lemma length_map_filter: "length (List.map_filter f xs) \<le> length xs"
  by (simp add: List.map_filter_def)

lemma map_filter_total: "(\<And>x. x \<in> set xs \<Longrightarrow> f x = Some (g x)) \<Longrightarrow> List.map_filter f xs = map g xs"
  by (induction xs) (simp_all add: List.map_filter_simps)

end
