(* ===== verification/Paging.thy ===== *)
theory Paging
  imports Prelude
begin

text \<open>
  The four-level page-table walker of \<open>paging_demos/kernel_module_raw/raw_pagewalk.c\<close> and the
  machine it runs on. \<open>machine\<close> is what the walkers read: the CR3 register, the base of the
  kernel's direct map and the 64-bit words the kernel loads from virtual addresses.
  \<open>xlate\<close> is the abstract specification, a recursion over the levels that says which page
  a virtual address falls into; \<open>walk_raw\<close> and the other walkers of the development are proved
  to compute it. The locale \<open>translator\<close> states what a client of a walker relies on.
\<close>

unbundle bit_operations_syntax

section \<open>The machine a walker reads\<close>

record machine =
  cr3_reg :: u64
  page_offset_base :: u64
  kload :: "u64 \<Rightarrow> u64"

abbreviation PTE_ADDR_MASK :: u64 where "PTE_ADDR_MASK \<equiv> 0x000FFFFFFFFFF000"
abbreviation HUGE_2MB_MASK :: u64 where "HUGE_2MB_MASK \<equiv> 0x000FFFFFFFE00000"
abbreviation HUGE_1GB_MASK :: u64 where "HUGE_1GB_MASK \<equiv> 0x000FFFFFC0000000"

text \<open>\<open>__va(x)\<close> of \<open>page.h\<close>: the direct map is the physical address plus its base.\<close>

definition kva :: "machine \<Rightarrow> u64 \<Rightarrow> u64" where
  "kva m phys = phys + page_offset_base m"

definition read_cr3_raw :: "machine \<Rightarrow> u64" where
  "read_cr3_raw m = cr3_reg m"

definition phys_to_virt_raw :: "machine \<Rightarrow> u64 \<Rightarrow> u64" where
  "phys_to_virt_raw m phys = kva m phys"

record va_parts =
  pml4_idx :: u64
  pdpt_idx :: u64
  pd_idx :: u64
  pt_idx :: u64
  offset :: u64

definition extract_indices_raw :: "u64 \<Rightarrow> va_parts" where
  "extract_indices_raw vaddr =
     \<lparr>pml4_idx = drop_bit 39 vaddr AND 0x1ff,
      pdpt_idx = drop_bit 30 vaddr AND 0x1ff,
      pd_idx = drop_bit 21 vaddr AND 0x1ff,
      pt_idx = drop_bit 12 vaddr AND 0x1ff,
      offset = vaddr AND 0xfff\<rparr>"

text \<open>\<open>table_virt[index]\<close>: an 8-byte load at the table's direct-map address plus \<open>8 * index\<close>.\<close>

definition read_entry_raw :: "machine \<Rightarrow> u64 \<Rightarrow> u64 \<Rightarrow> u64" where
  "read_entry_raw m table_phys index = kload m (kva m table_phys + 8 * index)"

definition is_present_raw :: "u64 \<Rightarrow> int" where
  "is_present_raw entry = (if entry AND 1 \<noteq> 0 then 1 else 0)"

definition extract_next_table_phys :: "u64 \<Rightarrow> u64" where
  "extract_next_table_phys entry = entry AND PTE_ADDR_MASK"

definition walk_raw :: "machine \<Rightarrow> u64 \<Rightarrow> u64 \<Rightarrow> u64" where
  "walk_raw m cr3 vaddr =
    (let ix = extract_indices_raw vaddr;
         table_phys = cr3 AND PTE_ADDR_MASK;
         entry = read_entry_raw m table_phys (pml4_idx ix) in
     if is_present_raw entry = 0 then 0xDEAD0001 else
     let table_phys = extract_next_table_phys entry;
         entry = read_entry_raw m table_phys (pdpt_idx ix) in
     if is_present_raw entry = 0 then 0xDEAD0002 else
     if drop_bit 7 entry AND 1 \<noteq> 0 then 0xDEAD1001 else
     let table_phys = extract_next_table_phys entry;
         entry = read_entry_raw m table_phys (pd_idx ix) in
     if is_present_raw entry = 0 then 0xDEAD0003 else
     if drop_bit 7 entry AND 1 \<noteq> 0
     then (entry AND 0x000FFFFFFFE00000) OR (vaddr AND 0x1FFFFF) else
     let table_phys = extract_next_table_phys entry;
         entry = read_entry_raw m table_phys (pt_idx ix) in
     if is_present_raw entry = 0 then 0xDEAD0004 else
     (entry AND PTE_ADDR_MASK) OR offset ix)"

section \<open>The abstract specification\<close>

text \<open>
  Level 4 is the PML4, level 1 the page table. \<open>level_shift l\<close> is the number of address bits an
  entry of level \<open>l\<close> covers: 12, 21, 30 and 39.
\<close>

definition level_shift :: "nat \<Rightarrow> nat" where
  "level_shift l = 12 + 9 * (l - 1)"

definition va_index :: "nat \<Rightarrow> u64 \<Rightarrow> u64" where
  "va_index l va = take_bit 9 (drop_bit (level_shift l) va)"

definition leaf_frame :: "nat \<Rightarrow> u64 \<Rightarrow> u64" where
  "leaf_frame l e =
     push_bit (level_shift l) (take_bit (52 - level_shift l) (drop_bit (level_shift l) e))"

datatype xres = Absent nat | Leaf nat u64

fun xlate :: "(u64 \<Rightarrow> u64 \<Rightarrow> u64) \<Rightarrow> nat \<Rightarrow> u64 \<Rightarrow> u64 \<Rightarrow> xres" where
  "xlate rd 0 table va = Absent 0"
| "xlate rd (Suc k) table va =
    (let e = rd table (va_index (Suc k) va) in
     if \<not> bit e 0 then Absent (Suc k)
     else if k = 0 \<or> k \<le> 2 \<and> bit e 7
     then Leaf (Suc k) (leaf_frame (Suc k) e OR take_bit (level_shift (Suc k)) va)
     else xlate rd k (leaf_frame 1 e) va)"

definition same_page :: "nat \<Rightarrow> u64 \<Rightarrow> u64 \<Rightarrow> bool" where
  "same_page l va vb \<longleftrightarrow>
     drop_bit (level_shift l) (take_bit 48 va) = drop_bit (level_shift l) (take_bit 48 vb)"

text \<open>The whole translation of a virtual address under the machine's own CR3.\<close>

definition translate :: "machine \<Rightarrow> u64 \<Rightarrow> xres" where
  "translate m va = xlate (read_entry_raw m) 4 (leaf_frame 1 (cr3_reg m)) va"

section \<open>Indices and frames\<close>

lemma level_shift_simps [simp]:
  "level_shift (Suc 0) = 12" "level_shift 1 = 12" "level_shift 2 = 21" "level_shift 3 = 30"
  "level_shift 4 = 39" "level_shift (Suc (Suc 0)) = 21" "level_shift (Suc (Suc (Suc 0))) = 30"
  "level_shift (Suc (Suc (Suc (Suc 0)))) = 39"
  by (simp_all add: level_shift_def)

lemma level_shift_mono: "j \<le> l \<Longrightarrow> level_shift j \<le> level_shift l"
  by (simp add: level_shift_def)

lemma level_shift_Suc: "1 \<le> l \<Longrightarrow> level_shift (Suc l) = level_shift l + 9"
  by (cases l) (simp_all add: level_shift_def)

lemma level_shift_le: "l \<le> 4 \<Longrightarrow> level_shift l \<le> 39"
  by (simp add: level_shift_def)

lemma source_indices [word_masks]:
  "take_bit 9 (drop_bit 39 va) = va_index 4 va" "take_bit 9 (drop_bit 30 va) = va_index 3 va"
  "take_bit 9 (drop_bit 21 va) = va_index 2 va" "take_bit 9 (drop_bit 12 va) = va_index 1 va"
  by (simp_all add: va_index_def)

lemma bit_leaf_frame: "bit (leaf_frame l e) n \<longleftrightarrow> level_shift l \<le> n \<and> n < 52 \<and> bit e n"
  by (auto simp: leaf_frame_def bit_simps dest: bit_u64_bound)

lemma source_frames [word_masks]:
  "e AND PTE_ADDR_MASK = leaf_frame 1 e"
  "e AND HUGE_2MB_MASK = leaf_frame 2 e"
  "e AND HUGE_1GB_MASK = leaf_frame 3 e"
  by (auto simp: bit_eq_iff bit_and_iff bit_leaf_frame bit_range_masks)

lemma is_present_raw_iff [word_masks]: "is_present_raw e = 0 \<longleftrightarrow> \<not> bit e 0"
  by (simp add: is_present_raw_def word_masks)

lemma va_index_less: "unat (va_index l va) < 512"
  using unat_take_bit_less [of 9] by (simp add: va_index_def)

lemma bit_va_index: "bit (va_index l va) n \<longleftrightarrow> n < 9 \<and> bit va (level_shift l + n)"
  by (simp add: va_index_def bit_simps)

text \<open>An address splits into its four indices and its page offset, and back.\<close>

definition canonical :: "u64 \<Rightarrow> bool" where
  "canonical va \<longleftrightarrow> signed_take_bit 47 va = va"

definition recompose :: "va_parts \<Rightarrow> u64" where
  "recompose p = signed_take_bit 47
     (push_bit 39 (pml4_idx p) OR push_bit 30 (pdpt_idx p) OR push_bit 21 (pd_idx p)
      OR push_bit 12 (pt_idx p) OR offset p)"

definition parts_in_range :: "va_parts \<Rightarrow> bool" where
  "parts_in_range p \<longleftrightarrow> unat (pml4_idx p) < 512 \<and> unat (pdpt_idx p) < 512
     \<and> unat (pd_idx p) < 512 \<and> unat (pt_idx p) < 512 \<and> unat (offset p) < 4096"

lemma bit_signed_take_bit_u64:
  "bit (signed_take_bit n w) k \<longleftrightarrow> k < 64 \<and> bit w (min n k)" for w :: u64
  by (auto simp: bit_signed_take_bit_iff dest: bit_u64_bound)

lemma canonical_iff: "canonical va \<longleftrightarrow> (\<forall>n. 47 \<le> n \<and> n < 64 \<longrightarrow> bit va n = bit va 47)"
proof -
  have "canonical va \<longleftrightarrow> (\<forall>n < 64. bit va (min 47 n) = bit va n)"
    by (simp add: canonical_def bit_eq_iff bit_signed_take_bit_u64)
  also have "\<dots> \<longleftrightarrow> (\<forall>n. 47 \<le> n \<and> n < 64 \<longrightarrow> bit va n = bit va 47)"
    by (auto simp: min_def)
  finally show ?thesis .
qed

lemma canonicalD: "canonical va \<Longrightarrow> 47 \<le> n \<Longrightarrow> n < 64 \<Longrightarrow> bit va n = bit va 47"
  by (simp only: canonical_iff)

lemma extract_indices_parts:
  "pml4_idx (extract_indices_raw va) = va_index 4 va"
  "pdpt_idx (extract_indices_raw va) = va_index 3 va"
  "pd_idx (extract_indices_raw va) = va_index 2 va"
  "pt_idx (extract_indices_raw va) = va_index 1 va"
  "offset (extract_indices_raw va) = take_bit 12 va"
  by (simp_all add: extract_indices_raw_def word_masks)

lemma bit_recompose:
  "bit (recompose p) n \<longleftrightarrow> n < 64 \<and> (let k = min 47 n in
     39 \<le> k \<and> bit (pml4_idx p) (k - 39) \<or> 30 \<le> k \<and> bit (pdpt_idx p) (k - 30)
     \<or> 21 \<le> k \<and> bit (pd_idx p) (k - 21) \<or> 12 \<le> k \<and> bit (pt_idx p) (k - 12)
     \<or> bit (offset p) k)"
  by (auto simp: recompose_def bit_signed_take_bit_u64 bit_or_iff bit_push_bit_iff Let_def)

lemma in_range_bits:
  assumes "parts_in_range p"
  shows "9 \<le> k \<Longrightarrow> \<not> bit (pml4_idx p) k" and "9 \<le> k \<Longrightarrow> \<not> bit (pdpt_idx p) k"
    and "9 \<le> k \<Longrightarrow> \<not> bit (pd_idx p) k" and "9 \<le> k \<Longrightarrow> \<not> bit (pt_idx p) k"
    and "12 \<le> k \<Longrightarrow> \<not> bit (offset p) k"
  using assms unat_less_exp_bits [of "pml4_idx p" 9 k] unat_less_exp_bits [of "pdpt_idx p" 9 k]
    unat_less_exp_bits [of "pd_idx p" 9 k] unat_less_exp_bits [of "pt_idx p" 9 k]
    unat_less_exp_bits [of "offset p" 12 k]
  by (auto simp: parts_in_range_def)

lemma recompose_extract_low:
  assumes "n < 48"
  shows "bit (recompose (extract_indices_raw va)) n \<longleftrightarrow> bit va n"
proof -
  have cases: "39 \<le> n \<and> n < 48 \<or> 30 \<le> n \<and> n < 39 \<or> 21 \<le> n \<and> n < 30
      \<or> 12 \<le> n \<and> n < 21 \<or> n < 12"
    using assms by linarith
  have "min 47 n = n" using assms by simp
  with cases show ?thesis
    by (auto simp: bit_recompose extract_indices_parts bit_va_index bit_take_bit_iff Let_def)
qed

lemma recompose_high: "47 \<le> n \<Longrightarrow> n < 64 \<Longrightarrow> bit (recompose p) n = bit (recompose p) 47"
  by (simp add: recompose_def bit_signed_take_bit_u64)

lemma recompose_fields:
  assumes "parts_in_range p" and "n < 48"
  shows "bit (recompose p) n \<longleftrightarrow>
    (if n < 12 then bit (offset p) n else if n < 21 then bit (pt_idx p) (n - 12)
     else if n < 30 then bit (pd_idx p) (n - 21) else if n < 39 then bit (pdpt_idx p) (n - 30)
     else bit (pml4_idx p) (n - 39))"
proof -
  have min: "min 47 n = n" "n < 64" using assms(2) by simp_all
  consider "n < 12" | "12 \<le> n" "n < 21" | "21 \<le> n" "n < 30" | "30 \<le> n" "n < 39"
    | "39 \<le> n" "n < 48" using assms(2) by linarith
  then show ?thesis
    by cases (simp_all add: bit_recompose in_range_bits [OF assms(1)] min)
qed

text \<open>
  For every canonical virtual address, putting the four indices and the offset that
  \<open>extract_indices_raw\<close> returns back at their positions, and sign-extending from bit 47, gives the
  address again: the extraction loses nothing.
\<close>
theorem recompose_extract_indices:
  assumes "canonical va"
  shows "recompose (extract_indices_raw va) = va"
proof (rule bit_word_eqI)
  fix n assume "n < LENGTH(64)"
  then have n: "n < 64" by simp
  show "bit (recompose (extract_indices_raw va)) n = bit va n"
  proof (cases "n < 48")
    case True
    then show ?thesis by (rule recompose_extract_low)
  next
    case False
    then have "bit (recompose (extract_indices_raw va)) n
        = bit (recompose (extract_indices_raw va)) 47"
      using n by (intro recompose_high) simp_all
    also have "\<dots> = bit va 47" by (rule recompose_extract_low) simp
    also have "\<dots> = bit va n" by (rule canonicalD [OF assms, symmetric]) (use False n in simp_all)
    finally show ?thesis .
  qed
qed

theorem recompose_extract_indices_witness:
  "canonical 0xFFFF89DF00000000 \<and>
   recompose (extract_indices_raw 0xFFFF89DF00000000) = 0xFFFF89DF00000000"
proof -
  have "canonical 0xFFFF89DF00000000" 
    by (simp add: canonical_def)
  with recompose_extract_indices [OF this] show ?thesis by simp
qed

lemma extract_recompose:
  assumes "parts_in_range p"
  shows "extract_indices_raw (recompose p) = p"
proof -
  note low = recompose_fields [OF assms] and range = in_range_bits [OF assms]
  have "pml4_idx (extract_indices_raw (recompose p)) = pml4_idx p"
    by (rule bit_word_eqI, case_tac "n < 9")
      (simp_all add: extract_indices_parts bit_va_index low range)
  moreover have "pdpt_idx (extract_indices_raw (recompose p)) = pdpt_idx p"
    by (rule bit_word_eqI, case_tac "n < 9")
      (simp_all add: extract_indices_parts bit_va_index low range)
  moreover have "pd_idx (extract_indices_raw (recompose p)) = pd_idx p"
    by (rule bit_word_eqI, case_tac "n < 9")
      (simp_all add: extract_indices_parts bit_va_index low range)
  moreover have "pt_idx (extract_indices_raw (recompose p)) = pt_idx p"
    by (rule bit_word_eqI, case_tac "n < 9")
      (simp_all add: extract_indices_parts bit_va_index low range)
  moreover have "offset (extract_indices_raw (recompose p)) = offset p"
    by (rule bit_word_eqI, case_tac "n < 12")
      (simp_all add: extract_indices_parts bit_take_bit_iff low range)
  ultimately show ?thesis by (cases p) (cases "extract_indices_raw (recompose p)", simp)
qed

text \<open>
  Conversely every choice of four indices below 512 and an offset below 4096 is what
  \<open>extract_indices_raw\<close> returns for some address, namely the one they compose: no two fields of
  the extraction overlap.
\<close>
theorem extract_recompose_indices:
  assumes "parts_in_range p"
  shows "extract_indices_raw (recompose p) = p"
  by (rule extract_recompose [OF assms])

theorem extract_recompose_indices_witness:
  "parts_in_range \<lparr>pml4_idx = 511, pdpt_idx = 510, pd_idx = 8, pt_idx = 0, offset = 5\<rparr> \<and>
   extract_indices_raw
     (recompose \<lparr>pml4_idx = 511, pdpt_idx = 510, pd_idx = 8, pt_idx = 0, offset = 5\<rparr>)
   = \<lparr>pml4_idx = 511, pdpt_idx = 510, pd_idx = 8, pt_idx = 0, offset = 5\<rparr>"
proof -
  let ?p = "\<lparr>pml4_idx = 511, pdpt_idx = 510, pd_idx = 8, pt_idx = 0, offset = 5\<rparr>"
  have "parts_in_range ?p" by (simp add: parts_in_range_def)
  with extract_recompose_indices [OF this] show ?thesis by simp
qed

section \<open>What the specification promises\<close>

lemma same_page_index: "same_page l va vb \<Longrightarrow> l \<le> j \<Longrightarrow> j \<le> 4 \<Longrightarrow> va_index j va = va_index j vb"
proof -
  assume page: "same_page l va vb" and j: "l \<le> j" "j \<le> 4"
  have "drop_bit (level_shift j) (take_bit 48 va) = drop_bit (level_shift j) (take_bit 48 vb)"
    using page level_shift_mono [OF j(1)] drop_bit_mono_cong by (simp add: same_page_def) blast
  then have "bit va (level_shift j + n) = bit vb (level_shift j + n)" if "n < 9" for n
    using that level_shift_le [OF j(2)]
    by (auto simp: bit_eq_iff bit_drop_bit_eq bit_take_bit_iff dest!: spec [of _ n]
        dest: bit_u64_bound)
  then show ?thesis by (auto simp: bit_eq_iff bit_va_index)
qed

lemma xlate_level: "xlate rd k t va = Leaf l pa \<Longrightarrow> 1 \<le> l \<and> l \<le> k \<and> (k \<le> 4 \<longrightarrow> l \<le> 3 \<or> l = k)"
  by (induction k arbitrary: t) (fastforce simp: Let_def split: if_splits)+

lemma xlate_step:
  assumes "0 < k"
  shows "xlate rd k t va = (let e = rd t (va_index k va) in
     if \<not> bit e 0 then Absent k
     else if k = 1 \<or> k \<le> 3 \<and> bit e 7
     then Leaf k (leaf_frame k e OR take_bit (level_shift k) va)
     else xlate rd (k - 1) (leaf_frame 1 e) va)"
  using assms by (cases k) (auto simp: Let_def)

lemma xlate_unfold:
  "xlate rd 4 t va = (let e = rd t (va_index 4 va) in
     if \<not> bit e 0 then Absent 4 else xlate rd 3 (leaf_frame 1 e) va)"
  "xlate rd 3 t va = (let e = rd t (va_index 3 va) in
     if \<not> bit e 0 then Absent 3
     else if bit e 7 then Leaf 3 (leaf_frame 3 e OR take_bit 30 va)
     else xlate rd 2 (leaf_frame 1 e) va)"
  "xlate rd 2 t va = (let e = rd t (va_index 2 va) in
     if \<not> bit e 0 then Absent 2
     else if bit e 7 then Leaf 2 (leaf_frame 2 e OR take_bit 21 va)
     else xlate rd 1 (leaf_frame 1 e) va)"
  "xlate rd 1 t va = (let e = rd t (va_index 1 va) in
     if \<not> bit e 0 then Absent 1 else Leaf 1 (leaf_frame 1 e OR take_bit 12 va))"
  by (simp_all add: xlate_step [of 4] xlate_step [of 3] xlate_step [of 2] xlate_step [of 1] Let_def)

lemma xlate_leaf_level: "xlate rd 4 t va = Leaf l pa \<Longrightarrow> 1 \<le> l \<and> l \<le> 3"
  by (auto simp: xlate_unfold Let_def split: if_splits)

lemma xlate_absent_level: "xlate rd k t va = Absent l \<Longrightarrow> l \<le> k"
  by (induction k arbitrary: t) (auto simp: Let_def le_SucI split: if_splits)

lemma xlate_leaf_shape:
  "xlate rd k t va = Leaf l pa \<Longrightarrow>
     \<exists>e. pa = leaf_frame l e OR take_bit (level_shift l) va"
  by (induction k arbitrary: t) (auto simp: Let_def split: if_splits)

lemma xlate_leaf_page:
  "xlate rd k t va = Leaf l pa \<Longrightarrow> k \<le> 4 \<Longrightarrow> same_page l va vb \<Longrightarrow>
     \<exists>e. pa = leaf_frame l e OR take_bit (level_shift l) va \<and>
         xlate rd k t vb = Leaf l (leaf_frame l e OR take_bit (level_shift l) vb)"
proof (induction k arbitrary: t)
  case 0
  then show ?case by simp
next
  case (Suc k)
  from xlate_level [OF Suc.prems(1)] have "l \<le> Suc k" by simp
  then have "va_index (Suc k) va = va_index (Suc k) vb"
    using Suc.prems by (intro same_page_index) simp_all
  then show ?case using Suc by (auto simp: Let_def split: if_splits)
qed

lemma xlate_absent_page:
  "xlate rd k t va = Absent l \<Longrightarrow> k \<le> 4 \<Longrightarrow> same_page l va vb \<Longrightarrow> xlate rd k t vb = Absent l"
proof (induction k arbitrary: t)
  case 0
  then show ?case by simp
next
  case (Suc k)
  from xlate_absent_level [OF Suc.prems(1)] have "l \<le> Suc k" .
  then have "va_index (Suc k) va = va_index (Suc k) vb"
    using Suc.prems by (intro same_page_index) simp_all
  then show ?case using Suc by (auto simp: Let_def split: if_splits)
qed

lemma take_bit_leaf: "take_bit (level_shift l) (leaf_frame l e OR take_bit (level_shift l) va)
    = take_bit (level_shift l) va"
  by (auto simp: bit_eq_iff bit_or_iff bit_take_bit_iff bit_leaf_frame)

lemma drop_bit_leaf: "drop_bit (level_shift l) (leaf_frame l e OR take_bit (level_shift l) va)
    = drop_bit (level_shift l) (leaf_frame l e)"
  by (auto simp: bit_eq_iff bit_or_iff bit_take_bit_iff bit_drop_bit_eq)

lemma leaf_below_52:
  "l \<le> 4 \<Longrightarrow> take_bit 52 (leaf_frame l e OR take_bit (level_shift l) va)
     = leaf_frame l e OR take_bit (level_shift l) va"
  using level_shift_le [of l]
  by (auto simp: bit_eq_iff bit_or_iff bit_take_bit_iff bit_leaf_frame)

section \<open>The interface of a translator\<close>

text \<open>
  What the rest of the development needs from a walker: a mapped address keeps its offset, the
  physical address fits in 52 bits, and the answer is the same for the whole page (so one walk
  speaks for all of it).
\<close>

locale translator =
  fixes tr :: "u64 \<Rightarrow> xres"
  assumes leaf_level: "tr va = Leaf l pa \<Longrightarrow> 1 \<le> l \<and> l \<le> 3"
    and leaf_offset: "tr va = Leaf l pa \<Longrightarrow>
      take_bit (level_shift l) pa = take_bit (level_shift l) va"
    and leaf_bound: "tr va = Leaf l pa \<Longrightarrow> take_bit 52 pa = pa"
    and leaf_page: "tr va = Leaf l pa \<Longrightarrow> same_page l va vb \<Longrightarrow>
      \<exists>pb. tr vb = Leaf l pb \<and> drop_bit (level_shift l) pb = drop_bit (level_shift l) pa"
    and absent_page: "tr va = Absent l \<Longrightarrow> same_page l va vb \<Longrightarrow> tr vb = Absent l"
begin

lemma leaf_unat_bound: "tr va = Leaf l pa \<Longrightarrow> unat pa < 2 ^ 52"
  using leaf_bound unat_less_exp_iff by blast

lemma leaf_in_page:
  assumes "tr va = Leaf l pa" and "same_page l va vb"
  shows "tr vb = Leaf l (push_bit (level_shift l) (drop_bit (level_shift l) pa)
                           OR take_bit (level_shift l) vb)"
proof -
  obtain pb where pb: "tr vb = Leaf l pb"
    and high: "drop_bit (level_shift l) pb = drop_bit (level_shift l) pa"
    using leaf_page [OF assms] by blast
  have low: "take_bit (level_shift l) pb = take_bit (level_shift l) vb"
    by (rule leaf_offset [OF pb])
  have "pb = push_bit (level_shift l) (drop_bit (level_shift l) pa) OR take_bit (level_shift l) vb"
    unfolding high [symmetric] low [symmetric]
    by (auto simp: bit_eq_iff bit_or_iff bit_push_bit_iff bit_drop_bit_eq bit_take_bit_iff)
  with pb show ?thesis by simp
qed

lemma leaf_injective:
  assumes "tr va = Leaf l pa" and "tr vb = Leaf l pa" and "same_page l va vb"
  shows "take_bit 48 va = take_bit 48 vb"
proof (rule word_eq_split [of "level_shift l"])
  show "drop_bit (level_shift l) (take_bit 48 va) = drop_bit (level_shift l) (take_bit 48 vb)"
    using assms(3) by (simp add: same_page_def)
  have "take_bit (level_shift l) va = take_bit (level_shift l) vb"
    using leaf_offset [OF assms(1)] leaf_offset [OF assms(2)] by simp
  moreover have "min 48 (level_shift l) = level_shift l"
    using level_shift_le [of l] leaf_level [OF assms(1)] by simp
  ultimately show "take_bit (level_shift l) (take_bit 48 va)
      = take_bit (level_shift l) (take_bit 48 vb)"
    by (simp add: ac_simps)
qed

end

interpretation tr4: translator "translate m" for m
proof unfold_locales
  fix va vb l pa
  assume leaf: "translate m va = Leaf l pa"
  then obtain e where pa: "pa = leaf_frame l e OR take_bit (level_shift l) va"
    by (auto simp: translate_def dest: xlate_leaf_shape)
  show level: "1 \<le> l \<and> l \<le> 3"
    using leaf by (auto simp: translate_def dest: xlate_leaf_level)
  show "take_bit (level_shift l) pa = take_bit (level_shift l) va"
    unfolding pa by (rule take_bit_leaf)
  show "take_bit 52 pa = pa"
    unfolding pa using level by (intro leaf_below_52) simp
  assume "same_page l va vb"
  with leaf obtain f where f: "pa = leaf_frame l f OR take_bit (level_shift l) va"
    and vb: "translate m vb = Leaf l (leaf_frame l f OR take_bit (level_shift l) vb)"
    unfolding translate_def using xlate_leaf_page by blast
  show "\<exists>pb. translate m vb = Leaf l pb
      \<and> drop_bit (level_shift l) pb = drop_bit (level_shift l) pa"
    unfolding vb f drop_bit_leaf by (intro exI conjI) (rule refl, rule drop_bit_leaf)
next
  fix va vb l
  assume "translate m va = Absent l" and "same_page l va vb"
  then show "translate m vb = Absent l"
    unfolding translate_def by (rule xlate_absent_page [OF _ order_refl])
qed

section \<open>The raw walker computes the specification\<close>

text \<open>The \<open>unsigned long\<close> that \<open>walk_raw\<close> returns for each outcome of the translation.\<close>

fun raw_code :: "xres \<Rightarrow> u64" where
  "raw_code (Absent l) = 0xDEAD0000 + of_nat (5 - l)"
| "raw_code (Leaf l pa) = (if l = 3 then 0xDEAD1001 else pa)"

definition raw_errors :: "u64 set" where
  "raw_errors = {0xDEAD0001, 0xDEAD0002, 0xDEAD0003, 0xDEAD0004, 0xDEAD1001}"

lemma walk_raw_xlate: "walk_raw m cr3 va = raw_code (xlate (read_entry_raw m) 4 (leaf_frame 1 cr3) va)"
  by (simp add: walk_raw_def extract_indices_parts extract_next_table_phys_def word_masks
      Let_def xlate_unfold)

lemma walk_raw_code: "walk_raw m (cr3_reg m) va = raw_code (translate m va)"
  by (simp add: walk_raw_xlate translate_def)

lemma read_entry_raw_cr3 [simp]: "read_entry_raw (m\<lparr>cr3_reg := c\<rparr>) = read_entry_raw m"
  by (simp add: fun_eq_iff read_entry_raw_def kva_def)

text \<open>
  A machine for the witnesses: page tables at 0x1000, 0x2000, 0x3000 and 0x4000, whose first
  entries lead to the given page-table entry; every other word is 0.
\<close>

definition tiny_machine :: "u64 \<Rightarrow> machine" where
  "tiny_machine pte = \<lparr>cr3_reg = 0x1000, page_offset_base = 0,
     kload = (\<lambda>a. if a = 0x1000 then 0x2003 else if a = 0x2000 then 0x3003
                  else if a = 0x3000 then 0x4003 else if a = 0x4000 then pte else 0)\<rparr>"

lemma translate_walk:
  "translate m va =
    (let e4 = read_entry_raw m (cr3_reg m AND PTE_ADDR_MASK) (drop_bit 39 va AND 0x1ff) in
     if \<not> bit e4 0 then Absent 4 else
     let e3 = read_entry_raw m (e4 AND PTE_ADDR_MASK) (drop_bit 30 va AND 0x1ff) in
     if \<not> bit e3 0 then Absent 3 else
     if bit e3 7 then Leaf 3 ((e3 AND HUGE_1GB_MASK) OR (va AND 0x3FFFFFFF)) else
     let e2 = read_entry_raw m (e3 AND PTE_ADDR_MASK) (drop_bit 21 va AND 0x1ff) in
     if \<not> bit e2 0 then Absent 2 else
     if bit e2 7 then Leaf 2 ((e2 AND HUGE_2MB_MASK) OR (va AND 0x1FFFFF)) else
     let e1 = read_entry_raw m (e2 AND PTE_ADDR_MASK) (drop_bit 12 va AND 0x1ff) in
     if \<not> bit e1 0 then Absent 1 else Leaf 1 ((e1 AND PTE_ADDR_MASK) OR (va AND 0xFFF)))"
  by (simp add: translate_def xlate_unfold word_masks Let_def)

lemma translate_tiny:
  "translate (tiny_machine 0xDEAD0003) 1 = Leaf 1 0xDEAD0001"
  "translate (tiny_machine 0x5003) 1 = Leaf 1 0x5001"
  "translate (tiny_machine 0) 1 = Absent 1"
  "translate (tiny_machine 0) 0x8000000000 = Absent 4"
  by (simp_all add: translate_walk read_entry_raw_def kva_def tiny_machine_def)

text \<open>
  C6. \<open>walk_raw\<close> computes the specification: what it returns for a CR3 value is the code of the
  translation of the address on the machine with that CR3 loaded, level by level, 2 MB pages
  included; a 1 GB page is reported as the error 0xDEAD1001 although the specification
  translates it.
\<close>
theorem walk_raw_refines: "walk_raw m cr3 va = raw_code (translate (m\<lparr>cr3_reg := cr3\<rparr>) va)"
  by (simp add: walk_raw_xlate translate_def)

text \<open>
  Whatever the tables hold, \<open>walk_raw\<close> returns one of its five error codes or the physical
  address that a 4 KB or 2 MB page maps the address to.
\<close>
theorem walk_raw_sound:
  "walk_raw m (cr3_reg m) va \<in> raw_errors \<or>
   translate m va = Leaf 1 (walk_raw m (cr3_reg m) va) \<or>
   translate m va = Leaf 2 (walk_raw m (cr3_reg m) va)"
proof (cases "translate m va")
  case (Absent l)
  then have "l = 1 \<or> l = 2 \<or> l = 3 \<or> l = 4"
    by (auto simp: translate_def xlate_unfold Let_def split: if_splits)
  with Absent show ?thesis by (auto simp: walk_raw_code raw_errors_def)
next
  case (Leaf l pa)
  then have "l = 1 \<or> l = 2 \<or> l = 3"
    using tr4.leaf_level by fastforce
  with Leaf show ?thesis by (auto simp: walk_raw_code raw_errors_def)
qed

text \<open>
  The error codes are themselves physical addresses: an unmapped address and an address
  mapped to physical 0xDEAD0001 give the same result, so a caller cannot tell them apart.
\<close>
theorem walk_raw_ambiguous:
  "\<exists>m va m' va'. translate m va = Absent 4 \<and> translate m' va' = Leaf 1 0xDEAD0001 \<and>
     walk_raw m (cr3_reg m) va = walk_raw m' (cr3_reg m') va'"
proof -
  let ?m = "tiny_machine 0" and ?m' = "tiny_machine 0xDEAD0003"
  have "walk_raw ?m (cr3_reg ?m) 0x8000000000 = walk_raw ?m' (cr3_reg ?m') 1"
    by (simp add: walk_raw_code translate_tiny)
  with translate_tiny show ?thesis by blast
qed

text \<open>
  One walk speaks for the whole page: when \<open>walk_raw\<close> translates an address through a 4 KB
  or 2 MB page, every address of that page translates to the same frame with its own offset.
\<close>
theorem walk_raw_page:
  assumes "translate m va = Leaf l pa" and "l \<le> 2" and "same_page l va vb"
  shows "walk_raw m (cr3_reg m) vb =
    push_bit (level_shift l) (drop_bit (level_shift l) pa) OR take_bit (level_shift l) vb"
  using tr4.leaf_in_page [OF assms(1,3)] assms(2)
  by (simp add: walk_raw_code)

theorem walk_raw_page_witness:
  "translate (tiny_machine 0x5003) 1 = Leaf 1 0x5001 \<and> same_page 1 1 0xFFF \<and>
   walk_raw (tiny_machine 0x5003) (cr3_reg (tiny_machine 0x5003)) 0xFFF = 0x5FFF"
proof -
  have page: "same_page 1 1 0xFFF" by (simp add: same_page_def)
  show ?thesis
    using walk_raw_page [OF translate_tiny(2) _ page] page by (simp add: translate_tiny)
qed

end
