(* ===== verification/Walk_Demos.thy ===== *)
theory Walk_Demos
  imports Paging
begin

text \<open>
  The proc files of \<open>paging_demos/demo_01\<close> to \<open>demo_09\<close> that read CR3, split addresses, read and
  decode entries, walk the tables and look for huge pages. A \<open>_show\<close> function is modelled as the
  list of lines it prints: one constructor for each format that carries data, in the order of the
  \<open>seq_printf\<close> calls; banners and fixed explanatory text are left out.
\<close>

unbundle bit_operations_syntax

section \<open>Demo 01: reading CR3\<close>

text \<open>\<open>fls64\<close> of \<open>bitops.h\<close>: the 1-based position of the highest set bit, 0 for the word 0.\<close>

fun fls_upto :: "nat \<Rightarrow> u64 \<Rightarrow> nat" where
  "fls_upto 0 x = 0"
| "fls_upto (Suc n) x = (if bit x n then Suc n else fls_upto n x)"

definition fls64 :: "u64 \<Rightarrow> nat" where
  "fls64 x = fls_upto 64 x"

datatype cr3_line =
    Raw_cr3 u64
  | Pml4_base u64
  | Pcid_flags u64
  | Max_phys_bit nat
  | Low_bits_zero bool
  | Derived_from u64 u64
  | Pml4_virt u64
  | Pml4_first u64 u64

definition read_cr3_value :: "machine \<Rightarrow> u64" where
  "read_cr3_value m = cr3_reg m"

definition demo_cr3_show :: "machine \<Rightarrow> cr3_line list" where
  "demo_cr3_show m =
    (let cr3_raw = read_cr3_value m;
         cr3_addr = cr3_raw AND PTE_ADDR_MASK;
         cr3_pcid = cr3_raw AND 0xFFF;
         bits_used = fls64 cr3_addr;
         pml4_virt = kva m cr3_addr in
     [Raw_cr3 cr3_raw, Pml4_base cr3_addr, Pcid_flags cr3_pcid, Max_phys_bit bits_used,
      Low_bits_zero (cr3_addr AND 0xFFF = 0), Derived_from (page_offset_base m) cr3_addr,
      Pml4_virt pml4_virt, Pml4_first pml4_virt (kload m pml4_virt)])"

section \<open>Demo 02: extracting indices\<close>

datatype index_line =
    Va_line u64
  | Level_line nat u64 u64 u64
  | Offset_line u64 u64

definition show_extraction :: "u64 \<Rightarrow> index_line list" where
  "show_extraction va =
    (let pml4_shifted = drop_bit 39 va; pml4 = pml4_shifted AND 0x1FF;
         pdpt_shifted = drop_bit 30 va; pdpt = pdpt_shifted AND 0x1FF;
         pd_shifted = drop_bit 21 va; pd = pd_shifted AND 0x1FF;
         pt_shifted = drop_bit 12 va; pt = pt_shifted AND 0x1FF;
         off = va AND 0xFFF in
     [Va_line va, Level_line 4 va pml4_shifted pml4, Level_line 3 va pdpt_shifted pdpt,
      Level_line 2 va pd_shifted pd, Level_line 1 va pt_shifted pt, Offset_line va off])"

definition test_vaddrs :: "u64 list" where
  "test_vaddrs = [0x7FFE5E4ED123, 0xFFFF89DF00000000, 0x0000000000001000, 0xFFFFFFFFFFFFFFFF]"

definition indices_show :: "index_line list" where
  "indices_show = concat (map show_extraction test_vaddrs)"

section \<open>Demo 03: reading entries\<close>

datatype entry_line =
    Entry_cr3 u64
  | Entry_pml4_phys u64
  | Entry_page_offset u64
  | Entry_pml4_virt u64
  | Entry_at int u64 u64 u64 u64
  | Entry_next u64
  | Entry_absent

definition entry_lines :: "machine \<Rightarrow> u64 \<Rightarrow> u64 \<Rightarrow> int \<Rightarrow> entry_line list" where
  "entry_lines m pml4_phys pml4_virt idx =
    (let off = word_of_int (idx * 8);
         entry_addr_phys = pml4_phys + off;
         entry_addr_virt = pml4_virt + off;
         entry = kload m entry_addr_virt in
     Entry_at idx off entry_addr_phys entry_addr_virt entry #
     (if entry AND 1 \<noteq> 0 then [Entry_next (entry AND PTE_ADDR_MASK)] else [Entry_absent]))"

definition demo_entry_show :: "machine \<Rightarrow> entry_line list" where
  "demo_entry_show m =
    (let cr3 = cr3_reg m;
         pml4_phys = cr3 AND PTE_ADDR_MASK;
         pml4_virt = kva m pml4_phys in
     [Entry_cr3 cr3, Entry_pml4_phys pml4_phys, Entry_page_offset (page_offset_base m),
      Entry_pml4_virt pml4_virt]
     @ concat (map (entry_lines m pml4_phys pml4_virt) [0, 255, 256, 511]))"

section \<open>Demo 04: decoding flags\<close>

datatype decode_line =
    Dec_entry u64
  | Dec_flags u64
  | Dec_never_mapped
  | Dec_swap u64 u64
  | Dec_rw u64 bool
  | Dec_us u64 bool
  | Dec_accessed u64 bool
  | Dec_dirty u64 bool
  | Dec_ps u64 bool
  | Dec_nx u64 bool
  | Dec_phys u64

definition decode_entry :: "u64 \<Rightarrow> decode_line list" where
  "decode_entry entry =
    (let flags = entry AND 0xFFF; phys = entry AND PTE_ADDR_MASK in
     [Dec_entry entry, Dec_flags flags] @
     (if entry AND 1 = 0 then
        (if entry = 0 then [Dec_never_mapped]
         else [Dec_swap (drop_bit 1 entry AND 0x1F) (drop_bit 6 entry)])
      else
        [Dec_rw (drop_bit 1 entry AND 1) (entry AND 2 \<noteq> 0),
         Dec_us (drop_bit 2 entry AND 1) (entry AND 4 \<noteq> 0),
         Dec_accessed (drop_bit 5 entry AND 1) (entry AND 0x20 \<noteq> 0),
         Dec_dirty (drop_bit 6 entry AND 1) (entry AND 0x40 \<noteq> 0),
         Dec_ps (drop_bit 7 entry AND 1) (entry AND 0x80 \<noteq> 0),
         Dec_nx (drop_bit 63 entry AND 1) (drop_bit 63 entry \<noteq> 0),
         Dec_phys phys]))"

definition demo_present_show :: "machine \<Rightarrow> (u64 \<times> decode_line list) list" where
  "demo_present_show m =
    (let pml4_phys = cr3_reg m AND PTE_ADDR_MASK in
     map (\<lambda>i. (i, decode_entry (read_entry_raw m pml4_phys i))) [0, 255, 256, 511])"

section \<open>Demo 05: looking for huge pages\<close>

datatype huge_line =
    Huge_base u64
  | Huge_1gb nat nat u64 u64 u64
  | Huge_2mb nat nat nat u64 u64 u64
  | Huge_total nat

text \<open>
  The three nested loops, each over the list of the indices it still has to visit. The state is
  \<open>huge_count\<close> and the lines printed; every loop tests \<open>huge_count < 10\<close> before an iteration.
\<close>

fun scan_pd :: "machine \<Rightarrow> u64 \<Rightarrow> nat \<Rightarrow> nat \<Rightarrow> nat list \<Rightarrow> nat \<times> huge_line list \<Rightarrow> nat \<times> huge_line list"
where
  "scan_pd m pd i j [] s = s"
| "scan_pd m pd i j (k # ks) (huge_count, out) =
    (if \<not> huge_count < 10 then (huge_count, out) else
     let entry = read_entry_raw m pd (of_nat k) in
     if entry AND 1 = 0 then scan_pd m pd i j ks (huge_count, out)
     else if drop_bit 7 entry AND 1 \<noteq> 0 then
       (let huge_count = huge_count + 1;
            out = out @ [Huge_2mb i j k entry (entry AND 0xFF) (entry AND HUGE_2MB_MASK)] in
        if 10 \<le> huge_count then (huge_count, out) else scan_pd m pd i j ks (huge_count, out))
     else scan_pd m pd i j ks (huge_count, out))"

fun scan_pdpt :: "machine \<Rightarrow> u64 \<Rightarrow> nat \<Rightarrow> nat list \<Rightarrow> nat \<times> huge_line list \<Rightarrow> nat \<times> huge_line list"
where
  "scan_pdpt m pdpt i [] s = s"
| "scan_pdpt m pdpt i (j # js) (huge_count, out) =
    (if \<not> huge_count < 10 then (huge_count, out) else
     let entry = read_entry_raw m pdpt (of_nat j) in
     if entry AND 1 = 0 then scan_pdpt m pdpt i js (huge_count, out)
     else if drop_bit 7 entry AND 1 \<noteq> 0 then
       scan_pdpt m pdpt i js (huge_count + 1,
         out @ [Huge_1gb i j entry (entry AND 0xFF) (entry AND HUGE_1GB_MASK)])
     else scan_pdpt m pdpt i js
       (scan_pd m (entry AND PTE_ADDR_MASK) i j [0..<512] (huge_count, out)))"

fun scan_pml4 :: "machine \<Rightarrow> u64 \<Rightarrow> nat list \<Rightarrow> nat \<times> huge_line list \<Rightarrow> nat \<times> huge_line list" where
  "scan_pml4 m pml4 [] s = s"
| "scan_pml4 m pml4 (i # is) (huge_count, out) =
    (if \<not> huge_count < 10 then (huge_count, out) else
     let entry = read_entry_raw m pml4 (of_nat i) in
     if entry AND 1 = 0 then scan_pml4 m pml4 is (huge_count, out)
     else scan_pml4 m pml4 is
       (scan_pdpt m (entry AND PTE_ADDR_MASK) i [0..<512] (huge_count, out)))"

definition demo_huge_show :: "machine \<Rightarrow> huge_line list" where
  "demo_huge_show m =
    (let pml4_phys = cr3_reg m AND PTE_ADDR_MASK;
         (huge_count, out) = scan_pml4 m pml4_phys [256..<512] (0, [Huge_base (page_offset_base m)]) in
     out @ [Huge_total huge_count])"

section \<open>Demo 06: extracting the address of an entry\<close>

datatype addr_line = Addr_entry u64 | Addr_case u64 u64 u64

definition demo_addr_show :: "addr_line list" where
  "demo_addr_show =
    (let test_entry = 0x80000002FAE001A1;
         addr_4kb = test_entry AND PTE_ADDR_MASK;
         addr_2mb = test_entry AND HUGE_2MB_MASK;
         addr_1gb = test_entry AND HUGE_1GB_MASK in
     [Addr_entry test_entry, Addr_case test_entry PTE_ADDR_MASK addr_4kb,
      Addr_case test_entry HUGE_2MB_MASK addr_2mb, Addr_case test_entry HUGE_1GB_MASK addr_1gb])"

section \<open>Demo 07: the full walk, line by line\<close>

datatype walk_line =
    Walk_va u64
  | Walk_indices u64 u64 u64 u64 u64
  | Walk_entry nat u64 u64 u64
  | Walk_not_present
  | Walk_next u64
  | Walk_huge nat u64
  | Walk_page u64
  | Walk_final u64 u64 u64

definition walk_va :: "machine \<Rightarrow> u64 \<Rightarrow> walk_line list" where
  "walk_va m va =
    (let table_phys = cr3_reg m AND PTE_ADDR_MASK;
         pml4_i = drop_bit 39 va AND 0x1FF; pdpt_i = drop_bit 30 va AND 0x1FF;
         pd_i = drop_bit 21 va AND 0x1FF; pt_i = drop_bit 12 va AND 0x1FF;
         off = va AND 0xFFF;
         entry = read_entry_raw m table_phys pml4_i;
         out = [Walk_va va, Walk_indices pml4_i pdpt_i pd_i pt_i off,
                Walk_entry 4 pml4_i table_phys entry] in
     if entry AND 1 = 0 then out @ [Walk_not_present] else
     let table_phys = entry AND PTE_ADDR_MASK;
         out = out @ [Walk_next table_phys];
         entry = read_entry_raw m table_phys pdpt_i;
         out = out @ [Walk_entry 3 pdpt_i table_phys entry] in
     if entry AND 1 = 0 then out @ [Walk_not_present] else
     if drop_bit 7 entry AND 1 \<noteq> 0
     then out @ [Walk_huge 3 ((entry AND 0x000FFFFFC0000000) OR (va AND 0x3FFFFFFF))] else
     let table_phys = entry AND PTE_ADDR_MASK;
         out = out @ [Walk_next table_phys];
         entry = read_entry_raw m table_phys pd_i;
         out = out @ [Walk_entry 2 pd_i table_phys entry] in
     if entry AND 1 = 0 then out @ [Walk_not_present] else
     if drop_bit 7 entry AND 1 \<noteq> 0
     then out @ [Walk_huge 2 ((entry AND 0x000FFFFFFFE00000) OR (va AND 0x1FFFFF))] else
     let table_phys = entry AND PTE_ADDR_MASK;
         out = out @ [Walk_next table_phys];
         entry = read_entry_raw m table_phys pt_i;
         out = out @ [Walk_entry 1 pt_i table_phys entry] in
     if entry AND 1 = 0 then out @ [Walk_not_present] else
     let page_phys = entry AND PTE_ADDR_MASK; final_phys = page_phys OR off in
     out @ [Walk_page page_phys, Walk_final page_phys off final_phys])"

text \<open>\<open>demo_walk4kb_show\<close> walks the kernel text and the address \<open>seq\<close> of its own \<open>seq_file\<close>.\<close>

definition demo_walk4kb_show :: "machine \<Rightarrow> u64 \<Rightarrow> walk_line list" where
  "demo_walk4kb_show m seq = concat (map (walk_va m) [0xFFFFFFFF81000000, seq])"

section \<open>Demos 08 and 09: one 2 MB page and all 1 GB pages\<close>

datatype walk2_line =
    W2_va u64
  | W2_indices u64 u64 u64
  | W2_entry nat u64 u64
  | W2_not_present
  | W2_table u64
  | W2_1gb
  | W2_ps u64 u64
  | W2_page_base u64
  | W2_offset u64
  | W2_final u64 u64 u64
  | W2_not_huge

definition demo_walk2mb_show :: "machine \<Rightarrow> walk2_line list" where
  "demo_walk2mb_show m =
    (let va = page_offset_base m;
         table_phys = cr3_reg m AND PTE_ADDR_MASK;
         pml4_i = drop_bit 39 va AND 0x1FF; pdpt_i = drop_bit 30 va AND 0x1FF;
         pd_i = drop_bit 21 va AND 0x1FF;
         entry = read_entry_raw m table_phys pml4_i;
         out = [W2_va va, W2_indices pml4_i pdpt_i pd_i, W2_entry 4 pml4_i entry] in
     if entry AND 1 = 0 then out @ [W2_not_present] else
     let table_phys = entry AND PTE_ADDR_MASK;
         entry = read_entry_raw m table_phys pdpt_i;
         out = out @ [W2_table table_phys, W2_entry 3 pdpt_i entry] in
     if entry AND 1 = 0 then out @ [W2_not_present] else
     if drop_bit 7 entry AND 1 \<noteq> 0 then out @ [W2_1gb] else
     let table_phys = entry AND PTE_ADDR_MASK;
         entry = read_entry_raw m table_phys pd_i;
         out = out @ [W2_table table_phys, W2_entry 2 pd_i entry] in
     if entry AND 1 = 0 then out @ [W2_not_present] else
     let ps_bit = drop_bit 7 entry AND 1;
         out = out @ [W2_ps entry ps_bit] in
     if ps_bit \<noteq> 0 then
       (let page_base = entry AND HUGE_2MB_MASK; offset_21 = va AND 0x1FFFFF;
            final_phys = page_base OR offset_21 in
        out @ [W2_page_base page_base, W2_offset offset_21, W2_final page_base offset_21 final_phys])
     else out @ [W2_not_huge])"

datatype gb_line = Gb_found nat nat u64 u64 | Gb_none | Gb_total nat

definition gb_entry_step ::
  "machine \<Rightarrow> u64 \<Rightarrow> nat \<Rightarrow> nat \<Rightarrow> nat \<times> gb_line list \<Rightarrow> nat \<times> gb_line list" where
  "gb_entry_step m pdpt_phys i j = (\<lambda>(found, out).
    let entry = read_entry_raw m pdpt_phys (of_nat j) in
    if entry AND 1 = 0 then (found, out)
    else if drop_bit 7 entry AND 1 \<noteq> 0
    then (found + 1, out @ [Gb_found i j entry (entry AND HUGE_1GB_MASK)])
    else (found, out))"

definition gb_table_step ::
  "machine \<Rightarrow> u64 \<Rightarrow> nat \<Rightarrow> nat \<times> gb_line list \<Rightarrow> nat \<times> gb_line list" where
  "gb_table_step m pml4_phys i s =
    (let entry = read_entry_raw m pml4_phys (of_nat i) in
     if entry AND 1 = 0 then s
     else fold (gb_entry_step m (entry AND PTE_ADDR_MASK) i) [0..<512] s)"

definition demo_walk1gb_show :: "machine \<Rightarrow> gb_line list" where
  "demo_walk1gb_show m =
    (let (found, out) = fold (gb_table_step m (cr3_reg m AND PTE_ADDR_MASK)) [256..<512] (0, []) in
     if found = 0 then out @ [Gb_none] else out @ [Gb_total found])"

section \<open>CR3 and the entries of one table\<close>

lemma fls_upto_bounds:
  "fls_upto n x \<le> n" "0 < fls_upto n x \<Longrightarrow> bit x (fls_upto n x - 1)"
  "k < n \<Longrightarrow> bit x k \<Longrightarrow> k < fls_upto n x"
  by (induction n) (auto split: if_splits simp: less_Suc_eq)

lemma fls64_leaf_frame: "fls64 (leaf_frame 1 x) \<in> {0} \<union> {13..52}"
proof (cases "fls64 (leaf_frame 1 x) = 0")
  case False
  then have "bit (leaf_frame 1 x) (fls64 (leaf_frame 1 x) - 1)"
    using fls_upto_bounds(2) by (simp add: fls64_def)
  then show ?thesis by (auto simp: bit_leaf_frame)
qed simp

lemma fls64_zero: "fls64 x = 0 \<longleftrightarrow> x = 0"
proof
  assume "fls64 x = 0"
  then have "\<not> bit x k" if "k < 64" for k
    using fls_upto_bounds(3) [OF that, of x] by (auto simp: fls64_def)
  then show "x = 0" by (auto simp: bit_eq_iff dest: bit_u64_bound)
next
  have "fls_upto n (0 :: u64) = 0" for n by (induction n) simp_all
  then show "x = 0 \<Longrightarrow> fls64 x = 0" by (simp add: fls64_def)
qed

lemma fls64_unat: "unat x < 2 ^ n \<longleftrightarrow> fls64 x \<le> n"
proof
  assume small: "unat x < 2 ^ n"
  show "fls64 x \<le> n"
  proof (cases "fls64 x = 0")
    case False
    then have "bit x (fls64 x - 1)" using fls_upto_bounds(2) by (simp add: fls64_def)
    then have "fls64 x - 1 < n" using unat_less_exp_bits [OF small] by simp
    then show ?thesis by simp
  qed simp
next
  assume le: "fls64 x \<le> n"
  have "bit x k \<Longrightarrow> k < n" for k
    using fls_upto_bounds(3) [of k 64 x] bit_u64_bound [of x k] le by (auto simp: fls64_def)
  then have "take_bit n x = x" by (auto simp: bit_eq_iff bit_take_bit_iff)
  then show "unat x < 2 ^ n" by (simp add: unat_less_exp_iff)
qed

text \<open>
  What the CR3 file prints as the highest set bit is the width of the page-table base: it is the
  least number of bits that hold the base, and it is 0 or lies between 13 and 52 (never the 12
  that the printed range starts with), because the low 12 bits are reported as zero.
\<close>
theorem demo_cr3_width:
  "\<exists>w. demo_cr3_show m ! 3 = Max_phys_bit w \<and> demo_cr3_show m ! 4 = Low_bits_zero True \<and>
     w \<in> {0} \<union> {13..52} \<and>
     (\<forall>n. unat (cr3_reg m AND PTE_ADDR_MASK) < 2 ^ n \<longleftrightarrow> w \<le> n)"
proof -
  have "leaf_frame 1 x AND 0xFFF = 0" for x
    by (auto simp: word_masks bit_eq_iff bit_take_bit_iff bit_leaf_frame)
  then show ?thesis
    using fls64_leaf_frame [of "cr3_reg m"]
    by (simp add: demo_cr3_show_def read_cr3_value_def Let_def fls64_unat source_frames)
qed

text \<open>Each index line shows the index and the shifted address it was masked from.\<close>

lemma show_extraction_parts:
  "show_extraction va =
    [Va_line va, Level_line 4 va (drop_bit 39 va) (va_index 4 va),
     Level_line 3 va (drop_bit 30 va) (va_index 3 va),
     Level_line 2 va (drop_bit 21 va) (va_index 2 va),
     Level_line 1 va (drop_bit 12 va) (va_index 1 va), Offset_line va (take_bit 12 va)]"
  by (simp add: show_extraction_def word_masks Let_def)

section \<open>The huge-page scan\<close>

text \<open>
  \<open>capped f ys\<close>: started below the limit, the loop \<open>f\<close> appends the first lines of \<open>ys\<close> up to the
  limit of ten and counts them. Loops of this kind compose by appending what they would list.
\<close>

definition capped :: "(nat \<times> 'b list \<Rightarrow> nat \<times> 'b list) \<Rightarrow> 'b list \<Rightarrow> bool" where
  "capped f ys \<longleftrightarrow> (\<forall>c out. c \<le> 10 \<longrightarrow>
     f (c, out) = (min 10 (c + length ys), out @ take (10 - c) ys))"

lemma cappedI:
  "(\<And>c out. c \<le> 10 \<Longrightarrow> f (c, out) = (min 10 (c + length ys), out @ take (10 - c) ys)) \<Longrightarrow>
     capped f ys"
  by (simp add: capped_def)

lemma capped_apply:
  "capped f ys \<Longrightarrow> c \<le> 10 \<Longrightarrow> f (c, out) = (min 10 (c + length ys), out @ take (10 - c) ys)"
  by (simp add: capped_def)

lemma capped_then:
  assumes "capped f xs" and "capped g ys"
  shows "capped (\<lambda>s. g (f s)) (xs @ ys)"
proof (rule cappedI)
  fix c :: nat and out :: "'a list"
  assume c: "c \<le> 10"
  have "g (f (c, out)) = g (min 10 (c + length xs), out @ take (10 - c) xs)"
    using capped_apply [OF assms(1) c] by simp
  also have "\<dots> = (min 10 (min 10 (c + length xs) + length ys),
      (out @ take (10 - c) xs) @ take (10 - min 10 (c + length xs)) ys)"
    by (rule capped_apply [OF assms(2)]) simp
  also have "\<dots> = (min 10 (c + length (xs @ ys)), out @ take (10 - c) (xs @ ys))"
    using c by (cases "c + length xs \<le> 10") simp_all
  finally show "g (f (c, out)) = \<dots>" .
qed

lemma capped_full: "capped f ys \<Longrightarrow> f (10, out) = (10, out)"
  by (simp add: capped_def)

definition pd_lines :: "machine \<Rightarrow> u64 \<Rightarrow> nat \<Rightarrow> nat \<Rightarrow> nat \<Rightarrow> huge_line list" where
  "pd_lines m pd i j k =
    (let e = read_entry_raw m pd (of_nat k) in
     if bit e 0 \<and> bit e 7 then [Huge_2mb i j k e (take_bit 8 e) (leaf_frame 2 e)] else [])"

definition pdpt_lines :: "machine \<Rightarrow> u64 \<Rightarrow> nat \<Rightarrow> nat \<Rightarrow> huge_line list" where
  "pdpt_lines m pdpt i j =
    (let e = read_entry_raw m pdpt (of_nat j) in
     if \<not> bit e 0 then []
     else if bit e 7 then [Huge_1gb i j e (take_bit 8 e) (leaf_frame 3 e)]
     else concat (map (pd_lines m (leaf_frame 1 e) i j) [0..<512]))"

definition pml4_lines :: "machine \<Rightarrow> u64 \<Rightarrow> nat \<Rightarrow> huge_line list" where
  "pml4_lines m pml4 i =
    (let e = read_entry_raw m pml4 (of_nat i) in
     if \<not> bit e 0 then [] else concat (map (pdpt_lines m (leaf_frame 1 e) i) [0..<512]))"

definition all_huge :: "machine \<Rightarrow> huge_line list" where
  "all_huge m = concat (map (pml4_lines m (leaf_frame 1 (cr3_reg m))) [256..<512])"

lemma capped_scan_pd: "capped (scan_pd m pd i j ks) (concat (map (pd_lines m pd i j) ks))"
proof (induction ks)
  case Nil
  then show ?case by (auto simp: capped_def)
next
  case (Cons k ks)
  show ?case
  proof (rule cappedI)
    fix c :: nat and out :: "huge_line list"
    assume c: "c \<le> 10"
    note rest = capped_apply [OF Cons.IH] capped_full [OF Cons.IH]
    show "scan_pd m pd i j (k # ks) (c, out) =
        (min 10 (c + length (concat (map (pd_lines m pd i j) (k # ks)))),
         out @ take (10 - c) (concat (map (pd_lines m pd i j) (k # ks))))"
      using c by (cases "c = 10"; cases "c = 9")
        (simp_all add: Let_def word_masks pd_lines_def [of m pd i j k] rest take_Cons')
  qed
qed

lemma capped_scan_pdpt: "capped (scan_pdpt m pdpt i js) (concat (map (pdpt_lines m pdpt i) js))"
proof (induction js)
  case Nil
  then show ?case by (auto simp: capped_def)
next
  case (Cons j js)
  have inner: "capped (\<lambda>s. scan_pdpt m pdpt i js (scan_pd m pd i j [0..<512] s))
      (concat (map (pd_lines m pd i j) [0..<512]) @ concat (map (pdpt_lines m pdpt i) js))" for pd
    by (rule capped_then [OF capped_scan_pd Cons.IH])
  show ?case
  proof (rule cappedI)
    fix c :: nat and out :: "huge_line list"
    assume c: "c \<le> 10"
    note rest = capped_apply [OF Cons.IH] capped_apply [OF inner]
    show "scan_pdpt m pdpt i (j # js) (c, out) =
        (min 10 (c + length (concat (map (pdpt_lines m pdpt i) (j # js)))),
         out @ take (10 - c) (concat (map (pdpt_lines m pdpt i) (j # js))))"
      using c by (cases "c = 10")
        (simp_all add: Let_def word_masks pdpt_lines_def [of m pdpt i j] rest take_Cons')
  qed
qed

lemma capped_scan_pml4: "capped (scan_pml4 m pml4 is) (concat (map (pml4_lines m pml4) is))"
proof (induction "is")
  case Nil
  then show ?case by (auto simp: capped_def)
next
  case (Cons i "is")
  have inner: "capped (\<lambda>s. scan_pml4 m pml4 is (scan_pdpt m pdpt i [0..<512] s))
      (concat (map (pdpt_lines m pdpt i) [0..<512]) @ concat (map (pml4_lines m pml4) is))" for pdpt
    by (rule capped_then [OF capped_scan_pdpt Cons.IH])
  show ?case
  proof (rule cappedI)
    fix c :: nat and out :: "huge_line list"
    assume c: "c \<le> 10"
    note rest = capped_apply [OF Cons.IH] capped_apply [OF inner]
    show "scan_pml4 m pml4 (i # is) (c, out) =
        (min 10 (c + length (concat (map (pml4_lines m pml4) (i # is)))),
         out @ take (10 - c) (concat (map (pml4_lines m pml4) (i # is))))"
      using c by (cases "c = 10")
        (simp_all add: Let_def word_masks pml4_lines_def [of m pml4 i] rest)
  qed
qed

text \<open>
  C12. The huge-page file prints the base, then the first ten huge pages of the upper half in table
  order (every 1 GB and 2 MB page counts, none is skipped or listed twice), then how many it
  printed.
\<close>
theorem demo_huge_first_ten:
  "demo_huge_show m = Huge_base (page_offset_base m) # take 10 (all_huge m)
     @ [Huge_total (min 10 (length (all_huge m)))]"
  by (simp add: demo_huge_show_def all_huge_def Let_def word_masks capped_apply [OF capped_scan_pml4])

text \<open>The lowest canonical address under given PML4, PDPT and PD indices.\<close>

definition table_va :: "nat \<Rightarrow> nat \<Rightarrow> nat \<Rightarrow> u64" where
  "table_va i j k = recompose \<lparr>pml4_idx = of_nat i, pdpt_idx = of_nat j, pd_idx = of_nat k,
     pt_idx = 0, offset = 0\<rparr>"

lemma unat_of_nat_index: "n < 512 \<Longrightarrow> unat (of_nat n :: u64) = n"
  by (simp add: unsigned_of_nat take_bit_nat_eq_self)

lemma table_va_indices:
  assumes "i < 512" "j < 512" "k < 512"
  shows "va_index 4 (table_va i j k) = of_nat i" "va_index 3 (table_va i j k) = of_nat j"
    "va_index 2 (table_va i j k) = of_nat k" "va_index 1 (table_va i j k) = 0"
    "take_bit 12 (table_va i j k) = 0"
proof -
  have "extract_indices_raw (table_va i j k) = \<lparr>pml4_idx = of_nat i, pdpt_idx = of_nat j,
      pd_idx = of_nat k, pt_idx = 0, offset = 0\<rparr>"
    unfolding table_va_def
    by (rule extract_recompose) (simp add: parts_in_range_def unat_of_nat_index assms)
  from arg_cong [OF this, of pml4_idx] arg_cong [OF this, of pdpt_idx] arg_cong [OF this, of pd_idx]
    arg_cong [OF this, of pt_idx] arg_cong [OF this, of offset]
  show "va_index 4 (table_va i j k) = of_nat i" "va_index 3 (table_va i j k) = of_nat j"
    "va_index 2 (table_va i j k) = of_nat k" "va_index 1 (table_va i j k) = 0"
    "take_bit 12 (table_va i j k) = 0"
    by (simp_all add: extract_indices_parts)
qed

lemma table_va_low:
  assumes "i < 512" "j < 512" "k < 512"
  shows "take_bit 21 (table_va i j k) = 0" and "take_bit 30 (table_va i j 0) = 0"
proof -
  have off: "\<not> bit (table_va i j l) n" if "n < 12" "l < 512" for n l
    using table_va_indices(5) [OF assms(1,2) that(2)] that(1)
    by (auto simp: bit_eq_iff bit_take_bit_iff)
  have pt: "\<not> bit (table_va i j l) (12 + n)" if "n < 9" "l < 512" for n l
    using table_va_indices(4) [OF assms(1,2) that(2)] that(1) bit_va_index [of 1 "table_va i j l" n]
    by simp
  have pd: "\<not> bit (table_va i j 0) (21 + n)" if "n < 9" for n
    using table_va_indices(3) [OF assms(1,2), of 0] that bit_va_index [of 2 "table_va i j 0" n]
    by simp
  have low: "\<not> bit (table_va i j l) n" if "n < 21" "l < 512" for n l
    using off [of n l] pt [of "n - 12" l] that by (cases "n < 12") auto
  then show "take_bit 21 (table_va i j k) = 0"
    using assms by (auto simp: bit_eq_iff bit_take_bit_iff)
  have "\<not> bit (table_va i j 0) n" if "n < 30" for n
    using low [of n 0] pd [of "n - 21"] that by (cases "n < 21") auto
  then show "take_bit 30 (table_va i j 0) = 0"
    by (auto simp: bit_eq_iff bit_take_bit_iff)
qed

lemma all_huge_2mb:
  "(\<exists>e f. Huge_2mb i j k e f p \<in> set (all_huge m)) \<longleftrightarrow>
     256 \<le> i \<and> i < 512 \<and> j < 512 \<and> k < 512 \<and> translate m (table_va i j k) = Leaf 2 p"
proof (cases "256 \<le> i \<and> i < 512 \<and> j < 512 \<and> k < 512")
  case True
  then show ?thesis
    by (auto simp: all_huge_def pml4_lines_def pdpt_lines_def pd_lines_def Let_def translate_def
        xlate_unfold table_va_indices table_va_low split: if_splits)
next
  case False
  then show ?thesis
    by (auto simp: all_huge_def pml4_lines_def pdpt_lines_def pd_lines_def Let_def split: if_splits)
qed

lemma all_huge_1gb:
  "(\<exists>e f. Huge_1gb i j e f p \<in> set (all_huge m)) \<longleftrightarrow>
     256 \<le> i \<and> i < 512 \<and> j < 512 \<and> translate m (table_va i j 0) = Leaf 3 p"
proof (cases "256 \<le> i \<and> i < 512 \<and> j < 512")
  case True
  then show ?thesis
    by (auto simp: all_huge_def pml4_lines_def pdpt_lines_def pd_lines_def Let_def translate_def
        xlate_unfold table_va_indices table_va_low split: if_splits)
next
  case False
  then show ?thesis
    by (auto simp: all_huge_def pml4_lines_def pdpt_lines_def pd_lines_def Let_def split: if_splits)
qed

text \<open>The 1 GB search as a list: what one entry and one table contribute.\<close>

definition gb_lines :: "machine \<Rightarrow> u64 \<Rightarrow> nat \<Rightarrow> nat \<Rightarrow> gb_line list" where
  "gb_lines m pdpt i j =
    (let e = read_entry_raw m pdpt (of_nat j) in
     if bit e 0 \<and> bit e 7 then [Gb_found i j e (leaf_frame 3 e)] else [])"

definition gb_table_lines :: "machine \<Rightarrow> u64 \<Rightarrow> nat \<Rightarrow> gb_line list" where
  "gb_table_lines m pml4 i =
    (let e = read_entry_raw m pml4 (of_nat i) in
     if \<not> bit e 0 then [] else concat (map (gb_lines m (leaf_frame 1 e) i) [0..<512]))"

definition all_gb :: "machine \<Rightarrow> gb_line list" where
  "all_gb m = concat (map (gb_table_lines m (leaf_frame 1 (cr3_reg m))) [256..<512])"

lemma fold_collect:
  assumes "\<And>x c out. x \<in> set xs \<Longrightarrow> step x (c, out) = (c + length (f x), out @ f x)"
  shows "fold step xs (c, out) = (c + length (concat (map f xs)), out @ concat (map f xs))"
  using assms by (induction xs arbitrary: c out) simp_all

lemma gb_entry_step_lines:
  "gb_entry_step m pdpt i j (c, out) = (c + length (gb_lines m pdpt i j), out @ gb_lines m pdpt i j)"
  by (simp add: gb_entry_step_def gb_lines_def word_masks Let_def)

lemma gb_table_step_lines:
  "gb_table_step m pml4 i (c, out) =
     (c + length (gb_table_lines m pml4 i), out @ gb_table_lines m pml4 i)"
  by (simp add: gb_table_step_def gb_table_lines_def word_masks Let_def gb_entry_step_lines
      fold_collect [where f = "gb_lines m p i" for p])

lemma demo_walk1gb_lines:
  "demo_walk1gb_show m = all_gb m @ [if all_gb m = [] then Gb_none else Gb_total (length (all_gb m))]"
proof -
  have "fold (gb_table_step m pml4) [256..<512] (0, []) =
      (0 + length (concat (map (gb_table_lines m pml4) [256..<512])),
       [] @ concat (map (gb_table_lines m pml4) [256..<512]))" for pml4
    by (rule fold_collect) (rule gb_table_step_lines)
  then show ?thesis
    by (simp add: demo_walk1gb_show_def all_gb_def word_masks del: length_concat concat_eq_Nil_conv)
qed

lemma all_gb_found:
  "(\<exists>e. Gb_found i j e p \<in> set (all_gb m)) \<longleftrightarrow>
     256 \<le> i \<and> i < 512 \<and> j < 512 \<and> translate m (table_va i j 0) = Leaf 3 p"
proof (cases "256 \<le> i \<and> i < 512 \<and> j < 512")
  case True
  then show ?thesis
    by (auto simp: all_gb_def gb_table_lines_def gb_lines_def Let_def translate_def
        xlate_unfold table_va_indices table_va_low split: if_splits)
next
  case False
  then show ?thesis
    by (auto simp: all_gb_def gb_table_lines_def gb_lines_def Let_def split: if_splits)
qed

text \<open>
  C13. The two huge-page searches agree with the walk: the pages that demo 05 draws its ten from are
  exactly the 2 MB and 1 GB leaves of the translation in the upper half, with the frame the walk
  computes, and demo 09 prints exactly the 1 GB ones.
\<close>
theorem huge_searches_exact:
  "((\<exists>e f. Huge_2mb i j k e f p \<in> set (all_huge m)) \<longleftrightarrow>
     256 \<le> i \<and> i < 512 \<and> j < 512 \<and> k < 512 \<and> translate m (table_va i j k) = Leaf 2 p) \<and>
   ((\<exists>e f. Huge_1gb i j e f p \<in> set (all_huge m)) \<longleftrightarrow>
     256 \<le> i \<and> i < 512 \<and> j < 512 \<and> translate m (table_va i j 0) = Leaf 3 p) \<and>
   ((\<exists>e. Gb_found i j e p \<in> set (demo_walk1gb_show m)) \<longleftrightarrow>
     (\<exists>e f. Huge_1gb i j e f p \<in> set (all_huge m)))"
proof -
  have "Gb_found i j e p \<in> set (demo_walk1gb_show m) \<longleftrightarrow> Gb_found i j e p \<in> set (all_gb m)" for e
    by (auto simp: demo_walk1gb_lines)
  then show ?thesis
    by (simp add: all_huge_2mb all_huge_1gb all_gb_found)
qed

section \<open>The line-by-line walk\<close>

text \<open>What a reader of the printed walk learns: the last level entered and the line that ended it.\<close>

fun walk_outcome :: "nat \<Rightarrow> walk_line list \<Rightarrow> xres" where
  "walk_outcome l [] = Absent 0"
| "walk_outcome l (x # xs) =
    (case x of Walk_entry k idx table e \<Rightarrow> walk_outcome k xs
     | Walk_not_present \<Rightarrow> Absent l
     | Walk_huge k phys \<Rightarrow> Leaf k phys
     | Walk_final base off phys \<Rightarrow> Leaf l phys
     | _ \<Rightarrow> walk_outcome l xs)"

definition walk_reads :: "walk_line list \<Rightarrow> (u64 \<times> u64) list" where
  "walk_reads ls = List.map_filter
     (\<lambda>x. case x of Walk_entry k idx table e \<Rightarrow> Some (table, idx) | _ \<Rightarrow> None) ls"

fun level_of :: "xres \<Rightarrow> nat" where
  "level_of (Absent l) = l"
| "level_of (Leaf l pa) = l"

lemmas walk_va_unfold = walk_va_def word_masks Let_def translate_def xlate_unfold

lemma walk_outcome_simps [simp]:
  "walk_outcome l (Walk_va v # xs) = walk_outcome l xs"
  "walk_outcome l (Walk_indices a b c d e # xs) = walk_outcome l xs"
  "walk_outcome l (Walk_entry k idx table e # xs) = walk_outcome k xs"
  "walk_outcome l (Walk_next p # xs) = walk_outcome l xs"
  "walk_outcome l (Walk_page p # xs) = walk_outcome l xs"
  "walk_outcome l (Walk_not_present # xs) = Absent l"
  "walk_outcome l (Walk_huge k phys # xs) = Leaf k phys"
  "walk_outcome l (Walk_final base off phys # xs) = Leaf l phys"
  by simp_all

text \<open>
  C7. What demo 07 prints is the translation of the address: its closing line names the level and
  the physical address (1 GB pages included), or the level at which the walk stopped; and it
  reads one entry for each level from the PML4 down to that level, no more.
\<close>
theorem walk_va_exact:
  "walk_outcome 0 (walk_va m va) = translate m va \<and>
   length (walk_reads (walk_va m va)) = 5 - level_of (translate m va)"
  by (simp add: walk_va_unfold walk_reads_def List.map_filter_simps del: walk_outcome.simps(2))

lemma frame_aligned: "take_bit 12 (leaf_frame (Suc 0) e) = 0"
  by (auto simp: bit_eq_iff bit_take_bit_iff bit_leaf_frame)

lemma frame_bound: "unat (leaf_frame l e) < 2 ^ 52"
  unfolding unat_less_exp_iff by (auto simp: bit_eq_iff bit_take_bit_iff bit_leaf_frame)

text \<open>
  Every entry demo 07 loads lies inside the 4 KB table it names: tables are 4 KB aligned, below
  2 to the 52, and indices are below 512, whatever the tables contain.
\<close>
theorem walk_va_reads_in_table:
  "list_all (\<lambda>(table, idx). take_bit 12 table = 0 \<and> unat table < 2 ^ 52 \<and> unat idx < 512)
     (walk_reads (walk_va m va))"
  using frame_bound [of "Suc 0"]
  by (simp add: walk_va_unfold walk_reads_def List.map_filter_simps frame_aligned va_index_less
      va_index_less [of "Suc 0", simplified])

text \<open>
  The comment beside \<open>demo_walk4kb_show\<close> gives the kernel-text address the PDPT index 4; the
  code computes 510.
\<close>

lemma kernel_text_indices:
  "walk_va m 0xFFFFFFFF81000000 ! 1 = Walk_indices 511 510 8 0 0"
  by (simp add: walk_va_def Let_def)

section \<open>The other single-table demos\<close>

fun entry_line_ok :: "machine \<Rightarrow> entry_line \<Rightarrow> bool" where
  "entry_line_ok m (Entry_at idx off phys virt e) \<longleftrightarrow>
     0 \<le> idx \<and> idx < 512 \<and> unat off = 8 * nat idx \<and> virt = kva m phys \<and>
     drop_bit 12 phys = drop_bit 12 (cr3_reg m AND PTE_ADDR_MASK) \<and>
     e = read_entry_raw m (cr3_reg m AND PTE_ADDR_MASK) (of_int idx)"
| "entry_line_ok m _ \<longleftrightarrow> True"

lemma unat_entry_offset: "0 \<le> i \<Longrightarrow> i < 512 \<Longrightarrow> unat (word_of_int (i * 8) :: u64) = 8 * nat i"
  using unat_of_nat_small [of "nat (i * 8)"] by (simp add: nat_mult_distrib)

lemma entry_lines_ok:
  assumes "0 \<le> i" and "i < 512"
  shows "list_all (entry_line_ok m)
    (entry_lines m (cr3_reg m AND PTE_ADDR_MASK) (kva m (cr3_reg m AND PTE_ADDR_MASK)) i)"
proof -
  have "drop_bit 12 (leaf_frame 1 x + word_of_int (i * 8)) = drop_bit 12 (leaf_frame 1 x)" for x
    by (rule frame_plus_offset)
      (use assms in \<open>simp_all add: frame_aligned unat_entry_offset del: of_int_mult\<close>)
  with unat_entry_offset [OF assms] assms show ?thesis
    by (simp add: entry_lines_def Let_def kva_def read_entry_raw_def ac_simps source_frames)
qed

text \<open>
  Demo 03 reads the PML4 through the direct map: each entry it prints is the one the walker
  reads at that index, its virtual address is the direct-map address of its physical address,
  and all of them lie in the table's own 4 KB page.
\<close>
theorem demo_entry_addresses: "list_all (entry_line_ok m) (demo_entry_show m)"
  by (simp add: demo_entry_show_def Let_def entry_lines_ok)

section \<open>Decoding an entry\<close>

text \<open>
  \<open>decode_entry\<close> is exact on both branches. A present entry is split into its flag bits, as
  number and as truth value alike, and its frame. A non-present entry is reported as never
  mapped exactly when it is 0; otherwise the two swap fields it prints hold the whole entry: they
  are in range and shifting them back gives the entry again.
\<close>
theorem decode_entry_exact:
  "if is_present_raw e \<noteq> 0 then decode_entry e = [Dec_entry e, Dec_flags (take_bit 12 e),
       Dec_rw (of_bool (bit e 1)) (bit e 1), Dec_us (of_bool (bit e 2)) (bit e 2),
       Dec_accessed (of_bool (bit e 5)) (bit e 5), Dec_dirty (of_bool (bit e 6)) (bit e 6),
       Dec_ps (of_bool (bit e 7)) (bit e 7), Dec_nx (of_bool (bit e 63)) (bit e 63),
       Dec_phys (leaf_frame 1 e)]
   else if e = 0 then decode_entry e = [Dec_entry e, Dec_flags 0, Dec_never_mapped]
   else \<exists>ty off. decode_entry e = [Dec_entry e, Dec_flags (take_bit 12 e), Dec_swap ty off] \<and>
       unat ty < 32 \<and> unat off < 2 ^ 58 \<and> e = push_bit 6 off OR push_bit 1 ty"
proof -
  have nx: "drop_bit 63 e = 0 \<longleftrightarrow> \<not> bit e 63"
  proof -
    have "drop_bit 63 e = of_bool (bit e 63)"
    proof (rule bit_word_eqI)
      fix n show "bit (drop_bit 63 e) n = bit (of_bool (bit e 63) :: u64) n"
        using bit_u64_bound [of e "63 + n"] by (cases n) (auto simp: bit_drop_bit_eq bit_0)
    qed
    then show ?thesis by simp
  qed
  have flag: "drop_bit n e AND 1 = of_bool (bit e n)" for n
    by (rule bit_word_eqI, case_tac na)
      (simp_all add: bit_and_iff bit_drop_bit_eq bit_1_iff bit_of_bool_iff)
  have swap: "e = push_bit 6 (drop_bit 6 e) OR push_bit 1 (take_bit 5 (drop_bit 1 e))"
    if "\<not> bit e 0"
  proof (rule bit_word_eqI)
    fix n
    assume "n < LENGTH(64)"
    then show "bit e n = bit (push_bit 6 (drop_bit 6 e) OR push_bit 1 (take_bit 5 (drop_bit 1 e))) n"
      using that
      by (cases "n = 0"; cases "n < 6")
        (simp_all only: bit_or_iff bit_push_bit_iff bit_drop_bit_eq bit_take_bit_iff, auto)
  qed
  have "unat (take_bit 5 (drop_bit 1 e)) < 32"
    using unat_take_bit_less [of 5] by simp
  moreover have "unat (drop_bit 6 e) < 2 ^ 58"
    unfolding unat_less_exp_iff by (auto simp: bit_eq_iff bit_simps dest: bit_u64_bound)
  ultimately show ?thesis
    using swap by (auto simp: decode_entry_def Let_def word_masks nx flag)
qed

text \<open>
  Demo 08 ends with the translation of the first direct-map address: the 2 MB frame and the
  address when the walk ends at level 2, the warning when it ends at level 3, the note that a page
  table follows when it goes on to level 1, and the absence otherwise.
\<close>
theorem demo_walk2mb_exact:
  "last (demo_walk2mb_show m) =
    (case translate m (page_offset_base m) of
       Absent l \<Rightarrow> if l = 1 then W2_not_huge else W2_not_present
     | Leaf l p \<Rightarrow> if l = 3 then W2_1gb
         else if l = 2 then W2_final (leaf_frame 2 p) (take_bit 21 (page_offset_base m)) p
         else W2_not_huge)"
proof -
  have "leaf_frame 2 (leaf_frame 2 e OR take_bit 21 va) = leaf_frame 2 e" for e va
    by (auto simp: bit_eq_iff bit_leaf_frame bit_or_iff bit_take_bit_iff)
  then show ?thesis
    by (simp add: demo_walk2mb_show_def Let_def word_masks translate_def xlate_unfold)
qed

end
