(* ===== verification/Table_Demos.thy ===== *)
theory Table_Demos
  imports Walk_Demos
begin

text \<open>
  The proc files that dump or count the entries of the top-level table, flush the TLB or exercise
  the direct map: \<open>demo_10\<close>, \<open>demo_11\<close>, \<open>demo_18\<close>, \<open>demo_19\<close>, \<open>kernel_module/pagewalk_driver.c\<close>,
  \<open>kernel_module_asid/asid_driver.c\<close> and \<open>kernel_module_raw/prove_direct_map.c\<close>. As in
  \<open>Walk_Demos\<close>, a \<open>_show\<close> function is the list of the data-carrying lines it prints.
\<close>

unbundle bit_operations_syntax

section \<open>The direct map (demo 10 and \<open>prove_direct_map.c\<close>)\<close>

datatype va_line =
    Va_base u64
  | Va_phys u64
  | Va_manual u64 u64 u64
  | Va_macro u64
  | Va_match bool
  | Va_cr3 u64 u64
  | Va_pml4 u64 u64
  | Va_first u64 u64

definition va_case :: "machine \<Rightarrow> u64 \<Rightarrow> va_line list" where
  "va_case m phys =
    (let manual = page_offset_base m + phys; macro_result = kva m phys in
     [Va_phys phys, Va_manual (page_offset_base m) phys manual, Va_macro macro_result,
      Va_match (manual = macro_result)])"

definition demo_va_show :: "machine \<Rightarrow> va_line list" where
  "demo_va_show m =
    [Va_base (page_offset_base m)]
    @ concat (map (va_case m) [0x0, 0x1000, 0x1337A3000, 0x2CCB6C000, 0x3FFFFFFFF])
    @ (let cr3 = cr3_reg m; pml4_phys = cr3 AND 0x000FFFFFFFFFF000; pml4_virt = kva m pml4_phys;
           first_entry = kload m pml4_virt in
       [Va_cr3 cr3 pml4_phys, Va_pml4 pml4_phys pml4_virt, Va_first pml4_virt first_entry])"

datatype prove_line =
    Pr_base u64
  | Pr_phys u64
  | Pr_sum u64 u64
  | Pr_virt u64
  | Pr_verify u64 u64 u64
  | Pr_byte u64 "8 word"

text \<open>A byte load is the low byte of the little-endian 64-bit load at the same address.\<close>

definition kload8 :: "machine \<Rightarrow> u64 \<Rightarrow> 8 word" where
  "kload8 m a = ucast (kload m a)"

definition prove_case :: "machine \<Rightarrow> u64 \<Rightarrow> prove_line list" where
  "prove_case m phys =
    (let virt = kva m phys in
     [Pr_phys phys, Pr_sum (page_offset_base m) phys, Pr_virt virt]
     @ (if virt = page_offset_base m + phys then [Pr_verify (page_offset_base m) phys virt] else [])
     @ (if phys < 0x10000000 then [Pr_byte phys (kload8 m virt)] else []))"

definition prove_show :: "machine \<Rightarrow> prove_line list" where
  "prove_show m = Pr_base (page_offset_base m)
     # concat (map (prove_case m) [0x0, 0x1000, 0x200000, 0x2CCB6C000])"

section \<open>Demo 11: the PML4 dump\<close>

definition decode_flags :: "u64 \<Rightarrow> string" where
  "decode_flags entry =
    [if entry AND 0x8000000000000000 \<noteq> 0 then CHR ''N'' else CHR ''-'',
     if entry AND 0x100 \<noteq> 0 then CHR ''G'' else CHR ''-'',
     if entry AND 0x80 \<noteq> 0 then CHR ''H'' else CHR ''-'',
     if entry AND 0x20 \<noteq> 0 then CHR ''A'' else CHR ''-'',
     if entry AND 4 \<noteq> 0 then CHR ''U'' else CHR ''K'',
     if entry AND 2 \<noteq> 0 then CHR ''W'' else CHR ''R'',
     if entry AND 1 \<noteq> 0 then CHR ''P'' else CHR ''-'']"

datatype pml4_line =
    Pml4_cr3 u64
  | Pml4_at u64
  | Pml4_row nat u64 string u64

definition pml4_row :: "machine \<Rightarrow> u64 \<Rightarrow> nat \<Rightarrow> pml4_line list" where
  "pml4_row m pml4_phys i =
    (let entry = read_entry_raw m pml4_phys (of_nat i) in
     if entry AND 1 \<noteq> 0 then
       (let va_start = push_bit 39 (of_nat i);
            va_start = (if 256 \<le> i then va_start OR 0xFFFF000000000000 else va_start) in
        [Pml4_row i entry (decode_flags entry) va_start])
     else [])"

definition demo_pml4_show :: "machine \<Rightarrow> pml4_line list" where
  "demo_pml4_show m =
    (let cr3 = cr3_reg m; pml4_phys = cr3 AND PTE_ADDR_MASK in
     [Pml4_cr3 cr3, Pml4_at (kva m pml4_phys)] @ concat (map (pml4_row m pml4_phys) [0..<512]))"

section \<open>Demo 19: counting read-only entries\<close>

datatype cow_line = Cow_present int | Cow_rw int | Cow_ro int

definition cow_step :: "machine \<Rightarrow> u64 \<Rightarrow> nat \<Rightarrow> int \<times> int \<Rightarrow> int \<times> int" where
  "cow_step m pml4_phys i = (\<lambda>(ro_count, rw_count).
    let entry = read_entry_raw m pml4_phys (of_nat i) in
    if entry AND 1 \<noteq> 0
    then (if entry AND 2 \<noteq> 0 then (ro_count, rw_count + 1) else (ro_count + 1, rw_count))
    else (ro_count, rw_count))"

definition demo_cow_show :: "machine \<Rightarrow> cow_line list" where
  "demo_cow_show m =
    (let (ro_count, rw_count) = fold (cow_step m (cr3_reg m AND PTE_ADDR_MASK)) [0..<256] (0, 0) in
     [Cow_present (ro_count + rw_count), Cow_rw rw_count, Cow_ro ro_count])"

section \<open>The legacy walker and the PCID check\<close>

datatype legacy_line = Leg_cr3 u64 | Leg_table u64 | Leg_entry nat u64

fun first_present :: "machine \<Rightarrow> u64 \<Rightarrow> nat list \<Rightarrow> legacy_line list" where
  "first_present m phys [] = []"
| "first_present m phys (i # is) =
    (if read_entry_raw m phys (of_nat i) AND 1 \<noteq> 0
     then [Leg_entry i (read_entry_raw m phys (of_nat i))]
     else first_present m phys is)"

definition demo_legacy_walk_show :: "machine \<Rightarrow> legacy_line list" where
  "demo_legacy_walk_show m =
    (let cr3 = cr3_reg m; phys = cr3 AND PTE_ADDR_MASK in
     [Leg_cr3 cr3, Leg_table phys] @ first_present m phys [0..<512])"

datatype asid_line = Asid_cr3 u64 | Asid_pcid u64

definition demo_asid_show :: "machine \<Rightarrow> asid_line list" where
  "demo_asid_show m = [Asid_cr3 (cr3_reg m), Asid_pcid (cr3_reg m AND 0xFFF)]"

section \<open>Demo 18: flushing the TLB\<close>

text \<open>
  The CPU as the two inline-assembly helpers see it: CR3 and the cached translations, each with
  its PCID, the level and address of the page it covers and its global bit. A write to CR3 (with bit 63 clear) drops the non-global
  entries of the PCID it loads; \<open>invlpg\<close> drops the entries of one page in the current PCID and the
  global ones of that page.
\<close>

record tlb_entry =
  tlb_pcid :: u64
  tlb_level :: nat
  tlb_va :: u64
  tlb_global :: bool

record cpu =
  cpu_cr3 :: u64
  cpu_tlb :: "tlb_entry list"

definition mov_to_cr3 :: "u64 \<Rightarrow> cpu \<Rightarrow> cpu" where
  "mov_to_cr3 v c = c\<lparr>cpu_cr3 := v,
     cpu_tlb := filter (\<lambda>t. tlb_global t \<or> tlb_pcid t \<noteq> v AND 0xFFF) (cpu_tlb c)\<rparr>"

definition tlb_covers :: "tlb_entry \<Rightarrow> u64 \<Rightarrow> bool" where
  "tlb_covers t addr \<longleftrightarrow>
     drop_bit (level_shift (tlb_level t)) (tlb_va t) = drop_bit (level_shift (tlb_level t)) addr"

definition invlpg :: "u64 \<Rightarrow> cpu \<Rightarrow> cpu" where
  "invlpg addr c = c\<lparr>cpu_tlb :=
     filter (\<lambda>t. \<not> (tlb_covers t addr \<and> (tlb_global t \<or> tlb_pcid t = cpu_cr3 c AND 0xFFF)))
       (cpu_tlb c)\<rparr>"

definition local_flush_tlb :: "cpu \<Rightarrow> cpu" where
  "local_flush_tlb c = (let cr3 = cpu_cr3 c in mov_to_cr3 cr3 c)"

definition local_invlpg :: "u64 \<Rightarrow> cpu \<Rightarrow> cpu" where
  "local_invlpg addr c = invlpg addr c"

datatype tlb_line = Tlb_before u64 | Tlb_after u64 | Tlb_addr u64 | Tlb_executed u64

definition demo_tlb_show :: "u64 \<Rightarrow> cpu \<Rightarrow> tlb_line list \<times> cpu" where
  "demo_tlb_show seq c =
    (let test_addr = seq;
         cr3 = cpu_cr3 c;
         out = [Tlb_before cr3];
         c = local_flush_tlb c;
         out = out @ [Tlb_after cr3, Tlb_addr test_addr];
         c = local_invlpg test_addr c in
     (out @ [Tlb_executed test_addr], c))"

section \<open>The direct map is an offset\<close>

lemma kva_diff: "kva m p - kva m q = p - q"
  by (simp add: kva_def)

lemma kva_inj: "kva m p = kva m q \<longleftrightarrow> p = q"
  by (simp add: kva_def)

fun va_line_ok :: "machine \<Rightarrow> va_line \<Rightarrow> bool" where
  "va_line_ok m (Va_match b) \<longleftrightarrow> b"
| "va_line_ok m (Va_manual base phys virt) \<longleftrightarrow> base = page_offset_base m \<and> virt = kva m phys"
| "va_line_ok m (Va_pml4 phys virt) \<longleftrightarrow> virt = kva m phys"
| "va_line_ok m (Va_first virt e) \<longleftrightarrow> e = read_entry_raw m (cr3_reg m AND PTE_ADDR_MASK) 0"
| "va_line_ok m _ \<longleftrightarrow> True"

text \<open>
  On every machine the direct-map demos find their formula confirmed: no address of demo 10
  is reported as a mismatch, the entry it reads back is the walker's PML4 entry 0, and
  \<open>prove_direct_map\<close> prints the verification line for each of its four addresses and a byte of RAM
  for exactly the three below 256 MB.
\<close>
theorem direct_map_demos_confirm:
  "list_all (va_line_ok m) (demo_va_show m) \<and>
   [p. Pr_verify b p v \<leftarrow> prove_show m] = [0x0, 0x1000, 0x200000, 0x2CCB6C000] \<and>
   [(p, x). Pr_byte p x \<leftarrow> prove_show m] =
     map (\<lambda>p. (p, ucast (kload m (page_offset_base m + p)))) [0x0, 0x1000, 0x200000]"
  by (simp add: demo_va_show_def va_case_def prove_show_def prove_case_def kva_def kload8_def Let_def
      read_entry_raw_def add.commute [of "page_offset_base m"])

section \<open>The dump is complete\<close>

lemma bit_of_nat_index: "i < 512 \<Longrightarrow> bit (of_nat i :: u64) n \<Longrightarrow> n < 9"
  using unat_less_exp_bits [of "of_nat i :: u64" 9 n] by (simp add: unat_of_nat_index)

lemma bit8_of_nat_index: "i < 512 \<Longrightarrow> bit (of_nat i :: u64) 8 \<longleftrightarrow> 256 \<le> i"
proof -
  assume i: "i < 512"
  have "i div 256 = 0 \<or> i div 256 = 1" using i by linarith
  moreover have "256 \<le> i \<longleftrightarrow> i div 256 = 1" using i by linarith
  ultimately have "bit i 8 \<longleftrightarrow> 256 \<le> i" by (auto simp: bit_iff_odd)
  then show ?thesis by (simp add: bit_of_nat_iff)
qed

lemma pml4_va_start:
  assumes "i < 512"
  shows "(if 256 \<le> i then push_bit 39 (of_nat i) OR 0xFFFF000000000000 else push_bit 39 (of_nat i))
    = table_va i 0 0" (is "?va = _")
proof (rule bit_word_eqI)
  fix n
  assume "n < LENGTH(64)"
  then have n: "n < 64" by simp
  have table: "bit (table_va i 0 0) n \<longleftrightarrow> 39 \<le> n \<and> bit (of_nat i :: u64) (min 47 n - 39)"
    using n by (auto simp: table_va_def bit_recompose Let_def)
  show "bit ?va n = bit (table_va i 0 0) n"
  proof (cases "n \<le> 47")
    case True
    then show ?thesis by (simp add: table bit_or_iff bit_push_bit_iff bit_range_masks)
  next
    case False
    then have "bit ?va n \<longleftrightarrow> 256 \<le> i"
      using n bit_of_nat_index [OF assms, of "n - 39"]
      by (auto simp: bit_or_iff bit_push_bit_iff bit_range_masks)
    with False show ?thesis by (simp add: table bit8_of_nat_index [OF assms])
  qed
qed

text \<open>
  The PML4 dump prints a row for every present entry and no other, with the entry, its flag
  string and the lowest canonical address of the region the entry maps.
\<close>
theorem demo_pml4_rows:
  "Pml4_row i e fl va \<in> set (demo_pml4_show m) \<longleftrightarrow>
     i < 512 \<and> e = read_entry_raw m (cr3_reg m AND PTE_ADDR_MASK) (of_nat i) \<and> bit e 0 \<and>
     fl = decode_flags e \<and> va = table_va i 0 0"
proof (cases "i < 512")
  case True
  from pml4_va_start [OF this] show ?thesis
    by (auto simp: demo_pml4_show_def pml4_row_def Let_def and_one_eq_0_iff split: if_splits)
next
  case False
  then show ?thesis
    by (auto simp: demo_pml4_show_def pml4_row_def Let_def split: if_splits)
qed

lemma of_nat_index_unat: "of_nat (unat (va_index l va)) = va_index l va"
  by simp

text \<open>
  The dump decides which addresses are unmapped at the top: the walk of an address stops at
  level 4 exactly when the dump has no row for its PML4 index.
\<close>
theorem pml4_dump_decides:
  "translate m va = Absent 4 \<longleftrightarrow>
     \<not> (\<exists>e fl s. Pml4_row (unat (va_index 4 va)) e fl s \<in> set (demo_pml4_show m))"
proof -
  have "translate m va = Absent 4 \<longleftrightarrow>
      \<not> bit (read_entry_raw m (leaf_frame 1 (cr3_reg m)) (va_index 4 va)) 0"
    using xlate_absent_level [of "read_entry_raw m" 3 _ va 4]
    by (auto simp: translate_def xlate_unfold(1) Let_def)
  moreover have "(\<exists>e fl s. Pml4_row i e fl s \<in> set (demo_pml4_show m)) \<longleftrightarrow>
      i < 512 \<and> bit (read_entry_raw m (leaf_frame 1 (cr3_reg m)) (of_nat i)) 0" for i
    by (cases "i < 512")
      (auto simp: demo_pml4_show_def pml4_row_def Let_def word_masks split: if_splits)
  ultimately show ?thesis by (simp add: va_index_less)
qed

text \<open>
  The seven characters of a row are the seven flags: two entries print the same string exactly
  when their NX, global, page-size, accessed, user, write and present bits agree.
\<close>
theorem decode_flags_faithful:
  "decode_flags e = decode_flags e' \<longleftrightarrow> list_all (\<lambda>n. bit e n = bit e' n) [63, 8, 7, 5, 2, 1, 0]"
  by (simp add: decode_flags_def and_pow2_iff and_one_eq_0_iff)

section \<open>Counting and searching the top-level table\<close>

lemma cow_fold:
  "fold (cow_step m pml4) xs (ro, rw) =
    (ro + int (length (filter (\<lambda>i. bit (read_entry_raw m pml4 (of_nat i)) 0
        \<and> \<not> bit (read_entry_raw m pml4 (of_nat i)) 1) xs)),
     rw + int (length (filter (\<lambda>i. bit (read_entry_raw m pml4 (of_nat i)) 0
        \<and> bit (read_entry_raw m pml4 (of_nat i)) 1) xs)))"
  by (induction xs arbitrary: ro rw) (simp_all add: cow_step_def Let_def word_masks)

definition user_entries :: "machine \<Rightarrow> (u64 \<Rightarrow> bool) \<Rightarrow> nat" where
  "user_entries m P = card {i. i < 256 \<and> bit (read_entry_raw m (leaf_frame 1 (cr3_reg m)) (of_nat i)) 0
     \<and> P (read_entry_raw m (leaf_frame 1 (cr3_reg m)) (of_nat i))}"

lemma card_filter_upt: "length (filter P [0..<n]) = card {i. i < n \<and> P i}"
  using distinct_card [of "filter P [0..<n]"] by (simp add: conj_commute)

lemma user_entries_split:
  "user_entries m (\<lambda>_. True) = user_entries m (\<lambda>e. \<not> P e) + user_entries m P"
proof -
  let ?e = "\<lambda>i. read_entry_raw m (leaf_frame 1 (cr3_reg m)) (of_nat i)"
  let ?S = "\<lambda>Q. {i. i < 256 \<and> bit (?e i) 0 \<and> Q (?e i)}"
  have "?S (\<lambda>_. True) = ?S (\<lambda>e. \<not> P e) \<union> ?S P" by auto
  moreover have "card (?S (\<lambda>e. \<not> P e) \<union> ?S P) = card (?S (\<lambda>e. \<not> P e)) + card (?S P)"
    by (rule card_Un_disjoint) auto
  ultimately show ?thesis by (simp add: user_entries_def)
qed

text \<open>
  The copy-on-write demo counts the user half of the table exactly: the present entries, and
  among them the writable and the read-only ones.
\<close>
theorem demo_cow_counts:
  "demo_cow_show m =
    [Cow_present (int (user_entries m (\<lambda>_. True))), Cow_rw (int (user_entries m (\<lambda>e. bit e 1))),
     Cow_ro (int (user_entries m (\<lambda>e. \<not> bit e 1)))]"
  unfolding user_entries_split [of m "\<lambda>e. bit e 1"]
  by (simp add: demo_cow_show_def cow_fold card_filter_upt user_entries_def word_masks)

lemma first_present_find:
  "first_present m phys is =
    (case find (\<lambda>i. bit (read_entry_raw m phys (of_nat i)) 0) is of
       None \<Rightarrow> [] | Some i \<Rightarrow> [Leg_entry i (read_entry_raw m phys (of_nat i))])"
  by (induction "is") (simp_all add: word_masks)

text \<open>
  The legacy walker prints the first present PML4 entry of the table and nothing when there is
  none.
\<close>
theorem demo_legacy_walk_first:
  "drop 2 (demo_legacy_walk_show m) =
    (if \<exists>i < 512. bit (read_entry_raw m (cr3_reg m AND PTE_ADDR_MASK) (of_nat i)) 0
     then (let i = LEAST i. bit (read_entry_raw m (cr3_reg m AND PTE_ADDR_MASK) (of_nat i)) 0
           in [Leg_entry i (read_entry_raw m (cr3_reg m AND PTE_ADDR_MASK) (of_nat i))])
     else [])"
proof -
  let ?P = "\<lambda>i. bit (read_entry_raw m (cr3_reg m AND PTE_ADDR_MASK) (of_nat i)) 0"
  have "find ?P [0..<512] = (if \<exists>i < 512. ?P i then Some (LEAST i. ?P i) else None)"
  proof (cases "\<exists>i < 512. ?P i")
    case True
    then obtain i where i: "i < 512" "?P i" by blast
    have least: "?P (LEAST i. ?P i)" by (rule LeastI [of ?P, OF i(2)])
    have "(LEAST i. ?P i) \<le> i" by (rule Least_le [of ?P, OF i(2)])
    then have "find ?P [0..<512] = Some (LEAST i. ?P i)"
      unfolding find_Some_iff using least i(1) not_less_Least [of _ ?P]
      by (intro exI [of _ "LEAST i. ?P i"]) auto
    with True show ?thesis by simp
  qed (auto simp: find_None_iff)
  then show ?thesis
    by (simp add: demo_legacy_walk_show_def Let_def first_present_find)
qed

section \<open>Flushing\<close>

text \<open>
  The TLB demo flushes what its lines say: CR3 is unchanged and printed as such; afterwards the
  TLB keeps no entry for the test address in the current PCID or global, no non-global entry of the
  current PCID at all, and every other entry it had.
\<close>
theorem demo_tlb_flushes:
  "fst (demo_tlb_show seq c) =
     [Tlb_before (cpu_cr3 c), Tlb_after (cpu_cr3 (snd (demo_tlb_show seq c))), Tlb_addr seq,
      Tlb_executed seq] \<and>
   cpu_tlb (snd (demo_tlb_show seq c)) =
     filter (\<lambda>t. if tlb_global t then \<not> tlb_covers t seq else tlb_pcid t \<noteq> cpu_cr3 c AND 0xFFF)
       (cpu_tlb c)"
  by (auto simp: demo_tlb_show_def local_flush_tlb_def local_invlpg_def mov_to_cr3_def invlpg_def
      Let_def intro!: filter_cong)

end
