(* ===== verification/Kernel_Trace.thy ===== *)
theory Kernel_Trace
  imports Prelude "HOL-Library.Multiset"
begin

text \<open>
  Modules of the repository take references, locks and pages from the kernel and have to give them
  back. A module function is modelled with the list of the kernel calls it makes, as events over the
  resources it acquires, uses and releases. This theory holds the resources and the abstract
  specification: what it means for a trace to be safe (nothing released twice, nothing used after
  its release) and balanced (nothing left at the end). The locale \<open>monitor\<close> states what a checker
  of traces has to satisfy; it is interpreted on the checker of counted resources \<open>rstep\<close> and
  on the checker of nested sections \<open>nstep\<close>.
\<close>

section \<open>Resources and events\<close>

text \<open>
  A resource is named by what identifies it to the release call: \<open>Pages\<close> by its first frame number
  and order, a page reference by its frame number, a lock or cache by its address.
\<close>

datatype kres =
    Pages u64 nat
  | Page_ref u64
  | Pid_ref u64
  | Task_ref u64
  | Mm_ref u64
  | Cache string
  | Cache_obj u64
  | Mmap_lock u64
  | Rcu
  | Page_lock u64
  | Pte_map u64
  | Kmap u64
  | Folio_ref u64
  | Proc string
  | Seq_file string
  | Kprobe string
  | Kbuf u64
  | Vma_lock u64
  | Policy_ref u64
  | Mm_grab u64
  | Seq_priv u64

datatype kevent = Acquire kres | Release kres | Use kres

fun mrun :: "('s \<Rightarrow> 'e \<Rightarrow> 's option) \<Rightarrow> 's \<Rightarrow> 'e list \<Rightarrow> 's option" where
  "mrun step s [] = Some s"
| "mrun step s (e # es) = (case step s e of None \<Rightarrow> None | Some s' \<Rightarrow> mrun step s' es)"

text \<open>Counted resources: a reference is held as often as it was taken.\<close>

fun rstep :: "kres multiset \<Rightarrow> kevent \<Rightarrow> kres multiset option" where
  "rstep h (Acquire r) = Some (h + {#r#})"
| "rstep h (Release r) = (if r \<in># h then Some (h - {#r#}) else None)"
| "rstep h (Use r) = (if r \<in># h then Some h else None)"

text \<open>Nested sections: what was entered last is left first.\<close>

fun nstep :: "kres list \<Rightarrow> kevent \<Rightarrow> kres list option" where
  "nstep st (Acquire r) = Some (r # st)"
| "nstep st (Release r) = (if st \<noteq> [] \<and> hd st = r then Some (tl st) else None)"
| "nstep st (Use r) = (if r \<in> set st then Some st else None)"

text \<open>
  \<open>held tr\<close> is what a trace still holds at its end, \<open>None\<close> when it released or used something it did
  not hold; a balanced trace holds nothing, a nested one also leaves its sections in order.
\<close>

definition held :: "kevent list \<Rightarrow> kres multiset option" where
  "held tr = mrun rstep {#} tr"

definition balanced :: "kevent list \<Rightarrow> bool" where
  "balanced tr \<longleftrightarrow> held tr = Some {#}"

definition nested :: "kevent list \<Rightarrow> bool" where
  "nested tr \<longleftrightarrow> mrun nstep [] tr = Some []"

section \<open>Framed monitors\<close>

lemma mrun_append:
  "mrun step s (xs @ ys) = (case mrun step s xs of None \<Rightarrow> None | Some s' \<Rightarrow> mrun step s' ys)"
  by (induction xs arbitrary: s) (auto split: option.splits)

text \<open>
  A monitor is framed when holding more never changes what a step does to the rest. Then balanced
  traces compose in sequence, in a loop and inside a section.
\<close>

locale framed_monitor =
  fixes step :: "'s \<Rightarrow> 'e \<Rightarrow> 's option"
    and plus :: "'s \<Rightarrow> 's \<Rightarrow> 's"
    and unit :: 's
  assumes unit_left: "plus unit s = s"
    and step_frame: "step s e = Some s' \<Longrightarrow> step (plus s f) e = Some (plus s' f)"
begin

lemma run_frame: "mrun step s es = Some s' \<Longrightarrow> mrun step (plus s f) es = Some (plus s' f)"
  by (induction es arbitrary: s) (auto simp: step_frame split: option.splits)

lemma unit_frame: "mrun step unit es = Some unit \<Longrightarrow> mrun step s es = Some s"
  using run_frame [of unit es unit s] by (simp add: unit_left)

lemma seq:
  "mrun step unit xs = Some unit \<Longrightarrow> mrun step s (xs @ ys) = mrun step s ys"
  by (simp add: mrun_append unit_frame)

lemma loop:
  "(\<And>x. x \<in> set xs \<Longrightarrow> mrun step unit (body x) = Some unit) \<Longrightarrow>
     mrun step unit (concat (map body xs)) = Some unit"
  by (induction xs) (simp_all add: seq)

lemma bracket:
  assumes "step unit enter = Some s" and "step s leave = Some unit"
    and "mrun step unit body = Some unit"
  shows "mrun step unit (enter # body @ [leave]) = Some unit"
  by (simp add: assms seq)

end

interpretation rm: framed_monitor rstep "(+)" "{#}"
proof unfold_locales
  fix s f s' :: "kres multiset" and e
  show "{#} + s = s" by simp
  assume "rstep s e = Some s'"
  then show "rstep (s + f) e = Some (s' + f)"
    by (cases e) (auto split: if_splits dest!: multi_member_split)
qed

interpretation nm: framed_monitor nstep "(@)" "[]"
proof unfold_locales
  fix s f s' :: "kres list" and e
  show "[] @ s = s" by simp
  assume "nstep s e = Some s'"
  then show "nstep (s @ f) e = Some (s' @ f)"
    by (cases e) (auto split: if_splits)
qed

lemma balanced_append: "balanced xs \<Longrightarrow> held (xs @ ys) = held ys"
  by (simp add: balanced_def held_def rm.seq)

lemma balanced_concat: "(\<And>x. x \<in> set xs \<Longrightarrow> balanced (body x)) \<Longrightarrow> balanced (concat (map body xs))"
  using rm.loop [of xs body] by (simp add: balanced_def held_def)

lemma balanced_section: "balanced body \<Longrightarrow> balanced (Acquire r # body @ [Release r])"
  using rm.bracket [of "Acquire r" "{#r#}" "Release r" body] by (simp add: balanced_def held_def)

lemma nested_section: "nested body \<Longrightarrow> nested (Acquire r # body @ [Release r])"
  using nm.bracket [of "Acquire r" "[r]" "Release r" body] by (simp add: nested_def)

lemma balanced_Nil [simp]: "balanced []" "nested []"
  by (simp_all add: balanced_def held_def nested_def)

section \<open>What a successful trace has counted\<close>

text \<open>The checker of nested sections is the stricter one: it simulates the counting checker.\<close>

lemma nstep_rstep: "nstep st e = Some st' \<Longrightarrow> rstep (mset st) e = Some (mset st')"
  by (cases e; cases st) (auto split: if_splits)

lemma nrun_rrun: "mrun nstep st es = Some st' \<Longrightarrow> mrun rstep (mset st) es = Some (mset st')"
proof (induction es arbitrary: st)
  case (Cons e es)
  then obtain s1 where "nstep st e = Some s1" "mrun nstep s1 es = Some st'"
    by (auto split: option.splits)
  with Cons.IH [of s1] show ?case by (simp add: nstep_rstep)
qed simp

lemma nested_balanced: "nested tr \<Longrightarrow> balanced tr"
  using nrun_rrun [of "[]" tr "[]"] by (simp add: nested_def balanced_def held_def)

lemma rrun_count:
  "mrun rstep h es = Some h' \<Longrightarrow>
     count h' r + count_list es (Release r) = count h r + count_list es (Acquire r)"
proof (induction es arbitrary: h)
  case Nil
  then show ?case by simp
next
  case (Cons e es)
  then obtain h1 where h1: "rstep h e = Some h1" "mrun rstep h1 es = Some h'"
    by (auto split: option.splits)
  from Cons.IH [OF h1(2)] h1(1) show ?case
    by (cases e) (auto split: if_splits simp: count_greater_zero_iff [symmetric] simp del: count_greater_zero_iff)
qed

lemma held_count:
  "held tr = Some h \<Longrightarrow>
     count h r + count_list tr (Release r) = count_list tr (Acquire r)"
  using rrun_count [of "{#}" tr h r] by (simp add: held_def)

lemma balanced_count: "balanced tr \<Longrightarrow> count_list tr (Release r) = count_list tr (Acquire r)"
  using held_count [of tr "{#}" r] by (simp add: balanced_def)

lemma held_prefix: "held (xs @ ys) = Some h \<Longrightarrow> \<exists>h'. held xs = Some h'"
  by (auto simp: held_def mrun_append split: option.splits)

lemma held_use:
  "held (xs @ Use r # ys) = Some h \<Longrightarrow> count_list xs (Release r) < count_list xs (Acquire r)"
proof -
  assume ok: "held (xs @ Use r # ys) = Some h"
  then obtain h' where h': "held xs = Some h'" using held_prefix by blast
  have "r \<in># h'" using ok h' by (auto simp: held_def mrun_append split: option.splits if_splits)
  with held_count [OF h', of r] show ?thesis
    by (simp flip: count_greater_zero_iff)
qed

end
