(* ===== verification/Sys_Demos.thy ===== *)
theory Sys_Demos
  imports Kernel_Trace
begin

text \<open>
  The proc files that show kernel data other than page tables: \<open>demo_12\<close> (processes), \<open>demo_13\<close>
  and \<open>demo_20\<close> (memory statistics), \<open>demo_14\<close> (page flags), \<open>demo_15\<close> (the memory areas of the
  current process), \<open>demo_16\<close> (a slab cache) and \<open>demo_17\<close> (the buddy allocator). What the kernel
  hands to a show function (task list, \<open>sysinfo\<close>, page descriptors, areas, allocation results) is
  an argument of its model; the model returns the data-carrying lines printed and, where the
  function takes locks or memory, the trace of those calls.
\<close>

unbundle bit_operations_syntax

section \<open>Demo 12: processes and their page tables\<close>

record task =
  t_pid :: int
  t_comm :: string
  t_pgd :: "u64 option"

datatype pid_line =
    Pid_self int string u64 u64
  | Pid_other int string u64

text \<open>\<open>t_pgd\<close> is \<open>None\<close> when \<open>task->mm\<close> is null; \<open>virt_to_phys\<close> is the kernel's.\<close>

definition pid_step :: "(u64 \<Rightarrow> u64) \<Rightarrow> task \<Rightarrow> int \<times> pid_line list \<Rightarrow> int \<times> pid_line list" where
  "pid_step virt_to_phys task = (\<lambda>(count, out).
    case t_pgd task of
      None \<Rightarrow> (count, out)
    | Some pgd \<Rightarrow>
        if count < 10
        then (count + 1, out @ [Pid_other (t_pid task) (t_comm task) (virt_to_phys pgd)])
        else (count, out))"

definition demo_pid_show ::
  "(u64 \<Rightarrow> u64) \<Rightarrow> u64 \<Rightarrow> task \<Rightarrow> task list \<Rightarrow> pid_line list \<times> kevent list" where
  "demo_pid_show virt_to_phys cr3 current tasks =
    (let my_pml4 = cr3 AND 0x000FFFFFFFFFF000;
         (count, out) = fold (pid_step virt_to_phys) tasks
            (0, [Pid_self (t_pid current) (t_comm current) cr3 my_pml4]) in
     (out, [Acquire Rcu, Release Rcu]))"

section \<open>Demos 13 and 20: memory statistics\<close>

text \<open>The fields of \<open>struct sysinfo\<close> the drivers read; \<open>mem_unit\<close> is an \<open>unsigned int\<close>.\<close>

record sysinfo =
  totalram :: u64
  freeram :: u64
  totalswap :: u64
  freeswap :: u64
  mem_unit :: u32

datatype zone_line = Zone_total u64 | Zone_free u64 | Zone_normal u64

definition demo_zone_show :: "sysinfo \<Rightarrow> zone_line list" where
  "demo_zone_show si =
    (let total_mb = (totalram si * ucast (mem_unit si)) div (1024 * 1024) in
     [Zone_total total_mb, Zone_free ((freeram si * ucast (mem_unit si)) div (1024 * 1024)),
      if 4096 < total_mb then Zone_normal (total_mb - 4096) else Zone_normal 0])"

datatype swap_line =
    Swap_total_ram u64 u64
  | Swap_free_ram u64 u64
  | Swap_total_swap u64 u64
  | Swap_free_swap u64 u64

text \<open>
  \<open>struct sysinfo si\<close> is an uninitialised local of \<open>demo_swap_show\<close>: \<open>garbage\<close> is what the stack
  holds, and \<open>si_meminfo\<close> the kernel's function, which writes some of the fields.
\<close>

definition demo_swap_show :: "(sysinfo \<Rightarrow> sysinfo) \<Rightarrow> sysinfo \<Rightarrow> swap_line list" where
  "demo_swap_show si_meminfo garbage =
    (let si = si_meminfo garbage in
     [Swap_total_ram (totalram si) ((totalram si * 4) div 1024),
      Swap_free_ram (freeram si) ((freeram si * 4) div 1024),
      Swap_total_swap (totalswap si) ((totalswap si * 4) div 1024),
      Swap_free_swap (freeswap si) ((freeswap si * 4) div 1024)])"

section \<open>Demo 14: page flags\<close>

datatype flags_line =
    Flags_invalid u64
  | Flags_page u64 u64 u64 int int int int int int

text \<open>
  \<open>page_test f pfn\<close> stands for the kernel's \<open>PageLocked\<close> and its siblings on the page of a frame,
  \<open>page_flags pfn\<close> for the page's \<open>flags\<close> word.
\<close>

datatype page_bit = PG_locked | PG_uptodate | PG_dirty | PG_lru | PG_slab | PG_reserved

definition flags_case ::
  "(u64 \<Rightarrow> bool) \<Rightarrow> (u64 \<Rightarrow> u64) \<Rightarrow> (page_bit \<Rightarrow> u64 \<Rightarrow> bool) \<Rightarrow> u64 \<Rightarrow> flags_line list" where
  "flags_case pfn_valid page_flags page_test pfn =
    (if \<not> pfn_valid pfn then [Flags_invalid pfn]
     else (let bit01 = (\<lambda>b. if page_test b pfn then 1 else 0) in
       [Flags_page pfn (page_flags pfn) (push_bit 12 pfn)
          (bit01 PG_locked) (bit01 PG_uptodate) (bit01 PG_dirty)
          (bit01 PG_lru) (bit01 PG_slab) (bit01 PG_reserved)]))"

definition demo_flags_show ::
  "(u64 \<Rightarrow> bool) \<Rightarrow> (u64 \<Rightarrow> u64) \<Rightarrow> (page_bit \<Rightarrow> u64 \<Rightarrow> bool) \<Rightarrow> flags_line list" where
  "demo_flags_show pfn_valid page_flags page_test =
    concat (map (flags_case pfn_valid page_flags page_test) [0, 1, 256, 1024, 65536, 262144])"

section \<open>Demo 15: the areas of the current process\<close>

record vma =
  vm_start :: u64
  vm_end :: u64
  vm_flags :: u64

record mm =
  mm_addr :: u64
  total_vm :: u64
  stack_vm :: u64
  data_vm :: u64
  mmap :: "vma list"

datatype vma_line =
    Vma_no_mm
  | Vma_process int string
  | Vma_total u64 u64
  | Vma_stack u64
  | Vma_data u64
  | Vma_row u64 u64 u64 string
  | Vma_count int

text \<open>\<open>VM_READ\<close>, \<open>VM_WRITE\<close>, \<open>VM_EXEC\<close> and \<open>VM_SHARED\<close> are bits 0 to 3.\<close>

definition vma_perm :: "u64 \<Rightarrow> string" where
  "vma_perm flags =
    [if flags AND 1 \<noteq> 0 then CHR ''r'' else CHR ''-'',
     if flags AND 2 \<noteq> 0 then CHR ''w'' else CHR ''-'',
     if flags AND 4 \<noteq> 0 then CHR ''x'' else CHR ''-'',
     if flags AND 8 \<noteq> 0 then CHR ''s'' else CHR ''p'']"

fun vma_rows :: "vma list \<Rightarrow> int \<times> vma_line list \<Rightarrow> int \<times> vma_line list" where
  "vma_rows [] s = s"
| "vma_rows (vma # vmas) (cnt, out) =
    (if 20 \<le> cnt then (cnt, out) else
     let size = vm_end vma - vm_start vma; perm = vma_perm (vm_flags vma) in
     vma_rows vmas (cnt + 1, out @ [Vma_row (vm_start vma) (vm_end vma) (size div 1024) perm]))"

definition demo_vma_show :: "task \<Rightarrow> mm option \<Rightarrow> vma_line list \<times> kevent list" where
  "demo_vma_show current mm =
    (case mm of
       None \<Rightarrow> ([Vma_no_mm], [])
     | Some mm \<Rightarrow>
         let out = [Vma_process (t_pid current) (t_comm current),
                    Vma_total (total_vm mm) (total_vm mm * 4),
                    Vma_stack (stack_vm mm), Vma_data (data_vm mm)];
             (count, out) = vma_rows (mmap mm) (0, out) in
         (out @ [Vma_count count], [Acquire (Mmap_lock (mm_addr mm)), Release (Mmap_lock (mm_addr mm))]))"

section \<open>Demo 16: a slab cache\<close>

datatype slab_line = Slab_object u64 | Slab_data u64 | Slab_failed

text \<open>
  \<open>kmem_cache_alloc\<close> returns the address \<open>alloc\<close> or null. The object is written and read between
  its allocation and its release.
\<close>

definition demo_slab_show :: "u64 option \<Rightarrow> slab_line list \<times> kevent list" where
  "demo_slab_show alloc =
    (case alloc of
       Some obj \<Rightarrow>
         ([Slab_object obj, Slab_data 0xDEADBEEF],
          [Use (Cache ''demo_cache''), Acquire (Cache_obj obj), Use (Cache_obj obj), Use (Cache_obj obj),
           Use (Cache ''demo_cache''), Release (Cache_obj obj)])
     | None \<Rightarrow> ([Slab_failed], [Use (Cache ''demo_cache'')]))"

text \<open>
  Module state: whether \<open>demo_cache\<close> is a cache. \<open>created\<close> is whether \<open>kmem_cache_create\<close> succeeds;
  the result is 0 or \<open>-ENOMEM\<close>.
\<close>

definition demo_slab_init :: "bool \<Rightarrow> int \<times> bool \<times> kevent list" where
  "demo_slab_init created =
    (if \<not> created then (- 12, False, [])
     else (0, True, [Acquire (Cache ''demo_cache''), Acquire (Proc ''demo_slab'')]))"

definition demo_slab_exit :: "bool \<Rightarrow> kevent list" where
  "demo_slab_exit demo_cache =
    Release (Proc ''demo_slab'') # (if demo_cache then [Release (Cache ''demo_cache'')] else [])"

section \<open>Demo 17: the buddy allocator\<close>

datatype buddy_line =
    Buddy_order nat u64 u64
  | Buddy_at u64 u64
  | Buddy_failed nat

text \<open>\<open>alloc_pages order\<close> returns the first frame of a block or null.\<close>

definition buddy_alloc :: "(nat \<Rightarrow> u64 option) \<Rightarrow> nat \<Rightarrow> buddy_line list \<times> kevent list" where
  "buddy_alloc alloc_pages order =
    (case alloc_pages order of
       Some pfn \<Rightarrow>
         let phys = push_bit 12 pfn; size = push_bit order 1 * 4096 in
         ([Buddy_order order (push_bit order 1) size, Buddy_at pfn phys], [Acquire (Pages pfn order)])
     | None \<Rightarrow> ([Buddy_failed order], []))"

definition buddy_free :: "(nat \<Rightarrow> u64 option) \<Rightarrow> nat \<Rightarrow> kevent list" where
  "buddy_free alloc_pages order =
    (case alloc_pages order of Some pfn \<Rightarrow> [Release (Pages pfn order)] | None \<Rightarrow> [])"

definition demo_buddy_show :: "(nat \<Rightarrow> u64 option) \<Rightarrow> buddy_line list \<times> kevent list" where
  "demo_buddy_show alloc_pages =
    (let orders = [0, 1, 2, 3, 4]; allocs = map (buddy_alloc alloc_pages) orders in
     (concat (map fst allocs),
      concat (map snd allocs) @ concat (map (buddy_free alloc_pages) orders)))"

section \<open>What the process list shows\<close>

lemma pid_fold:
  "0 \<le> c \<Longrightarrow> c \<le> 10 \<Longrightarrow> fold (pid_step v2p) tasks (c, out) =
    (let rows = map (\<lambda>t. Pid_other (t_pid t) (t_comm t) (v2p (the (t_pgd t))))
         (filter (\<lambda>t. t_pgd t \<noteq> None) tasks) in
     (min 10 (c + int (length rows)), out @ take (nat (10 - c)) rows))"
proof (induction tasks arbitrary: c out)
  case Nil
  then show ?case by simp
next
  case (Cons t tasks)
  show ?case
  proof (cases "t_pgd t")
    case None
    with Cons show ?thesis by (simp add: pid_step_def)
  next
    case (Some pgd)
    show ?thesis
    proof (cases "c < 10")
      case True
      then have "nat (10 - c) = Suc (nat (10 - (c + 1)))" by simp
      with True Some Cons.IH [of "c + 1"] Cons.prems show ?thesis
        by (simp add: pid_step_def Let_def)
    next
      case False
      with Some Cons.IH [of c] Cons.prems show ?thesis by (simp add: pid_step_def Let_def)
    qed
  qed
qed

text \<open>
  The process file prints the current process and then the first ten processes of the list
  that have an address space, in list order with the physical address of their top-level table;
  kernel threads are skipped, and the RCU section is closed.
\<close>
theorem demo_pid_first_ten:
  "fst (demo_pid_show v2p cr3 current tasks) =
     Pid_self (t_pid current) (t_comm current) cr3 (cr3 AND 0x000FFFFFFFFFF000) #
       take 10 (map (\<lambda>t. Pid_other (t_pid t) (t_comm t) (v2p (the (t_pgd t))))
                  (filter (\<lambda>t. t_pgd t \<noteq> None) tasks)) \<and>
   balanced (snd (demo_pid_show v2p cr3 current tasks))"
  by (simp add: demo_pid_show_def pid_fold Let_def balanced_def held_def)

section \<open>Statistics\<close>

text \<open>
  When the totals do not overflow 64 bits, the zone file splits the memory it prints: DMA
  (16 MB), DMA32 (4080 MB) and the size it prints for the normal zone add up to the total whenever
  the total exceeds 4 GB, the normal zone is empty otherwise, and the free memory printed is the
  floor of its size in megabytes.
\<close>
theorem demo_zone_split:
  assumes "unat (totalram si) * unat (mem_unit si) < 2 ^ 64"
    and "unat (freeram si) * unat (mem_unit si) < 2 ^ 64"
  shows "\<exists>total free normal. demo_zone_show si = [Zone_total total, Zone_free free, Zone_normal normal] \<and>
    unat total = unat (totalram si) * unat (mem_unit si) div 2 ^ 20 \<and>
    unat free = unat (freeram si) * unat (mem_unit si) div 2 ^ 20 \<and>
    unat normal = unat total - (16 + 4080)"
proof -
  have mb: "unat ((x * ucast (mem_unit si)) div (1024 * 1024)) = unat x * unat (mem_unit si) div 2 ^ 20"
    if "unat x * unat (mem_unit si) < 2 ^ 64" for x :: u64
  proof -
    have "unat (mem_unit si) < 2 ^ LENGTH(32)" by (rule unsigned_less)
    then have "unat (ucast (mem_unit si) :: u64) = unat (mem_unit si)"
      by (simp add: unsigned_ucast_eq take_bit_nat_eq_self_iff)
    with that have "unat (x * ucast (mem_unit si)) = unat x * unat (mem_unit si)"
      by (simp add: unat_word_ariths)
    then show ?thesis by (simp add: unat_div_distrib)
  qed
  have normal: "unat (if 4096 < t then t - 4096 else 0) = unat t - (16 + 4080)" for t :: u64
    by (auto simp: word_less_nat_alt word_le_nat_alt not_less intro!: unat_sub [THEN trans])
  show ?thesis
    using mb [OF assms(1)] mb [OF assms(2)]
      normal [of "totalram si * ucast (mem_unit si) div 1048576"]
    by (auto simp: demo_zone_show_def Let_def split: if_splits)
qed

theorem demo_zone_split_witness:
  "\<exists>total free normal. demo_zone_show
     \<lparr>totalram = 0x400000, freeram = 0x100000, totalswap = 0, freeswap = 0, mem_unit = 4096\<rparr>
     = [Zone_total total, Zone_free free, Zone_normal normal] \<and>
     unat total = 16384 \<and> unat free = 4096 \<and> unat normal = 12288"
  using demo_zone_split
    [of "\<lparr>totalram = 0x400000, freeram = 0x100000, totalswap = 0, freeswap = 0, mem_unit = 4096\<rparr>"]
  by auto

text \<open>
  The swap file prints memory nobody has written: with a kernel that fills only the RAM fields
  of \<open>sysinfo\<close>, its swap lines are the initial contents of the stack variable.
\<close>
theorem demo_swap_uninitialised:
  assumes "\<And>s. totalswap (si_meminfo s) = totalswap s" and "\<And>s. freeswap (si_meminfo s) = freeswap s"
  shows "\<exists>mb mb'. drop 2 (demo_swap_show si_meminfo garbage) =
    [Swap_total_swap (totalswap garbage) mb, Swap_free_swap (freeswap garbage) mb']"
  by (simp add: demo_swap_show_def Let_def assms)

definition ram_only :: "sysinfo \<Rightarrow> sysinfo" where
  "ram_only s = s\<lparr>totalram := 1000, freeram := 400, mem_unit := 4096\<rparr>"

theorem demo_swap_uninitialised_witness:
  "\<exists>mb mb'. drop 2 (demo_swap_show ram_only
     \<lparr>totalram = 1, freeram = 2, totalswap = 7, freeswap = 9, mem_unit = 3\<rparr>) =
     [Swap_total_swap 7 mb, Swap_free_swap 9 mb']"
  using demo_swap_uninitialised
    [of ram_only "\<lparr>totalram = 1, freeram = 2, totalswap = 7, freeswap = 9, mem_unit = 3\<rparr>"]
  by (simp add: ram_only_def)

section \<open>Page flags and areas\<close>

text \<open>
  The flags file has one entry for each sampled frame in order: \<open>invalid\<close> exactly for the frames
  without a page descriptor, and otherwise the frame's own physical address, which is 4096 times
  its number (no sampled frame is shifted out), with six bits that are the page's tests.
\<close>
theorem demo_flags_samples:
  "list_all2 (\<lambda>n x. case x of
      Flags_invalid pfn \<Rightarrow> pfn = of_nat n \<and> \<not> pfn_valid pfn
    | Flags_page pfn fl phys a b c d e f \<Rightarrow> pfn = of_nat n \<and> pfn_valid pfn \<and> fl = page_flags pfn \<and>
        unat phys = 4096 * n \<and>
        [a, b, c, d, e, f] = map (\<lambda>p. of_bool (page_test p pfn))
          [PG_locked, PG_uptodate, PG_dirty, PG_lru, PG_slab, PG_reserved])
    [0, 1, 256, 1024, 65536, 262144] (demo_flags_show pfn_valid page_flags page_test)"
  by (simp add: demo_flags_show_def flags_case_def)

lemma vma_rows_spec:
  "0 \<le> c \<Longrightarrow> c \<le> 20 \<Longrightarrow> vma_rows vmas (c, out) =
    (min 20 (c + int (length vmas)),
     out @ take (nat (20 - c)) (map (\<lambda>v. Vma_row (vm_start v) (vm_end v)
       ((vm_end v - vm_start v) div 1024) (vma_perm (vm_flags v))) vmas))"
proof (induction vmas arbitrary: c out)
  case Nil
  then show ?case by simp
next
  case (Cons v vmas)
  show ?case
  proof (cases "c < 20")
    case True
    then have "nat (20 - c) = Suc (nat (20 - (c + 1)))" by simp
    with True Cons show ?thesis by (simp add: Let_def)
  next
    case False
    with Cons.prems show ?thesis by simp
  qed
qed

text \<open>
  The area file prints the first twenty areas with their size in kilobytes and permissions,
  counts the ones printed, holds the process's mmap lock around the loop and releases it on every
  path; a kernel thread is reported without touching an address space.
\<close>
theorem demo_vma_first_twenty:
  "(case mm of
      None \<Rightarrow> demo_vma_show current mm = ([Vma_no_mm], [])
    | Some s \<Rightarrow>
        drop 4 (fst (demo_vma_show current mm)) =
          map (\<lambda>v. Vma_row (vm_start v) (vm_end v) ((vm_end v - vm_start v) div 1024)
                 (vma_perm (vm_flags v))) (take 20 (mmap s))
          @ [Vma_count (int (min 20 (length (mmap s))))] \<and>
        snd (demo_vma_show current mm) = [Acquire (Mmap_lock (mm_addr s)), Release (Mmap_lock (mm_addr s))]) \<and>
   nested (snd (demo_vma_show current mm))"
  by (auto simp: demo_vma_show_def vma_rows_spec Let_def take_map nested_def split: option.splits)

lemma vma_perm_inj:
  "vma_perm f = vma_perm g \<longleftrightarrow>
     (f AND 1 = 0 \<longleftrightarrow> g AND 1 = 0) \<and> (f AND 2 = 0 \<longleftrightarrow> g AND 2 = 0) \<and>
     (f AND 4 = 0 \<longleftrightarrow> g AND 4 = 0) \<and> (f AND 8 = 0 \<longleftrightarrow> g AND 8 = 0)"
  by (simp add: vma_perm_def)

section \<open>Allocators\<close>

text \<open>
  Loading the slab module, reading its file any number of times and unloading it frees every
  object into its cache, destroys the cache and removes the file, whatever the allocations
  return. When the cache cannot be created, loading fails with \<open>-ENOMEM\<close> and leaves nothing behind.
\<close>
theorem demo_slab_lifecycle:
  "(case demo_slab_init created of (r, cache, tr) \<Rightarrow>
      (r = 0 \<longleftrightarrow> created) \<and>
      (if r = 0
       then balanced (tr @ concat (map (snd \<circ> demo_slab_show) allocs) @ demo_slab_exit cache)
       else r = - 12 \<and> tr = []))"
proof -
  have show_proc: "mrun rstep {#Cache ''demo_cache'', Proc ''demo_slab''#} (snd (demo_slab_show a) @ tr)
      = mrun rstep {#Cache ''demo_cache'', Proc ''demo_slab''#} tr" for a tr
    by (auto simp: demo_slab_show_def add_mset_commute split: option.splits)
  have "mrun rstep {#Cache ''demo_cache'', Proc ''demo_slab''#}
      (concat (map (snd \<circ> demo_slab_show) allocs) @ demo_slab_exit True) = Some {#}"
    by (induction allocs) (simp_all add: show_proc demo_slab_exit_def)
  then show ?thesis
    by (simp add: demo_slab_init_def balanced_def held_def add_mset_commute)
qed

text \<open>
  Whatever subset of its five requests the buddy allocator grants, the demo frees exactly the
  blocks it got, each with the order it was allocated with, and reports each order as a block or as
  failed.
\<close>
theorem demo_buddy_balanced:
  "balanced (snd (demo_buddy_show alloc_pages)) \<and>
   length (filter (\<lambda>x. case x of Buddy_failed k \<Rightarrow> alloc_pages k = None
      | Buddy_order k pages bytes \<Rightarrow> alloc_pages k \<noteq> None \<and> unat bytes = 2 ^ k * 4096
      | _ \<Rightarrow> False) (fst (demo_buddy_show alloc_pages))) = 5"
  by (cases "alloc_pages 0"; cases "alloc_pages 1"; cases "alloc_pages 2"; cases "alloc_pages 3";
      cases "alloc_pages 4")
    (simp_all add: demo_buddy_show_def buddy_alloc_def buddy_free_def balanced_def held_def Let_def)

end
