(* ===== verification/Proc_Iface.thy ===== *)
theory Proc_Iface
  imports Prelude Kernel_Trace
begin

text \<open>
  The proc interface of the 23 drivers: for each module its \<open>proc_ops\<close> table, the show function its
  \<open>open\<close> hands to \<open>single_open\<close>, and the calls its init and exit functions make. \<open>reg_step\<close> is the
  proc directory and the slab caches as the modules use them; \<open>reach\<close> loads and unloads modules in any
  order, and a load fails when the cache a module needs cannot be created. Opening and reading the files
  are not transitions here: what the show functions print is in the other theories.
\<close>

section \<open>Drivers\<close>

text \<open>\<open>Proc_create name mode\<close> is \<open>proc_create(name, mode, NULL, ops)\<close>; all modes are octal 0444.\<close>

datatype proc_call = Proc_create string nat | Remove_proc_entry string | Kmem_cache_create string | Kmem_cache_destroy string

record proc_ops =
  op_open :: string
  op_read :: string
  op_lseek :: string
  op_release :: string

record proc_driver =
  pd_show :: string
  pd_ops :: proc_ops
  pd_init :: "proc_call list"
  pd_exit :: "proc_call list"

definition demo_cr3_driver :: proc_driver where
  "demo_cr3_driver = \<lparr>
     pd_show = ''demo_cr3_show'',
     pd_ops = \<lparr>op_open = ''demo_cr3_open'', op_read = ''seq_read'', op_lseek = ''seq_lseek'', op_release = ''single_release''\<rparr>,
     pd_init = [Proc_create ''demo_cr3'' 292], pd_exit = [Remove_proc_entry ''demo_cr3'']\<rparr>"

definition demo_indices_driver :: proc_driver where
  "demo_indices_driver = \<lparr>
     pd_show = ''indices_show'',
     pd_ops = \<lparr>op_open = ''indices_open'', op_read = ''seq_read'', op_lseek = ''seq_lseek'', op_release = ''single_release''\<rparr>,
     pd_init = [Proc_create ''demo_indices'' 292], pd_exit = [Remove_proc_entry ''demo_indices'']\<rparr>"

definition demo_entry_driver :: proc_driver where
  "demo_entry_driver = \<lparr>
     pd_show = ''demo_entry_show'',
     pd_ops = \<lparr>op_open = ''demo_entry_open'', op_read = ''seq_read'', op_lseek = ''seq_lseek'', op_release = ''single_release''\<rparr>,
     pd_init = [Proc_create ''demo_entry'' 292], pd_exit = [Remove_proc_entry ''demo_entry'']\<rparr>"

definition demo_present_driver :: proc_driver where
  "demo_present_driver = \<lparr>
     pd_show = ''demo_present_show'',
     pd_ops = \<lparr>op_open = ''demo_present_open'', op_read = ''seq_read'', op_lseek = ''seq_lseek'', op_release = ''single_release''\<rparr>,
     pd_init = [Proc_create ''demo_present'' 292], pd_exit = [Remove_proc_entry ''demo_present'']\<rparr>"

definition demo_huge_driver :: proc_driver where
  "demo_huge_driver = \<lparr>
     pd_show = ''demo_huge_show'',
     pd_ops = \<lparr>op_open = ''demo_huge_open'', op_read = ''seq_read'', op_lseek = ''seq_lseek'', op_release = ''single_release''\<rparr>,
     pd_init = [Proc_create ''demo_huge'' 292], pd_exit = [Remove_proc_entry ''demo_huge'']\<rparr>"

definition demo_addr_driver :: proc_driver where
  "demo_addr_driver = \<lparr>
     pd_show = ''demo_addr_show'',
     pd_ops = \<lparr>op_open = ''demo_addr_open'', op_read = ''seq_read'', op_lseek = ''seq_lseek'', op_release = ''single_release''\<rparr>,
     pd_init = [Proc_create ''demo_addr'' 292], pd_exit = [Remove_proc_entry ''demo_addr'']\<rparr>"

definition demo_walk4kb_driver :: proc_driver where
  "demo_walk4kb_driver = \<lparr>
     pd_show = ''demo_walk4kb_show'',
     pd_ops = \<lparr>op_open = ''demo_walk4kb_open'', op_read = ''seq_read'', op_lseek = ''seq_lseek'', op_release = ''single_release''\<rparr>,
     pd_init = [Proc_create ''demo_walk4kb'' 292], pd_exit = [Remove_proc_entry ''demo_walk4kb'']\<rparr>"

definition demo_walk2mb_driver :: proc_driver where
  "demo_walk2mb_driver = \<lparr>
     pd_show = ''demo_walk2mb_show'',
     pd_ops = \<lparr>op_open = ''demo_walk2mb_open'', op_read = ''seq_read'', op_lseek = ''seq_lseek'', op_release = ''single_release''\<rparr>,
     pd_init = [Proc_create ''demo_walk2mb'' 292], pd_exit = [Remove_proc_entry ''demo_walk2mb'']\<rparr>"

definition demo_walk1gb_driver :: proc_driver where
  "demo_walk1gb_driver = \<lparr>
     pd_show = ''demo_walk1gb_show'',
     pd_ops = \<lparr>op_open = ''demo_walk1gb_open'', op_read = ''seq_read'', op_lseek = ''seq_lseek'', op_release = ''single_release''\<rparr>,
     pd_init = [Proc_create ''demo_walk1gb'' 292], pd_exit = [Remove_proc_entry ''demo_walk1gb'']\<rparr>"

definition demo_va_driver :: proc_driver where
  "demo_va_driver = \<lparr>
     pd_show = ''demo_va_show'',
     pd_ops = \<lparr>op_open = ''demo_va_open'', op_read = ''seq_read'', op_lseek = ''seq_lseek'', op_release = ''single_release''\<rparr>,
     pd_init = [Proc_create ''demo_va'' 292], pd_exit = [Remove_proc_entry ''demo_va'']\<rparr>"

definition demo_pml4_driver :: proc_driver where
  "demo_pml4_driver = \<lparr>
     pd_show = ''demo_pml4_show'',
     pd_ops = \<lparr>op_open = ''demo_pml4_open'', op_read = ''seq_read'', op_lseek = ''seq_lseek'', op_release = ''single_release''\<rparr>,
     pd_init = [Proc_create ''demo_pml4'' 292], pd_exit = [Remove_proc_entry ''demo_pml4'']\<rparr>"

definition demo_pid_driver :: proc_driver where
  "demo_pid_driver = \<lparr>
     pd_show = ''demo_pid_show'',
     pd_ops = \<lparr>op_open = ''demo_pid_open'', op_read = ''seq_read'', op_lseek = ''seq_lseek'', op_release = ''single_release''\<rparr>,
     pd_init = [Proc_create ''demo_pid'' 292], pd_exit = [Remove_proc_entry ''demo_pid'']\<rparr>"

definition demo_zone_driver :: proc_driver where
  "demo_zone_driver = \<lparr>
     pd_show = ''demo_zone_show'',
     pd_ops = \<lparr>op_open = ''demo_zone_open'', op_read = ''seq_read'', op_lseek = ''seq_lseek'', op_release = ''single_release''\<rparr>,
     pd_init = [Proc_create ''demo_zone'' 292], pd_exit = [Remove_proc_entry ''demo_zone'']\<rparr>"

definition demo_flags_driver :: proc_driver where
  "demo_flags_driver = \<lparr>
     pd_show = ''demo_flags_show'',
     pd_ops = \<lparr>op_open = ''demo_flags_open'', op_read = ''seq_read'', op_lseek = ''seq_lseek'', op_release = ''single_release''\<rparr>,
     pd_init = [Proc_create ''demo_flags'' 292], pd_exit = [Remove_proc_entry ''demo_flags'']\<rparr>"

definition demo_vma_driver :: proc_driver where
  "demo_vma_driver = \<lparr>
     pd_show = ''demo_vma_show'',
     pd_ops = \<lparr>op_open = ''demo_vma_open'', op_read = ''seq_read'', op_lseek = ''seq_lseek'', op_release = ''single_release''\<rparr>,
     pd_init = [Proc_create ''demo_vma'' 292], pd_exit = [Remove_proc_entry ''demo_vma'']\<rparr>"

definition demo_slab_driver :: proc_driver where
  "demo_slab_driver = \<lparr>
     pd_show = ''demo_slab_show'',
     pd_ops = \<lparr>op_open = ''demo_slab_open'', op_read = ''seq_read'', op_lseek = ''seq_lseek'', op_release = ''single_release''\<rparr>,
     pd_init = [Kmem_cache_create ''demo_cache'', Proc_create ''demo_slab'' 292],
     pd_exit = [Remove_proc_entry ''demo_slab'', Kmem_cache_destroy ''demo_cache'']\<rparr>"

definition demo_buddy_driver :: proc_driver where
  "demo_buddy_driver = \<lparr>
     pd_show = ''demo_buddy_show'',
     pd_ops = \<lparr>op_open = ''demo_buddy_open'', op_read = ''seq_read'', op_lseek = ''seq_lseek'', op_release = ''single_release''\<rparr>,
     pd_init = [Proc_create ''demo_buddy'' 292], pd_exit = [Remove_proc_entry ''demo_buddy'']\<rparr>"

definition demo_tlb_driver :: proc_driver where
  "demo_tlb_driver = \<lparr>
     pd_show = ''demo_tlb_show'',
     pd_ops = \<lparr>op_open = ''demo_tlb_open'', op_read = ''seq_read'', op_lseek = ''seq_lseek'', op_release = ''single_release''\<rparr>,
     pd_init = [Proc_create ''demo_tlb'' 292], pd_exit = [Remove_proc_entry ''demo_tlb'']\<rparr>"

definition demo_cow_driver :: proc_driver where
  "demo_cow_driver = \<lparr>
     pd_show = ''demo_cow_show'',
     pd_ops = \<lparr>op_open = ''demo_cow_open'', op_read = ''seq_read'', op_lseek = ''seq_lseek'', op_release = ''single_release''\<rparr>,
     pd_init = [Proc_create ''demo_cow'' 292], pd_exit = [Remove_proc_entry ''demo_cow'']\<rparr>"

definition demo_swap_driver :: proc_driver where
  "demo_swap_driver = \<lparr>
     pd_show = ''demo_swap_show'',
     pd_ops = \<lparr>op_open = ''demo_swap_open'', op_read = ''seq_read'', op_lseek = ''seq_lseek'', op_release = ''single_release''\<rparr>,
     pd_init = [Proc_create ''demo_swap'' 292], pd_exit = [Remove_proc_entry ''demo_swap'']\<rparr>"

definition legacy_walk_driver :: proc_driver where
  "legacy_walk_driver = \<lparr>
     pd_show = ''demo_legacy_walk_show'',
     pd_ops = \<lparr>op_open = ''demo_legacy_walk_open'', op_read = ''seq_read'', op_lseek = ''seq_lseek'', op_release = ''single_release''\<rparr>,
     pd_init = [Proc_create ''legacy_walk'' 292], pd_exit = [Remove_proc_entry ''legacy_walk'']\<rparr>"

definition legacy_asid_driver :: proc_driver where
  "legacy_asid_driver = \<lparr>
     pd_show = ''demo_asid_show'',
     pd_ops = \<lparr>op_open = ''demo_asid_open'', op_read = ''seq_read'', op_lseek = ''seq_lseek'', op_release = ''single_release''\<rparr>,
     pd_init = [Proc_create ''legacy_asid'' 292], pd_exit = [Remove_proc_entry ''legacy_asid'']\<rparr>"

definition prove_direct_map_driver :: proc_driver where
  "prove_direct_map_driver = \<lparr>
     pd_show = ''prove_show'',
     pd_ops = \<lparr>op_open = ''prove_open'', op_read = ''seq_read'', op_lseek = ''seq_lseek'', op_release = ''single_release''\<rparr>,
     pd_init = [Proc_create ''prove_direct_map'' 292], pd_exit = [Remove_proc_entry ''prove_direct_map'']\<rparr>"

definition proc_drivers :: "proc_driver list" where
  "proc_drivers = [demo_cr3_driver,
     demo_indices_driver,
     demo_entry_driver,
     demo_present_driver,
     demo_huge_driver,
     demo_addr_driver,
     demo_walk4kb_driver,
     demo_walk2mb_driver,
     demo_walk1gb_driver,
     demo_va_driver,
     demo_pml4_driver,
     demo_pid_driver,
     demo_zone_driver,
     demo_flags_driver,
     demo_vma_driver,
     demo_slab_driver,
     demo_buddy_driver,
     demo_tlb_driver,
     demo_cow_driver,
     demo_swap_driver,
     legacy_walk_driver,
     legacy_asid_driver,
     prove_direct_map_driver]"

section \<open>The proc directory and the module loader\<close>

text \<open>
  \<open>proc_create\<close> fails when the name is taken (the drivers do not look at its result);
  \<open>remove_proc_entry\<close> warns when there is no such entry, and a cache is destroyed that was created.
  A violation is \<open>None\<close> here.
\<close>

record registry =
  rg_entries :: "string list"
  rg_caches :: "string list"

fun reg_step :: "registry \<Rightarrow> proc_call \<Rightarrow> registry option" where
  "reg_step rg (Proc_create name mode) =
    (if name \<in> set (rg_entries rg) then None else Some (rg\<lparr>rg_entries := name # rg_entries rg\<rparr>))"
| "reg_step rg (Remove_proc_entry name) =
    (if name \<in> set (rg_entries rg) then Some (rg\<lparr>rg_entries := removeAll name (rg_entries rg)\<rparr>) else None)"
| "reg_step rg (Kmem_cache_create name) = Some (rg\<lparr>rg_caches := name # rg_caches rg\<rparr>)"
| "reg_step rg (Kmem_cache_destroy name) =
    (if name \<in> set (rg_caches rg) then Some (rg\<lparr>rg_caches := remove1 name (rg_caches rg)\<rparr>) else None)"

text \<open>An init function ends with \<open>-ENOMEM\<close> where a cache cannot be \<open>created\<close>, and with 0 behind its last call.\<close>

fun creates_cache :: "proc_call \<Rightarrow> bool" where
  "creates_cache (Kmem_cache_create name) = True"
| "creates_cache _ = False"

fun init_run :: "bool \<Rightarrow> registry \<Rightarrow> proc_call list \<Rightarrow> (int \<times> registry) option" where
  "init_run created rg [] = Some (0, rg)"
| "init_run created rg (c # cs) =
    (if creates_cache c \<and> \<not> created then Some (-12, rg)
     else case reg_step rg c of None \<Rightarrow> None | Some rg' \<Rightarrow> init_run created rg' cs)"

type_synonym sys_state = "proc_driver list \<times> registry"

text \<open>\<open>reach boot\<close>: the states some sequence of loads and unloads leads to from a freshly booted system.\<close>

inductive reach :: "registry \<Rightarrow> sys_state \<Rightarrow> bool" for boot where
  start: "reach boot ([], boot)"
| load: "\<lbrakk>reach boot (loaded, rg); d \<in> set proc_drivers; d \<notin> set loaded;
      init_run created rg (pd_init d) = Some (0, rg')\<rbrakk> \<Longrightarrow> reach boot (d # loaded, rg')"
| load_fails: "\<lbrakk>reach boot (loaded, rg); d \<in> set proc_drivers; d \<notin> set loaded;
      init_run created rg (pd_init d) = Some (r, rg'); r \<noteq> 0\<rbrakk> \<Longrightarrow> reach boot (loaded, rg')"
| unload: "\<lbrakk>reach boot (loaded, rg); d \<in> set loaded; mrun reg_step rg (pd_exit d) = Some rg'\<rbrakk>
    \<Longrightarrow> reach boot (removeAll d loaded, rg')"

definition entry_of :: "proc_driver \<Rightarrow> string" where
  "entry_of d = (case last (pd_init d) of Proc_create name mode \<Rightarrow> name | _ \<Rightarrow> [])"

text \<open>The one module that has a cache is \<open>demo_slab\<close>.\<close>

definition cache_init :: "proc_driver \<Rightarrow> proc_call list" where
  "cache_init d = (if d = demo_slab_driver then [Kmem_cache_create ''demo_cache''] else [])"

definition cache_exit :: "proc_driver \<Rightarrow> proc_call list" where
  "cache_exit d = (if d = demo_slab_driver then [Kmem_cache_destroy ''demo_cache''] else [])"

definition driver_shape :: "proc_driver \<Rightarrow> bool" where
  "driver_shape d \<longleftrightarrow> pd_init d = cache_init d @ [Proc_create (entry_of d) 292] \<and>
     pd_exit d = Remove_proc_entry (entry_of d) # cache_exit d \<and>
     op_read (pd_ops d) = ''seq_read'' \<and> op_lseek (pd_ops d) = ''seq_lseek'' \<and>
     op_release (pd_ops d) = ''single_release''"

lemmas driver_defs =
  demo_cr3_driver_def demo_indices_driver_def demo_entry_driver_def demo_present_driver_def
  demo_huge_driver_def demo_addr_driver_def demo_walk4kb_driver_def demo_walk2mb_driver_def
  demo_walk1gb_driver_def demo_va_driver_def demo_pml4_driver_def demo_pid_driver_def
  demo_zone_driver_def demo_flags_driver_def demo_vma_driver_def demo_slab_driver_def
  demo_buddy_driver_def demo_tlb_driver_def demo_cow_driver_def demo_swap_driver_def
  legacy_walk_driver_def legacy_asid_driver_def prove_direct_map_driver_def

lemma drivers_shape: "list_all driver_shape proc_drivers"
  by (simp add: proc_drivers_def driver_shape_def entry_of_def cache_init_def cache_exit_def driver_defs)

lemma entries_distinct: "distinct (map entry_of proc_drivers)"
  by (simp add: proc_drivers_def entry_of_def driver_defs)

lemma driver_calls:
  assumes "d \<in> set proc_drivers"
  shows "pd_init d = cache_init d @ [Proc_create (entry_of d) 292]" and "pd_exit d = Remove_proc_entry (entry_of d) # cache_exit d"
  using drivers_shape assms by (auto simp: list_all_iff driver_shape_def)

lemma entry_inj: "d \<in> set proc_drivers \<Longrightarrow> e \<in> set proc_drivers \<Longrightarrow> entry_of d = entry_of e \<Longrightarrow> d = e"
  using entries_distinct by (auto simp: distinct_map dest: inj_onD)

text \<open>What a load and an unload do.\<close>

definition with_caches :: "proc_driver \<Rightarrow> string list \<Rightarrow> string list" where
  "with_caches d cs = (if d = demo_slab_driver then ''demo_cache'' # cs else cs)"

lemma load_run:
  assumes "d \<in> set proc_drivers"
  shows "init_run created rg (pd_init d) =
    (if d = demo_slab_driver \<and> \<not> created then Some (-12, rg)
     else if entry_of d \<in> set (rg_entries rg) then None
     else Some (0, rg\<lparr>rg_entries := entry_of d # rg_entries rg, rg_caches := with_caches d (rg_caches rg)\<rparr>))"
  by (simp add: driver_calls(1) [OF assms] cache_init_def with_caches_def)

lemma unload_run:
  assumes "d \<in> set proc_drivers"
  shows "mrun reg_step rg (pd_exit d) =
    (if entry_of d \<notin> set (rg_entries rg) \<or> d = demo_slab_driver \<and> ''demo_cache'' \<notin> set (rg_caches rg) then None
     else Some (rg\<lparr>rg_entries := removeAll (entry_of d) (rg_entries rg),
       rg_caches := if d = demo_slab_driver then remove1 ''demo_cache'' (rg_caches rg) else rg_caches rg\<rparr>))"
  by (simp add: driver_calls(2) [OF assms] cache_exit_def)

section \<open>Modules do not get in each other's way\<close>

lemma reach_inv:
  assumes "reach boot s" and "set (rg_entries boot) \<inter> entry_of ` set proc_drivers = {}"
  shows "set (fst s) \<subseteq> set proc_drivers \<and> set (rg_entries (snd s)) = set (rg_entries boot) \<union> entry_of ` set (fst s) \<and>
    mset (rg_caches (snd s)) = mset (rg_caches boot) + (if demo_slab_driver \<in> set (fst s) then {#''demo_cache''#} else {#})"
  using assms(1)
proof (induction rule: reach.induct)
  case start
  then show ?case by simp
next
  case (load loaded rg d created rg')
  then show ?case by (auto simp: load_run with_caches_def split: if_splits)
next
  case (load_fails loaded rg d created r rg')
  then show ?case by (auto simp: load_run split: if_splits)
next
  case (unload loaded rg d rg')
  then have d: "d \<in> set proc_drivers" and sub: "set loaded \<subseteq> set proc_drivers"
    and reg: "set (rg_entries rg) = set (rg_entries boot) \<union> entry_of ` set loaded"
    and caches: "mset (rg_caches rg) = mset (rg_caches boot) + (if demo_slab_driver \<in> set loaded then {#''demo_cache''#} else {#})"
    by auto
  from unload.hyps(3) have rg': "set (rg_entries rg') = set (rg_entries rg) - {entry_of d}"
      "rg_caches rg' = (if d = demo_slab_driver then remove1 ''demo_cache'' (rg_caches rg) else rg_caches rg)"
    by (auto simp: unload_run [OF d] simp del: mrun.simps split: if_splits)
  have "entry_of ` set loaded - {entry_of d} = entry_of ` (set loaded - {d})"
    using entry_inj [OF d] sub by blast
  moreover have "entry_of d \<notin> set (rg_entries boot)" using assms(2) d by blast
  moreover have "mset (rg_caches rg') = mset (rg_caches boot) +
      (if demo_slab_driver \<in> set (removeAll d loaded) then {#''demo_cache''#} else {#})"
    using caches unload.hyps(2) by (auto simp: rg'(2))
  ultimately show ?case using reg rg'(1) sub by auto
qed

text \<open>
  The drivers can be loaded and unloaded in any order, whichever loads fail on the way: in every
  reachable state the proc directory holds the boot entries and those of the loaded modules and nothing
  else, and \<open>demo_cache\<close> exists exactly while \<open>demo_slab\<close> is loaded. Loading any module that is not loaded
  creates its entry without a name clash, except that \<open>demo_slab\<close> fails with \<open>-ENOMEM\<close>, and leaves
  nothing behind, when its cache cannot be created; unloading any loaded one finds its entry and cache.
\<close>
theorem proc_modules_independent:
  assumes "reach boot (loaded, rg)" and "set (rg_entries boot) \<inter> entry_of ` set proc_drivers = {}"
  shows "set (rg_entries rg) = set (rg_entries boot) \<union> entry_of ` set loaded \<and>
    mset (rg_caches rg) = mset (rg_caches boot) + (if demo_slab_driver \<in> set loaded then {#''demo_cache''#} else {#}) \<and>
    list_all (\<lambda>d. if d \<in> set loaded then mrun reg_step rg (pd_exit d) \<noteq> None
       else init_run created rg (pd_init d) =
         (if d = demo_slab_driver \<and> \<not> created then Some (-12, rg)
          else Some (0, rg\<lparr>rg_entries := entry_of d # rg_entries rg, rg_caches := with_caches d (rg_caches rg)\<rparr>)))
      proc_drivers"
proof -
  from reach_inv [OF assms] have sub: "set loaded \<subseteq> set proc_drivers"
    and reg: "set (rg_entries rg) = set (rg_entries boot) \<union> entry_of ` set loaded"
    and caches: "mset (rg_caches rg) = mset (rg_caches boot) + (if demo_slab_driver \<in> set loaded then {#''demo_cache''#} else {#})"
    by auto
  have "if d \<in> set loaded then mrun reg_step rg (pd_exit d) \<noteq> None
      else init_run created rg (pd_init d) =
         (if d = demo_slab_driver \<and> \<not> created then Some (-12, rg)
          else Some (0, rg\<lparr>rg_entries := entry_of d # rg_entries rg, rg_caches := with_caches d (rg_caches rg)\<rparr>))"
    if d: "d \<in> set proc_drivers" for d
  proof (cases "d \<in> set loaded")
    case True
    have "''demo_cache'' \<in># mset (rg_caches rg)" if "d = demo_slab_driver" using True that by (simp add: caches)
    then show ?thesis using True reg by (simp add: unload_run [OF d] del: mrun.simps)
  next
    case False
    then have "entry_of d \<notin> entry_of ` set loaded" using sub d entry_inj by blast
    moreover have "entry_of d \<notin> set (rg_entries boot)" using assms(2) d by blast
    ultimately show ?thesis using False reg by (simp add: load_run [OF d])
  qed
  with reg caches show ?thesis by (simp add: list_all_iff)
qed

end
