(* ===== verification/X86_Pgtable.thy ===== *)
theory X86_Pgtable
  imports Paging
begin

text \<open>
  The x86 page-table accessors of \<open>kernel_module/pgtable.h\<close>, \<open>pgtable_types.h\<close> and
  \<open>pgtable-invert.h\<close> that the inspection modules call, on 64-bit entry values. The configuration is
  x86-64 without memory encryption (\<open>PHYSICAL_PAGE_MASK\<close> is bits 12 to 51); whether five-level
  paging is enabled at run time and whether page-table isolation is configured are arguments.
\<close>

unbundle bit_operations_syntax

section \<open>Flag words and masks\<close>

abbreviation PAGE_PRESENT :: u64 where "PAGE_PRESENT \<equiv> 0x1"
abbreviation PAGE_USER :: u64 where "PAGE_USER \<equiv> 0x4"
abbreviation PAGE_ACCESSED :: u64 where "PAGE_ACCESSED \<equiv> 0x20"
abbreviation PAGE_PSE :: u64 where "PAGE_PSE \<equiv> 0x80"
abbreviation PAGE_NX :: u64 where "PAGE_NX \<equiv> 0x8000000000000000"
abbreviation KERNPG_TABLE :: u64 where "KERNPG_TABLE \<equiv> 0x63"
abbreviation KNL_ERRATUM_MASK :: u64 where "KNL_ERRATUM_MASK \<equiv> 0x60"

definition pte_needs_invert :: "u64 \<Rightarrow> bool" where
  "pte_needs_invert val \<longleftrightarrow> val \<noteq> 0 \<and> val AND PAGE_PRESENT = 0"

definition protnone_mask :: "u64 \<Rightarrow> u64" where
  "protnone_mask val = (if pte_needs_invert val then NOT 0 else 0)"

definition pte_pfn :: "u64 \<Rightarrow> u64" where
  "pte_pfn pte = drop_bit 12 ((pte XOR protnone_mask pte) AND PTE_ADDR_MASK)"

definition pud_pfn_mask :: "u64 \<Rightarrow> u64" where
  "pud_pfn_mask pud = (if pud AND PAGE_PSE \<noteq> 0 then HUGE_1GB_MASK else PTE_ADDR_MASK)"

definition pud_flags_mask :: "u64 \<Rightarrow> u64" where
  "pud_flags_mask pud = NOT (pud_pfn_mask pud)"

definition pud_flags :: "u64 \<Rightarrow> u64" where
  "pud_flags pud = pud AND pud_flags_mask pud"

definition pmd_pfn_mask :: "u64 \<Rightarrow> u64" where
  "pmd_pfn_mask pmd = (if pmd AND PAGE_PSE \<noteq> 0 then HUGE_2MB_MASK else PTE_ADDR_MASK)"

definition pmd_flags_mask :: "u64 \<Rightarrow> u64" where
  "pmd_flags_mask pmd = NOT (pmd_pfn_mask pmd)"

definition pmd_flags :: "u64 \<Rightarrow> u64" where
  "pmd_flags pmd = pmd AND pmd_flags_mask pmd"

definition p4d_pfn_mask :: "u64 \<Rightarrow> u64" where
  "p4d_pfn_mask p4d = PTE_ADDR_MASK"

definition p4d_flags_mask :: "u64 \<Rightarrow> u64" where
  "p4d_flags_mask p4d = NOT (p4d_pfn_mask p4d)"

definition p4d_flags :: "u64 \<Rightarrow> u64" where
  "p4d_flags p4d = p4d AND p4d_flags_mask p4d"

section \<open>Tests on entries\<close>

definition pmd_leaf :: "u64 \<Rightarrow> bool" where
  "pmd_leaf pmd \<longleftrightarrow> pmd_flags pmd AND PAGE_PSE \<noteq> 0"

definition pmd_none :: "u64 \<Rightarrow> bool" where
  "pmd_none pmd \<longleftrightarrow> pmd AND NOT KNL_ERRATUM_MASK = 0"

definition pmd_bad :: "u64 \<Rightarrow> bool" where
  "pmd_bad pmd \<longleftrightarrow>
     pmd_flags pmd AND NOT (PAGE_USER OR PAGE_ACCESSED) \<noteq> KERNPG_TABLE AND NOT PAGE_ACCESSED"

definition pud_none :: "u64 \<Rightarrow> bool" where
  "pud_none pud \<longleftrightarrow> pud AND NOT KNL_ERRATUM_MASK = 0"

definition pud_leaf :: "u64 \<Rightarrow> bool" where
  "pud_leaf pud \<longleftrightarrow> pud AND PAGE_PSE \<noteq> 0"

definition pud_bad :: "u64 \<Rightarrow> bool" where
  "pud_bad pud \<longleftrightarrow> pud_flags pud AND NOT (KERNPG_TABLE OR PAGE_USER) \<noteq> 0"

definition p4d_none :: "u64 \<Rightarrow> bool" where
  "p4d_none p4d \<longleftrightarrow> p4d AND NOT KNL_ERRATUM_MASK = 0"

definition p4d_bad :: "bool \<Rightarrow> u64 \<Rightarrow> bool" where
  "p4d_bad pti p4d \<longleftrightarrow>
    (let ignore_flags = KERNPG_TABLE OR PAGE_USER;
         ignore_flags = (if pti then ignore_flags OR PAGE_NX else ignore_flags) in
     p4d_flags p4d AND NOT ignore_flags \<noteq> 0)"

definition pgd_bad :: "bool \<Rightarrow> bool \<Rightarrow> u64 \<Rightarrow> bool" where
  "pgd_bad l5 pti pgd \<longleftrightarrow>
    (let ignore_flags = PAGE_USER in
     if \<not> l5 then False
     else let ignore_flags = (if pti then ignore_flags OR PAGE_NX else ignore_flags) in
       (pgd AND NOT PTE_ADDR_MASK) AND NOT ignore_flags \<noteq> KERNPG_TABLE)"

definition pgd_none :: "bool \<Rightarrow> u64 \<Rightarrow> bool" where
  "pgd_none l5 pgd \<longleftrightarrow> (if \<not> l5 then False else pgd = 0)"

section \<open>Tests on leaf entries\<close>

definition pte_flags :: "u64 \<Rightarrow> u64" where
  "pte_flags pte = pte AND NOT PTE_ADDR_MASK"

definition pte_none :: "u64 \<Rightarrow> bool" where
  "pte_none pte \<longleftrightarrow> pte AND NOT KNL_ERRATUM_MASK = 0"

definition pte_present :: "u64 \<Rightarrow> bool" where
  "pte_present pte \<longleftrightarrow> pte_flags pte AND 0x101 \<noteq> 0"

definition pte_soft_dirty :: "u64 \<Rightarrow> bool" where
  "pte_soft_dirty pte \<longleftrightarrow> pte_flags pte AND 0x800 \<noteq> 0"

definition pte_uffd_wp :: "u64 \<Rightarrow> bool" where
  "pte_uffd_wp pte \<longleftrightarrow> pte_flags pte AND 0x400 \<noteq> 0"

definition pte_swp_soft_dirty :: "u64 \<Rightarrow> bool" where
  "pte_swp_soft_dirty pte \<longleftrightarrow> pte_flags pte AND 0x2 \<noteq> 0"

definition pte_swp_uffd_wp :: "u64 \<Rightarrow> bool" where
  "pte_swp_uffd_wp pte \<longleftrightarrow> pte_flags pte AND 0x4 \<noteq> 0"

definition pmd_present :: "u64 \<Rightarrow> bool" where
  "pmd_present pmd \<longleftrightarrow> pmd_flags pmd AND 0x181 \<noteq> 0"

definition pmd_soft_dirty :: "u64 \<Rightarrow> bool" where
  "pmd_soft_dirty pmd \<longleftrightarrow> pmd_flags pmd AND 0x800 \<noteq> 0"

definition pmd_uffd_wp :: "u64 \<Rightarrow> bool" where
  "pmd_uffd_wp pmd \<longleftrightarrow> pmd_flags pmd AND 0x400 \<noteq> 0"

definition pmd_swp_soft_dirty :: "u64 \<Rightarrow> bool" where
  "pmd_swp_soft_dirty pmd \<longleftrightarrow> pmd_flags pmd AND 0x2 \<noteq> 0"

definition pmd_swp_uffd_wp :: "u64 \<Rightarrow> bool" where
  "pmd_swp_uffd_wp pmd \<longleftrightarrow> pmd_flags pmd AND 0x4 \<noteq> 0"

definition pmd_pfn :: "u64 \<Rightarrow> u64" where
  "pmd_pfn pmd = drop_bit 12 ((pmd XOR protnone_mask pmd) AND pmd_pfn_mask pmd)"

definition pte_dirty :: "u64 \<Rightarrow> bool" where
  "pte_dirty pte \<longleftrightarrow> pte_flags pte AND 0x400000000000040 \<noteq> 0"

definition pte_young :: "u64 \<Rightarrow> bool" where
  "pte_young pte \<longleftrightarrow> pte_flags pte AND 0x20 \<noteq> 0"

definition pmd_dirty :: "u64 \<Rightarrow> bool" where
  "pmd_dirty pmd \<longleftrightarrow> pmd_flags pmd AND 0x400000000000040 \<noteq> 0"

definition pmd_young :: "u64 \<Rightarrow> bool" where
  "pmd_young pmd \<longleftrightarrow> pmd_flags pmd AND 0x20 \<noteq> 0"

section \<open>From an entry to the next table\<close>

definition pgd_page_vaddr :: "machine \<Rightarrow> u64 \<Rightarrow> u64" where
  "pgd_page_vaddr m pgd = kva m (pgd AND PTE_ADDR_MASK)"

definition p4d_pgtable :: "machine \<Rightarrow> u64 \<Rightarrow> u64" where
  "p4d_pgtable m p4d = kva m (p4d AND p4d_pfn_mask p4d)"

definition pud_pgtable :: "machine \<Rightarrow> u64 \<Rightarrow> u64" where
  "pud_pgtable m pud = kva m (pud AND pud_pfn_mask pud)"

definition pmd_page_vaddr :: "machine \<Rightarrow> u64 \<Rightarrow> u64" where
  "pmd_page_vaddr m pmd = kva m (pmd AND pmd_pfn_mask pmd)"

text \<open>\<open>p4d_index\<close> with five levels has 512 entries; the pointer arithmetic is in 8-byte units.\<close>

definition p4d_index :: "u64 \<Rightarrow> u64" where
  "p4d_index address = drop_bit 39 address AND 0x1FF"

definition p4d_offset :: "machine \<Rightarrow> bool \<Rightarrow> u64 \<Rightarrow> u64 \<Rightarrow> u64" where
  "p4d_offset m l5 pgd address =
    (if \<not> l5 then pgd else pgd_page_vaddr m (kload m pgd) + 8 * p4d_index address)"

section \<open>What the tests decide\<close>

lemma flag_numerals:
  "(0x63 :: int) = push_bit 5 3 OR 3" "(0x60 :: int) = push_bit 5 3" "(0x67 :: int) = push_bit 5 3 OR 7"
  "(0x43 :: int) = push_bit 6 1 OR 3" "(0x24 :: int) = push_bit 5 1 OR push_bit 2 1"
  "(0x80 :: int) = push_bit 7 1"
  by simp_all

lemma small_bits: "bit (3 :: int) n \<longleftrightarrow> n = 0 \<or> n = 1" "bit (7 :: int) n \<longleftrightarrow> n = 0 \<or> n = 1 \<or> n = 2"
proof -
  have "bit (3 :: int) n \<longleftrightarrow> n < 2" "bit (7 :: int) n \<longleftrightarrow> n < 3"
    using bit_mask_iff [of 2 n, where ?'a = int] bit_mask_iff [of 3 n, where ?'a = int]
    by (simp_all add: mask_eq_exp_minus_1)
  then show "bit (3 :: int) n \<longleftrightarrow> n = 0 \<or> n = 1" "bit (7 :: int) n \<longleftrightarrow> n = 0 \<or> n = 1 \<or> n = 2"
    by auto
qed

lemma int_flag_bits:
  "bit (0x63 :: int) n \<longleftrightarrow> n \<in> {0, 1, 5, 6}" "bit (0x60 :: int) n \<longleftrightarrow> n \<in> {5, 6}"
  "bit (0x67 :: int) n \<longleftrightarrow> n \<in> {0, 1, 2, 5, 6}" "bit (0x43 :: int) n \<longleftrightarrow> n \<in> {0, 1, 6}"
  "bit (0x24 :: int) n \<longleftrightarrow> n \<in> {2, 5}" "bit (0x80 :: int) n \<longleftrightarrow> n = 7"
  by (simp_all only: flag_numerals bit_or_iff bit_push_bit_iff small_bits bit_1_iff) auto

lemma flag_bits:
  fixes n :: nat
  shows "bit (0x63 :: u64) n \<longleftrightarrow> n \<in> {0, 1, 5, 6}" and "bit (0x60 :: u64) n \<longleftrightarrow> n \<in> {5, 6}"
    and "bit (0x67 :: u64) n \<longleftrightarrow> n \<in> {0, 1, 2, 5, 6}" and "bit (0x43 :: u64) n \<longleftrightarrow> n \<in> {0, 1, 6}"
    and "bit (0x24 :: u64) n \<longleftrightarrow> n \<in> {2, 5}" and "bit (0x80 :: u64) n \<longleftrightarrow> n = 7"
  by (auto simp: int_flag_bits)

lemmas entry_bits = int_flag_bits flag_bits bit_range_masks bit_and_iff bit_not_iff bit_or_iff

lemma word_neq_0_iff: "x \<noteq> 0 \<longleftrightarrow> (\<exists>n < 64. bit x n)" for x :: u64
  by (auto simp: bit_eq_iff dest: bit_u64_bound)

lemma pfn_mask_bits:
  "bit (pud_pfn_mask p) n \<longleftrightarrow> (if bit p 7 then 30 else 12) \<le> n \<and> n < 52"
  "bit (pmd_pfn_mask p) n \<longleftrightarrow> (if bit p 7 then 21 else 12) \<le> n \<and> n < 52"
  "bit (p4d_pfn_mask p) n \<longleftrightarrow> 12 \<le> n \<and> n < 52"
  by (auto simp: pud_pfn_mask_def pmd_pfn_mask_def p4d_pfn_mask_def and_pow2_iff bit_range_masks)

lemma flags_bits:
  "bit (pud_flags p) n \<longleftrightarrow> bit p n \<and> \<not> ((if bit p 7 then 30 else 12) \<le> n \<and> n < 52)"
  "bit (pmd_flags p) n \<longleftrightarrow> bit p n \<and> \<not> ((if bit p 7 then 21 else 12) \<le> n \<and> n < 52)"
  "bit (p4d_flags p) n \<longleftrightarrow> bit p n \<and> \<not> (12 \<le> n \<and> n < 52)"
  by (auto simp: pud_flags_def pud_flags_mask_def pmd_flags_def pmd_flags_mask_def p4d_flags_def
      p4d_flags_mask_def bit_and_iff bit_not_iff pfn_mask_bits dest: bit_u64_bound)

lemma pud_leaf_iff: "pud_leaf p \<longleftrightarrow> bit p 7"
  by (simp add: pud_leaf_def and_pow2_iff)

lemma pmd_leaf_iff: "pmd_leaf p \<longleftrightarrow> bit p 7"
  by (simp add: pmd_leaf_def and_pow2_iff flags_bits)

lemma leaf_is_bad: "pud_leaf p \<Longrightarrow> pud_bad p" "pmd_leaf p \<Longrightarrow> pmd_bad p"
proof -
  assume "pud_leaf p"
  then have "bit (pud_flags p AND NOT (KERNPG_TABLE OR PAGE_USER)) 7"
    by (simp add: pud_leaf_iff flags_bits entry_bits)
  then show "pud_bad p" by (auto simp: pud_bad_def)
next
  assume "pmd_leaf p"
  then have "bit (pmd_flags p AND NOT (PAGE_USER OR PAGE_ACCESSED)) 7"
    by (simp add: pmd_leaf_iff flags_bits entry_bits)
  moreover have "\<not> bit (KERNPG_TABLE AND NOT PAGE_ACCESSED) 7"
    by (simp add: entry_bits)
  ultimately show "pmd_bad p" by (auto simp: pmd_bad_def)
qed

lemma not_pud_bad: "\<not> pud_bad p \<Longrightarrow> \<not> bit p 7"
  using leaf_is_bad(1) by (auto simp: pud_leaf_iff)

lemma not_pmd_bad: "\<not> pmd_bad p \<Longrightarrow> \<not> bit p 7 \<and> bit p 0"
proof
  assume good: "\<not> pmd_bad p"
  then show "\<not> bit p 7" using leaf_is_bad(2) by (auto simp: pmd_leaf_iff)
  from good have "bit (pmd_flags p AND NOT (PAGE_USER OR PAGE_ACCESSED)) n
      = bit (KERNPG_TABLE AND NOT PAGE_ACCESSED) n" for n
    by (simp only: pmd_bad_def not_not)
  from this [of 0] show "bit p 0"
    by (simp only: bit_and_iff bit_not_iff bit_or_iff flag_bits single_flag_bits flags_bits) simp
qed

lemma table_of_entry:
  "\<not> bit p 7 \<Longrightarrow> pud_pgtable m p = kva m (leaf_frame 1 p)"
  "\<not> bit p 7 \<Longrightarrow> pmd_page_vaddr m p = kva m (leaf_frame 1 p)"
  "p4d_pgtable m p = kva m (leaf_frame 1 p)"
  by (simp_all add: pud_pgtable_def pmd_page_vaddr_def p4d_pgtable_def pud_pfn_mask_def
      pmd_pfn_mask_def p4d_pfn_mask_def word_masks)

lemma pte_pfn_present: "bit p 0 \<Longrightarrow> pte_pfn p = drop_bit 12 (leaf_frame 1 p)"
  by (simp add: pte_pfn_def protnone_mask_def pte_needs_invert_def and_one_eq_0_iff source_frames)

lemma pte_pfn_phys: "bit p 0 \<Longrightarrow> push_bit 12 (pte_pfn p) = leaf_frame 1 p"
  by (auto simp: pte_pfn_present bit_eq_iff bit_push_bit_iff bit_drop_bit_eq bit_leaf_frame)

lemma pte_pfn_zero: "pte_pfn 0 = 0"
  by (simp add: pte_pfn_def protnone_mask_def pte_needs_invert_def)

text \<open>A non-present entry that is not 0 (a swap entry) is read with its frame bits inverted.\<close>

lemma pte_pfn_inverted:
  "p \<noteq> 0 \<Longrightarrow> \<not> bit p 0 \<Longrightarrow> pte_pfn p = drop_bit 12 (NOT p AND PTE_ADDR_MASK)"
  by (simp add: pte_pfn_def protnone_mask_def pte_needs_invert_def and_one_eq_0_iff)

lemma pte_inverted_phys:
  "p \<noteq> 0 \<Longrightarrow> \<not> bit p 0 \<Longrightarrow> push_bit 12 (pte_pfn p) = NOT p AND PTE_ADDR_MASK"
  unfolding pte_pfn_inverted source_frames
  by (auto simp: bit_eq_iff bit_push_bit_iff bit_drop_bit_eq bit_leaf_frame)

end
