(* ===== verification/Page_Inspect.thy ===== *)
theory Page_Inspect
  imports X86_Pgtable Kernel_Trace
begin

text \<open>
  The modules that translate an address of another process by hand: \<open>malloc_pagefault/mm_exercise_hw.c\<close>
  (an ioctl that inspects a frame or traces a walk) and \<open>refcount_exercise/phys_proof.c\<close>. Kernel
  functions outside the repository (task lookup, the generic \<open>*_offset\<close> helpers, \<open>pfn_valid\<close>) are the
  fields of \<open>kapi\<close>; \<open>documented\<close> states what the code relies on.
\<close>

unbundle bit_operations_syntax

section \<open>What the kernel provides\<close>

record kapi =
  api_pgd_index :: "u64 \<Rightarrow> u64"
  api_pgd_offset :: "u64 \<Rightarrow> u64 \<Rightarrow> u64"
  api_pud_offset :: "u64 \<Rightarrow> u64 \<Rightarrow> u64"
  api_pmd_offset :: "u64 \<Rightarrow> u64 \<Rightarrow> u64"
  api_pte_offset :: "u64 \<Rightarrow> u64 \<Rightarrow> u64"
  api_pfn_valid :: "u64 \<Rightarrow> bool"
  api_virt_addr_valid :: "u64 \<Rightarrow> bool"
  api_l5 :: bool
  api_pti :: bool

text \<open>\<open>km_pgd\<close> is \<open>mm->pgd\<close>, the virtual address of the top-level table.\<close>

record kmm =
  km_addr :: u64
  km_pgd :: u64

record ktask =
  kt_addr :: u64
  kt_comm :: string
  kt_pid :: int
  kt_mm :: "kmm option"

record page_info =
  pi_addr :: u64
  pi_flags :: u64
  pi_ref :: int
  pi_map :: int
  pi_compound :: bool
  pi_head :: bool
  pi_order :: nat

section \<open>\<open>mm_exercise_hw.c\<close>\<close>

datatype axiom_line =
    Ax_verify u64
  | Ax_invalid_pfn u64
  | Ax_page u64 u64
  | Ax_pfn_phys u64 u64
  | Ax_va u64 u64
  | Ax_flags u64
  | Ax_refcount int
  | Ax_mapcount int
  | Ax_compound
  | Ax_head nat
  | Ax_tail
  | Ax_no_task int
  | Ax_task u64 string int
  | Ax_no_mm
  | Ax_mm u64
  | Ax_walk u64
  | Ax_math u64 u64 u64 u64
  | Ax_level nat u64 u64
  | Ax_terminated nat
  | Ax_huge nat
  | Ax_pte_failed
  | Ax_pte_invalid u64 u64 u64
  | Ax_pte u64 u64
  | Ax_phys u64 u64 u64
  | Ax_ram "8 word list"
  | Ax_hex "8 word list"
  | Ax_not_linear u64

definition verify_pfn_axiom :: "machine \<Rightarrow> kapi \<Rightarrow> (u64 \<Rightarrow> page_info) \<Rightarrow> u64 \<Rightarrow> axiom_line list" where
  "verify_pfn_axiom m api pfn_to_page pfn =
    Ax_verify pfn #
    (if \<not> api_pfn_valid api pfn then [Ax_invalid_pfn pfn] else
     let page = pfn_to_page pfn;
         phys_addr = push_bit 12 pfn;
         virt_addr = kva m phys_addr in
     [Ax_page pfn (pi_addr page), Ax_pfn_phys pfn phys_addr, Ax_va phys_addr virt_addr,
      Ax_flags (pi_flags page), Ax_refcount (pi_ref page), Ax_mapcount (pi_map page)] @
     (if pi_compound page
      then [Ax_compound, if pi_head page then Ax_head (pi_order page) else Ax_tail]
      else []))"

definition load_byte :: "machine \<Rightarrow> u64 \<Rightarrow> 8 word" where
  "load_byte m a = ucast (kload m a)"

text \<open>The part of \<open>trace_page_table_walk\<close> between taking and releasing the lock.\<close>

definition axiom_walk :: "machine \<Rightarrow> kapi \<Rightarrow> kmm \<Rightarrow> u64 \<Rightarrow> axiom_line list" where
  "axiom_walk m api mm va =
    (let pgd_idx = api_pgd_index api va;
         pud_idx = drop_bit 30 va AND (512 - 1);
         pmd_idx = drop_bit 21 va AND (512 - 1);
         pte_idx = drop_bit 12 va AND (512 - 1);
         pgd = api_pgd_offset api (km_pgd mm) va;
         pgd_v = kload m pgd;
         out = [Ax_math pgd_idx pud_idx pmd_idx pte_idx, Ax_level 1 pgd_idx pgd_v] in
     if pgd_none (api_l5 api) pgd_v \<or> pgd_bad (api_l5 api) (api_pti api) pgd_v
     then out @ [Ax_terminated 1] else
     let p4d = p4d_offset m (api_l5 api) pgd va;
         pud = api_pud_offset api p4d va;
         pud_v = kload m pud;
         out = out @ [Ax_level 2 pud_idx pud_v] in
     if pud_none pud_v \<or> pud_bad pud_v then out @ [Ax_terminated 2] else
     if pud_leaf pud_v then out @ [Ax_huge 2] else
     let pmd = api_pmd_offset api pud va;
         pmd_v = kload m pmd;
         out = out @ [Ax_level 3 pmd_idx pmd_v] in
     if pmd_none pmd_v \<or> pmd_bad pmd_v then out @ [Ax_terminated 3] else
     if pmd_leaf pmd_v then out @ [Ax_huge 3] else
     let pte = api_pte_offset api pmd va in
     if pte = 0 then out @ [Ax_pte_failed] else
     let pte_val_raw = kload m pte;
         pfn = pte_pfn pte_val_raw;
         va_offset = va AND 0xFFF in
     if \<not> api_pfn_valid api pfn then out @ [Ax_pte_invalid pte_idx pte_val_raw pfn] else
     let phys_addr = push_bit 12 pfn OR va_offset;
         kaddr = kva m phys_addr in
     out @ [Ax_pte pte_idx pte_val_raw, Ax_phys pfn va_offset phys_addr] @
     (if api_virt_addr_valid api kaddr
      then [Ax_ram (map (\<lambda>i. load_byte m (kaddr + of_nat i)) [0..<16]),
            Ax_hex (map (\<lambda>i. load_byte m (kaddr + of_nat i)) [0..<4])]
      else [Ax_not_linear kaddr]))"

text \<open>\<open>get_pid_task\<close> looks a process up and takes a reference; for the caller itself it is \<open>current\<close>.\<close>

definition trace_page_table_walk ::
  "machine \<Rightarrow> kapi \<Rightarrow> ktask \<Rightarrow> (int \<Rightarrow> ktask option) \<Rightarrow> int \<Rightarrow> u64 \<Rightarrow> axiom_line list \<times> kevent list" where
  "trace_page_table_walk m api current get_pid_task pid va =
    (let found = (if pid = kt_pid current then Some current else get_pid_task pid) in
     case found of
       None \<Rightarrow> ([Ax_no_task pid], [])
     | Some task \<Rightarrow>
         let tr = [Acquire (Task_ref (kt_addr task))];
             out = [Ax_task (kt_addr task) (kt_comm task) (kt_pid task)] in
         (case kt_mm task of
            None \<Rightarrow> (out @ [Ax_no_mm], tr @ [Release (Task_ref (kt_addr task))])
          | Some mm \<Rightarrow>
              (out @ [Ax_mm (km_addr mm), Ax_walk va] @ axiom_walk m api mm va,
               tr @ [Acquire (Mm_ref (km_addr mm)), Acquire (Mmap_lock (km_addr mm)),
                     Release (Mmap_lock (km_addr mm)), Release (Mm_ref (km_addr mm)),
                     Release (Task_ref (kt_addr task))])))"

text \<open>
  The ioctl: its commands are \<open>_IOW('a', 1, unsigned long)\<close> and \<open>_IOW('a', 2, struct axiom_walk_args)\<close>;
  \<open>get_user\<close> and \<open>copy_from_user\<close> return nothing when the user pointer faults.
\<close>

definition mm_axiom_ioctl ::
  "machine \<Rightarrow> kapi \<Rightarrow> (u64 \<Rightarrow> page_info) \<Rightarrow> ktask \<Rightarrow> (int \<Rightarrow> ktask option) \<Rightarrow>
   (u64 \<Rightarrow> u64 option) \<Rightarrow> (u64 \<Rightarrow> (int \<times> u64) option) \<Rightarrow> u32 \<Rightarrow> u64 \<Rightarrow>
   int \<times> axiom_line list \<times> kevent list" where
  "mm_axiom_ioctl m api pfn_to_page current get_pid_task get_user copy_from_user cmd arg =
    (if cmd = 0x40086101 then
       (case get_user arg of
          None \<Rightarrow> (- 14, [], [])
        | Some pfn \<Rightarrow> (0, verify_pfn_axiom m api pfn_to_page pfn, []))
     else if cmd = 0x40106102 then
       (case copy_from_user arg of
          None \<Rightarrow> (- 14, [], [])
        | Some (pid, va) \<Rightarrow> (0, trace_page_table_walk m api current get_pid_task pid va))
     else (- 22, [], []))"

section \<open>\<open>phys_proof.c\<close>\<close>

datatype proof_line =
    Proof_init int u64
  | Proof_bad nat
  | Proof_result int u64 u64

text \<open>The walk under the lock: \<open>Proof_bad\<close> names the level (4 PGD, 3 P4D, 2 PUD, 1 PMD, 0 PTE).\<close>

definition proof_walk :: "machine \<Rightarrow> kapi \<Rightarrow> kmm \<Rightarrow> int \<Rightarrow> u64 \<Rightarrow> proof_line list" where
  "proof_walk m api mm target_pid target_addr =
    (let pgd = api_pgd_offset api (km_pgd mm) target_addr; pgd_v = kload m pgd in
     if pgd_none (api_l5 api) pgd_v \<or> pgd_bad (api_l5 api) (api_pti api) pgd_v then [Proof_bad 4] else
     let p4d = p4d_offset m (api_l5 api) pgd target_addr; p4d_v = kload m p4d in
     if p4d_none p4d_v \<or> p4d_bad (api_pti api) p4d_v then [Proof_bad 3] else
     let pud = api_pud_offset api p4d target_addr; pud_v = kload m pud in
     if pud_none pud_v \<or> pud_bad pud_v then [Proof_bad 2] else
     let pmd = api_pmd_offset api pud target_addr; pmd_v = kload m pmd in
     if pmd_none pmd_v \<or> pmd_bad pmd_v then [Proof_bad 1] else
     let pte = api_pte_offset api pmd target_addr in
     if pte = 0 then [Proof_bad 0] else
     [Proof_result target_pid target_addr (push_bit 12 (pte_pfn (kload m pte)))])"

text \<open>\<open>find_get_pid\<close> and \<open>get_pid_task\<close> take references; the result is 0, \<open>-ESRCH\<close> or \<open>-EINVAL\<close>.\<close>

definition proof_init ::
  "machine \<Rightarrow> kapi \<Rightarrow> (int \<Rightarrow> u64 option) \<Rightarrow> (u64 \<Rightarrow> ktask option) \<Rightarrow> int \<Rightarrow> u64 \<Rightarrow>
   int \<times> proof_line list \<times> kevent list" where
  "proof_init m api find_get_pid get_pid_task target_pid target_addr =
    (let out = [Proof_init target_pid target_addr] in
     case find_get_pid target_pid of
       None \<Rightarrow> (- 3, out, [])
     | Some pid_struct \<Rightarrow>
         let tr = [Acquire (Pid_ref pid_struct), Use (Pid_ref pid_struct)] in
         (case get_pid_task pid_struct of
            None \<Rightarrow> (- 3, out, tr)
          | Some task \<Rightarrow>
              let tr = tr @ [Acquire (Task_ref (kt_addr task))] in
              (case kt_mm task of
                 None \<Rightarrow> (- 22, out, tr @ [Release (Task_ref (kt_addr task))])
               | Some mm \<Rightarrow>
                   (0, out @ proof_walk m api mm target_pid target_addr,
                    tr @ [Acquire (Mmap_lock (km_addr mm)), Release (Mmap_lock (km_addr mm)),
                          Release (Task_ref (kt_addr task)), Release (Pid_ref pid_struct)]))))"

section \<open>What the walks rely on\<close>

text \<open>
  The documented behaviour of the generic helpers on four levels: each adds eight times its index
  to the table its argument points to (\<open>handle_pte_fault_worksheet.md\<close> states the same).
\<close>

definition documented :: "machine \<Rightarrow> kapi \<Rightarrow> bool" where
  "documented m api \<longleftrightarrow> \<not> api_l5 api \<and>
     (\<forall>va. api_pgd_index api va = va_index 4 va) \<and>
     (\<forall>p va. api_pgd_offset api p va = p + 8 * va_index 4 va) \<and>
     (\<forall>p va. api_pud_offset api p va = p4d_pgtable m (kload m p) + 8 * va_index 3 va) \<and>
     (\<forall>p va. api_pmd_offset api p va = pud_pgtable m (kload m p) + 8 * va_index 2 va) \<and>
     (\<forall>p va. api_pte_offset api p va = pmd_page_vaddr m (kload m p) + 8 * va_index 1 va)"

definition std_api :: "machine \<Rightarrow> kapi" where
  "std_api m = \<lparr>api_pgd_index = va_index 4,
     api_pgd_offset = (\<lambda>p va. p + 8 * va_index 4 va),
     api_pud_offset = (\<lambda>p va. p4d_pgtable m (kload m p) + 8 * va_index 3 va),
     api_pmd_offset = (\<lambda>p va. pud_pgtable m (kload m p) + 8 * va_index 2 va),
     api_pte_offset = (\<lambda>p va. pmd_page_vaddr m (kload m p) + 8 * va_index 1 va),
     api_pfn_valid = (\<lambda>pfn. True), api_virt_addr_valid = (\<lambda>a. True),
     api_l5 = False, api_pti = False\<rparr>"

lemma std_api_documented: "documented m (std_api m)"
  by (simp add: documented_def std_api_def)

text \<open>\<open>mm_maps m mm c\<close>: the address space \<open>mm\<close> is the one that CR3 value \<open>c\<close> selects.\<close>

definition mm_maps :: "machine \<Rightarrow> kmm \<Rightarrow> u64 \<Rightarrow> bool" where
  "mm_maps m mm c \<longleftrightarrow> km_pgd mm = kva m (c AND PTE_ADDR_MASK)"

definition mm_translate :: "machine \<Rightarrow> u64 \<Rightarrow> u64 \<Rightarrow> xres" where
  "mm_translate m c va = translate (m\<lparr>cr3_reg := c\<rparr>) va"

definition entry4 :: "machine \<Rightarrow> u64 \<Rightarrow> u64 \<Rightarrow> u64" where
  "entry4 m c va = read_entry_raw m (leaf_frame 1 c) (va_index 4 va)"

definition entry3 :: "machine \<Rightarrow> u64 \<Rightarrow> u64 \<Rightarrow> u64" where
  "entry3 m c va = read_entry_raw m (leaf_frame 1 (entry4 m c va)) (va_index 3 va)"

definition entry2 :: "machine \<Rightarrow> u64 \<Rightarrow> u64 \<Rightarrow> u64" where
  "entry2 m c va = read_entry_raw m (leaf_frame 1 (entry3 m c va)) (va_index 2 va)"

definition entry1 :: "machine \<Rightarrow> u64 \<Rightarrow> u64 \<Rightarrow> u64" where
  "entry1 m c va = read_entry_raw m (leaf_frame 1 (entry2 m c va)) (va_index 1 va)"

lemma mm_translate_entries:
  "mm_translate m c va =
    (if \<not> bit (entry4 m c va) 0 then Absent 4
     else if \<not> bit (entry3 m c va) 0 then Absent 3
     else if bit (entry3 m c va) 7 then Leaf 3 (leaf_frame 3 (entry3 m c va) OR take_bit 30 va)
     else if \<not> bit (entry2 m c va) 0 then Absent 2
     else if bit (entry2 m c va) 7 then Leaf 2 (leaf_frame 2 (entry2 m c va) OR take_bit 21 va)
     else if \<not> bit (entry1 m c va) 0 then Absent 1
     else Leaf 1 (leaf_frame 1 (entry1 m c va) OR take_bit 12 va))"
  by (simp add: mm_translate_def translate_def xlate_unfold Let_def entry1_def entry2_def entry3_def
      entry4_def)

lemma api_loads:
  assumes "documented m api" and "mm_maps m mm c"
  shows "kload m (api_pgd_offset api (km_pgd mm) va) = entry4 m c va"
    and "kload m (api_pud_offset api (api_pgd_offset api (km_pgd mm) va) va) = entry3 m c va"
    and "\<not> pud_bad (entry3 m c va) \<Longrightarrow>
      kload m (api_pmd_offset api (api_pud_offset api (api_pgd_offset api (km_pgd mm) va) va) va)
        = entry2 m c va"
    and "\<not> pud_bad (entry3 m c va) \<Longrightarrow> \<not> pmd_bad (entry2 m c va) \<Longrightarrow>
      kload m (api_pte_offset api (api_pmd_offset api (api_pud_offset api
        (api_pgd_offset api (km_pgd mm) va) va) va) va) = entry1 m c va"
proof -
  note doc = assms(1) [unfolded documented_def]
  show e4: "kload m (api_pgd_offset api (km_pgd mm) va) = entry4 m c va"
    using doc assms(2) by (simp add: entry4_def read_entry_raw_def mm_maps_def source_frames)
  show e3: "kload m (api_pud_offset api (api_pgd_offset api (km_pgd mm) va) va) = entry3 m c va"
    using doc e4 by (simp add: entry3_def read_entry_raw_def table_of_entry)
  show e2: "kload m (api_pmd_offset api (api_pud_offset api (api_pgd_offset api (km_pgd mm) va) va) va)
      = entry2 m c va" if "\<not> pud_bad (entry3 m c va)"
    using doc e3 not_pud_bad [OF that] by (simp add: entry2_def read_entry_raw_def table_of_entry)
  show "kload m (api_pte_offset api (api_pmd_offset api (api_pud_offset api
      (api_pgd_offset api (km_pgd mm) va) va) va) va) = entry1 m c va"
    if "\<not> pud_bad (entry3 m c va)" "\<not> pmd_bad (entry2 m c va)"
    using doc e2 [OF that(1)] not_pmd_bad [OF that(2)]
    by (simp add: entry1_def read_entry_raw_def table_of_entry)
qed

lemma four_levels:
  assumes "documented m api"
  shows "pgd_none (api_l5 api) p = False" and "pgd_bad (api_l5 api) pti p = False"
    and "p4d_offset m (api_l5 api) p va = p"
  using assms by (simp_all add: documented_def pgd_none_def pgd_bad_def p4d_offset_def)

section \<open>The walk of the ioctl\<close>

text \<open>The physical address a trace ends with, when it reports one.\<close>

fun axiom_phys :: "axiom_line list \<Rightarrow> u64 option" where
  "axiom_phys [] = None"
| "axiom_phys (Ax_phys pfn off phys # ls) = Some phys"
| "axiom_phys (_ # ls) = axiom_phys ls"

lemma axiom_walk_phys:
  assumes "documented m api" and "mm_maps m mm c"
  shows "axiom_phys (axiom_walk m api mm va) =
    (if pud_none (entry3 m c va) \<or> pud_bad (entry3 m c va) \<or> pmd_none (entry2 m c va)
        \<or> pmd_bad (entry2 m c va) \<or> api_pte_offset api (api_pmd_offset api (api_pud_offset api
             (api_pgd_offset api (km_pgd mm) va) va) va) va = 0
        \<or> \<not> api_pfn_valid api (pte_pfn (entry1 m c va))
     then None else Some (push_bit 12 (pte_pfn (entry1 m c va)) OR take_bit 12 va))"
proof -
  note unfolds = axiom_walk_def Let_def four_levels [OF assms(1)] api_loads(1,2) [OF assms]
  consider (bad3) "pud_none (entry3 m c va) \<or> pud_bad (entry3 m c va)"
    | (bad2) "\<not> pud_none (entry3 m c va)" "\<not> pud_bad (entry3 m c va)"
        "pmd_none (entry2 m c va) \<or> pmd_bad (entry2 m c va)"
    | (good) "\<not> pud_none (entry3 m c va)" "\<not> pud_bad (entry3 m c va)"
        "\<not> pmd_none (entry2 m c va)" "\<not> pmd_bad (entry2 m c va)"
    by blast
  then show ?thesis
  proof cases
    case bad3
    then show ?thesis by (auto simp: unfolds)
  next
    case bad2
    then have "\<not> pud_leaf (entry3 m c va)" using leaf_is_bad(1) by blast
    with bad2 show ?thesis by (auto simp: unfolds api_loads(3) [OF assms])
  next
    case good
    then have "\<not> pud_leaf (entry3 m c va)" "\<not> pmd_leaf (entry2 m c va)"
      using leaf_is_bad by blast+
    with good show ?thesis by (simp add: unfolds api_loads(3,4) [OF assms] and_low_mask)
  qed
qed

text \<open>
  C14. The ioctl's walk is sound where the tables are present: if the PML4 entry, the PDPT entry and
  the page-table entry of the address are present, a physical address it reports is the one the
  specification translates the address to.
\<close>
theorem axiom_walk_sound:
  assumes "documented m api" and "mm_maps m mm c"
    and "bit (entry4 m c va) 0" and "bit (entry3 m c va) 0" and "bit (entry1 m c va) 0"
    and "axiom_phys (axiom_walk m api mm va) = Some phys"
  shows "mm_translate m c va = Leaf 1 phys"
proof -
  from assms(6) have good: "\<not> pud_bad (entry3 m c va)" "\<not> pmd_bad (entry2 m c va)"
    and phys: "phys = push_bit 12 (pte_pfn (entry1 m c va)) OR take_bit 12 va"
    by (simp_all add: axiom_walk_phys [OF assms(1,2)] split: if_splits)
  with not_pud_bad not_pmd_bad assms(3-5) show ?thesis
    by (simp add: mm_translate_entries pte_pfn_phys)
qed

definition tiny_mm :: kmm where
  "tiny_mm = \<lparr>km_addr = 0x9000, km_pgd = 0x1000\<rparr>"

text \<open>\<open>tables_machine pte\<close> is \<open>tiny_machine\<close> with table entries the kernel would write (0x67 flags).\<close>

definition tables_machine :: "u64 \<Rightarrow> machine" where
  "tables_machine pte = \<lparr>cr3_reg = 0x1000, page_offset_base = 0,
     kload = (\<lambda>a. if a = 0x1000 then 0x2067 else if a = 0x2000 then 0x3067
                  else if a = 0x3000 then 0x4067 else if a = 0x4000 then pte else 0)\<rparr>"

lemma tables_machine_entries:
  "entry4 (tables_machine pte) 0x1000 0x123 = 0x2067"
  "entry3 (tables_machine pte) 0x1000 0x123 = 0x3067"
  "entry2 (tables_machine pte) 0x1000 0x123 = 0x4067"
  "entry1 (tables_machine pte) 0x1000 0x123 = pte"
proof -
  note unfolds = read_entry_raw_def kva_def va_index_def source_frames(1) [symmetric] tables_machine_def
  show e4: "entry4 (tables_machine pte) 0x1000 0x123 = 0x2067"
    unfolding entry4_def unfolds by simp
  show e3: "entry3 (tables_machine pte) 0x1000 0x123 = 0x3067"
    unfolding entry3_def e4 unfolding unfolds by simp
  show e2: "entry2 (tables_machine pte) 0x1000 0x123 = 0x4067"
    unfolding entry2_def e3 unfolding unfolds by simp
  show "entry1 (tables_machine pte) 0x1000 0x123 = pte"
    unfolding entry1_def e2 unfolding unfolds by simp
qed

lemma tables_machine_mm: "mm_maps (tables_machine pte) tiny_mm 0x1000"
  by (simp add: mm_maps_def tiny_mm_def tables_machine_def kva_def)

lemma tables_machine_pte:
  "api_pte_offset (std_api (tables_machine pte)) (api_pmd_offset (std_api (tables_machine pte))
     (api_pud_offset (std_api (tables_machine pte)) (api_pgd_offset (std_api (tables_machine pte))
       (km_pgd tiny_mm) 0x123) 0x123) 0x123) 0x123 = 0x4000"
  by (simp add: std_api_def tables_machine_def tiny_mm_def va_index_def p4d_pgtable_def pud_pgtable_def
      pmd_page_vaddr_def p4d_pfn_mask_def pud_pfn_mask_def pmd_pfn_mask_def kva_def)

lemma tables_good:
  "\<not> pud_none 0x3067" "\<not> pud_bad 0x3067" "\<not> pmd_none 0x4067" "\<not> pmd_bad 0x4067"
  "\<not> p4d_none 0x2067" "\<not> p4d_bad False 0x2067"
  by (simp_all add: pud_none_def pud_bad_def pmd_none_def pmd_bad_def pud_flags_def pud_flags_mask_def
      pud_pfn_mask_def pmd_flags_def pmd_flags_mask_def pmd_pfn_mask_def p4d_none_def p4d_bad_def
      p4d_flags_def p4d_flags_mask_def p4d_pfn_mask_def)

lemma tables_machine_phys:
  "axiom_phys (axiom_walk (tables_machine pte) (std_api (tables_machine pte)) tiny_mm 0x123)
     = Some (push_bit 12 (pte_pfn pte) OR 0x123)"
  unfolding axiom_walk_phys [OF std_api_documented tables_machine_mm] tables_machine_entries
    tables_machine_pte
  by (simp add: tables_good std_api_def)

theorem axiom_walk_sound_witness:
  "axiom_phys (axiom_walk (tables_machine 0x5067) (std_api (tables_machine 0x5067)) tiny_mm 0x123)
     = Some 0x5123 \<and> mm_translate (tables_machine 0x5067) 0x1000 0x123 = Leaf 1 0x5123"
proof -
  have phys: "axiom_phys (axiom_walk (tables_machine 0x5067) (std_api (tables_machine 0x5067))
      tiny_mm 0x123) = Some 0x5123"
    unfolding tables_machine_phys
    by (simp add: pte_pfn_def protnone_mask_def pte_needs_invert_def)
  show ?thesis
    using axiom_walk_sound [OF std_api_documented tables_machine_mm _ _ _ phys] phys
    by (simp add: tables_machine_entries)
qed

text \<open>
  The ioctl never reports a huge page. Its branches for 1 GB and 2 MB pages are unreachable,
  because an entry with the page-size bit is \<open>bad\<close> for \<open>pud_bad\<close> and \<open>pmd_bad\<close>, which are asked first.
\<close>
theorem axiom_walk_no_huge: "list_all (\<lambda>x. x \<noteq> Ax_huge l) (axiom_walk m api mm va)"
  using leaf_is_bad by (auto simp: axiom_walk_def Let_def)

text \<open>
  An address whose PML4 entry is empty is not recognised as unmapped: on four levels the tests
  of the top level are constant, and the ioctl goes on to load and report an entry of physical
  page 0 as if it were the next table.
\<close>
theorem axiom_walk_reads_page_zero:
  assumes "documented m api" and "mm_maps m mm c" and "entry4 m c va = 0"
  shows "mm_translate m c va = Absent 4 \<and>
    axiom_walk m api mm va ! 2 = Ax_level 2 (va_index 3 va) (kload m (page_offset_base m + 8 * va_index 3 va))"
proof -
  have "entry3 m c va = kload m (page_offset_base m + 8 * va_index 3 va)"
    by (simp add: entry3_def assms(3) read_entry_raw_def kva_def leaf_frame_def)
  then show ?thesis
    by (simp add: mm_translate_entries assms(3) axiom_walk_def Let_def four_levels [OF assms(1)]
        api_loads(1,2) [OF assms(1,2)] word_masks)
qed

theorem axiom_walk_reads_page_zero_witness:
  "mm_translate (tables_machine 0) 0x1000 0x8000000000 = Absent 4 \<and>
   axiom_walk (tables_machine 0) (std_api (tables_machine 0)) tiny_mm 0x8000000000 ! 2 = Ax_level 2 0 0"
proof -
  have idx: "va_index 3 0x8000000000 = 0" by (simp add: va_index_def)
  have empty: "entry4 (tables_machine 0) 0x1000 0x8000000000 = 0"
    unfolding entry4_def read_entry_raw_def kva_def va_index_def source_frames(1) [symmetric]
      tables_machine_def by simp
  have zero: "kload (tables_machine 0) (page_offset_base (tables_machine 0) + 8 * 0) = 0"
    by (simp add: tables_machine_def)
  show ?thesis
    using axiom_walk_reads_page_zero [OF std_api_documented tables_machine_mm empty]
    unfolding idx zero by simp
qed

section \<open>The proof module\<close>

lemma proof_walk_entries:
  assumes "documented m api" and "mm_maps m mm c"
  shows "proof_walk m api mm pid va =
    (if p4d_none (entry4 m c va) \<or> p4d_bad (api_pti api) (entry4 m c va) then [Proof_bad 3]
     else if pud_none (entry3 m c va) \<or> pud_bad (entry3 m c va) then [Proof_bad 2]
     else if pmd_none (entry2 m c va) \<or> pmd_bad (entry2 m c va) then [Proof_bad 1]
     else if api_pte_offset api (api_pmd_offset api (api_pud_offset api
            (api_pgd_offset api (km_pgd mm) va) va) va) va = 0 then [Proof_bad 0]
     else [Proof_result pid va (push_bit 12 (pte_pfn (entry1 m c va)))])"
  by (simp add: proof_walk_def Let_def four_levels [OF assms(1)] api_loads [OF assms])

text \<open>
  What the proof module prints for a page-table entry is decided by that entry alone. It prints
  the frame of the specification's translation when the entry is present; an unmapped page whose
  entry is 0 is printed as physical address 0, as if it were mapped there.
\<close>
theorem proof_walk_frame:
  assumes "documented m api" and "mm_maps m mm c"
    and "bit (entry4 m c va) 0" and "bit (entry3 m c va) 0"
    and "proof_walk m api mm pid va = [Proof_result pid va phys]"
  shows "(if bit (entry1 m c va) 0 then mm_translate m c va = Leaf 1 (phys OR take_bit 12 va)
     else mm_translate m c va = Absent 1 \<and> (if entry1 m c va = 0 then phys = 0 else
       phys = NOT (entry1 m c va) AND PTE_ADDR_MASK))"
proof -
  from assms(5) have good: "\<not> pud_bad (entry3 m c va)" "\<not> pmd_bad (entry2 m c va)"
    and phys: "phys = push_bit 12 (pte_pfn (entry1 m c va))"
    by (simp_all add: proof_walk_entries [OF assms(1,2)] split: if_splits)
  show ?thesis
    using good not_pud_bad not_pmd_bad assms(3,4)
    by (simp add: mm_translate_entries phys pte_pfn_phys pte_pfn_zero pte_inverted_phys)
qed

theorem proof_walk_frame_witness:
  "proof_walk (tables_machine 0) (std_api (tables_machine 0)) tiny_mm 7 0x123
     = [Proof_result 7 0x123 0] \<and>
   mm_translate (tables_machine 0) 0x1000 0x123 = Absent 1"
proof -
  have run: "proof_walk (tables_machine 0) (std_api (tables_machine 0)) tiny_mm 7 0x123
      = [Proof_result 7 0x123 0]"
    unfolding proof_walk_entries [OF std_api_documented tables_machine_mm] tables_machine_entries
      tables_machine_pte
    by (simp add: tables_good pte_pfn_zero) (simp add: std_api_def tables_good)
  show ?thesis
    using proof_walk_frame [OF std_api_documented tables_machine_mm _ _ run] run
    by (simp add: tables_machine_entries)
qed

section \<open>References and locks\<close>

text \<open>
  C16. Whatever the ioctl is given, it releases the locks and references it takes, innermost first,
  and returns 0, \<open>-EFAULT\<close> or \<open>-EINVAL\<close>: \<open>-EINVAL\<close> exactly for an unknown command, \<open>-EFAULT\<close> exactly
  when the argument cannot be read, and then nothing was printed.
\<close>
theorem mm_axiom_ioctl_safe:
  "(case mm_axiom_ioctl m api pfn_to_page current get_pid_task get_user copy_from_user cmd arg of
     (r, out, tr) \<Rightarrow> nested tr \<and>
       (if cmd = 0x40086101 then r = (if get_user arg = None then - 14 else 0)
        else if cmd = 0x40106102 then r = (if copy_from_user arg = None then - 14 else 0)
        else r = - 22) \<and> (if r = 0 then out \<noteq> [] else out = []))"
proof -
  have walk: "nested tr \<and> out \<noteq> []"
    if "trace_page_table_walk m api current get_pid_task pid va = (out, tr)" for pid va out tr
    using that by (auto simp: trace_page_table_walk_def Let_def nested_def split: option.splits)
  show ?thesis
    by (auto simp: mm_axiom_ioctl_def verify_pfn_axiom_def dest: walk split: option.splits prod.splits)
qed

text \<open>
  The proof module leaks the pid on its error paths: it ends with everything released when it
  succeeds or finds no process, and holding exactly the reference of \<open>find_get_pid\<close> when the task is
  gone or has no address space.
\<close>
theorem proof_init_leaks_pid:
  "(case proof_init m api find_get_pid get_pid_task pid addr of (r, out, tr) \<Rightarrow>
     held tr = Some (case find_get_pid pid of None \<Rightarrow> {#}
       | Some p \<Rightarrow> if r = 0 then {#} else {#Pid_ref p#}) \<and>
     (r = 0 \<longleftrightarrow> (\<exists>p t. find_get_pid pid = Some p \<and> get_pid_task p = Some t \<and> kt_mm t \<noteq> None)))"
  by (auto simp: proof_init_def held_def Let_def add_mset_commute split: option.splits)

end
