(* ===== verification/Struct_Page.thy ===== *)
theory Struct_Page
  imports Page_Inspect
begin

text \<open>
  The modules that take a user page of another process and read its \<open>struct page\<close> field by field:
  \<open>mapping_field_decode/mapping_hw.c\<close>, \<open>anon_page_cache_metadata/anon_file_hw.c\<close> and
  \<open>lru_mlock_union/lru_mlock_hw.c\<close>. A field is a load at its offset from the page's address (the
  layout table of \<open>mapping_hw.c\<close>: flags 0, compound head and \<open>lru.next\<close> 8, \<open>lru.prev\<close> 16, mapping 24,
  index 32), so the unions of the structure alias as they do in C. Pointers are addresses, null is 0.
\<close>

unbundle bit_operations_syntax

section \<open>Fields\<close>

definition pg_flags :: "machine \<Rightarrow> u64 \<Rightarrow> u64" where "pg_flags m p = kload m p"
definition pg_compound_head :: "machine \<Rightarrow> u64 \<Rightarrow> u64" where "pg_compound_head m p = kload m (p + 8)"
definition pg_lru_next :: "machine \<Rightarrow> u64 \<Rightarrow> u64" where "pg_lru_next m p = kload m (p + 8)"
definition pg_lru_prev :: "machine \<Rightarrow> u64 \<Rightarrow> u64" where "pg_lru_prev m p = kload m (p + 16)"
definition pg_mapping :: "machine \<Rightarrow> u64 \<Rightarrow> u64" where "pg_mapping m p = kload m (p + 24)"
definition pg_index :: "machine \<Rightarrow> u64 \<Rightarrow> u64" where "pg_index m p = kload m (p + 32)"

text \<open>
  \<open>get_user_pages_remote\<close> on one page: its result and, when it pinned a page, the address it stored.
  \<open>gup_documented\<close>: it stores a page, never null, exactly when it returns a positive count.
\<close>

type_synonym gup = "u64 \<Rightarrow> u64 \<Rightarrow> int \<times> u64 option"

definition gup_documented :: "gup \<Rightarrow> bool" where
  "gup_documented gup \<longleftrightarrow> (\<forall>mm addr. case gup mm addr of (ret, stored) \<Rightarrow>
     (0 < ret \<longleftrightarrow> stored \<noteq> None) \<and> stored \<noteq> Some 0)"

definition gup_events :: "u64 option \<Rightarrow> kevent list" where
  "gup_events stored = (case stored of None \<Rightarrow> [] | Some p \<Rightarrow> [Acquire (Page_ref p)])"

section \<open>\<open>mapping_hw.c\<close>\<close>

text \<open>\<open>garbage\<close> is the initial content of the local variable \<open>page\<close>, which has no initialiser.\<close>

definition get_user_page ::
  "gup \<Rightarrow> (int \<Rightarrow> u64 option) \<Rightarrow> (u64 \<Rightarrow> ktask option) \<Rightarrow> u64 \<Rightarrow> int \<Rightarrow> u64 \<Rightarrow> u64 \<times> kevent list" where
  "get_user_page gup find_get_pid pid_task garbage pid_nr addr =
    (case find_get_pid pid_nr of
       None \<Rightarrow> (0, [])
     | Some pid_struct \<Rightarrow>
         let tr = [Acquire (Pid_ref pid_struct)] in
         (case pid_task pid_struct of
            None \<Rightarrow> (0, tr @ [Release (Pid_ref pid_struct)])
          | Some task \<Rightarrow>
              (case kt_mm task of
                 None \<Rightarrow> (0, tr @ [Release (Pid_ref pid_struct)])
               | Some mm \<Rightarrow>
                   let (ret, stored) = gup (km_addr mm) addr;
                       page = (case stored of None \<Rightarrow> garbage | Some p \<Rightarrow> p);
                       tr = tr @ gup_events stored @ [Release (Pid_ref pid_struct)] in
                   if ret < 0 then (0, tr) else (page, tr))))"

datatype map_line =
    Map_page u64
  | Map_raw u64
  | Map_flags u64 u64 u64
  | Map_clean u64
  | Map_tail u64
  | Map_head u64
  | Map_tail_confirmed
  | Map_tail_unexpected u64 u64
  | Map_aligned u64
  | Map_anon u64
  | Map_movable u64
  | Map_ksm u64

definition inspect_mapping :: "machine \<Rightarrow> u64 \<Rightarrow> map_line list" where
  "inspect_mapping m page =
    (let raw_mapping = pg_mapping m page;
         flags = raw_mapping AND 0x3;
         clean_ptr = raw_mapping AND NOT 0x3;
         out = [Map_page page, Map_raw raw_mapping, Map_flags flags (drop_bit 1 flags AND 1) (flags AND 1),
                Map_clean clean_ptr];
         head_val = pg_compound_head m page in
     if head_val AND 1 \<noteq> 0 then
       out @ [Map_tail head_val, Map_head (head_val - 1),
              if raw_mapping = 0x400 then Map_tail_confirmed else Map_tail_unexpected raw_mapping 0x400]
     else if flags = 0 then out @ [Map_aligned clean_ptr]
     else if flags = 1 then out @ [Map_anon clean_ptr]
     else if flags = 2 then out @ [Map_movable clean_ptr]
     else if flags = 3 then out @ [Map_ksm clean_ptr]
     else out)"

definition mapping_init ::
  "machine \<Rightarrow> gup \<Rightarrow> (int \<Rightarrow> u64 option) \<Rightarrow> (u64 \<Rightarrow> ktask option) \<Rightarrow> u64 \<Rightarrow> int \<Rightarrow> u64 \<Rightarrow>
   int \<times> map_line list \<times> kevent list" where
  "mapping_init m gup find_get_pid pid_task garbage target_pid target_va =
    (if target_pid = 0 \<or> target_va = 0 then (- 22, [], []) else
     let (page, tr) = get_user_page gup find_get_pid pid_task garbage target_pid target_va in
     if page = 0 then (- 22, [], tr)
     else (0, inspect_mapping m page, tr @ [Release (Page_ref page)]))"

section \<open>\<open>anon_file_hw.c\<close>\<close>

definition get_page_from_mm :: "gup \<Rightarrow> u64 \<Rightarrow> u64 \<Rightarrow> u64 \<times> kevent list" where
  "get_page_from_mm gup mm addr =
    (let (ret, stored) = gup mm addr;
         page = (case stored of None \<Rightarrow> 0 | Some p \<Rightarrow> p) in
     (if ret < 0 then 0 else page, gup_events stored))"

datatype meta_line =
    Meta_page string u64
  | Meta_raw u64
  | Meta_bit0 u64
  | Meta_clean u64
  | Meta_index u64
  | Meta_lru_prev u64
  | Meta_lru_next u64

definition inspect_page :: "machine \<Rightarrow> u64 \<Rightarrow> string \<Rightarrow> meta_line list \<times> kevent list" where
  "inspect_page m page label =
    (if page = 0 then ([], []) else
     let raw_mapping = pg_mapping m page;
         bit_0 = raw_mapping AND 1;
         clean_pointer = raw_mapping AND NOT 3 in
     ([Meta_page label page, Meta_raw raw_mapping, Meta_bit0 bit_0, Meta_clean clean_pointer,
       Meta_index (pg_index m page), Meta_lru_prev (pg_lru_prev m page), Meta_lru_next (pg_lru_next m page)],
      [Release (Page_ref page)]))"

text \<open>
  \<open>task->mm\<close> goes to \<open>get_user_pages_remote\<close> without a test; for a kernel thread that is a null
  pointer dereference, the outcome \<open>None\<close> of the model.
\<close>

definition metadata_inspect ::
  "machine \<Rightarrow> gup \<Rightarrow> ktask \<Rightarrow> u64 \<Rightarrow> string \<Rightarrow> (meta_line list \<times> kevent list) option" where
  "metadata_inspect m gup task addr label =
    (if addr = 0 then Some ([], []) else
     case kt_mm task of
       None \<Rightarrow> None
     | Some mm \<Rightarrow>
         let (page, tr) = get_page_from_mm gup (km_addr mm) addr;
             (out, tr') = inspect_page m page label in
         Some (out, tr @ tr'))"

definition metadata_hw_init ::
  "machine \<Rightarrow> gup \<Rightarrow> (int \<Rightarrow> u64 option) \<Rightarrow> (u64 \<Rightarrow> ktask option) \<Rightarrow> int \<Rightarrow> u64 \<Rightarrow> u64 \<Rightarrow>
   (int \<times> meta_line list \<times> kevent list) option" where
  "metadata_hw_init m gup find_get_pid pid_task target_pid anon_addr file_addr =
    (if target_pid = 0 then Some (- 22, [], []) else
     case find_get_pid target_pid of
       None \<Rightarrow> Some (- 3, [], [])
     | Some pid_struct \<Rightarrow>
         let tr = [Acquire (Pid_ref pid_struct)] in
         (case pid_task pid_struct of
            None \<Rightarrow> Some (- 3, [], tr)
          | Some task \<Rightarrow>
              (case metadata_inspect m gup task anon_addr ''ANONYMOUS'' of
                 None \<Rightarrow> None
               | Some (out1, tr1) \<Rightarrow>
                   (case metadata_inspect m gup task file_addr ''FILE-BACKED'' of
                      None \<Rightarrow> None
                    | Some (out2, tr2) \<Rightarrow> Some (0, out1 @ out2, tr @ tr1 @ tr2)))))"

section \<open>\<open>lru_mlock_hw.c\<close>\<close>

datatype lru_line =
    Lru_page u64
  | Lru_next u64
  | Lru_prev u64
  | Lru_mlock_count u32
  | Lru_flags u64

text \<open>\<open>mlock_count\<close> is the 32-bit load at \<open>&page->lru + 8\<close>.\<close>

definition inspect_lru_mlock :: "machine \<Rightarrow> u64 \<Rightarrow> lru_line list \<times> kevent list" where
  "inspect_lru_mlock m page =
    (if page = 0 then ([], []) else
     let lru_next_raw = pg_lru_next m page;
         lru_prev_raw = pg_lru_prev m page;
         mlock_val = ucast (kload m ((page + 8) + 8));
         flags_raw = pg_flags m page in
     ([Lru_page page, Lru_next lru_next_raw, Lru_prev lru_prev_raw, Lru_mlock_count mlock_val,
       Lru_flags flags_raw],
      [Release (Page_ref page)]))"

definition lru_mlock_init ::
  "machine \<Rightarrow> gup \<Rightarrow> (int \<Rightarrow> u64 option) \<Rightarrow> (u64 \<Rightarrow> ktask option) \<Rightarrow> int \<Rightarrow> u64 \<Rightarrow>
   (int \<times> lru_line list \<times> kevent list) option" where
  "lru_mlock_init m gup find_get_pid pid_task target_pid target_addr =
    (if target_pid = 0 \<or> target_addr = 0 then Some (- 22, [], []) else
     case find_get_pid target_pid of
       None \<Rightarrow> Some (- 3, [], [])
     | Some pid_struct \<Rightarrow>
         let tr = [Acquire (Pid_ref pid_struct)] in
         (case pid_task pid_struct of
            None \<Rightarrow> Some (- 3, [], tr)
          | Some task \<Rightarrow>
              (case kt_mm task of
                 None \<Rightarrow> None
               | Some mm \<Rightarrow>
                   let (page, tr1) = get_page_from_mm gup (km_addr mm) target_addr;
                       (out, tr2) = inspect_lru_mlock m page in
                   Some (0, out, tr @ tr1 @ tr2))))"

section \<open>Decoding the mapping word\<close>

lemma low_two_bits: "x AND 3 = take_bit 2 x" for x :: u64
  by (simp add: and_low_mask(7))

lemma take_bit_2_cases:
  fixes x :: u64
  shows "take_bit 2 x = (if bit x 1 then (if bit x 0 then 3 else 2) else (if bit x 0 then 1 else 0))"
proof (rule bit_word_eqI)
  fix n
  assume "n < LENGTH(64)"
  consider "n = 0" | "n = 1" | "2 \<le> n" by linarith
  then show "bit (take_bit 2 x) n
      = bit (if bit x 1 then (if bit x 0 then 3 else 2) else (if bit x 0 then 1 else 0) :: u64) n"
  proof cases
    case 3
    then have "\<not> bit (k :: u64) n" if "unat k < 4" for k
      using unat_less_exp_bits [of k 2 n] that by auto
    from this [of 0] this [of 1] this [of 2] this [of 3] 3 show ?thesis
      by (simp add: bit_take_bit_iff)
  qed (simp_all add: bit_take_bit_iff bit_0 bit_1_iff)
qed

lemma clean_pointer:
  fixes x :: u64
  shows "take_bit 2 (x AND NOT 3) = 0" and "drop_bit 2 (x AND NOT 3) = drop_bit 2 x"
proof -
  have clean: "bit (x AND NOT 3) n \<longleftrightarrow> bit x n \<and> 2 \<le> n" for n
    by (simp only: low_mask_numerals(7) bit_and_iff bit_not_iff bit_mask_iff)
      (auto dest: bit_u64_bound)
  show "take_bit 2 (x AND NOT 3) = 0"
    by (rule bit_word_eqI) (simp only: bit_take_bit_iff clean, simp)
  show "drop_bit 2 (x AND NOT 3) = drop_bit 2 x"
    by (rule bit_word_eqI) (simp only: bit_drop_bit_eq o_apply clean, simp)
qed

text \<open>
  The mapping word is decoded as the two tag bits demand: for a page that is no compound tail
  the module names the kind by the tag (page cache, anonymous, movable or KSM) and prints the
  pointer with the tag removed and every other bit kept; a tail page is recognised by bit 0 of its
  compound head, its head pointer is the head value with that bit cleared, and the mapping is
  confirmed exactly when it is \<open>TAIL_MAPPING\<close>.
\<close>
theorem inspect_mapping_decodes:
  "(if bit (pg_compound_head m p) 0 then
      \<exists>h. drop 4 (inspect_mapping m p) = [Map_tail (pg_compound_head m p), Map_head h,
          if pg_mapping m p = 0x400 then Map_tail_confirmed else Map_tail_unexpected (pg_mapping m p) 0x400]
        \<and> h = unset_bit 0 (pg_compound_head m p)
    else \<exists>clean. drop 4 (inspect_mapping m p) =
        [(if bit (pg_mapping m p) 1 then (if bit (pg_mapping m p) 0 then Map_ksm else Map_movable)
          else (if bit (pg_mapping m p) 0 then Map_anon else Map_aligned)) clean]
        \<and> take_bit 2 clean = 0 \<and> drop_bit 2 clean = drop_bit 2 (pg_mapping m p))"
proof -
  have head: "h - 1 = unset_bit 0 h" if "bit h 0" for h :: u64
    using that by (simp add: unset_bit_eq bit_0)
  obtain clean where c: "pg_mapping m p AND NOT 0x3 = clean" by blast
  have "take_bit 2 clean = 0" "drop_bit 2 clean = drop_bit 2 (pg_mapping m p)"
    using clean_pointer [of "pg_mapping m p"] by (simp_all only: c)
  then show ?thesis
    unfolding inspect_mapping_def Let_def c
    by (simp add: and_one_eq_0_iff head low_two_bits take_bit_2_cases)
qed

text \<open>
  The union of \<open>struct page\<close> is read as one memory: the 32-bit \<open>mlock_count\<close> the lru module
  prints is the low half of the \<open>lru.prev\<close> it prints, and its \<open>lru.next\<close> is the word by which the
  mapping module decides that a page is a tail.
\<close>
theorem lru_union_aliases:
  "(if page = 0 then inspect_lru_mlock m page = ([], [])
    else fst (inspect_lru_mlock m page) =
      [Lru_page page, Lru_next (pg_compound_head m page), Lru_prev (pg_lru_prev m page),
       Lru_mlock_count (ucast (pg_lru_prev m page)), Lru_flags (pg_flags m page)]) \<and>
   (length (inspect_mapping m page) = 7 \<longleftrightarrow> bit (pg_lru_next m page) 0)"
proof -
  have offsets: "(page + 8) + 8 = page + 16" by simp
  show ?thesis
    unfolding inspect_lru_mlock_def offsets
    by (simp add: pg_lru_next_def pg_compound_head_def pg_lru_prev_def Let_def
        inspect_mapping_def and_one_eq_0_iff)
qed

section \<open>References\<close>

definition target_mm :: "(int \<Rightarrow> u64 option) \<Rightarrow> (u64 \<Rightarrow> ktask option) \<Rightarrow> int \<Rightarrow> u64 option" where
  "target_mm find_get_pid pid_task pid =
    (case find_get_pid pid of None \<Rightarrow> None
     | Some p \<Rightarrow> (case pid_task p of None \<Rightarrow> None | Some t \<Rightarrow> map_option km_addr (kt_mm t)))"

lemma gup_cases:
  assumes "gup_documented gup" and "gup mm addr = (ret, stored)"
  shows "(0 < ret \<longleftrightarrow> stored \<noteq> None) \<and> stored \<noteq> Some 0"
  using assms(1) [unfolded gup_documented_def, THEN spec, THEN spec, of mm addr] assms(2) by simp

text \<open>
  The mapping module balances its references unless the kernel pins no page and reports no error
  (result 0): then it inspects whatever its uninitialised local held and releases a page reference it
  never took.
\<close>
theorem mapping_init_references:
  assumes "gup_documented gup"
  shows "(case mapping_init m gup find_get_pid pid_task garbage pid va of (r, out, tr) \<Rightarrow>
    held tr = (if r = 0 \<and> (\<exists>mm. target_mm find_get_pid pid_task pid = Some mm \<and> fst (gup mm va) = 0)
               then None else Some {#}))"
  by (auto simp: mapping_init_def get_user_page_def target_mm_def held_def gup_events_def Let_def
      add_mset_commute dest!: gup_cases [OF assms] split: option.splits prod.splits if_splits)

text \<open>A kernel for the witnesses: process 7 with an address space, in which nothing gets pinned.\<close>

definition no_pin :: gup where
  "no_pin mm addr = (0, None)"

definition one_pin :: gup where
  "one_pin mm addr = (1, Some 0x8000)"

definition seven :: "int \<Rightarrow> u64 option" where
  "seven pid = (if pid = 7 then Some 0x700 else None)"

definition seven_task :: "u64 \<Rightarrow> ktask option" where
  "seven_task p = Some \<lparr>kt_addr = 0x600, kt_comm = ''cat'', kt_pid = 7,
     kt_mm = Some \<lparr>km_addr = 0x9000, km_pgd = 0x1000\<rparr>\<rparr>"

lemma pins_documented: "gup_documented no_pin" "gup_documented one_pin"
  by (simp_all add: gup_documented_def no_pin_def one_pin_def)

theorem mapping_init_references_witness:
  "gup_documented no_pin \<and>
   held (snd (snd (mapping_init (tables_machine 0) no_pin seven seven_task 0x666 7 0x1000))) = None"
  using mapping_init_references [OF pins_documented(1), where m = "tables_machine 0" and find_get_pid = seven
      and pid_task = seven_task and garbage = "0x666" and pid = 7 and va = "0x1000"]
    pins_documented(1)
  by (simp add: mapping_init_def get_user_page_def no_pin_def seven_def seven_task_def target_mm_def
      gup_events_def)

lemma metadata_inspect_held:
  assumes "gup_documented gup" and "metadata_inspect m gup task addr label = Some (out, tr)"
  shows "mrun rstep h tr = Some h"
  using assms(2)
  by (auto simp: metadata_inspect_def get_page_from_mm_def inspect_page_def gup_events_def Let_def
      dest!: gup_cases [OF assms(1)] split: option.splits prod.splits if_splits)

lemma metadata_inspect_oops:
  "metadata_inspect m gup task addr label = None \<longleftrightarrow> addr \<noteq> 0 \<and> kt_mm task = None"
  by (auto simp: metadata_inspect_def split: option.splits prod.splits)

text \<open>
  The metadata module releases every page it pins but never the pid: on every path that found
  the pid it ends holding exactly that reference. It dereferences a null address space exactly when
  the task is a kernel thread and an address was given.
\<close>
theorem metadata_hw_init_leaks_pid:
  assumes "gup_documented gup"
  shows "(case metadata_hw_init m gup find_get_pid pid_task pid anon_va file_va of
      None \<Rightarrow> pid \<noteq> 0 \<and> (anon_va \<noteq> 0 \<or> file_va \<noteq> 0) \<and>
        (\<exists>p t. find_get_pid pid = Some p \<and> pid_task p = Some t \<and> kt_mm t = None)
    | Some (r, out, tr) \<Rightarrow> held tr = Some (if pid = 0 then {#}
        else case find_get_pid pid of None \<Rightarrow> {#} | Some p \<Rightarrow> {#Pid_ref p#}))"
proof -
  have two: "mrun rstep h (tr1 @ tr2) = Some h"
    if "metadata_inspect m gup t a1 l1 = Some (o1, tr1)" "metadata_inspect m gup t a2 l2 = Some (o2, tr2)"
    for h t a1 l1 o1 tr1 a2 l2 o2 tr2
    using metadata_inspect_held [OF assms that(1)] metadata_inspect_held [OF assms that(2)]
    by (simp add: mrun_append)
  show ?thesis
    by (auto simp: metadata_hw_init_def held_def Let_def two metadata_inspect_oops
        split: option.splits)
qed

theorem metadata_hw_init_leaks_pid_witness:
  "\<exists>out tr. metadata_hw_init (tables_machine 0) one_pin seven seven_task 7 0x1000 0 = Some (0, out, tr) \<and>
     held tr = Some {#Pid_ref 0x700#}"
proof -
  obtain r out tr where run: "metadata_hw_init (tables_machine 0) one_pin seven seven_task 7 0x1000 0 = Some (r, out, tr)"
    and "r = 0"
    by (auto simp: metadata_hw_init_def metadata_inspect_def get_page_from_mm_def inspect_page_def
        one_pin_def seven_def seven_task_def gup_events_def Let_def)
  with metadata_hw_init_leaks_pid [OF pins_documented(2), where m = "tables_machine 0" and find_get_pid = seven
      and pid_task = seven_task and pid = 7 and anon_va = "0x1000" and file_va = 0]
  show ?thesis by (simp add: seven_def)
qed

text \<open>
  The lru module leaks the pid in the same way, and oopses exactly when it reaches a kernel
  thread.
\<close>
theorem lru_mlock_init_leaks_pid:
  assumes "gup_documented gup"
  shows "(case lru_mlock_init m gup find_get_pid pid_task pid addr of
      None \<Rightarrow> pid \<noteq> 0 \<and> addr \<noteq> 0 \<and>
        (\<exists>p t. find_get_pid pid = Some p \<and> pid_task p = Some t \<and> kt_mm t = None)
    | Some (r, out, tr) \<Rightarrow> held tr = Some (if pid = 0 \<or> addr = 0 then {#}
        else case find_get_pid pid of None \<Rightarrow> {#} | Some p \<Rightarrow> {#Pid_ref p#}))"
  by (auto simp: lru_mlock_init_def get_page_from_mm_def inspect_lru_mlock_def held_def gup_events_def
      Let_def dest!: gup_cases [OF assms] split: option.splits prod.splits if_splits)

theorem lru_mlock_init_leaks_pid_witness:
  "\<exists>out tr. lru_mlock_init (tables_machine 0) one_pin seven seven_task 7 0x1000 = Some (0, out, tr) \<and>
     held tr = Some {#Pid_ref 0x700#}"
proof -
  obtain r out tr where run: "lru_mlock_init (tables_machine 0) one_pin seven seven_task 7 0x1000 = Some (r, out, tr)"
    and "r = 0"
    by (auto simp: lru_mlock_init_def get_page_from_mm_def inspect_lru_mlock_def one_pin_def seven_def
        seven_task_def gup_events_def Let_def)
  with lru_mlock_init_leaks_pid [OF pins_documented(2), where m = "tables_machine 0" and find_get_pid = seven
      and pid_task = seven_task and pid = 7 and addr = "0x1000"]
  show ?thesis by (simp add: seven_def)
qed

end
