(* ===== verification/Page_Labs.thy ===== *)
theory Page_Labs
  imports Struct_Page
begin

text \<open>
  The modules that allocate pages and watch their reference counts and flags: \<open>refcount_lab.c\<close>,
  \<open>flags_lab.c\<close>, \<open>compound_lab.c\<close>, \<open>page_labs.c\<close>, \<open>refcount_hw.c\<close>, \<open>page_refcount_bug.c\<close>, the two
  \<open>buddy_fragment.c\<close>, the two \<open>gfp_context_bug.c\<close>, \<open>flags_zone_node.c\<close>, \<open>metadata_union.c\<close>,
  \<open>numa_zone_trace.c\<close> and \<open>module_split_lock.c\<close>. A module's init and exit functions return their
  result, the values they print and the trace of their calls; allocation results are arguments.
  A page is named by its descriptor's address; an allocation and \<open>get_page\<close> both acquire a reference.
\<close>

unbundle bit_operations_syntax

section \<open>Reference counts as the kernel reports them\<close>

text \<open>
  \<open>page_ref_count\<close> is a function of the calls made so far; \<open>rc_documented\<close> says that it is the number
  of references taken minus those dropped.
\<close>

type_synonym refcounts = "kevent list \<Rightarrow> u64 \<Rightarrow> int"

definition rc_documented :: "refcounts \<Rightarrow> bool" where
  "rc_documented rc \<longleftrightarrow> (\<forall>tr p. rc tr p =
     int (count_list tr (Acquire (Page_ref p))) - int (count_list tr (Release (Page_ref p))))"

definition trace_count :: refcounts where
  "trace_count tr p =
     int (count_list tr (Acquire (Page_ref p))) - int (count_list tr (Release (Page_ref p)))"

lemma trace_count_documented: "rc_documented trace_count"
  by (simp add: rc_documented_def trace_count_def)

definition refcount_lab_init :: "refcounts \<Rightarrow> u64 option \<Rightarrow> int \<times> int list \<times> kevent list" where
  "refcount_lab_init rc alloc =
    (case alloc of
       None \<Rightarrow> (- 12, [], [])
     | Some p \<Rightarrow>
         let tr = [Acquire (Page_ref p)];
             ref_before = rc tr p; tr = tr @ [Use (Page_ref p)];
             tr = tr @ [Use (Page_ref p), Acquire (Page_ref p)];
             ref_after_get = rc tr p; tr = tr @ [Use (Page_ref p)];
             tr = tr @ [Release (Page_ref p)];
             ref_after_put1 = rc tr p; tr = tr @ [Use (Page_ref p)];
             tr = tr @ [Release (Page_ref p)];
             ref_after_put2 = rc tr p; tr = tr @ [Use (Page_ref p)] in
         (0, [ref_before, ref_after_get, ref_after_put1, ref_after_put2], tr))"

definition page_labs_init :: "refcounts \<Rightarrow> (u64 \<Rightarrow> u64) \<Rightarrow> u64 option \<Rightarrow> int \<times> (u64 \<times> u64 \<times> int) list \<times> kevent list"
where
  "page_labs_init rc page_to_pfn alloc =
    (case alloc of
       None \<Rightarrow> (- 12, [], [])
     | Some p \<Rightarrow>
         let tr = [Acquire (Page_ref p)];
             pfn = page_to_pfn p;
             phys = pfn * 4096;
             tr = tr @ [Use (Page_ref p), Acquire (Page_ref p)];
             refs = rc tr p; tr = tr @ [Use (Page_ref p)];
             tr = tr @ [Release (Page_ref p), Release (Page_ref p)] in
         (0, [(pfn, phys, refs)], tr))"

text \<open>\<open>refcount_hw.c\<close> and \<open>page_refcount_bug.c\<close> keep the page in a static variable, here the second result.\<close>

definition refcount_init :: "refcounts \<Rightarrow> u64 option \<Rightarrow> int \<times> u64 \<times> int list \<times> kevent list" where
  "refcount_init rc alloc =
    (case alloc of
       None \<Rightarrow> (- 12, 0, [], [])
     | Some page \<Rightarrow>
         let my_page = page;
             tr = [Acquire (Page_ref page)];
             ref = rc tr page; tr = tr @ [Use (Page_ref page)];
             before_get = rc tr page; tr = tr @ [Use (Page_ref page)];
             tr = tr @ [Use (Page_ref page), Acquire (Page_ref page)];
             after_get = rc tr page; tr = tr @ [Use (Page_ref page)];
             tr = tr @ [Release (Page_ref page)];
             after_put = rc tr page; tr = tr @ [Use (Page_ref page)] in
         (0, my_page, [ref, before_get, after_get, after_put], tr))"

definition refcount_exit :: "u64 \<Rightarrow> kevent list" where
  "refcount_exit my_page = (if my_page \<noteq> 0 then [Release (Page_ref my_page)] else [])"

datatype zone_name = Zone_DMA | Zone_DMA32 | Zone_Normal

datatype bug_line =
    Bug_page u64 u64 u64
  | Bug_count int bool
  | Bug_zone zone_name

definition pfn_zone :: "u64 \<Rightarrow> zone_name" where
  "pfn_zone pfn = (if pfn < 4096 then Zone_DMA else if pfn < 1048576 then Zone_DMA32 else Zone_Normal)"

definition refcount_bug_init ::
  "refcounts \<Rightarrow> (u64 \<Rightarrow> u64) \<Rightarrow> u64 option \<Rightarrow> int \<times> u64 \<times> bug_line list \<times> kevent list" where
  "refcount_bug_init rc page_to_pfn alloc =
    (case alloc of
       None \<Rightarrow> (- 12, 0, [], [])
     | Some page \<Rightarrow>
         let tr = [Acquire (Page_ref page)];
             pfn = page_to_pfn page;
             refcount = rc tr page; tr = tr @ [Use (Page_ref page)];
             out = [Bug_page page pfn (pfn * 4096), Bug_count refcount (refcount = 1), Bug_zone (pfn_zone pfn)];
             tr = tr @ [Use (Page_ref page), Use (Page_ref page), Acquire (Page_ref page)];
             refcount = rc tr page; tr = tr @ [Use (Page_ref page)];
             out = out @ [Bug_count refcount (refcount = 2)];
             tr = tr @ [Use (Page_ref page), Release (Page_ref page)];
             refcount = rc tr page; tr = tr @ [Use (Page_ref page)];
             out = out @ [Bug_count refcount (refcount = 1)];
             tr = tr @ [Use (Page_ref page), Release (Page_ref page)];
             test_page = 0 in
         (0, test_page, out, tr))"

definition refcount_bug_exit :: "u64 \<Rightarrow> kevent list" where
  "refcount_bug_exit test_page = (if test_page \<noteq> 0 then [Release (Page_ref test_page)] else [])"

section \<open>Flags and compound pages\<close>

text \<open>
  \<open>flags_lab.c\<close>: the page's flags word before, after \<open>SetPageDirty\<close> and after \<open>ClearPageDirty\<close>, which
  set and clear bit \<open>PG_dirty\<close> of it, with the value \<open>PageDirty\<close> reads back.
\<close>

definition flags_lab_init :: "nat \<Rightarrow> u64 \<Rightarrow> u64 option \<Rightarrow> int \<times> (u64 \<times> bool) list \<times> kevent list" where
  "flags_lab_init pg_dirty flags alloc =
    (case alloc of
       None \<Rightarrow> (- 12, [], [])
     | Some p \<Rightarrow>
         let flags_val = flags;
             dirty0 = bit flags_val pg_dirty;
             flags1 = set_bit pg_dirty flags_val;
             flags2 = unset_bit pg_dirty flags1 in
         (0, [(flags_val, dirty0), (flags1, bit flags1 pg_dirty), (flags2, bit flags2 pg_dirty)],
          [Acquire (Page_ref p), Use (Page_ref p), Release (Page_ref p)]))"

datatype comp_line =
    Comp_head u64 u64
  | Comp_tail u64 u64 u64
  | Comp_link u64 u64
  | Comp_derived u64 u64
  | Comp_order int int

text \<open>
  \<open>compound_lab.c\<close>: \<open>head + 1\<close> is the next page descriptor, 64 bytes on. \<open>compound_head\<close> of a page is
  the word at offset 8 less its tag when it is tagged, the page itself otherwise.
\<close>

definition compound_head :: "machine \<Rightarrow> u64 \<Rightarrow> u64" where
  "compound_head m page =
    (let head = pg_compound_head m page in if head AND 1 \<noteq> 0 then head - 1 else page)"

definition compound_lab_init ::
  "machine \<Rightarrow> (u64 \<Rightarrow> u64) \<Rightarrow> (u64 \<Rightarrow> int) \<Rightarrow> u64 option \<Rightarrow> int \<times> comp_line list \<times> kevent list" where
  "compound_lab_init m page_to_pfn compound_order alloc =
    (let order = 2 in
     case alloc of
       None \<Rightarrow> (- 12, [], [])
     | Some head \<Rightarrow>
         let head_pfn = page_to_pfn head;
             tail1 = head + 64;
             tail1_pfn = page_to_pfn tail1;
             derived_head = compound_head m tail1 in
         (0, [Comp_head head head_pfn, Comp_tail tail1 tail1_pfn (head_pfn + 1),
              Comp_link (pg_compound_head m tail1) (head OR 1), Comp_derived derived_head head,
              Comp_order (compound_order head) order],
          [Acquire (Pages head 2), Use (Pages head 2), Release (Pages head 2)]))"

section \<open>Counts, flags and compound heads\<close>

lemma rc_simps:
  "rc_documented rc \<Longrightarrow> rc tr p =
     int (count_list tr (Acquire (Page_ref p))) - int (count_list tr (Release (Page_ref p)))"
  by (simp add: rc_documented_def)

text \<open>
  The counts the refcount modules print are the ones their comments expect: 1, 2, 1 and 0 in
  the lab, 1, 1, 2, 1 in the exercise, 2 in \<open>page_labs\<close>, and every MATCH of \<open>page_refcount_bug\<close>. The
  last three release every reference once init and exit have run; the lab reads the count of the
  page after dropping its last reference, a use after free, and is balanced but for that read.
\<close>
theorem refcount_modules_count:
  assumes "rc_documented rc" and "p \<noteq> 0"
  shows "(case refcount_lab_init rc (Some p) of (r, counts, tr) \<Rightarrow>
      counts = [1, 2, 1, 0] \<and> held tr = None \<and> balanced (butlast tr)) \<and>
    (case page_labs_init rc pfn_of (Some p) of (r, out, tr) \<Rightarrow>
      out = [(pfn_of p, 4096 * pfn_of p, 2)] \<and> balanced tr) \<and>
    (case refcount_init rc (Some p) of (r, page, counts, tr) \<Rightarrow>
      counts = [1, 1, 2, 1] \<and> held tr = Some {#Page_ref p#} \<and> balanced (tr @ refcount_exit page)) \<and>
    (case refcount_bug_init rc pfn_of (Some p) of (r, page, out, tr) \<Rightarrow>
      [ok. Bug_count n ok \<leftarrow> out] = [True, True, True] \<and> balanced (tr @ refcount_bug_exit page))"
  by (simp add: refcount_lab_init_def page_labs_init_def refcount_init_def refcount_exit_def
      refcount_bug_init_def refcount_bug_exit_def rc_simps [OF assms(1)] Let_def held_def balanced_def
      assms(2) mult.commute)

theorem refcount_modules_count_witness:
  "rc_documented trace_count \<and>
   (case refcount_lab_init trace_count (Some 0x8000) of (r, counts, tr) \<Rightarrow> counts = [1, 2, 1, 0])"
proof -
  have "(0x8000 :: u64) \<noteq> 0" by simp
  note counts = refcount_modules_count [OF trace_count_documented this, THEN conjunct1]
  show ?thesis using counts trace_count_documented by (auto split: prod.splits)
qed

text \<open>
  Setting and clearing the dirty flag touches that bit alone: after \<open>SetPageDirty\<close> the flag reads
  1 and every other bit of the flags word is as before, and clearing it gives the original word back
  exactly when the page was not dirty.
\<close>
theorem flags_lab_dirty:
  assumes "pg_dirty < 64"
  shows "\<exists>f1 f2. flags_lab_init pg_dirty flags (Some p) =
      (0, [(flags, bit flags pg_dirty), (f1, True), (f2, False)],
       [Acquire (Page_ref p), Use (Page_ref p), Release (Page_ref p)]) \<and>
    (f2 = flags \<longleftrightarrow> \<not> bit flags pg_dirty) \<and> f1 XOR f2 = push_bit pg_dirty 1 \<and>
    set_bit pg_dirty flags = f1 \<and> unset_bit pg_dirty flags = f2"
proof -
  have pos: "possible_bit TYPE(64 word) pg_dirty" using assms by simp
  have f2: "unset_bit pg_dirty (set_bit pg_dirty flags) = unset_bit pg_dirty flags"
    by (rule bit_word_eqI) (auto simp: bit_set_bit_iff bit_unset_bit_iff)
  have same: "unset_bit pg_dirty flags = flags \<longleftrightarrow> \<not> bit flags pg_dirty"
  proof
    assume "unset_bit pg_dirty flags = flags"
    then have "bit flags pg_dirty = bit (unset_bit pg_dirty flags) pg_dirty" by simp
    then show "\<not> bit flags pg_dirty" by (simp add: bit_unset_bit_iff)
  next
    assume "\<not> bit flags pg_dirty"
    then show "unset_bit pg_dirty flags = flags"
      by (intro bit_word_eqI) (auto simp: bit_unset_bit_iff)
  qed
  have xor: "set_bit pg_dirty flags XOR unset_bit pg_dirty flags = push_bit pg_dirty 1"
    by (rule bit_word_eqI)
      (auto simp: bit_xor_iff bit_set_bit_iff bit_unset_bit_iff bit_exp_iff pos)
  show ?thesis
    by (simp add: flags_lab_init_def Let_def f2 same xor bit_set_bit_iff bit_unset_bit_iff pos assms)
qed

theorem flags_lab_dirty_witness:
  "\<exists>f1 f2. flags_lab_init 4 0x2C (Some p) =
      (0, [(0x2C, False), (f1, True), (f2, False)],
       [Acquire (Page_ref p), Use (Page_ref p), Release (Page_ref p)]) \<and> f2 = 0x2C"
  using flags_lab_dirty [of 4 "0x2C" p] by (auto simp: bit_iff_odd)

text \<open>
  The compound lab recovers the head: when the allocator has tagged the tail's word with the head
  address, the derived head is the head and the printed link is what the module expects; the
  compound page is freed with its order.
\<close>
theorem compound_lab_head:
  assumes "\<not> bit head 0" and "pg_compound_head m (head + 64) = head OR 1"
  shows "case compound_lab_init m pfn_of ord (Some head) of (r, out, tr) \<Rightarrow>
    out ! 2 = Comp_link (head OR 1) (head OR 1) \<and> out ! 3 = Comp_derived head head \<and> balanced tr"
proof -
  have "(head OR 1) - 1 = head"
    using assms(1) by (simp add: or_one_eq bit_0)
  moreover have "(head OR 1) AND 1 \<noteq> 0"
    by (simp add: and_one_eq_0_iff bit_or_iff)
  ultimately show ?thesis
    by (simp add: compound_lab_init_def compound_head_def assms(2) Let_def balanced_def held_def)
qed

definition linked_machine :: machine where
  "linked_machine = \<lparr>cr3_reg = 0, page_offset_base = 0, kload = (\<lambda>a. if a = 0x8048 then 0x8001 else 0)\<rparr>"

theorem compound_lab_head_witness:
  "case compound_lab_init linked_machine id (\<lambda>p. 2) (Some 0x8000) of (r, out, tr) \<Rightarrow>
    out ! 3 = Comp_derived 0x8000 0x8000 \<and> balanced tr"
proof -
  have "\<not> bit (0x8000 :: u64) 0" "pg_compound_head linked_machine (0x8000 + 64) = 0x8000 OR 1"
    by (simp_all add: pg_compound_head_def linked_machine_def)
  from compound_lab_head [OF this, of id "\<lambda>p. 2"] show ?thesis
    by (simp split: prod.splits)
qed

text \<open>The zone boundaries the modules print, as physical addresses: 16 MB and 4 GB.\<close>

lemma pfn_zone_phys:
  "pfn_zone (drop_bit 12 phys) =
    (if unat phys < 16 * 2 ^ 20 then Zone_DMA else if unat phys < 4 * 2 ^ 30 then Zone_DMA32
     else Zone_Normal)"
proof -
  have "unat (drop_bit 12 phys) = unat phys div 4096"
    by (simp add: drop_bit_eq_div unat_div_distrib)
  then show ?thesis by (simp add: pfn_zone_def word_less_nat_alt) linarith
qed

end
