(* ===== verification/Alloc_Labs.thy ===== *)
theory Alloc_Labs
  imports Page_Labs
begin

text \<open>
  The modules with several allocations, error paths or locks: \<open>buddy_fragment/buddy_fragment.c\<close> and
  \<open>exercises_mm/buddy_fragment.c\<close>, the two \<open>gfp_context_bug.c\<close>, \<open>flags_zone_node.c\<close>,
  \<open>metadata_union.c\<close>, \<open>numa_zone_trace.c\<close>, \<open>module_split_lock.c\<close> and \<open>vma_lookup_driver.c\<close>. \<open>alloc i\<close> is
  the result of the \<open>i\<close>-th allocation of a loop. The theorems say that every path of these functions
  gives back what it took, or name what it keeps.
\<close>

unbundle bit_operations_syntax

section \<open>The two fragmentation exercises\<close>

datatype frag_line =
    Frag_block u64 u64 u64
  | Frag_page nat u64
  | Frag_buddy u64 u64

text \<open>The allocation loop: \<open>Inl\<close> the pages allocated before the first failure, \<open>Inr\<close> all of them.\<close>

fun frag_alloc :: "(nat \<Rightarrow> u64 option) \<Rightarrow> nat list \<Rightarrow> u64 list \<Rightarrow> u64 list + u64 list" where
  "frag_alloc alloc [] pages = Inr pages"
| "frag_alloc alloc (i # is) pages =
    (case alloc i of None \<Rightarrow> Inl pages | Some p \<Rightarrow> frag_alloc alloc is (pages @ [p]))"

definition get_pages :: "u64 list \<Rightarrow> kevent list" where
  "get_pages pages = map (\<lambda>p. Acquire (Page_ref p)) pages"

definition free_pages :: "u64 list \<Rightarrow> kevent list" where
  "free_pages pages = map (\<lambda>p. Release (Page_ref p)) pages"

definition buddy_frag_init ::
  "(u64 \<Rightarrow> u64) \<Rightarrow> u64 option \<Rightarrow> (nat \<Rightarrow> u64 option) \<Rightarrow> int \<times> frag_line list \<times> kevent list" where
  "buddy_frag_init page_to_pfn order3 alloc =
    (case order3 of
       None \<Rightarrow> (- 12, [], [])
     | Some block \<Rightarrow>
         let tr = [Acquire (Pages block 3)];
             pfn = page_to_pfn block;
             out = [Frag_block pfn pfn (pfn + 7)];
             rows = (\<lambda>pages. map (\<lambda>(i, p). Frag_page i (page_to_pfn p)) (enumerate 0 pages)) in
         (case frag_alloc alloc [0..<4] [] of
            Inl pages \<Rightarrow>
              (- 12, out @ rows pages, tr @ get_pages pages @ free_pages pages @ [Release (Pages block 3)])
          | Inr pages \<Rightarrow>
              (0, out @ rows pages @ map (\<lambda>p. Frag_buddy (page_to_pfn p) (page_to_pfn p XOR 1)) pages,
               tr @ get_pages pages @ free_pages pages @ [Release (Pages block 3)])))"

text \<open>
  The second exercise keeps 16 pages in a static array, frees the odd positions and then the even
  ones, and sets each slot to null; the third result is the array init leaves to exit.
\<close>

definition every_other :: "'a list \<Rightarrow> nat \<Rightarrow> 'a list" where
  "every_other xs start = map (\<lambda>i. xs ! i) (filter (\<lambda>i. i mod 2 = start) [0..<length xs])"

definition buddy_fragment_init ::
  "(u64 \<Rightarrow> u64) \<Rightarrow> (nat \<Rightarrow> u64 option) \<Rightarrow> int \<times> frag_line list \<times> u64 list \<times> kevent list" where
  "buddy_fragment_init page_to_pfn alloc =
    (let rows = (\<lambda>pages. map (\<lambda>(i, p). Frag_page i (page_to_pfn p)) (enumerate 0 pages));
         buddies = map (\<lambda>p. Frag_buddy (page_to_pfn p) (page_to_pfn p XOR 1)) in
     case frag_alloc alloc [0..<16] [] of
       Inl pages \<Rightarrow> (- 12, rows pages, replicate 16 0, get_pages pages @ free_pages pages)
     | Inr pages \<Rightarrow>
         let odd = every_other pages 1; even = every_other pages 0 in
         (0, rows pages @ buddies odd @ buddies even, replicate 16 0,
          get_pages pages @ free_pages odd @ free_pages even))"

definition buddy_fragment_exit :: "u64 list \<Rightarrow> kevent list" where
  "buddy_fragment_exit pages = free_pages (filter (\<lambda>p. p \<noteq> 0) pages)"

section \<open>Allocation contexts\<close>

text \<open>
  The steps of the two \<open>gfp_context_bug.c\<close>: taking and dropping the spinlock, allocating with a mode
  and freeing. \<open>atomic_ok\<close> is the rule the exercises are about: no allocation that may sleep
  while the lock is held, no lock taken twice or dropped free.
\<close>

datatype gfp = GFP_KERNEL | GFP_ATOMIC

datatype ctx_event = Lock | Unlock | Alloc gfp "u64 option" | Free u64

fun atomic_ok :: "bool \<Rightarrow> ctx_event list \<Rightarrow> bool" where
  "atomic_ok locked [] = (\<not> locked)"
| "atomic_ok locked (Lock # es) = (\<not> locked \<and> atomic_ok True es)"
| "atomic_ok locked (Unlock # es) = (locked \<and> atomic_ok False es)"
| "atomic_ok locked (Alloc g p # es) = (\<not> (locked \<and> g = GFP_KERNEL) \<and> atomic_ok locked es)"
| "atomic_ok locked (Free p # es) = atomic_ok locked es"

definition ctx_trace :: "ctx_event list \<Rightarrow> kevent list" where
  "ctx_trace es = concat (map (\<lambda>e. case e of
     Alloc g (Some p) \<Rightarrow> [Acquire (Page_ref p)] | Free p \<Rightarrow> [Release (Page_ref p)] | _ \<Rightarrow> []) es)"

definition gfp_bug_init :: "u64 option \<Rightarrow> int \<times> ctx_event list" where
  "gfp_bug_init alloc =
    (0, [Lock, Alloc GFP_ATOMIC alloc] @ (case alloc of Some page \<Rightarrow> [Free page] | None \<Rightarrow> []) @ [Unlock])"

definition gfp_context_bug_init :: "u64 option \<Rightarrow> u64 option \<Rightarrow> int \<times> ctx_event list \<times> u64" where
  "gfp_context_bug_init alloc1 alloc2 =
    (let tr = [Alloc GFP_KERNEL alloc1] @ (case alloc1 of Some page \<Rightarrow> [Free page] | None \<Rightarrow> []);
         tr = tr @ [Lock, Alloc GFP_ATOMIC alloc2, Unlock];
         tr = tr @ (case alloc2 of Some page \<Rightarrow> [Free page] | None \<Rightarrow> []) in
     (0, tr, 0))"

definition gfp_context_bug_exit :: "u64 \<Rightarrow> ctx_event list" where
  "gfp_context_bug_exit test_page = (if test_page \<noteq> 0 then [Free test_page] else [])"

section \<open>Zones, unions and locks\<close>

datatype zone_line =
    Zn_alloc u64 u64 u64 int int
  | Zn_manual u64 u64 bool
  | Zn_below u64 bool
  | Zn_row u64 u64 int int
  | Zn_class u64 zone_name

record zone_api =
  za_pfn :: "u64 \<Rightarrow> u64"
  za_zonenum :: "u64 \<Rightarrow> int"
  za_nid :: "u64 \<Rightarrow> int"

definition flags_zone_node_init ::
  "machine \<Rightarrow> zone_api \<Rightarrow> u64 option \<Rightarrow> u64 option \<Rightarrow> u64 option \<Rightarrow> int \<times> zone_line list \<times> kevent list" where
  "flags_zone_node_init m api a0 a1 a2 =
    (let pfn = za_pfn api; zone = za_zonenum api; node = za_nid api;
         alloc_row = (\<lambda>p. Zn_alloc p (pfn p) (pg_flags m p) (zone p) (node p));
         row = (\<lambda>p. Zn_row (pfn p) (pg_flags m p AND 0xFFFF) (zone p) (node p)) in
     case a0 of
       None \<Rightarrow> (- 12, [], [])
     | Some p0 \<Rightarrow>
         let manual = drop_bit 62 (pg_flags m p0) AND 0x3;
             out = [alloc_row p0, Zn_manual (pg_flags m p0) manual (int (unat manual) = zone p0)];
             tr = [Acquire (Page_ref p0)] in
         (case a1 of
            None \<Rightarrow> (- 12, out, tr @ [Release (Page_ref p0)])
          | Some p1 \<Rightarrow>
              let out = out @ [alloc_row p1, Zn_below (pfn p1) (pfn p1 < 1048576)];
                  tr = tr @ [Acquire (Page_ref p1)] in
              (case a2 of
                 None \<Rightarrow> (- 12, out, tr @ [Release (Page_ref p0), Release (Page_ref p1)])
               | Some p2 \<Rightarrow>
                   (0, out @ [alloc_row p2, Zn_below (pfn p2) (pfn p2 < 4096), row p0, row p1, row p2,
                      Zn_class (pfn p0) (if 1048576 \<le> pfn p0 then Zone_Normal
                        else if 4096 \<le> pfn p0 then Zone_DMA32 else Zone_DMA),
                      Zn_class (pfn p1) (if 1048576 \<le> pfn p1 then Zone_Normal
                        else if 4096 \<le> pfn p1 then Zone_DMA32 else Zone_DMA),
                      Zn_class (pfn p2) (if 1048576 \<le> pfn p2 then Zone_Normal
                        else if 4096 \<le> pfn p2 then Zone_DMA32 else Zone_DMA)],
                    tr @ [Acquire (Page_ref p2), Release (Page_ref p0), Release (Page_ref p1),
                          Release (Page_ref p2)]))))"

datatype union_line =
    Un_normal u64 u64
  | Un_flags u64
  | Un_lru u64 u64
  | Un_mapping u64
  | Un_index u64
  | Un_private u64
  | Un_page_slab bool
  | Un_object u64 u64 u64
  | Un_word8 u64
  | Un_word16 u64
  | Un_compare8 u64 u64
  | Un_compare16 u64 u64

text \<open>\<open>metadata_union.c\<close> prints \<open>lru.prev\<close> where its labels say offset 8 and \<open>lru.next\<close> where they say 16.\<close>

definition metadata_union_init ::
  "machine \<Rightarrow> (u64 \<Rightarrow> u64) \<Rightarrow> (u64 \<Rightarrow> bool) \<Rightarrow> (u64 \<Rightarrow> u64) \<Rightarrow> u64 option \<Rightarrow> u64 option \<Rightarrow>
   int \<times> union_line list \<times> kevent list" where
  "metadata_union_init m page_to_pfn page_slab virt_to_page alloc kmalloc =
    (case alloc of
       None \<Rightarrow> (- 12, [], [])
     | Some normal_page \<Rightarrow>
         let out = [Un_normal normal_page (page_to_pfn normal_page), Un_flags (pg_flags m normal_page),
                    Un_lru (pg_lru_prev m normal_page) (pg_lru_next m normal_page),
                    Un_mapping (pg_mapping m normal_page), Un_index (pg_index m normal_page),
                    Un_private (kload m (normal_page + 40)), Un_page_slab (page_slab normal_page)];
             tr = [Acquire (Page_ref normal_page)] in
         (case kmalloc of
            None \<Rightarrow> (- 12, out, tr @ [Release (Page_ref normal_page)])
          | Some slab_obj \<Rightarrow>
              let slab_page = virt_to_page slab_obj in
              (0, out @ [Un_object slab_obj slab_page (page_to_pfn slab_page),
                 Un_flags (pg_flags m slab_page), Un_page_slab (page_slab slab_page),
                 Un_word8 (pg_lru_prev m slab_page), Un_word16 (pg_lru_next m slab_page),
                 Un_compare8 (pg_lru_prev m normal_page) (pg_lru_prev m slab_page),
                 Un_compare16 (pg_lru_next m normal_page) (pg_lru_next m slab_page)],
               tr @ [Acquire (Cache_obj slab_obj), Release (Cache_obj slab_obj),
                     Release (Page_ref normal_page)])))"

datatype numa_line = Numa_nodes nat | Numa_node int u64 u64 | Numa_page u64 int string

text \<open>\<open>nodes\<close>: number, first frame and spanned pages of each online node.\<close>

definition numa_zone_init ::
  "(int \<times> u64 \<times> u64) list \<Rightarrow> (u64 \<Rightarrow> u64) \<Rightarrow> (u64 \<Rightarrow> int) \<Rightarrow> (u64 \<Rightarrow> string) \<Rightarrow> u64 option \<Rightarrow>
   int \<times> numa_line list \<times> kevent list" where
  "numa_zone_init nodes page_to_pfn page_to_nid zone_name alloc =
    (let out = Numa_nodes (length nodes) # map (\<lambda>(nid, start, spanned). Numa_node nid start spanned) nodes in
     case alloc of
       None \<Rightarrow> (- 12, out, [])
     | Some page \<Rightarrow>
         (0, out @ [Numa_page (page_to_pfn page) (page_to_nid page) (zone_name page)],
          [Acquire (Page_ref page), Release (Page_ref page)]))"

datatype pt_line =
    Ptl_page u64 u64
  | Ptl_phys u64 u64
  | Ptl_lock u64 u64
  | Ptl_offset u64

text \<open>
  \<open>module_split_lock.c\<close>: \<open>ptl_of page\<close> is the address of the split lock in the page's descriptor
  (\<open>&page_ptdesc(page)->ptl\<close>); the page stays in the static \<open>my_pt_page\<close> until exit.
\<close>

definition ptlock_exercise_init ::
  "(u64 \<Rightarrow> u64) \<Rightarrow> (u64 \<Rightarrow> u64) \<Rightarrow> (u64 \<Rightarrow> u64) \<Rightarrow> u64 option \<Rightarrow> int \<times> u64 \<times> pt_line list \<times> kevent list" where
  "ptlock_exercise_init page_ptdesc ptl_of page_to_pfn alloc =
    (case alloc of
       None \<Rightarrow> (- 12, 0, [], [])
     | Some page \<Rightarrow>
         let ptdesc = page_ptdesc page; ptl = ptl_of ptdesc in
         (0, page, [Ptl_page page ptdesc, Ptl_phys (page_to_pfn page) (page_to_pfn page * 4096),
            Ptl_lock ptl page, Ptl_offset (ptl - page)],
          [Acquire (Page_ref page), Acquire (Page_lock ptl), Release (Page_lock ptl)]))"

definition ptlock_exercise_exit :: "u64 \<Rightarrow> u64 \<times> kevent list" where
  "ptlock_exercise_exit my_pt_page =
    (if my_pt_page \<noteq> 0 then (0, [Release (Page_ref my_pt_page)]) else (my_pt_page, []))"

section \<open>Looking an address up in the areas of a process\<close>

datatype look_line =
    Look_target int u64
  | Look_no_pid
  | Look_not_found int
  | Look_no_mm int
  | Look_row int u64 u64 u64 u64 bool
  | Look_total int
  | Look_found u64
  | Look_missing u64

record area =
  ar_start :: u64
  ar_end :: u64
  ar_flags :: u64

fun look_rows :: "u64 \<Rightarrow> area list \<Rightarrow> int \<Rightarrow> bool \<Rightarrow> look_line list \<times> int \<times> bool" where
  "look_rows target_addr [] vma_count found = ([], vma_count, found)"
| "look_rows target_addr (vma # vmas) vma_count found =
    (let bytes = ar_end vma - ar_start vma;
         matches = (ar_start vma \<le> target_addr \<and> target_addr < ar_end vma);
         found = (if matches then True else found);
         (rows, total, found') = look_rows target_addr vmas (vma_count + 1) found in
     (Look_row vma_count (ar_start vma) (ar_end vma) bytes (ar_flags vma) matches # rows, total, found'))"

text \<open>
  \<open>areas mm\<close> are the areas of an address space in address order. The pid of \<open>find_get_pid\<close> goes
  straight into \<open>pid_task\<close> and is not kept.
\<close>

definition vma_lookup_init ::
  "(u64 \<Rightarrow> area list) \<Rightarrow> (int \<Rightarrow> u64 option) \<Rightarrow> (u64 \<Rightarrow> ktask option) \<Rightarrow> int \<Rightarrow> u64 \<Rightarrow>
   int \<times> look_line list \<times> kevent list" where
  "vma_lookup_init areas find_get_pid pid_task target_pid target_addr =
    (let out = [Look_target target_pid target_addr] in
     if target_pid = 0 then (- 22, out @ [Look_no_pid], []) else
     let pid = find_get_pid target_pid;
         tr = [Acquire Rcu] @ (case pid of None \<Rightarrow> [] | Some p \<Rightarrow> [Acquire (Pid_ref p)]);
         task = (case pid of None \<Rightarrow> None | Some p \<Rightarrow> pid_task p) in
     case task of
       None \<Rightarrow> (- 3, out @ [Look_not_found target_pid], tr @ [Release Rcu])
     | Some t \<Rightarrow>
         (case kt_mm t of
            None \<Rightarrow> (- 22, out @ [Look_no_mm target_pid], tr @ [Release Rcu])
          | Some mm \<Rightarrow>
              let a = km_addr mm;
                  (rows, vma_count, found) = look_rows target_addr (areas a) 0 False in
              (0, out @ rows @ [Look_total vma_count] @
                 (if target_addr \<noteq> 0
                  then [if found then Look_found target_addr else Look_missing target_addr] else []),
               tr @ [Acquire (Mm_ref a), Release Rcu, Acquire (Mmap_lock a), Release (Mmap_lock a),
                     Release (Mm_ref a)])))"

section \<open>Freeing what was allocated\<close>

lemma run_get_pages:
  "mrun rstep h (get_pages ps @ tr) = mrun rstep (h + mset (map Page_ref ps)) tr"
  by (induction ps arbitrary: h) (simp_all add: get_pages_def)

lemma run_free_pages:
  "mrun rstep (h + mset (map Page_ref ps)) (free_pages ps @ tr) = mrun rstep h tr"
  by (induction ps arbitrary: h) (simp_all add: free_pages_def)

lemma mset_filter_mod:
  "mset (map g (filter (\<lambda>i. i mod 2 = 0) is)) + mset (map g (filter (\<lambda>i. i mod 2 = 1) is)) = mset (map g is)"
  for "is" :: "nat list"
  by (induction "is") (auto simp: mod_2_eq_odd)

lemma every_other_mset: "mset (map f (every_other xs 0)) + mset (map f (every_other xs 1)) = mset (map f xs)"
proof -
  have "map (\<lambda>i. f (xs ! i)) [0..<length xs] = map f (map ((!) xs) [0..<length xs])"
    by simp
  also have "\<dots> = map f xs" by (simp only: map_nth)
  finally show ?thesis
    using mset_filter_mod [of "\<lambda>i. f (xs ! i)" "[0..<length xs]"]
    by (simp add: every_other_def comp_def)
qed

lemma get_free_balanced:
  assumes "mset (map Page_ref qs) = mset (map Page_ref ps)"
  shows "mrun rstep h (get_pages ps @ free_pages qs @ tr) = mrun rstep h tr"
  unfolding run_get_pages assms [symmetric] by (rule run_free_pages)

lemma free_pages_append: "free_pages (ps @ qs) = free_pages ps @ free_pages qs"
  by (simp add: free_pages_def)

lemma frag_alloc_length:
  "frag_alloc alloc is pages = Inr ps \<Longrightarrow> length ps = length pages + length is"
  "frag_alloc alloc is pages = Inl ps \<Longrightarrow> length pages \<le> length ps \<and> length ps < length pages + length is"
  by (induction alloc "is" pages rule: frag_alloc.induct) (fastforce split: option.splits)+

text \<open>
  C40. The two fragmentation exercises free every page exactly once whichever allocation fails: the
  first with its order-3 block, the second on its failure path as well as when it frees the odd and
  then the even positions, after which exit has nothing left to free.
\<close>
theorem fragmentation_balanced:
  "(case buddy_frag_init pfn_of order3 alloc of (r, out, tr) \<Rightarrow> balanced tr) \<and>
   (case buddy_fragment_init pfn_of alloc of (r, out, pages, tr) \<Rightarrow>
      balanced (tr @ buddy_fragment_exit pages) \<and> length pages = 16)"
proof
  show "case buddy_frag_init pfn_of order3 alloc of (r, out, tr) \<Rightarrow> balanced tr"
    by (auto simp: buddy_frag_init_def Let_def balanced_def held_def get_free_balanced
        split: option.splits sum.splits)
next
  have exit: "buddy_fragment_exit (replicate 16 0) = []"
    by (simp add: buddy_fragment_exit_def free_pages_def)
  have odd_even: "mset (map Page_ref (every_other ps 1 @ every_other ps 0)) = mset (map Page_ref ps)" for ps
    using every_other_mset [of Page_ref ps] by (simp add: add.commute)
  have "mrun rstep {#} (get_pages ps @ free_pages (every_other ps 1) @ free_pages (every_other ps 0)) = Some {#}"
    for ps
    using get_free_balanced [OF odd_even, of "{#}" ps "[]"] by (simp add: free_pages_append)
  moreover have "mrun rstep {#} (get_pages ps @ free_pages ps) = Some {#}" for ps
    using get_free_balanced [of ps ps "{#}" "[]"] by simp
  ultimately show "case buddy_fragment_init pfn_of alloc of (r, out, pages, tr) \<Rightarrow>
      balanced (tr @ buddy_fragment_exit pages) \<and> length pages = 16"
    by (auto simp: buddy_fragment_init_def Let_def balanced_def held_def exit split: sum.splits)
qed

text \<open>
  Neither context exercise allocates with a mode that may sleep while it holds the spinlock, both
  drop the lock, and both free what they got; the page variable they leave to exit is null.
\<close>
theorem gfp_context_respected:
  "(case gfp_bug_init a of (r, es) \<Rightarrow> atomic_ok False es \<and> balanced (ctx_trace es)) \<and>
   (case gfp_context_bug_init a b of (r, es, page) \<Rightarrow>
      atomic_ok False es \<and> balanced (ctx_trace (es @ gfp_context_bug_exit page)))"
  by (auto simp: gfp_bug_init_def gfp_context_bug_init_def gfp_context_bug_exit_def ctx_trace_def
      balanced_def held_def Let_def split: option.splits)

text \<open>
  The allocation modules with error paths release what they hold on every path: a failure of
  the second or third allocation frees the earlier ones. The lock module keeps its page until exit,
  which frees it, and leaves the critical section before init returns.
\<close>
theorem allocation_modules_balanced:
  "(case flags_zone_node_init m api a0 a1 a2 of (r, out, tr) \<Rightarrow>
      balanced tr \<and> (r = 0 \<longleftrightarrow> a0 \<noteq> None \<and> a1 \<noteq> None \<and> a2 \<noteq> None)) \<and>
   (case metadata_union_init m pfn_of slab v2p a0 a1 of (r, out, tr) \<Rightarrow>
      nested tr \<and> (r = 0 \<longleftrightarrow> a0 \<noteq> None \<and> a1 \<noteq> None)) \<and>
   (case numa_zone_init nodes pfn_of nid_of zone_of a0 of (r, out, tr) \<Rightarrow> nested tr) \<and>
   (case ptlock_exercise_init ptd ptl pfn_of a0 of (r, page, out, tr) \<Rightarrow>
      page = (case a0 of None \<Rightarrow> 0 | Some p \<Rightarrow> p) \<and>
      (if page = 0 then snd (ptlock_exercise_exit page) = []
       else nested (tr @ snd (ptlock_exercise_exit page))))"
  by (auto simp: flags_zone_node_init_def metadata_union_init_def numa_zone_init_def
      ptlock_exercise_init_def ptlock_exercise_exit_def Let_def balanced_def held_def nested_def
      add_mset_commute split: option.splits)

section \<open>Zones and areas\<close>

lemma class_expr: "(if 1048576 \<le> x then Zone_Normal else if 4096 \<le> x then Zone_DMA32 else Zone_DMA)
    = pfn_zone x"
  by (auto simp: pfn_zone_def word_less_nat_alt word_le_nat_alt)

text \<open>
  \<open>flags_zone_node\<close> puts each of its frames in the zone of its physical address (DMA below 16 MB,
  DMA32 below 4 GB), its DMA and DMA32 tests agree with that, and its manual zone number is the top
  two bits of the flags word.
\<close>
theorem flags_zone_classes:
  "case flags_zone_node_init m api (Some p0) (Some p1) (Some p2) of (r, out, tr) \<Rightarrow>
    [(f, z). Zn_class f z \<leftarrow> out] = map (\<lambda>p. (za_pfn api p, pfn_zone (za_pfn api p))) [p0, p1, p2] \<and>
    [b. Zn_below f b \<leftarrow> out] =
      [pfn_zone (za_pfn api p1) \<noteq> Zone_Normal, pfn_zone (za_pfn api p2) = Zone_DMA] \<and>
    [unat z. Zn_manual fl z ok \<leftarrow> out] = [unat (pg_flags m p0) div 2 ^ 62]"
proof -
  have "take_bit 2 (drop_bit 62 x) = drop_bit 62 x" for x :: u64
    by (rule bit_word_eqI) (auto simp: bit_take_bit_iff bit_drop_bit_eq dest: bit_u64_bound)
  then have top: "unat (drop_bit 62 x AND 0x3) = unat x div 2 ^ 62" for x :: u64
    by (simp add: and_low_mask drop_bit_eq_div unat_div_distrib)
  have "x < 1048576 \<longleftrightarrow> pfn_zone x \<noteq> Zone_Normal" "x < 4096 \<longleftrightarrow> pfn_zone x = Zone_DMA" for x
    by (auto simp: pfn_zone_def word_less_nat_alt)
  then show ?thesis
    by (simp add: flags_zone_node_init_def Let_def class_expr top)
qed

definition in_area :: "u64 \<Rightarrow> area \<Rightarrow> bool" where
  "in_area addr v \<longleftrightarrow> ar_start v \<le> addr \<and> addr < ar_end v"

definition look_row :: "u64 \<Rightarrow> int \<Rightarrow> nat \<times> area \<Rightarrow> look_line" where
  "look_row addr n = (\<lambda>(i, v). Look_row (n + int i) (ar_start v) (ar_end v) (ar_end v - ar_start v)
     (ar_flags v) (in_area addr v))"

lemma look_rows_spec:
  "look_rows addr vmas n found =
    (map (look_row addr n) (enumerate 0 vmas), n + int (length vmas), found \<or> list_ex (in_area addr) vmas)"
proof (induction vmas arbitrary: n found)
  case Nil
  then show ?case by simp
next
  case (Cons v vmas)
  have "enumerate 1 vmas = map (\<lambda>(i, v). (Suc i, v)) (enumerate 0 vmas)"
    by (auto simp: enumerate_Suc_eq)
  then show ?case
    by (auto simp: Cons.IH Let_def in_area_def look_row_def case_prod_beta comp_def)
qed

lemma look_row_marks:
  "concat (map ((\<lambda>x. case x of Look_row i s e k f b \<Rightarrow> [b] | _ \<Rightarrow> []) \<circ> look_row addr n) (enumerate k vs))
     = map (in_area addr) vs"
  by (induction vs arbitrary: k) (simp_all add: look_row_def)

lemma look_row_neq: "look_row addr n x \<noteq> Look_found a" "look_row addr n x \<noteq> Look_missing a"
  by (simp_all add: look_row_def split: prod.splits)

text \<open>
  The lookup module lists every area of the process in order and marks the ones that contain the
  target; it reports FOUND exactly when one does. Its RCU section, lock and address-space
  reference are released on every path, but the reference \<open>find_get_pid\<close> took is never dropped.
\<close>
theorem vma_lookup_exact:
  "(case vma_lookup_init areas find_get_pid pid_task pid addr of (r, out, tr) \<Rightarrow>
     held tr = Some (if pid = 0 then {#} else case find_get_pid pid of None \<Rightarrow> {#} | Some p \<Rightarrow> {#Pid_ref p#}) \<and>
     (if r = 0 then \<exists>p t mm. find_get_pid pid = Some p \<and> pid_task p = Some t \<and> kt_mm t = Some mm \<and>
        [b. Look_row i s e k f b \<leftarrow> out] = map (in_area addr) (areas (km_addr mm)) \<and>
        (Look_found addr \<in> set out \<longleftrightarrow> addr \<noteq> 0 \<and> list_ex (in_area addr) (areas (km_addr mm))) \<and>
        (Look_missing addr \<in> set out \<longleftrightarrow> addr \<noteq> 0 \<and> \<not> list_ex (in_area addr) (areas (km_addr mm)))
      else length out = 2 \<or> pid = 0))"
  using look_row_neq [THEN not_sym]
  by (auto simp: vma_lookup_init_def look_rows_spec look_row_marks Let_def held_def add_mset_commute
      split: option.splits)

end
