(* ===== verification/Probes.thy ===== *)
theory Probes
  imports Page_Inspect
begin

text \<open>
  The kprobe modules that watch page faults and forks: \<open>malloc_pagefault/pagefault_observer.c\<close>,
  \<open>pagefault_trace.c\<close>, \<open>probe0_driver.c\<close>, \<open>probe1_driver.c\<close>, \<open>handle_mm_fault_trace/__handle_mm_fault_probe.c\<close>,
  \<open>handle_pte_fault_trace/handle_pte_fault_probe.c\<close> and \<open>refcount_exercise/fork_trace.c\<close>. A handler maps
  the registers and the running task to the lines it logs; init and exit are traces of probe
  registrations. Structures behind pointers are read through \<open>pmem\<close>.
\<close>

unbundle bit_operations_syntax

section \<open>What a handler sees\<close>

record pt_regs =
  r_di :: u64
  r_si :: u64
  r_dx :: u64
  r_cx :: u64
  r_ax :: u64
  r_ip :: u64
  r_sp :: u64
  r_orig_ax :: u64

record running =
  c_pid :: int
  c_tgid :: int
  c_comm :: string
  c_task :: u64
  c_stack :: u64

record kvma =
  kv_start :: u64
  kv_end :: u64
  kv_flags :: u64
  kv_file :: u64

record vm_fault =
  vmf_address :: u64
  vmf_pmd :: u64
  vmf_real_address :: u64

text \<open>\<open>pm_regs\<close>, \<open>pm_vma\<close>, \<open>pm_fault\<close> and \<open>pm_word\<close> are the objects at an address.\<close>

record pmem =
  pm_regs :: "u64 \<Rightarrow> pt_regs"
  pm_vma :: "u64 \<Rightarrow> kvma"
  pm_fault :: "u64 \<Rightarrow> vm_fault"
  pm_word :: "u64 \<Rightarrow> u64"

abbreviation PAGE_MASK :: u64 where "PAGE_MASK \<equiv> NOT 0xFFF"

section \<open>\<open>pagefault_observer.c\<close>\<close>

datatype obs_line =
    Obs_fault int string u64 u32 u64 u64 u64 u64 u64
  | Obs_proof u64 u64 u64 u64 u64
  | Obs_insert int string u64 u64 u64
  | Obs_region int string bool u64 u64 u64
  | Obs_done int u64

text \<open>\<open>frame\<close> is \<open>__builtin_frame_address(0)\<close>, \<open>thread_size\<close> the kernel's \<open>THREAD_SIZE\<close>.\<close>

definition observer_handler_pre ::
  "u64 \<Rightarrow> u64 \<Rightarrow> pmem \<Rightarrow> int \<Rightarrow> running \<Rightarrow> pt_regs \<Rightarrow> obs_line list" where
  "observer_handler_pre thread_size frame pm target_pid current regs =
    (if target_pid \<noteq> 0 \<and> c_pid current \<noteq> target_pid then [] else
     let vma = r_di regs;
         address = r_si regs;
         flags = ucast (r_dx regs);
         user_regs = r_cx regs;
         user_ip = (if user_regs \<noteq> 0 then r_ip (pm_regs pm user_regs) else 0);
         user_sp = (if user_regs \<noteq> 0 then r_sp (pm_regs pm user_regs) else 0);
         kstack_base = c_stack current;
         kstack_top = kstack_base + thread_size;
         hw_error = (if user_regs \<noteq> 0 then r_orig_ax (pm_regs pm user_regs) else 0) in
     [Obs_fault (c_pid current) (c_comm current) address flags hw_error
        (if vma \<noteq> 0 then kv_start (pm_vma pm vma) else 0) (if vma \<noteq> 0 then kv_end (pm_vma pm vma) else 0)
        user_ip user_sp,
      Obs_proof (c_task current) kstack_base kstack_top frame thread_size])"

definition vma_link_handler_pre :: "pmem \<Rightarrow> int \<Rightarrow> running \<Rightarrow> pt_regs \<Rightarrow> obs_line list" where
  "vma_link_handler_pre pm target_pid current regs =
    (if target_pid \<noteq> 0 \<and> c_pid current \<noteq> target_pid then [] else
     let vma = r_si regs in
     if vma \<noteq> 0
     then [Obs_insert (c_pid current) (c_comm current) (kv_start (pm_vma pm vma)) (kv_end (pm_vma pm vma))
             (kv_flags (pm_vma pm vma))]
     else [])"

definition mmap_region_handler_pre :: "int \<Rightarrow> running \<Rightarrow> pt_regs \<Rightarrow> obs_line list" where
  "mmap_region_handler_pre target_pid current regs =
    (if target_pid \<noteq> 0 \<and> c_pid current \<noteq> target_pid then [] else
     let file_ptr = r_di regs; addr = r_si regs; len = r_dx regs; flags = r_cx regs in
     [Obs_region (c_pid current) (c_comm current) (file_ptr \<noteq> 0) addr len flags])"

definition observer_handler_post :: "int \<Rightarrow> running \<Rightarrow> pt_regs \<Rightarrow> obs_line list" where
  "observer_handler_post target_pid current regs =
    (if target_pid \<noteq> 0 \<and> c_pid current \<noteq> target_pid then [] else [Obs_done (c_pid current) (r_ax regs)])"

text \<open>\<open>register_kprobe symb\<close> is the kernel's result for the symbol: negative on failure.\<close>

definition pagefault_observer_init :: "(string \<Rightarrow> int) \<Rightarrow> int \<times> kevent list" where
  "pagefault_observer_init register_kprobe =
    (let ret = register_kprobe ''handle_mm_fault'' in
     if ret < 0 then (ret, []) else
     let tr = [Acquire (Kprobe ''handle_mm_fault'')];
         ret = register_kprobe ''vma_link'' in
     if ret < 0 then (ret, tr @ [Release (Kprobe ''handle_mm_fault'')]) else
     let tr = tr @ [Acquire (Kprobe ''vma_link'')];
         ret = register_kprobe ''__mmap_region'' in
     if ret < 0
     then (ret, tr @ [Release (Kprobe ''vma_link''), Release (Kprobe ''handle_mm_fault'')]) else
     (0, tr @ [Acquire (Kprobe ''__mmap_region'')]))"

definition pagefault_observer_exit :: "kevent list" where
  "pagefault_observer_exit = [Release (Kprobe ''__mmap_region''), Release (Kprobe ''vma_link''),
     Release (Kprobe ''handle_mm_fault'')]"

section \<open>\<open>pagefault_trace.c\<close>\<close>

datatype trace_line =
    Tr_fault u64 int u64 u32 string u64
  | Tr_anon_write u64

text \<open>The static \<open>fault_count\<close> is threaded through the handler.\<close>

definition trace_handler_pre ::
  "pmem \<Rightarrow> int \<Rightarrow> running \<Rightarrow> pt_regs \<Rightarrow> u64 \<Rightarrow> u64 \<times> trace_line list" where
  "trace_handler_pre pm target_pid current regs fault_count =
    (let vma = r_di regs;
         address = r_si regs;
         fault_flags = ucast (r_dx regs);
         pid = c_pid current in
     if target_pid \<noteq> 0 \<and> pid \<noteq> target_pid then (fault_count, []) else
     let fault_count = fault_count + 1 in
     if vma \<noteq> 0 then
       (let vm_flags = kv_flags (pm_vma pm vma);
            vma_type = (if kv_file (pm_vma pm vma) \<noteq> 0 then ''FILE-BACKED'' else ''ANONYMOUS'') in
        (fault_count, [Tr_fault fault_count pid address fault_flags vma_type vm_flags] @
           (if kv_file (pm_vma pm vma) = 0 \<and> fault_flags AND 1 \<noteq> 0 then [Tr_anon_write fault_count] else [])))
     else (fault_count, []))"

definition pagefault_trace_init :: "int \<Rightarrow> int \<times> kevent list" where
  "pagefault_trace_init ret =
    (if ret < 0 then (ret, []) else (0, [Acquire (Kprobe ''handle_mm_fault'')]))"

definition pagefault_trace_exit :: "u64 \<Rightarrow> u64 \<times> kevent list" where
  "pagefault_trace_exit fault_count = (fault_count, [Release (Kprobe ''handle_mm_fault'')])"

text \<open>The hits of one run of the module: the handler is called once for each, in order.\<close>

fun trace_hits ::
  "int \<Rightarrow> (pmem \<times> running \<times> pt_regs) list \<Rightarrow> u64 \<Rightarrow> u64 \<times> trace_line list" where
  "trace_hits target_pid [] fault_count = (fault_count, [])"
| "trace_hits target_pid ((pm, current, regs) # hits) fault_count =
    (let (fault_count, lines) = trace_handler_pre pm target_pid current regs fault_count;
         (fault_count, rest) = trace_hits target_pid hits fault_count in
     (fault_count, lines @ rest))"

section \<open>\<open>probe0_driver.c\<close>, \<open>probe1_driver.c\<close>\<close>

datatype probe_line =
    Pr_start string int int u64
  | Pr_match
  | Pr_hit string int u64 u64
  | Pr_mm_fault string int u64 u32
  | Pr_pte_fault string int u64 u64 u64 u64 u64
  | Pr_clone_pre string int u64 u64 u64
  | Pr_clone_post string int u64 u64

definition probe0_pre_handler :: "int \<Rightarrow> u64 \<Rightarrow> running \<Rightarrow> pt_regs \<Rightarrow> probe_line list" where
  "probe0_pre_handler target_pid target_addr current regs =
    (let address = r_si regs in
     if target_pid \<noteq> 0 \<and> c_pid current \<noteq> target_pid then [] else
     [Pr_start (c_comm current) (c_tgid current) (c_pid current) address] @
       (if target_addr \<noteq> 0
        then (if address AND PAGE_MASK = target_addr AND PAGE_MASK then [Pr_match] else [])
        else []))"

definition probe1_handler_pre ::
  "string \<Rightarrow> int \<Rightarrow> u64 \<Rightarrow> running \<Rightarrow> pt_regs \<Rightarrow> probe_line list" where
  "probe1_handler_pre symbol_name target_pid target_addr current regs =
    (let va = r_si regs; fl = r_dx regs in
     if target_pid \<noteq> 0 \<and> c_pid current \<noteq> target_pid then [] else
     if target_addr \<noteq> 0 \<and> va \<noteq> target_addr then [] else
     [Pr_hit symbol_name (c_pid current) va fl])"

definition kprobe_init :: "(string \<Rightarrow> int) \<Rightarrow> string \<Rightarrow> int \<times> kevent list" where
  "kprobe_init register_kprobe symbol_name =
    (let ret = register_kprobe symbol_name in
     if ret < 0 then (ret, []) else (0, [Acquire (Kprobe symbol_name)]))"

definition kprobe_exit :: "string \<Rightarrow> kevent list" where
  "kprobe_exit symbol_name = [Release (Kprobe symbol_name)]"

section \<open>\<open>__handle_mm_fault_probe.c\<close>, \<open>handle_pte_fault_probe.c\<close>\<close>

definition mm_fault_handler_pre :: "running \<Rightarrow> pt_regs \<Rightarrow> probe_line list" where
  "mm_fault_handler_pre current regs =
    (let pid = c_pid current; address = r_si regs; flags = ucast (r_dx regs) in
     [Pr_mm_fault (c_comm current) pid address flags])"

definition mm_fault_probe_init :: "int \<Rightarrow> int \<times> kevent list" where
  "mm_fault_probe_init ret =
    (if ret < 0 then (ret, []) else (0, [Acquire (Kprobe ''__handle_mm_fault'')]))"

definition mm_fault_probe_exit :: "kevent list" where
  "mm_fault_probe_exit = [Release (Kprobe ''__handle_mm_fault'')]"

definition pte_fault_handler_pre :: "pmem \<Rightarrow> int \<Rightarrow> u64 \<Rightarrow> running \<Rightarrow> pt_regs \<Rightarrow> probe_line list" where
  "pte_fault_handler_pre pm target_pid target_addr current regs =
    (let vmf = r_di regs;
         pid = c_pid current in
     if pid \<noteq> target_pid then [] else
     let fault_addr = vmf_address (pm_fault pm vmf) in
     if target_addr \<noteq> 0 \<and> fault_addr AND PAGE_MASK \<noteq> target_addr AND PAGE_MASK then [] else
     let pmd_ptr = vmf_pmd (pm_fault pm vmf);
         pmd_entry = pm_word pm pmd_ptr in
     [Pr_pte_fault (c_comm current) pid vmf (vmf_address (pm_fault pm vmf)) (vmf_pmd (pm_fault pm vmf))
        pmd_entry (vmf_real_address (pm_fault pm vmf))])"

definition pte_fault_probe_init :: "int \<Rightarrow> int \<times> kevent list" where
  "pte_fault_probe_init ret =
    (if ret < 0 then (ret, []) else (0, [Acquire (Kprobe ''handle_pte_fault'')]))"

definition pte_fault_probe_exit :: "kevent list" where
  "pte_fault_probe_exit = [Release (Kprobe ''handle_pte_fault'')]"

section \<open>\<open>fork_trace.c\<close>\<close>

text \<open>\<open>task_pt_regs\<close> is the kernel's address of the user registers of a task.\<close>

definition my_kernel_clone_handler ::
  "(u64 \<Rightarrow> u64) \<Rightarrow> pmem \<Rightarrow> running \<Rightarrow> pt_regs \<Rightarrow> probe_line list" where
  "my_kernel_clone_handler task_pt_regs pm current regs =
    (let return_addr = pm_word pm (r_sp regs);
         user_regs = task_pt_regs (c_task current) in
     [Pr_clone_pre (c_comm current) (c_pid current) (r_di regs) return_addr (r_ip (pm_regs pm user_regs))])"

definition my_kernel_clone_post :: "running \<Rightarrow> pt_regs \<Rightarrow> probe_line list" where
  "my_kernel_clone_post current regs =
    [Pr_clone_post (c_comm current) (c_pid current) (r_ax regs) (r_ax regs)]"

definition fork_trace_init :: "int \<Rightarrow> int \<times> kevent list" where
  "fork_trace_init ret =
    (if ret < 0 then (ret, []) else (0, [Acquire (Kprobe ''kernel_clone'')]))"

definition fork_trace_exit :: "kevent list" where
  "fork_trace_exit = [Release (Kprobe ''kernel_clone'')]"

section \<open>The filters\<close>

lemma bit_and_page_mask: "bit ((x :: u64) AND PAGE_MASK) n \<longleftrightarrow> 12 \<le> n \<and> bit x n"
  unfolding low_mask_numerals
  using bit_imp_le_length [of x n] by (auto simp add: bit_and_iff bit_not_iff bit_mask_iff possible_bit_def)

lemma page_mask_same: "(a :: u64) AND PAGE_MASK = b AND PAGE_MASK \<longleftrightarrow> drop_bit 12 a = drop_bit 12 b"
proof
  assume eq: "a AND PAGE_MASK = b AND PAGE_MASK"
  show "drop_bit 12 a = drop_bit 12 b"
  proof (rule bit_word_eqI)
    fix n
    have "bit (a AND PAGE_MASK) (12 + n) = bit (b AND PAGE_MASK) (12 + n)" by (simp only: eq)
    then show "bit (drop_bit 12 a) n = bit (drop_bit 12 b) n"
      unfolding bit_and_page_mask by (simp add: bit_drop_bit_eq)
  qed
next
  assume eq: "drop_bit 12 a = drop_bit 12 b"
  show "a AND PAGE_MASK = b AND PAGE_MASK"
  proof (rule bit_word_eqI)
    fix n
    have "bit (drop_bit 12 a) (n - 12) = bit (drop_bit 12 b) (n - 12)" by (simp only: eq)
    then show "bit (a AND PAGE_MASK) n = bit (b AND PAGE_MASK) n"
      unfolding bit_and_page_mask by (auto simp: bit_drop_bit_eq)
  qed
qed

section \<open>Properties\<close>

text \<open>
  The observer never leaves a probe planted without its owner: whatever the kernel answers to the
  three registrations, a failed init gives the first failing answer and has taken its earlier probes
  out again, in reverse order, and after a successful one the exit function removes all three in
  reverse order.
\<close>

theorem observer_unwinds:
  "let (ret, tr) = pagefault_observer_init reg in
   if ret < 0
   then nested tr \<and> Some ret = find (\<lambda>r. r < 0) [reg ''handle_mm_fault'', reg ''vma_link'', reg ''__mmap_region'']
   else ret = 0 \<and> list_all (\<lambda>s. 0 \<le> reg s) [''handle_mm_fault'', ''vma_link'', ''__mmap_region''] \<and>
     nested (tr @ pagefault_observer_exit) \<and>
     held tr = Some {#Kprobe ''handle_mm_fault'', Kprobe ''vma_link'', Kprobe ''__mmap_region''#}"
  by (simp add: pagefault_observer_init_def pagefault_observer_exit_def nested_def held_def Let_def)

text \<open>The faults a run is asked for, and the lines of one of them under a number.\<close>

definition traced :: "int \<Rightarrow> pmem \<times> running \<times> pt_regs \<Rightarrow> bool" where
  "traced target_pid = (\<lambda>(pm, current, regs). target_pid = 0 \<or> c_pid current = target_pid)"

definition fault_lines :: "u64 \<Rightarrow> pmem \<times> running \<times> pt_regs \<Rightarrow> trace_line list" where
  "fault_lines n = (\<lambda>(pm, current, regs).
    let vma = pm_vma pm (r_di regs) in
    if r_di regs = 0 then []
    else if kv_file vma \<noteq> 0
    then [Tr_fault n (c_pid current) (r_si regs) (ucast (r_dx regs)) ''FILE-BACKED'' (kv_flags vma)]
    else Tr_fault n (c_pid current) (r_si regs) (ucast (r_dx regs)) ''ANONYMOUS'' (kv_flags vma) #
      (if bit (r_dx regs) 0 then [Tr_anon_write n] else []))"

lemma ucast_write_flag: "(ucast (x :: u64) :: u32) AND 1 \<noteq> 0 \<longleftrightarrow> bit x 0"
  by (simp add: and_one_eq odd_iff_mod_2_eq_one [symmetric] bit_0 [symmetric] bit_unsigned_iff
      flip: bit_0 split: if_splits)

lemma trace_handler_lines:
  "trace_handler_pre pm t current regs n =
    (if traced t (pm, current, regs) then (n + 1, fault_lines (n + 1) (pm, current, regs)) else (n, []))"
  using ucast_write_flag [of "r_dx regs"]
  by (simp add: trace_handler_pre_def traced_def fault_lines_def Let_def)

lemma trace_hits_from:
  "trace_hits t hits (n + of_nat k) =
    (n + of_nat k + of_nat (length (filter (traced t) hits)),
     concat (map (\<lambda>(i, hit). fault_lines (n + 1 + of_nat i) hit) (enumerate k (filter (traced t) hits))))"
proof (induction hits arbitrary: k)
  case Nil
  then show ?case by simp
next
  case (Cons hit hits)
  obtain pm current regs where hit: "hit = (pm, current, regs)" by (cases hit) auto
  have step: "n + of_nat k + 1 = n + of_nat (Suc k)" "n + 1 + of_nat k = n + of_nat (Suc k)" by simp_all
  show ?case
    using Cons.IH [of k] Cons.IH [of "Suc k"]
    by (simp add: hit trace_handler_lines step del: of_nat_Suc) simp
qed

text \<open>
  One run of the tracer over any sequence of faults: the counter goes up by the number of faults
  of the traced process (modulo the word); they are numbered consecutively from the counter's old
  value, in order, each with its fault line and, for a write to an anonymous area, the allocation
  line under the same number; faults of other processes leave no line.
\<close>

theorem trace_hits_exact:
  "trace_hits t hits n =
    (n + of_nat (length (filter (traced t) hits)),
     concat (map (\<lambda>(i, hit). fault_lines (n + 1 + of_nat i) hit) (enumerate 0 (filter (traced t) hits))))"
  using trace_hits_from [of t hits n 0] by simp

text \<open>
  The page filters compare page numbers: two addresses pass each other's filter exactly when they
  lie in the same 4 KB page, wherever in it. \<open>handle_pte_fault_probe\<close> logs a fault of its process
  then, and every fault of it when no address is given; \<open>probe0_driver\<close> announces a match then; and
  \<open>probe1_driver\<close> compares the whole address, so it misses the other addresses of the page.
\<close>

theorem page_filters_exact:
  "(pte_fault_handler_pre pm pid a current regs \<noteq> [] \<longleftrightarrow>
      c_pid current = pid \<and>
      (a = 0 \<or> drop_bit 12 (vmf_address (pm_fault pm (r_di regs))) = drop_bit 12 a)) \<and>
   (Pr_match \<in> set (probe0_pre_handler pid a current regs) \<longleftrightarrow>
      (pid = 0 \<or> c_pid current = pid) \<and> a \<noteq> 0 \<and> drop_bit 12 (r_si regs) = drop_bit 12 a) \<and>
   (probe1_handler_pre symb pid a current regs \<noteq> [] \<longleftrightarrow>
      (pid = 0 \<or> c_pid current = pid) \<and> (a = 0 \<or> r_si regs = a))"
  unfolding page_mask_same [symmetric]
  by (simp add: pte_fault_handler_pre_def probe0_pre_handler_def probe1_handler_pre_def Let_def)

text \<open>
  With its default parameters (no process, no address) \<open>handle_pte_fault_probe\<close> logs only faults
  of process 0, while the observer, the tracer, \<open>probe0\<close> and \<open>probe1\<close> with theirs log every fault.
\<close>

theorem default_filters:
  "(pte_fault_handler_pre pm 0 0 current regs \<noteq> [] \<longleftrightarrow> c_pid current = 0) \<and>
   observer_handler_pre ts fr pm 0 current regs \<noteq> [] \<and>
   fst (trace_handler_pre pm 0 current regs n) = n + 1 \<and>
   probe0_pre_handler 0 0 current regs \<noteq> [] \<and> probe1_handler_pre symb 0 0 current regs \<noteq> []"
  by (simp add: pte_fault_handler_pre_def observer_handler_pre_def trace_handler_pre_def
      probe0_pre_handler_def probe1_handler_pre_def Let_def)

text \<open>
  The single-probe modules: whatever registration answers, init holds its probe exactly when it
  reports success, and the exit gives it back.
\<close>

lemma single_probes_nested:
  "fst (pagefault_trace_init r) = (if r < 0 then r else 0) \<and>
   nested (snd (pagefault_trace_init r) @ (if r < 0 then [] else snd (pagefault_trace_exit n))) \<and>
   nested (snd (mm_fault_probe_init r) @ (if r < 0 then [] else mm_fault_probe_exit)) \<and>
   nested (snd (pte_fault_probe_init r) @ (if r < 0 then [] else pte_fault_probe_exit)) \<and>
   nested (snd (fork_trace_init r) @ (if r < 0 then [] else fork_trace_exit))"
  by (simp add: nested_def pagefault_trace_init_def pagefault_trace_exit_def mm_fault_probe_init_def
      mm_fault_probe_exit_def pte_fault_probe_init_def pte_fault_probe_exit_def fork_trace_init_def
      fork_trace_exit_def)

lemma kprobe_init_nested:
  "fst (kprobe_init reg symb) = (if reg symb < 0 then reg symb else 0) \<and>
   nested (snd (kprobe_init reg symb) @ (if reg symb < 0 then [] else kprobe_exit symb))"
  by (simp add: nested_def kprobe_init_def kprobe_exit_def Let_def)

end
