(* ===== verification/Pagemap.thy ===== *)
theory Pagemap
  imports X86_Pgtable Kernel_Trace
begin

text \<open>
  \<open>/proc/<pid>/pagemap\<close>, both sides. The kernel side is \<open>mapping_field_decode/task_mmu.c\<close>: one entry
  (\<open>pte_to_pagemap_entry\<close>), the loops over a page table and over a huge page, and the read operation
  that walks the address space in chunks of one PMD. The user side are the programs that decode an
  entry: \<open>get_pfn\<close> of \<open>malloc_user.c\<close> and \<open>dirty_trace_v2.c\<close> and the entry code of
  \<open>mm_exercise_user.c\<close>. The generic page-table walker, swap entries and folios are kernel code outside
  the repository: arguments.
\<close>

unbundle bit_operations_syntax

section \<open>One entry\<close>

text \<open>
  What the kernel tells about an entry: the page behind a mapped entry, the decoding of a swap entry,
  the kind of a page's folio. A page is named by an address, an entry by its value.
\<close>

record pmenv =
  vm_normal_page :: "u64 \<Rightarrow> u64 \<Rightarrow> u64 option"
  softleaf_from_pte :: "u64 \<Rightarrow> u64"
  softleaf_has_pfn :: "u64 \<Rightarrow> bool"
  softleaf_to_pfn :: "u64 \<Rightarrow> u64"
  softleaf_to_page :: "u64 \<Rightarrow> u64"
  swp_type :: "u64 \<Rightarrow> u64"
  swp_offset :: "u64 \<Rightarrow> u64"
  is_uffd_wp_marker :: "u64 \<Rightarrow> bool"
  is_guard_marker :: "u64 \<Rightarrow> bool"
  softleaf_from_pmd :: "u64 \<Rightarrow> u64"
  pmd_page :: "u64 \<Rightarrow> u64"
  folio_anon :: "u64 \<Rightarrow> bool"
  mapped_exclusively :: "u64 \<Rightarrow> bool"
  vma_softdirty :: bool

abbreviation PM_PFRAME_MASK :: u64 where "PM_PFRAME_MASK \<equiv> 0x7FFFFFFFFFFFFF"

definition BIT_ULL :: "nat \<Rightarrow> u64" where
  "BIT_ULL n = push_bit n 1"

abbreviation PM_SOFT_DIRTY :: u64 where "PM_SOFT_DIRTY \<equiv> BIT_ULL 55"
abbreviation PM_MMAP_EXCLUSIVE :: u64 where "PM_MMAP_EXCLUSIVE \<equiv> BIT_ULL 56"
abbreviation PM_UFFD_WP :: u64 where "PM_UFFD_WP \<equiv> BIT_ULL 57"
abbreviation PM_GUARD_REGION :: u64 where "PM_GUARD_REGION \<equiv> BIT_ULL 58"
abbreviation PM_FILE :: u64 where "PM_FILE \<equiv> BIT_ULL 61"
abbreviation PM_SWAP :: u64 where "PM_SWAP \<equiv> BIT_ULL 62"
abbreviation PM_PRESENT :: u64 where "PM_PRESENT \<equiv> BIT_ULL 63"

definition make_pme :: "u64 \<Rightarrow> u64 \<Rightarrow> u64" where
  "make_pme frame flags = (frame AND PM_PFRAME_MASK) OR flags"

text \<open>A statement \<open>if (c) flags |= f\<close>.\<close>

definition or_if :: "bool \<Rightarrow> u64 \<Rightarrow> u64 \<Rightarrow> u64" where
  "or_if c f flags = (if c then flags OR f else flags)"

definition pte_to_pagemap_entry :: "pmenv \<Rightarrow> bool \<Rightarrow> u64 \<Rightarrow> u64 \<Rightarrow> u64" where
  "pte_to_pagemap_entry env show_pfn addr pte =
    (if pte_none pte then make_pme 0 (or_if (vma_softdirty env) PM_SOFT_DIRTY 0) else
     let (frame, flags, page) =
       (if pte_present pte then
          (let frame = (if show_pfn then pte_pfn pte else 0);
               flags = PM_PRESENT;
               page = vm_normal_page env addr pte;
               flags = or_if (pte_soft_dirty pte) PM_SOFT_DIRTY flags;
               flags = or_if (pte_uffd_wp pte) PM_UFFD_WP flags in
           (frame, flags, page))
        else
          (let flags = or_if (pte_swp_soft_dirty pte) PM_SOFT_DIRTY 0;
               flags = or_if (pte_swp_uffd_wp pte) PM_UFFD_WP flags;
               entry = softleaf_from_pte env pte;
               frame = (if show_pfn then
                          (let offset = (if softleaf_has_pfn env entry then softleaf_to_pfn env entry
                                         else swp_offset env entry) in
                           swp_type env entry OR push_bit 5 offset)
                        else 0);
               flags = flags OR PM_SWAP;
               page = (if softleaf_has_pfn env entry then Some (softleaf_to_page env entry) else None);
               flags = or_if (is_uffd_wp_marker env entry) PM_UFFD_WP flags;
               flags = or_if (is_guard_marker env entry) PM_GUARD_REGION flags in
           (frame, flags, page)));
       flags = (case page of
           None \<Rightarrow> flags
         | Some p \<Rightarrow>
             let flags = or_if (\<not> folio_anon env p) PM_FILE flags in
             or_if (flags AND PM_PRESENT \<noteq> 0 \<and> mapped_exclusively env p) PM_MMAP_EXCLUSIVE flags) in
     make_pme frame (or_if (vma_softdirty env) PM_SOFT_DIRTY flags))"

section \<open>The buffer and the loops over one PMD\<close>

text \<open>\<open>pos\<close> and \<open>len\<close> count entries; the buffer has \<open>len\<close> of them.\<close>

record pagemapread =
  pm_pos :: nat
  pm_len :: nat
  pm_buffer :: "u64 list"
  pm_show_pfn :: bool

definition PM_END_OF_BUFFER :: int where
  "PM_END_OF_BUFFER = 1"

definition add_to_pagemap :: "u64 \<Rightarrow> pagemapread \<Rightarrow> int \<times> pagemapread" where
  "add_to_pagemap pme pm =
    (let pm = pm\<lparr>pm_buffer := (pm_buffer pm)[pm_pos pm := pme], pm_pos := pm_pos pm + 1\<rparr> in
     if pm_pos pm \<ge> pm_len pm then (PM_END_OF_BUFFER, pm) else (0, pm))"

lemma add_to_pagemap_more: "add_to_pagemap pme pm = (0, pm') \<Longrightarrow> pm_len pm' = pm_len pm \<and> pm_pos pm < pm_pos pm' \<and> pm_pos pm' < pm_len pm'"
  by (auto simp: add_to_pagemap_def PM_END_OF_BUFFER_def Let_def split: if_splits)

text \<open>
  The loop of \<open>pagemap_pmd_range\<close>: \<open>ptep_get\<close> reads the entry at a pointer. It ends at the latest when
  the buffer is full, also where the address wraps.
\<close>

function pte_loop ::
  "pmenv \<Rightarrow> (u64 \<Rightarrow> u64) \<Rightarrow> u64 \<Rightarrow> u64 \<Rightarrow> u64 \<Rightarrow> pagemapread \<Rightarrow> int \<times> pagemapread" where
  "pte_loop env ptep_get pte addr end pm =
    (if addr < end then
       let pme = pte_to_pagemap_entry env (pm_show_pfn pm) addr (ptep_get pte);
           (err, pm') = add_to_pagemap pme pm in
       if err \<noteq> 0 then (err, pm') else pte_loop env ptep_get (pte + 8) (addr + 0x1000) end pm'
     else (0, pm))"
  by pat_completeness auto
termination
  by (relation "measure (\<lambda>(env, ptep_get, pte, addr, end, pm). pm_len pm - pm_pos pm)")
    (auto dest!: sym [of _ "add_to_pagemap _ _"] add_to_pagemap_more)

declare pte_loop.simps [simp del]

function thp_loop ::
  "pmenv \<Rightarrow> u64 option \<Rightarrow> u64 \<Rightarrow> u64 \<Rightarrow> u64 \<Rightarrow> u64 \<Rightarrow> pagemapread \<Rightarrow> int \<times> pagemapread" where
  "thp_loop env page flags frame addr end pm =
    (if addr \<noteq> end then
       let cur_flags = (case page of
             None \<Rightarrow> flags
           | Some p \<Rightarrow> or_if (flags AND PM_PRESENT \<noteq> 0 \<and> mapped_exclusively env p) PM_MMAP_EXCLUSIVE flags);
           (err, pm') = add_to_pagemap (make_pme frame cur_flags) pm in
       if err \<noteq> 0 then (err, pm') else
       let frame = (if pm_show_pfn pm' then
                      (if flags AND PM_PRESENT \<noteq> 0 then frame + 1
                       else if flags AND PM_SWAP \<noteq> 0 then frame + push_bit 5 1 else frame)
                    else frame) in
       thp_loop env page flags frame (addr + 0x1000) end pm'
     else (0, pm))"
  by pat_completeness auto
termination
  by (relation "measure (\<lambda>(env, page, flags, frame, addr, end, pm). pm_len pm - pm_pos pm)")
    (auto dest!: sym [of _ "add_to_pagemap _ _"] add_to_pagemap_more)

declare thp_loop.simps [simp del]

text \<open>Where the loop over a huge page starts: the page, the flags and the frame of the page at index \<open>idx\<close>.\<close>

definition thp_start :: "pmenv \<Rightarrow> bool \<Rightarrow> u64 \<Rightarrow> u64 \<Rightarrow> u64 option \<times> u64 \<times> u64" where
  "thp_start env show_pfn pmd idx =
    (let flags = or_if (vma_softdirty env) PM_SOFT_DIRTY 0 in
     if pmd_none pmd then (None, flags, 0) else
     let (page, flags, frame) =
       (if pmd_present pmd then
          (let flags = flags OR PM_PRESENT;
               flags = or_if (pmd_soft_dirty pmd) PM_SOFT_DIRTY flags;
               flags = or_if (pmd_uffd_wp pmd) PM_UFFD_WP flags in
           (pmd_page env pmd, flags, if show_pfn then pmd_pfn pmd + idx else 0))
        else
          (let entry = softleaf_from_pmd env pmd;
               frame = (if show_pfn then
                          (let offset = (if softleaf_has_pfn env entry then softleaf_to_pfn env entry + idx
                                         else swp_offset env entry + idx) in
                           swp_type env entry OR push_bit 5 offset)
                        else 0);
               flags = flags OR PM_SWAP;
               flags = or_if (pmd_swp_soft_dirty pmd) PM_SOFT_DIRTY flags;
               flags = or_if (pmd_swp_uffd_wp pmd) PM_UFFD_WP flags in
           (softleaf_to_page env entry, flags, frame))) in
     (Some page, or_if (\<not> folio_anon env page) PM_FILE flags, frame))"

definition pagemap_pmd_range_thp :: "pmenv \<Rightarrow> u64 \<Rightarrow> u64 \<Rightarrow> u64 \<Rightarrow> pagemapread \<Rightarrow> int \<times> pagemapread" where
  "pagemap_pmd_range_thp env pmd addr end pm =
    (let idx = drop_bit 12 (addr AND 0x1FFFFF);
         (page, flags, frame) = thp_start env (pm_show_pfn pm) pmd idx in
     thp_loop env page flags frame addr end pm)"

text \<open>
  What a PMD leads to when its range is walked: a huge page (locked), a table at a pointer, or a table
  that went away meanwhile, for which the walker is asked to try again.
\<close>

datatype pmd_kind = Trans_huge u64 | Pte_table u64 | Retry

definition pagemap_pmd_range ::
  "pmenv \<Rightarrow> (u64 \<Rightarrow> u64) \<Rightarrow> pmd_kind \<Rightarrow> u64 \<Rightarrow> u64 \<Rightarrow> pagemapread \<Rightarrow> int \<times> pagemapread" where
  "pagemap_pmd_range env ptep_get kind addr end pm =
    (case kind of
       Trans_huge pmd \<Rightarrow> pagemap_pmd_range_thp env pmd addr end pm
     | Retry \<Rightarrow> (0, pm)
     | Pte_table pte \<Rightarrow> pte_loop env ptep_get pte addr end pm)"

section \<open>Reading the file\<close>

text \<open>
  What a read depends on: the address space (\<open>None\<close> when the file has none), whether its users are
  still counted, its size, the reader's capability, the address of the buffer (0 when there is no
  memory) and what it held before, the answer of the \<open>k\<close>-th \<open>mmap_read_lock_killable\<close> (0 or negative), the tag removal and
  whether the \<open>k\<close>-th \<open>copy_to_user\<close> faults.
\<close>

record read_env =
  re_mm :: "u64 option"
  re_mmget :: bool
  re_task_size :: u64
  re_capable :: bool
  re_buffer :: u64
  re_contents :: "nat \<Rightarrow> u64"
  re_lock :: "nat \<Rightarrow> int"
  re_untag :: "u64 \<Rightarrow> u64"
  re_copy_fails :: "nat \<Rightarrow> bool"

type_synonym walker = "u64 \<Rightarrow> u64 \<Rightarrow> pagemapread \<Rightarrow> int \<times> pagemapread"

definition chunk_end :: "u64 \<Rightarrow> u64 \<Rightarrow> u64" where
  "chunk_end start_vaddr end_vaddr =
    (let end = (start_vaddr + 0x200000) AND NOT 0x1FFFFF in
     if end < start_vaddr \<or> end > end_vaddr then end_vaddr else end)"

lemma unat_drop_bit: "unat (drop_bit n x) = unat x div 2 ^ n" for x :: "'a::len word"
  unfolding unsigned_drop_bit_eq by (simp add: drop_bit_eq_div take_bit_nat_eq_self)

lemma unat_and_not_mask: "unat (x AND NOT (mask n)) = unat x div 2 ^ n * 2 ^ n" for x :: "'a::len word"
proof -
  have eq: "x AND NOT (mask n) = push_bit n (drop_bit n x)"
    by (rule bit_word_eqI)
      (auto simp: bit_and_iff bit_not_iff bit_mask_iff bit_push_bit_iff bit_drop_bit_eq)
  note unat_drop_bit [of n x]
  moreover have "unat x div 2 ^ n * 2 ^ n < 2 ^ LENGTH('a)"
    using div_times_less_eq_dividend [of "unat x" "2 ^ n"] unsigned_less [of x] le_less_trans by blast
  ultimately show ?thesis
    unfolding eq unsigned_push_bit_eq by (simp add: push_bit_eq_mult [where 'a = nat] take_bit_nat_eq_self)
qed

lemma chunk_end_bounds:
  assumes "start_vaddr < end_vaddr"
  shows "start_vaddr < chunk_end start_vaddr end_vaddr" and "chunk_end start_vaddr end_vaddr \<le> end_vaddr"
proof -
  let ?e = "(start_vaddr + 0x200000) AND NOT 0x1FFFFF"
  have "start_vaddr \<noteq> ?e"
  proof
    assume eq: "start_vaddr = ?e"
    have e: "unat ?e = unat (start_vaddr + 0x200000) div 0x200000 * 0x200000"
      using unat_and_not_mask [of "start_vaddr + 0x200000" 21] by (simp add: low_mask_numerals)
    have s: "unat (start_vaddr + 0x200000) = (unat start_vaddr + 0x200000) mod 2 ^ 64"
      by (simp add: unat_add_lem unat_word_ariths)
    have "unat ?e mod 0x200000 = 0" unfolding e by simp
    then have "unat start_vaddr mod 0x200000 = 0" by (simp only: eq [symmetric])
    then have "(unat start_vaddr + 0x200000) mod 2 ^ 64 mod 0x200000 = 0"
      using mod_mod_cancel [of "0x200000" "2 ^ 64 :: nat" "unat start_vaddr + 0x200000"] by simp
    then have "unat ?e = (unat start_vaddr + 0x200000) mod 2 ^ 64"
      unfolding e s by (metis add.right_neutral div_mult_mod_eq)
    then have "unat start_vaddr = (unat start_vaddr + 0x200000) mod 2 ^ 64" using eq by simp
    then show False using unsigned_less [of start_vaddr] by (auto simp: mod_if split: if_splits)
  qed
  then show "start_vaddr < chunk_end start_vaddr end_vaddr" and "chunk_end start_vaddr end_vaddr \<le> end_vaddr"
    using assms by (auto simp: chunk_end_def Let_def)
qed

text \<open>
  The loop of \<open>pagemap_read\<close> from its \<open>k\<close>-th locking on. An \<open>Inl\<close> result is a jump to \<open>out_free\<close>. Every
  chunk ends beyond its start, so the loop ends whatever the walker does.
\<close>

function pagemap_chunks ::
  "read_env \<Rightarrow> walker \<Rightarrow> u64 \<Rightarrow> nat \<Rightarrow> pagemapread \<Rightarrow> u64 \<Rightarrow> u64 \<Rightarrow> u64 \<Rightarrow> int \<Rightarrow> int \<Rightarrow>
     (int + int \<times> int) \<times> u64 list \<times> kevent list" where
  "pagemap_chunks re walk mm k pm end_vaddr start_vaddr cnt ret copied =
    (if cnt \<noteq> 0 \<and> start_vaddr < end_vaddr then
       let pm = pm\<lparr>pm_pos := 0\<rparr>;
           end = chunk_end start_vaddr end_vaddr;
           ret = re_lock re k in
       if ret \<noteq> 0 then (Inl ret, [], []) else
       let (ret, pm) = walk start_vaddr end pm;
           tr = [Acquire (Mmap_lock mm), Release (Mmap_lock mm)];
           len = min cnt (8 * of_nat (pm_pos pm)) in
       if re_copy_fails re k then (Inl (-14), [], tr) else
       let (res, out, tr') =
         pagemap_chunks re walk mm (k + 1) pm end_vaddr end (cnt - len) ret (copied + int (unat len)) in
       (res, take (unat len div 8) (pm_buffer pm) @ out, tr @ tr')
     else (Inr (ret, copied), [], []))"
  by pat_completeness auto
termination
proof (relation "measure (\<lambda>(re, walk, mm, k, pm, end_vaddr, start_vaddr, cnt, ret, copied).
      unat end_vaddr - unat start_vaddr)", goal_cases)
  case 1
  then show ?case by simp
next
  case (2 re walk mm k pm end_vaddr start_vaddr cnt)
  then show ?case
    using chunk_end_bounds [of start_vaddr end_vaddr] by (auto simp: word_less_nat_alt word_le_nat_alt)
qed

declare pagemap_chunks.simps [simp del]

text \<open>The result, the new file position, the entries copied to the reader, and the trace.\<close>

definition pagemap_read ::
  "read_env \<Rightarrow> walker \<Rightarrow> u64 \<Rightarrow> u64 \<Rightarrow> int \<times> u64 \<times> u64 list \<times> kevent list" where
  "pagemap_read re walk cnt ppos =
    (case re_mm re of
       None \<Rightarrow> (0, ppos, [], [])
     | Some mm \<Rightarrow>
       if \<not> re_mmget re then (0, ppos, [], []) else
       let get = [Acquire (Mm_ref mm)]; out_mm = [Release (Mm_ref mm)] in
       if ppos mod 8 \<noteq> 0 \<or> cnt mod 8 \<noteq> 0 then (-22, ppos, [], get @ out_mm) else
       if cnt = 0 then (0, ppos, [], get @ out_mm) else
       let pm = \<lparr>pm_pos = 0, pm_len = 512, pm_buffer = map (re_contents re) [0..<512],
                 pm_show_pfn = re_capable re\<rparr> in
       if re_buffer re = 0 then (-12, ppos, [], get @ out_mm) else
       let get = get @ [Acquire (Kbuf (re_buffer re))];
           out_free = Release (Kbuf (re_buffer re)) # out_mm;
           src = ppos;
           svpfn = src div 8;
           small = svpfn \<le> drop_bit 12 (-1) in
       if small \<and> re_lock re 0 \<noteq> 0 then (re_lock re 0, ppos, [], get @ out_free) else
       let tr = (if small then [Acquire (Mmap_lock mm), Release (Mmap_lock mm)] else []);
           (start_vaddr, end_vaddr) =
             (if small then
                (let start_vaddr = re_untag re (push_bit 12 svpfn);
                     end = start_vaddr + push_bit 12 (cnt div 8) in
                 (start_vaddr, if end \<ge> start_vaddr \<and> end < re_task_size re then end else re_task_size re))
              else (re_task_size re, re_task_size re));
           start_vaddr = (if start_vaddr > re_task_size re then end_vaddr else start_vaddr);
           (res, out, tr') = pagemap_chunks re walk mm 1 pm end_vaddr start_vaddr cnt 0 0 in
       case res of
         Inl ret \<Rightarrow> (ret, ppos, out, get @ tr @ tr' @ out_free)
       | Inr (ret, copied) \<Rightarrow>
           (if ret = 0 \<or> ret = PM_END_OF_BUFFER then copied else ret, ppos + of_int copied, out,
            get @ tr @ tr' @ out_free))"

section \<open>The user programs\<close>

text \<open>
  \<open>pread off\<close> is what reading 8 bytes of the file at an offset gives: how many bytes, and the entry.
  \<open>None\<close> for the file is a failed \<open>open\<close>.
\<close>

definition get_pfn_malloc :: "(u64 \<Rightarrow> int \<times> u64) option \<Rightarrow> u64 \<Rightarrow> u64" where
  "get_pfn_malloc file_op vaddr =
    (case file_op of
       None \<Rightarrow> 0
     | Some pread \<Rightarrow>
       let page_index = drop_bit 12 vaddr;
           offset = page_index * 8;
           (n, entry) = pread offset in
       if n \<noteq> 8 then 0 else
       if drop_bit 63 entry AND 1 \<noteq> 0 then entry AND 0x7FFFFFFFFFFFFF else 0)"

definition get_pfn_dirty :: "(u64 \<Rightarrow> int \<times> u64) option \<Rightarrow> u64 \<Rightarrow> u64" where
  "get_pfn_dirty file_op vaddr =
    (case file_op of
       None \<Rightarrow> 0
     | Some pread \<Rightarrow>
       let offset = vaddr div 4096 * 8;
           (n, entry) = pread offset in
       if n \<noteq> 8 then 0 else
       if \<not> entry AND push_bit 63 1 \<noteq> 0 then 0 else entry AND (push_bit 55 1 - 1))"

text \<open>\<open>mm_exercise_user.c\<close>, lines 169 to 212: the printed present bit, frame and physical address.\<close>

definition axiom_entry :: "(u64 \<Rightarrow> int \<times> u64) option \<Rightarrow> u64 \<Rightarrow> (int \<times> u64 \<times> u64) option" where
  "axiom_entry file_op vaddr =
    (case file_op of
       None \<Rightarrow> None
     | Some pread \<Rightarrow>
       let index = drop_bit 12 vaddr;
           offset = push_bit 3 index;
           (n, entry) = pread offset in
       if n \<noteq> 8 then None else
       let pfn = entry AND (push_bit 55 1 - 1);
           present = (if entry AND push_bit 63 1 \<noteq> 0 then 1 else 0) in
       Some (present, pfn, push_bit 12 pfn))"

text \<open>\<open>dirty_trace_v2.c\<close>, lines 114 to 120: the zone of a frame.\<close>

datatype zone_name = DMA | DMA32 | Normal

definition zone_of :: "u64 \<Rightarrow> zone_name" where
  "zone_of pfn = (if pfn < 4096 then DMA else if pfn < 1048576 then DMA32 else Normal)"

section \<open>What an entry says\<close>

lemma bit_BIT_ULL: "bit (BIT_ULL k) n \<longleftrightarrow> n = k \<and> k < 64"
  by (auto simp: BIT_ULL_def bit_exp_iff possible_bit_def dest: bit_u64_bound)

lemma and_BIT_ULL: "k < 64 \<Longrightarrow> x AND BIT_ULL k = 0 \<longleftrightarrow> \<not> bit x k"
  by (auto simp: BIT_ULL_def and_exp_eq_0_iff_not_bit push_bit_eq_mult)

lemma bit_or_if: "bit (or_if c (BIT_ULL k) flags) n \<longleftrightarrow> bit flags n \<or> c \<and> n = k \<and> k < 64"
  by (simp add: or_if_def bit_or_iff bit_BIT_ULL)

lemma bit_make_pme: "bit (make_pme frame flags) n \<longleftrightarrow> n < 55 \<and> bit frame n \<or> bit flags n"
  by (simp add: make_pme_def bit_or_iff and_low_mask bit_take_bit_iff)

lemma frame_make_pme:
  assumes "\<And>n. bit flags n \<Longrightarrow> 55 \<le> n"
  shows "take_bit 55 (make_pme frame flags) = take_bit 55 frame"
  by (rule bit_word_eqI) (use assms not_le in \<open>auto simp: bit_take_bit_iff bit_make_pme\<close>)

lemmas pme_bits = bit_make_pme bit_or_if bit_BIT_ULL bit_or_iff

lemma pte_pfn_small: "take_bit 55 (pte_pfn pte) = pte_pfn pte"
proof (rule bit_word_eqI)
  fix n
  show "bit (take_bit 55 (pte_pfn pte)) n = bit (pte_pfn pte) n"
    unfolding bit_take_bit_iff pte_pfn_def bit_of_shift bit_and_iff bit_addr_mask by auto
qed

text \<open>The frame field of an entry that is not empty.\<close>

definition pme_frame :: "pmenv \<Rightarrow> u64 \<Rightarrow> u64" where
  "pme_frame env pte =
    (if pte_present pte then pte_pfn pte
     else let entry = softleaf_from_pte env pte in
       swp_type env entry OR
         push_bit 5 (if softleaf_has_pfn env entry then softleaf_to_pfn env entry else swp_offset env entry))"

text \<open>The flag word of an entry, apart from its frame.\<close>

definition pme_flags :: "pmenv \<Rightarrow> u64 \<Rightarrow> u64 \<Rightarrow> u64" where
  "pme_flags env addr pte =
    (let flags = (if pte_present pte
          then or_if (pte_uffd_wp pte) PM_UFFD_WP (or_if (pte_soft_dirty pte) PM_SOFT_DIRTY PM_PRESENT)
          else let entry = softleaf_from_pte env pte in
            or_if (is_guard_marker env entry) PM_GUARD_REGION
              (or_if (is_uffd_wp_marker env entry) PM_UFFD_WP
                (or_if (pte_swp_uffd_wp pte) PM_UFFD_WP
                  (or_if (pte_swp_soft_dirty pte) PM_SOFT_DIRTY 0) OR PM_SWAP)));
         page = (if pte_present pte then vm_normal_page env addr pte
          else if softleaf_has_pfn env (softleaf_from_pte env pte)
          then Some (softleaf_to_page env (softleaf_from_pte env pte)) else None) in
     or_if (vma_softdirty env) PM_SOFT_DIRTY
       (case page of
          None \<Rightarrow> flags
        | Some p \<Rightarrow>
            or_if (or_if (\<not> folio_anon env p) PM_FILE flags AND PM_PRESENT \<noteq> 0 \<and> mapped_exclusively env p)
              PM_MMAP_EXCLUSIVE (or_if (\<not> folio_anon env p) PM_FILE flags)))"

lemma pagemap_entry_nonempty:
  "\<not> pte_none pte \<Longrightarrow>
   pte_to_pagemap_entry env show addr pte = make_pme (if show then pme_frame env pte else 0) (pme_flags env addr pte)"
  by (cases "pte_present pte")
    (simp_all add: pte_to_pagemap_entry_def pme_flags_def pme_frame_def Let_def split: option.split)

lemma pme_flags_bits:
  "bit (pme_flags env addr pte) n \<Longrightarrow> n \<in> {55, 56, 57, 58, 61, 62, 63}"
  "bit (pme_flags env addr pte) 63 \<longleftrightarrow> pte_present pte"
  "bit (pme_flags env addr pte) 62 \<longleftrightarrow> \<not> pte_present pte"
  by (auto simp: pme_flags_def Let_def bit_or_if bit_BIT_ULL bit_or_iff and_BIT_ULL
      split: if_splits option.splits)

lemma pagemap_entry_fields:
  "let e = pte_to_pagemap_entry env show addr pte in
   (bit e 63 \<longleftrightarrow> \<not> pte_none pte \<and> pte_present pte) \<and>
   (bit e 62 \<longleftrightarrow> \<not> pte_none pte \<and> \<not> pte_present pte) \<and>
   \<not> bit e 59 \<and> \<not> bit e 60 \<and>
   take_bit 55 e = (if pte_none pte \<or> \<not> show then 0 else take_bit 55 (pme_frame env pte)) \<and>
   (if pte_none pte then e = (if vma_softdirty env then PM_SOFT_DIRTY else 0) else True)"
proof (cases "pte_none pte")
  case True
  have "take_bit 55 (BIT_ULL 55) = 0"
    by (rule bit_word_eqI) (simp add: bit_take_bit_iff bit_BIT_ULL)
  then show ?thesis
    by (simp add: True pte_to_pagemap_entry_def make_pme_def or_if_def bit_BIT_ULL Let_def)
next
  case False
  have high: "bit (pme_flags env addr pte) n \<Longrightarrow> 55 \<le> n" for n
    using pme_flags_bits(1) [of env addr pte n] by auto
  show ?thesis
    using pme_flags_bits(1) [of env addr pte 59] pme_flags_bits(1) [of env addr pte 60]
    by (auto simp: False pagemap_entry_nonempty frame_make_pme [OF high] bit_make_pme pme_flags_bits(2,3) Let_def)
qed

text \<open>
  An entry of the file says what the page table says: bit 63 is set exactly for a present page,
  bit 62 exactly for another entry that is not empty; the frame field is hidden from an unprivileged
  reader and otherwise the frame of a present page or the swap position; the reserved bits 59 and 60
  are clear, and an empty entry shows nothing but its area's soft-dirty bit.
\<close>

theorem pagemap_entry_faithful:
  "let e = pte_to_pagemap_entry env show addr pte in
   (bit e 63 \<longleftrightarrow> \<not> pte_none pte \<and> pte_present pte) \<and>
   (bit e 62 \<longleftrightarrow> \<not> pte_none pte \<and> \<not> pte_present pte) \<and>
   \<not> bit e 59 \<and> \<not> bit e 60 \<and>
   take_bit 55 e = (if \<not> pte_none pte \<and> show then take_bit 55 (pme_frame env pte) else 0) \<and>
   (if pte_none pte then e = (if vma_softdirty env then PM_SOFT_DIRTY else 0) else True)"
  using pagemap_entry_fields [of env "show" addr pte] by (simp add: Let_def)

section \<open>The buffer as a list of entries\<close>

text \<open>The address of page number \<open>i\<close>.\<close>

definition pg :: "nat \<Rightarrow> u64" where
  "pg i = of_nat (4096 * i)"

lemma unat_pg: "i < 2 ^ 52 \<Longrightarrow> unat (pg i) = 4096 * i"
  unfolding pg_def by (rule unat_of_nat_small) simp

lemma pg_less: "i < 2 ^ 52 \<Longrightarrow> j < 2 ^ 52 \<Longrightarrow> pg i < pg j \<longleftrightarrow> i < j"
  by (simp only: word_less_nat_alt unat_pg) simp

lemma pg_Suc: "pg i + 0x1000 = pg (Suc i)"
  by (simp add: pg_def)

text \<open>A buffer after \<open>xs\<close> were stored at its position, and whether it is full.\<close>

definition pm_store :: "u64 list \<Rightarrow> pagemapread \<Rightarrow> pagemapread" where
  "pm_store xs pm = pm\<lparr>pm_pos := pm_pos pm + length xs,
     pm_buffer := take (pm_pos pm) (pm_buffer pm) @ xs @ drop (pm_pos pm + length xs) (pm_buffer pm)\<rparr>"

definition pm_full :: "pagemapread \<Rightarrow> int" where
  "pm_full pm = (if pm_pos pm \<ge> pm_len pm then PM_END_OF_BUFFER else 0)"

lemma pm_store_fields:
  "pm_pos (pm_store xs pm) = pm_pos pm + length xs" "pm_len (pm_store xs pm) = pm_len pm"
  "pm_show_pfn (pm_store xs pm) = pm_show_pfn pm"
  "pm_pos pm + length xs \<le> length (pm_buffer pm) \<Longrightarrow> length (pm_buffer (pm_store xs pm)) = length (pm_buffer pm)"
  by (simp_all add: pm_store_def)

lemma pm_store_Nil: "pm_store [] pm = pm"
  by (simp add: pm_store_def)

lemma pm_store_append:
  assumes "pm_pos pm + length xs + length ys \<le> length (pm_buffer pm)"
  shows "pm_store ys (pm_store xs pm) = pm_store (xs @ ys) pm"
proof -
  have "min (length (pm_buffer pm)) (pm_pos pm) = pm_pos pm" using assms by simp
  then show ?thesis by (simp add: pm_store_def drop_drop ac_simps)
qed

lemma add_to_pagemap_store:
  assumes "pm_pos pm < length (pm_buffer pm)"
  shows "add_to_pagemap x pm = (pm_full (pm_store [x] pm), pm_store [x] pm)"
  using upd_conv_take_nth_drop [OF assms]
  by (simp add: add_to_pagemap_def pm_store_def pm_full_def Let_def)

lemma pte_loop_store:
  assumes "pm_pos pm + n \<le> pm_len pm" and "length (pm_buffer pm) = pm_len pm" and "s + n < 2 ^ 52"
    and "n \<noteq> 0 \<or> pm_pos pm < pm_len pm"
  shows "pte_loop env ptep_get pte (pg s) (pg (s + n)) pm =
    (let pm' = pm_store (map (\<lambda>i. pte_to_pagemap_entry env (pm_show_pfn pm) (pg (s + i)) (ptep_get (pte + of_nat (8 * i))))
                   [0..<n]) pm in (pm_full pm', pm'))"
  using assms
proof (induction n arbitrary: s pte pm)
  case 0
  then show ?case by (simp add: pte_loop.simps pm_store_Nil pm_full_def Let_def)
next
  case (Suc n)
  let ?x = "pte_to_pagemap_entry env (pm_show_pfn pm) (pg s) (ptep_get pte)"
  let ?pm = "pm_store [?x] pm"
  let ?f = "\<lambda>i. pte_to_pagemap_entry env (pm_show_pfn pm) (pg (s + i)) (ptep_get (pte + of_nat (8 * i)))"
  have less: "pg s < pg (s + Suc n)" using Suc.prems by (subst pg_less) auto
  have add: "add_to_pagemap ?x pm = (pm_full ?pm, ?pm)"
    using Suc.prems by (intro add_to_pagemap_store) simp
  have list: "map ?f [0..<Suc n] = ?x # map (\<lambda>i. ?f (Suc i)) [0..<n]"
    by (simp add: map_upt_Suc del: upt_Suc)
  have step: "pte_loop env ptep_get pte (pg s) (pg (s + Suc n)) pm =
    (if pm_full ?pm \<noteq> 0 then (pm_full ?pm, ?pm)
     else pte_loop env ptep_get (pte + 8) (pg (Suc s)) (pg (s + Suc n)) ?pm)"
    using less by (subst pte_loop.simps) (simp add: add pg_Suc Let_def)
  show ?case
  proof (cases "n = 0 \<and> pm_pos ?pm \<ge> pm_len ?pm")
    case True
    then show ?thesis using step by (simp add: pm_full_def PM_END_OF_BUFFER_def)
  next
    case False
    have room: "pm_pos ?pm < pm_len ?pm" using False Suc.prems by (auto simp: pm_store_fields)
    have "pte_loop env ptep_get (pte + 8) (pg (Suc s)) (pg (Suc s + n)) ?pm =
      (let pm' = pm_store (map (\<lambda>i. ?f (Suc i)) [0..<n]) ?pm in (pm_full pm', pm'))"
      using Suc.prems room Suc.IH [of ?pm "Suc s" "pte + 8"]
      by (simp add: pm_store_fields add.assoc)
    moreover have "pm_store (map (\<lambda>i. ?f (Suc i)) [0..<n]) ?pm = pm_store (map ?f [0..<Suc n]) pm"
      unfolding list using Suc.prems by (subst pm_store_append) auto
    moreover have "pm_full ?pm = 0" using room by (simp add: pm_full_def)
    ultimately show ?thesis using step by (simp del: upt_Suc)
  qed
qed

section \<open>The read operation against the flat file\<close>

text \<open>
  What a generic walker promises over one chunk: the entries of the pages of the range are stored in
  order from the start of the buffer, and it reports whether the buffer is full. A chunk lies in one
  PMD.
\<close>

locale pagemap_walker =
  fixes walk :: walker and entry :: "u64 \<Rightarrow> u64" and shown :: bool
  assumes walk_chunk:
    "pm_pos pm = 0 \<Longrightarrow> length (pm_buffer pm) = pm_len pm \<Longrightarrow> pm_show_pfn pm = shown \<Longrightarrow>
     0 < n \<Longrightarrow> n \<le> pm_len pm \<Longrightarrow> s mod 512 + n \<le> 512 \<Longrightarrow> s + n < 2 ^ 51 \<Longrightarrow>
     walk (pg s) (pg (s + n)) pm =
       (let pm' = pm_store (map (\<lambda>i. entry (pg i)) [s..<s + n]) pm in (pm_full pm', pm'))"
begin

lemma chunk_end_pg:
  assumes "s < e" and "e < 2 ^ 51"
  shows "chunk_end (pg s) (pg e) = pg (min e (512 * (s div 512 + 1)))"
proof -
  let ?m = "512 * (s div 512 + 1)"
  have "512 * (s div 512) \<le> s" by simp
  then have m: "?m < 2 ^ 52" using assms by simp
  have "unat (pg s + 0x200000) = 4096 * (s + 512)"
  proof -
    have "pg s + 0x200000 = pg (s + 512)" by (simp add: pg_def)
    then show ?thesis using assms unat_pg [of "s + 512"] by simp
  qed
  then have "unat ((pg s + 0x200000) AND NOT (mask 21)) = 4096 * (s + 512) div 2 ^ 21 * 2 ^ 21"
    by (simp only: unat_and_not_mask)
  also have "4096 * (s + 512) div 2 ^ 21 * 2 ^ 21 = 4096 * ?m"
    using div_mult_mult1 [of 4096 "s + 512" 512] div_add_self2 [of 512 s] by simp
  also have "\<dots> = unat (pg ?m)" using m by (simp only: unat_pg)
  finally have "(pg s + 0x200000) AND NOT 0x1FFFFF = pg ?m"
    by (simp only: word_unat_eq_iff low_mask_numerals)
  moreover have "\<not> pg ?m < pg s" using assms m by (subst pg_less) auto
  moreover have "pg ?m > pg e \<longleftrightarrow> e < ?m" using assms m by (intro pg_less) auto
  ultimately show ?thesis
    unfolding chunk_end_def Let_def by (auto simp: min_def)
qed

lemma chunks_flat:
  assumes env: "\<And>k. re_lock re k = 0" "\<And>k. \<not> re_copy_fails re k"
    and pm: "pm_len pm = 512" "length (pm_buffer pm) = 512" "pm_show_pfn pm = shown"
    and range: "s \<le> e" "e < 2 ^ 51" "e - s \<le> c" "c < 2 ^ 51"
    and ret: "ret = 0 \<or> ret = PM_END_OF_BUFFER"
  shows "\<exists>ret' tr. (ret' = 0 \<or> ret' = PM_END_OF_BUFFER) \<and>
    pagemap_chunks re walk mm k pm (pg e) (pg s) (of_nat (8 * c)) ret copied =
      (Inr (ret', copied + int (8 * (e - s))), map (\<lambda>i. entry (pg i)) [s..<e], tr)"
  using pm range ret
proof (induction "e - s" arbitrary: s c k pm ret copied rule: less_induct)
  case less
  show ?case
  proof (cases "s < e")
    case False
    then show ?thesis using less.prems by (subst pagemap_chunks.simps) (simp add: pg_less)
  next
    case True
    define t where "t = min e (512 * (s div 512 + 1))"
    obtain d r where dr: "s = 512 * d + r" "r < 512" "s div 512 = d" "s mod 512 = r"
      by (metis mult_div_mod_eq mod_less_divisor zero_less_numeral)
    have t: "s < t" "t \<le> e" "t - s \<le> 512" "s mod 512 + (t - s) \<le> 512"
      using True unfolding t_def dr(3,4) min_def using dr(1,2) by auto
    let ?pm = "pm\<lparr>pm_pos := 0\<rparr>"
    let ?f = "\<lambda>i. entry (pg i)"
    define pm1 where "pm1 = pm_store (map ?f [s..<t]) ?pm"
    have walk: "walk (pg s) (pg t) ?pm = (pm_full pm1, pm1)"
      using walk_chunk [of ?pm "t - s" s] t less.prems by (simp add: pm1_def Let_def)
    have pm1: "pm_pos pm1 = t - s" "pm_len pm1 = 512" "length (pm_buffer pm1) = 512" "pm_show_pfn pm1 = shown"
      using t less.prems by (simp_all add: pm1_def pm_store_fields)
    have out: "take (t - s) (pm_buffer pm1) = map ?f [s..<t]"
      by (simp add: pm1_def pm_store_def)
    have cnt: "unat (of_nat (8 * c) :: u64) = 8 * c" "unat (of_nat (8 * (t - s)) :: u64) = 8 * (t - s)"
      using less.prems t by (intro unat_of_nat_small, simp)+
    then have pos: "(of_nat (8 * c) :: u64) \<noteq> 0" using True less.prems by auto
    have len: "min (of_nat (8 * c)) (8 * of_nat (pm_pos pm1)) = (of_nat (8 * (t - s)) :: u64)"
    proof -
      have "(of_nat (8 * (t - s)) :: u64) \<le> of_nat (8 * c)"
        unfolding word_le_nat_alt cnt using less.prems t by simp
      then show ?thesis by (simp add: pm1 min_def)
    qed
    have rest: "of_nat (8 * c) - of_nat (8 * (t - s)) = (of_nat (8 * (c - (t - s))) :: u64)"
      using less.prems t by (simp add: of_nat_diff diff_mult_distrib2)
    have smaller: "e - t < e - s" "e - t \<le> c - (t - s)" "c - (t - s) < 2 ^ 51"
      using t less.prems True by simp_all
    have full: "pm_full pm1 = 0 \<or> pm_full pm1 = PM_END_OF_BUFFER" by (simp add: pm_full_def)
    have "copied + int (8 * (t - s)) + int (8 * (e - t)) = copied + int (8 * (e - s))" using t by simp
    with less.hyps [OF smaller(1) pm1(2,3,4) t(2) less.prems(5) smaller(2,3) full,
        where k = "k + 1" and copied = "copied + int (8 * (t - s))"]
    obtain ret' tr where ret': "ret' = 0 \<or> ret' = PM_END_OF_BUFFER" and
      IH: "pagemap_chunks re walk mm (k + 1) pm1 (pg e) (pg t) (of_nat (8 * (c - (t - s)))) (pm_full pm1)
          (copied + int (8 * (t - s))) =
        (Inr (ret', copied + int (8 * (e - s))), map ?f [t..<e], tr)"
      by auto
    have "pagemap_chunks re walk mm k pm (pg e) (pg s) (of_nat (8 * c)) ret copied =
      (Inr (ret', copied + int (8 * (e - s))), map ?f [s..<e],
       [Acquire (Mmap_lock mm), Release (Mmap_lock mm)] @ tr)"
    proof -
      have "chunk_end (pg s) (pg e) = pg t" using chunk_end_pg True less.prems by (simp add: t_def)
      moreover have "pg s < pg e" using True less.prems by (subst pg_less) auto
      moreover have "[s..<e] = [s..<t] @ [t..<e]" using upt_add_eq_append [of s t "e - t"] t by simp
      ultimately show ?thesis
        using IH env walk pos by (subst pagemap_chunks.simps) (simp only: Let_def len rest cnt out prod.case if_True if_False simp_thms not_False_eq_True, simp add: out)
    qed
    with ret' show ?thesis by blast
  qed
qed

lemma read_flat:
  assumes opened: "re_mm re = Some mm" "re_mmget re" "re_buffer re \<noteq> 0" "re_capable re = shown"
    and env: "\<And>k. re_lock re k = 0" "\<And>k. \<not> re_copy_fails re k"
    and size: "re_task_size re = pg T" "T < 2 ^ 50" and pos: "re_untag re (pg p) = pg p" "p < 2 ^ 50"
    and cnt: "0 < c" "c < 2 ^ 28" and n: "n = min c (T - p)"
  shows "\<exists>tr. pagemap_read re walk (of_nat (8 * c)) (of_nat (8 * p)) =
    (int (8 * n), of_nat (8 * (p + n)), map (\<lambda>i. entry (pg i)) [p..<p + n], tr)"
proof -
  define s where "s = (if T < p then T else p)"
  define e where "e = min (p + c) T"
  let ?pm = "\<lparr>pm_pos = 0, pm_len = 512, pm_buffer = map (re_contents re) [0..<512], pm_show_pfn = re_capable re\<rparr>"
  have "min (p + c) T = p + min c (T - p)" if "\<not> T < p" using that by auto
  then have se: "s \<le> e" "e - s = n" "[s..<e] = [p..<p + n]" "e < 2 ^ 51" "e - s \<le> c" "c < 2 ^ 51"
    using n cnt size pos by (auto simp: s_def e_def)
  have words: "unat (of_nat (8 * c) :: u64) = 8 * c" "unat (of_nat (8 * p) :: u64) = 8 * p"
      "unat (of_nat p :: u64) = p" "unat (of_nat c :: u64) = c"
    using cnt pos by (intro unat_of_nat_small, simp)+
  have aligned: "of_nat (8 * p) mod (8 :: u64) = 0" "of_nat (8 * c) mod (8 :: u64) = 0"
      "of_nat (8 * p) div (8 :: u64) = of_nat p" "of_nat (8 * c) div (8 :: u64) = of_nat c"
    by (simp_all only: word_unat_eq_iff unat_mod unat_div words) simp_all
  have c0: "(of_nat (8 * c) :: u64) \<noteq> 0" using cnt words(1) by auto
  have small: "of_nat p \<le> (drop_bit 12 (- 1) :: u64)"
    using pos words(3) by (simp add: word_le_nat_alt mask_eq_exp_minus_1)
  have shift: "push_bit 12 (of_nat i) = pg i" for i
    by (simp add: push_bit_eq_mult pg_def)
  have sum: "pg p + pg c = pg (p + c)" by (simp add: pg_def algebra_simps)
  have bounds: "pg p \<le> pg (p + c)" "pg (p + c) < pg T \<longleftrightarrow> p + c < T" "pg p > pg T \<longleftrightarrow> p > T"
    using size pos cnt by (simp_all add: pg_less not_less [symmetric])
  obtain ret tr where ret: "ret = 0 \<or> ret = PM_END_OF_BUFFER" and
    chunks: "pagemap_chunks re walk mm 1 ?pm (pg e) (pg s) (of_nat (8 * c)) 0 0 =
      (Inr (ret, int (8 * (e - s))), map (\<lambda>i. entry (pg i)) [s..<e], tr)"
    using chunks_flat [of re ?pm s e c 0 mm 1 0, OF env _ _ _ se(1,4,5,6)] opened by auto
  have ends: "(if pg p \<le> pg (p + c) \<and> pg (p + c) < pg T then pg (p + c) else pg T) = pg e"
    using bounds by (auto simp: e_def)
  have start: "(if pg p > pg T then pg e else pg p) = pg s"
    using bounds by (auto simp: s_def e_def)
  have "ppos + of_int (int (8 * n)) = of_nat (8 * (p + n))" if "ppos = of_nat (8 * p)" for ppos :: u64
    using that by simp
  then show ?thesis
    unfolding pagemap_read_def using opened env size pos aligned c0 small ret chunks ends start se
    by (simp add: Let_def shift sum cong: if_cong del: of_nat_mult)
qed

end

section \<open>Walkers over the model's tables\<close>

text \<open>
  The generic walker over a region with page tables: for a chunk inside one PMD it calls
  \<open>pagemap_pmd_range\<close> with the table of that PMD, \<open>table\<close> by PMD number.
\<close>

definition pte_pointer :: "(u64 \<Rightarrow> u64) \<Rightarrow> u64 \<Rightarrow> u64" where
  "pte_pointer table addr = table (drop_bit 21 addr) + 8 * (drop_bit 12 addr AND 0x1FF)"

definition table_walk :: "pmenv \<Rightarrow> (u64 \<Rightarrow> u64) \<Rightarrow> (u64 \<Rightarrow> u64) \<Rightarrow> walker" where
  "table_walk env ptep_get table start end pm =
    pagemap_pmd_range env ptep_get (Pte_table (pte_pointer table start)) start end pm"

definition table_entry :: "pmenv \<Rightarrow> (u64 \<Rightarrow> u64) \<Rightarrow> (u64 \<Rightarrow> u64) \<Rightarrow> bool \<Rightarrow> u64 \<Rightarrow> u64" where
  "table_entry env ptep_get table shown addr =
    pte_to_pagemap_entry env shown addr (ptep_get (pte_pointer table addr))"

lemma drop_bit_pg:
  assumes "i < 2 ^ 52"
  shows "drop_bit 12 (pg i) = of_nat i" "drop_bit 21 (pg i) = of_nat (i div 512)"
    "drop_bit 12 (pg i) AND 0x1FF = of_nat (i mod 512)"
proof -
  have u: "unat (of_nat i :: u64) = i" "unat (of_nat (i div 512) :: u64) = i div 512"
      "unat (of_nat (i mod 512) :: u64) = i mod 512"
    using assms by (intro unat_of_nat_small, simp)+
  show 12: "drop_bit 12 (pg i) = of_nat i"
    by (simp only: word_unat_eq_iff unat_drop_bit unat_pg [OF assms] u) simp
  have "4096 * i div 2 ^ 21 = i div 512" using div_mult_mult1 [of 4096 i 512] by simp
  then show "drop_bit 21 (pg i) = of_nat (i div 512)"
    by (simp only: word_unat_eq_iff unat_drop_bit unat_pg [OF assms] u)
  have "unat (take_bit 9 (of_nat i :: u64)) = i mod 512"
    unfolding unsigned_take_bit_eq u by (simp add: take_bit_eq_mod)
  then show "drop_bit 12 (pg i) AND 0x1FF = of_nat (i mod 512)"
    by (simp only: 12 word_unat_eq_iff u and_low_mask)
qed

lemma pte_pointer_pg:
  "i < 2 ^ 52 \<Longrightarrow> pte_pointer table (pg i) = table (of_nat (i div 512)) + 8 * of_nat (i mod 512)"
  by (simp only: pte_pointer_def drop_bit_pg(2,3))

lemma pte_pointer_step:
  assumes "s mod 512 + i < 512" and "s + i < 2 ^ 52"
  shows "pte_pointer table (pg (s + i)) = pte_pointer table (pg s) + of_nat (8 * i)"
proof -
  obtain d r where dr: "s = 512 * d + r" "r < 512" by (metis mult_div_mod_eq mod_less_divisor zero_less_numeral)
  then have "s + i = 512 * d + (r + i)" "r + i < 512" using assms by simp_all
  then have "(s + i) div 512 = s div 512" "(s + i) mod 512 = s mod 512 + i"
    using dr by (simp_all only: div_mult_self4 mod_mult_self4 div_less mod_less)
  then show ?thesis using assms by (simp add: pte_pointer_pg algebra_simps)
qed

interpretation tw: pagemap_walker "table_walk env ptep_get table" "table_entry env ptep_get table shown" shown
  for env ptep_get table shown
proof unfold_locales
  fix pm :: pagemapread and n s :: nat
  assume pm: "pm_pos pm = 0" "length (pm_buffer pm) = pm_len pm" "pm_show_pfn pm = shown"
    and n: "0 < n" "n \<le> pm_len pm" "s mod 512 + n \<le> 512" "s + n < 2 ^ 51"
  have "table_entry env ptep_get table shown (pg i) =
      pte_to_pagemap_entry env shown (pg (s + (i - s)))
        (ptep_get (pte_pointer table (pg s) + of_nat (8 * (i - s))))" if "i \<in> set [s..<s + n]" for i
    using that n pte_pointer_step [of s "i - s" table] by (auto simp: table_entry_def)
  then have "map (\<lambda>i. table_entry env ptep_get table shown (pg i)) [s..<s + n] =
      map (\<lambda>i. pte_to_pagemap_entry env shown (pg (s + i))
        (ptep_get (pte_pointer table (pg s) + of_nat (8 * i)))) [0..<n]"
    by (intro nth_equalityI) auto
  then show "table_walk env ptep_get table (pg s) (pg (s + n)) pm =
      (let pm' = pm_store (map (\<lambda>i. table_entry env ptep_get table shown (pg i)) [s..<s + n]) pm in (pm_full pm', pm'))"
    using pte_loop_store [of pm n s env ptep_get "pte_pointer table (pg s)"] pm n
    by (simp add: table_walk_def pagemap_pmd_range_def)
qed

text \<open>A chunk in pages: it stays within one table, and the pages of a range are cut off its front.\<close>

lemma pg_diff:
  assumes "k + m < 2 ^ 52"
  shows "unat ((pg (k + m) - pg k) div 4096) = m"
proof -
  have "unat (pg (k + m) - pg k) = 4096 * m"
    using assms by (subst unat_sub) (simp_all add: word_le_nat_alt unat_pg)
  then show ?thesis by (simp add: unat_div)
qed

lemma chunk_pages:
  assumes "0 < j" and "k + j < 2 ^ 51"
  obtains m where "0 < m" "m \<le> j" "k mod 512 + m \<le> 512" "m = j \<or> (k + m) mod 512 = 0" "chunk_end (pg k) (pg (k + j)) = pg (k + m)"
    "unat ((pg (k + m) - pg k) div 4096) = m" "pg k < pg (k + j)" "pg k < pg (k + m)"
proof -
  define m where "m = min j (512 - k mod 512)"
  obtain d r where dr: "k = 512 * d + r" "r < 512" by (metis mult_div_mod_eq mod_less_divisor zero_less_numeral)
  then have m: "0 < m" "m \<le> j" "min (k + j) (512 * (k div 512 + 1)) = k + m" "k mod 512 + m \<le> 512" "m = j \<or> (k + m) mod 512 = 0"
    using assms(1) by (auto simp: m_def min_def)
  have "chunk_end (pg k) (pg (k + j)) = pg (k + m)"
    using tw.chunk_end_pg [of k "k + j"] assms m(3) by simp
  then show thesis using that [of m] m(1,2,4,5) assms pg_diff [of k m] by (simp add: pg_less)
qed

section \<open>Properties of the read operation\<close>

text \<open>
  The file is the flat array of its pages: reading \<open>c\<close> entries at entry \<open>p\<close> of a task of \<open>T\<close>
  pages over its page tables, in whatever chunks the PMDs impose, copies exactly the entries of pages
  \<open>p\<close>, \<open>p + 1\<close>, \<dots> up to the request or the end of the address space, returns their size and advances
  the position by it; beyond the end it returns 0.
\<close>

theorem pagemap_read_flat:
  assumes "re_mm re = Some mm" "re_mmget re" "re_buffer re \<noteq> 0"
    and "\<forall>k. re_lock re k = 0" "\<forall>k. \<not> re_copy_fails re k"
    and "re_task_size re = pg T" "T < 2 ^ 50" and "re_untag re (pg p) = pg p" "p < 2 ^ 50"
    and "0 < c" "c < 2 ^ 28"
  shows "case pagemap_read re (table_walk env ptep_get table) (of_nat (8 * c)) (of_nat (8 * p)) of
      (ret, ppos, out, tr) \<Rightarrow>
        ret = int (8 * min c (T - p)) \<and> ppos = of_nat (8 * (p + min c (T - p))) \<and>
        out = map (\<lambda>i. table_entry env ptep_get table (re_capable re) (pg i)) [p..<p + min c (T - p)]"
  using tw.read_flat [of re mm "re_capable re" T p c "min c (T - p)" env ptep_get table] assms by auto

text \<open>Every way through the loop and the operation.\<close>

lemma nested_chunks:
  assumes "pagemap_chunks re walk mm k pm end_vaddr start_vaddr cnt ret copied = (res, out, tr)"
  shows "mrun nstep st tr = Some st"
  using assms
proof (induction re walk mm k pm end_vaddr start_vaddr cnt ret copied arbitrary: res out tr st
    rule: pagemap_chunks.induct)
  case (1 re walk mm k pm end_vaddr start_vaddr cnt ret copied)
  show ?case
  proof (cases "cnt \<noteq> 0 \<and> start_vaddr < end_vaddr \<and> re_lock re k = 0 \<and> \<not> re_copy_fails re k")
    case True
    let ?nxt = "chunk_end start_vaddr end_vaddr"
    obtain ret' pm' where w: "walk start_vaddr ?nxt (pm\<lparr>pm_pos := 0\<rparr>) = (ret', pm')" by fastforce
    let ?len = "min cnt (8 * of_nat (pm_pos pm'))"
    obtain res' out' tr' where rec: "pagemap_chunks re walk mm (k + 1) pm' end_vaddr ?nxt (cnt - ?len) ret'
        (copied + int (unat ?len)) = (res', out', tr')"
      by (metis prod_cases3)
    have "mrun nstep st tr' = Some st" using 1(1) True w rec by simp
    moreover have "tr = [Acquire (Mmap_lock mm), Release (Mmap_lock mm)] @ tr'"
      using 1(2) True w rec by (subst (asm) pagemap_chunks.simps) (simp add: Let_def)
    ultimately show ?thesis by simp
  next
    case False
    then show ?thesis
      using 1(2) by (subst (asm) pagemap_chunks.simps) (auto simp: Let_def split: if_splits prod.splits)
  qed
qed

text \<open>
  How the loop ends: \<open>n\<close> is the round that fails to take the lock or to copy, all earlier ones do
  neither; or no round fails, and the bytes copied are at most those asked for. The lock is taken once
  in every round that gets it.
\<close>

definition round_fine :: "read_env \<Rightarrow> nat \<Rightarrow> bool" where
  "round_fine re i \<longleftrightarrow> re_lock re i = 0 \<and> \<not> re_copy_fails re i"

definition chunks_end :: "read_env \<Rightarrow> walker \<Rightarrow> nat \<Rightarrow> nat \<Rightarrow> nat \<Rightarrow> nat \<Rightarrow> int \<Rightarrow> int + int \<times> nat \<Rightarrow> bool" where
  "chunks_end re walk k rounds cnt n ret res \<longleftrightarrow>
    8 * n \<le> cnt \<and>
    (case res of
       Inl e \<Rightarrow>
         list_all (round_fine re) [k..<k + rounds] \<and> re_lock re (k + rounds) \<noteq> 0 \<and> e = re_lock re (k + rounds) \<or>
         (\<exists>m. rounds = Suc m \<and> list_all (round_fine re) [k..<k + m] \<and> re_lock re (k + m) = 0 \<and>
           re_copy_fails re (k + m) \<and> e = -14)
     | Inr (r, d) \<Rightarrow>
         list_all (round_fine re) [k..<k + rounds] \<and> d \<le> cnt \<and> 8 * n \<le> d \<and>
         (if rounds = 0 then r = ret else \<exists>a b pm pm'. walk a b pm = (r, pm')))"

lemma chunks_end_step:
  assumes "round_fine re k" and "walk a b pm = (ret', pm')" and "len \<le> cnt" "8 * n \<le> len"
    and "chunks_end re walk (Suc k) rounds (cnt - len) n' ret' res"
  shows "chunks_end re walk k (Suc rounds) cnt (n + n') ret (map_sum id (map_prod id (\<lambda>d. len + d)) res)"
proof -
  have all: "list_all (round_fine re) [k..<k + Suc m] = list_all (round_fine re) [Suc k..<Suc k + m]" for m
  proof -
    have "[k..<k + Suc m] = k # [Suc k..<Suc k + m]" by (subst upt_conv_Cons) simp_all
    then show ?thesis using assms(1) by simp
  qed
  show ?thesis
  proof (cases res)
    case (Inl e)
    have sum: "Suc k + m = k + Suc m" for m by simp
    have "8 * n' \<le> cnt - len" using assms(5) unfolding chunks_end_def by (rule conjunct1)
    then have "8 * n' + len \<le> cnt" using le_diff_conv2 [OF assms(3)] by blast
    then have size: "8 * (n + n') \<le> cnt" using assms(4) by (simp add: distrib_left)
    consider (lock) "list_all (round_fine re) [Suc k..<Suc k + rounds]" "re_lock re (Suc k + rounds) \<noteq> 0"
        "e = re_lock re (Suc k + rounds)"
      | (copy) m where "rounds = Suc m" "list_all (round_fine re) [Suc k..<Suc k + m]" "re_lock re (Suc k + m) = 0"
        "re_copy_fails re (Suc k + m)" "e = -14"
      using assms(5) unfolding chunks_end_def Inl sum.case by blast
    then show ?thesis
    proof cases
      case lock
      then show ?thesis
        unfolding chunks_end_def Inl map_sum.simps sum.case id_apply by (intro conjI size disjI1) (simp_all only: all sum simp_thms)
    next
      case copy
      then show ?thesis
        unfolding chunks_end_def Inl map_sum.simps sum.case id_apply
        by (intro conjI size disjI2 exI [of _ "Suc m"]) (simp_all only: all sum simp_thms)
    qed
  next
    case (Inr rd)
    then show ?thesis
      using assms(2-5) unfolding chunks_end_def Inr map_sum.simps sum.case all
      by (cases rd) (auto split: if_splits)
  qed
qed

lemma chunk_outcome:
  assumes "pagemap_chunks re walk mm k pm end_vaddr start_vaddr cnt ret copied = (res, out, tr)"
  shows "\<exists>res'. res = map_sum id (map_prod id (\<lambda>d. copied + int d)) res' \<and>
    chunks_end re walk k (count_list tr (Acquire (Mmap_lock mm))) (unat cnt) (length out) ret res'"
  using assms
proof (induction re walk mm k pm end_vaddr start_vaddr cnt ret copied arbitrary: res out tr
    rule: pagemap_chunks.induct)
  case (1 re walk mm k pm end_vaddr start_vaddr cnt ret copied)
  note run = 1(2)
  show ?case
  proof (cases "cnt \<noteq> 0 \<and> start_vaddr < end_vaddr \<and> round_fine re k")
    case True
    then have fine: "round_fine re k" by simp
    let ?nxt = "chunk_end start_vaddr end_vaddr"
    obtain ret' pm' where w: "walk start_vaddr ?nxt (pm\<lparr>pm_pos := 0\<rparr>) = (ret', pm')" by fastforce
    let ?len = "min cnt (8 * of_nat (pm_pos pm'))"
    obtain res1 out1 tr1 where rec: "pagemap_chunks re walk mm (k + 1) pm' end_vaddr ?nxt (cnt - ?len) ret'
        (copied + int (unat ?len)) = (res1, out1, tr1)"
      by (metis prod_cases3)
    obtain res' where res': "res1 = map_sum id (map_prod id (\<lambda>d. copied + int (unat ?len) + int d)) res'"
      "chunks_end re walk (Suc k) (count_list tr1 (Acquire (Mmap_lock mm))) (unat (cnt - ?len)) (length out1) ret' res'"
      using 1(1) [OF _ refl refl refl _ w [symmetric] refl refl refl _ rec] True
      unfolding round_fine_def Suc_eq_plus1 by blast
    have step: "res = res1" "out = take (unat ?len div 8) (pm_buffer pm') @ out1"
      "tr = [Acquire (Mmap_lock mm), Release (Mmap_lock mm)] @ tr1"
      using run True w rec by (subst (asm) pagemap_chunks.simps, simp add: Let_def round_fine_def)+
    have "?len \<le> cnt" by simp
    then have len: "unat ?len \<le> unat cnt" "unat (cnt - ?len) = unat cnt - unat ?len"
      by (simp_all only: word_le_nat_alt unat_sub)
    have taken: "8 * length (take (unat ?len div 8) (pm_buffer pm')) \<le> unat ?len" by simp
    show ?thesis
      using chunks_end_step [OF fine w len(1) taken res'(2) [unfolded len(2)], of ret] res'(1) unfolding step
      by (intro exI [of _ "map_sum id (map_prod id (\<lambda>d. unat ?len + d)) res'"])
        (simp add: sum.map_comp prod.map_comp o_def add.assoc id_def)
  next
    case False
    then consider (over) "\<not> (cnt \<noteq> 0 \<and> start_vaddr < end_vaddr)"
      | (lock) "cnt \<noteq> 0" "start_vaddr < end_vaddr" "re_lock re k \<noteq> 0"
      | (copy) "cnt \<noteq> 0" "start_vaddr < end_vaddr" "re_lock re k = 0" "re_copy_fails re k"
      by (auto simp: round_fine_def)
    then show ?thesis
    proof cases
      case over
      then have "res = Inr (ret, copied)" "out = []" "tr = []"
        using run by (subst (asm) pagemap_chunks.simps, auto)+
      then show ?thesis by (intro exI [of _ "Inr (ret, 0)"]) (simp add: chunks_end_def)
    next
      case lock
      then have "res = Inl (re_lock re k)" "out = []" "tr = []"
        using run by (subst (asm) pagemap_chunks.simps, auto)+
      then show ?thesis using lock by (intro exI [of _ "Inl (re_lock re k)"]) (simp add: chunks_end_def)
    next
      case copy
      then have "res = Inl (-14)" "out = []" "tr = [Acquire (Mmap_lock mm), Release (Mmap_lock mm)]"
        using run by (subst (asm) pagemap_chunks.simps, auto split: prod.splits)+
      then show ?thesis using copy by (intro exI [of _ "Inl (-14)"]) (simp add: chunks_end_def)
    qed
  qed
qed

lemma read_loop:
  assumes "re_mm re = Some mm" "re_mmget re" "ppos mod 8 = 0" "cnt mod 8 = 0" "cnt \<noteq> 0" "re_buffer re \<noteq> 0"
    and "\<not> (ppos div 8 \<le> drop_bit 12 (-1) \<and> re_lock re 0 \<noteq> 0)"
  obtains pm ev sv res out tr' where "pagemap_chunks re walk mm 1 pm ev sv cnt 0 0 = (res, out, tr')"
    and "pagemap_read re walk cnt ppos =
      (let tr = [Acquire (Mm_ref mm), Acquire (Kbuf (re_buffer re))] @
         (if ppos div 8 \<le> drop_bit 12 (-1) then [Acquire (Mmap_lock mm), Release (Mmap_lock mm)] else []) @ tr' @
         [Release (Kbuf (re_buffer re)), Release (Mm_ref mm)] in
       case res of Inl ret \<Rightarrow> (ret, ppos, out, tr)
       | Inr (ret, copied) \<Rightarrow> (if ret = 0 \<or> ret = PM_END_OF_BUFFER then copied else ret, ppos + of_int copied, out, tr))"
proof (cases "ppos div 8 \<le> drop_bit 12 (-1)")
  case True
  let ?sv = "re_untag re (push_bit 12 (ppos div 8))"
  let ?ev = "if ?sv + push_bit 12 (cnt div 8) \<ge> ?sv \<and> ?sv + push_bit 12 (cnt div 8) < re_task_size re
    then ?sv + push_bit 12 (cnt div 8) else re_task_size re"
  let ?pm = "\<lparr>pm_pos = 0, pm_len = 512, pm_buffer = map (re_contents re) [0..<512], pm_show_pfn = re_capable re\<rparr>"
  obtain res out tr' where chunks: "pagemap_chunks re walk mm 1 ?pm ?ev (if ?sv > re_task_size re then ?ev else ?sv) cnt 0 0 =
      (res, out, tr')"
    by (metis prod_cases3)
  show ?thesis
    by (rule that [OF chunks]) (use assms True chunks in \<open>simp only: pagemap_read_def Let_def option.case prod.case if_True if_False
      not_True_eq_False simp_thms append.assoc append_Cons append_Nil\<close>)
next
  case False
  let ?pm = "\<lparr>pm_pos = 0, pm_len = 512, pm_buffer = map (re_contents re) [0..<512], pm_show_pfn = re_capable re\<rparr>"
  obtain res out tr' where chunks: "pagemap_chunks re walk mm 1 ?pm (re_task_size re) (re_task_size re) cnt 0 0 = (res, out, tr')"
    by (metis prod_cases3)
  show ?thesis
    by (rule that [OF chunks]) (use assms False chunks in \<open>simp only: pagemap_read_def Let_def option.case prod.case if_True if_False
      not_True_eq_False simp_thms append.assoc append_Cons append_Nil if_cancel\<close>)
qed


section \<open>The programs on the file\<close>

text \<open>An 8-byte \<open>pread\<close> of the file: the byte count and the entry, when there is one.\<close>

definition pread8 :: "read_env \<Rightarrow> walker \<Rightarrow> u64 \<Rightarrow> int \<times> u64" where
  "pread8 re walk off =
    (case pagemap_read re walk 8 off of (ret, ppos, out, tr) \<Rightarrow> (ret, if out = [] then 0 else hd out))"

lemma present_bit: "x AND push_bit 63 1 \<noteq> 0 \<longleftrightarrow> bit x 63" "drop_bit 63 x AND 1 \<noteq> 0 \<longleftrightarrow> bit x 63" for x :: u64
  using and_BIT_ULL [of 63 x] by (simp_all add: BIT_ULL_def drop_bit_and_one_iff)

lemma low_55: "push_bit 55 1 - 1 = (0x7FFFFFFFFFFFFF :: u64)"
  by simp

lemma present_entry:
  assumes "bit pte 0"
  shows "\<not> pte_none pte" and "pte_present pte" and "pte_pfn pte * 4096 = pte AND PTE_ADDR_MASK"
proof -
  have "bit (pte AND NOT KNL_ERRATUM_MASK) 0" "bit (pte_flags pte AND 0x101) 0"
    using assms by (simp_all add: pte_flags_def bit_and_iff bit_not_iff bit_addr_mask)
  then show "\<not> pte_none pte" and "pte_present pte"
    unfolding pte_none_def pte_present_def by auto
  show "pte_pfn pte * 4096 = pte AND PTE_ADDR_MASK"
    using pte_pfn_phys [OF assms] by (simp add: push_bit_eq_mult source_frames)
qed

text \<open>
  The three programs decode an entry alike: both \<open>get_pfn\<close> functions agree on every file and every
  address, failed calls included, although one divides and multiplies where the other shifts and one
  masks with a hexadecimal literal; \<open>mm_exercise_user\<close> prints the same frame for a present page,
  and its physical address is that frame times the page size.
\<close>

theorem decoders_agree:
  "get_pfn_malloc f va = get_pfn_dirty f va \<and>
   (case axiom_entry f va of
      None \<Rightarrow> get_pfn_malloc f va = 0
    | Some (present, pfn, phys) \<Rightarrow>
        get_pfn_malloc f va = (if present = 1 then pfn else 0) \<and> phys = pfn * 4096 \<and> unat pfn < 2 ^ 55)"
proof -
  have "va div 4096 = drop_bit 12 va"
    by (simp add: drop_bit_eq_div)
  moreover have "unat (x AND 0x7FFFFFFFFFFFFF) < 2 ^ 55" for x :: u64
    unfolding and_low_mask by (rule unat_take_bit_less)
  ultimately show ?thesis
    unfolding get_pfn_malloc_def get_pfn_dirty_def axiom_entry_def present_bit low_55 Let_def
    unfolding push_bit_eq_mult
    by (auto split: option.splits prod.splits if_splits)
qed

text \<open>
  C37. From the page table to the program's output: \<open>get_pfn\<close> through the read operation gives the
  frame of the page's entry when the entry is present and the reader privileged, and 0 otherwise, so
  that an unprivileged reader cannot tell a present page from an absent one; four kilobytes times the
  result is the address bits of a present entry.
\<close>

theorem get_pfn_exact:
  assumes "re_mm re = Some mm" "re_mmget re" "re_buffer re \<noteq> 0"
    and "\<forall>k. re_lock re k = 0" "\<forall>k. \<not> re_copy_fails re k"
    and "re_task_size re = pg T" "T < 2 ^ 50" and "re_untag re (pg p) = pg p" "p < T"
    and "drop_bit 12 va = of_nat p"
  shows "get_pfn_malloc (Some (pread8 re (table_walk env ptep_get table))) va =
      (let pte = ptep_get (pte_pointer table (pg p)) in
       if \<not> pte_none pte \<and> pte_present pte \<and> re_capable re then pte_pfn pte else 0) \<and>
    (let pte = ptep_get (pte_pointer table (pg p)) in
     if bit pte 0 \<and> re_capable re
     then get_pfn_malloc (Some (pread8 re (table_walk env ptep_get table))) va * 4096 = pte AND PTE_ADDR_MASK
     else True)"
proof -
  let ?pte = "ptep_get (pte_pointer table (pg p))"
  let ?e = "pte_to_pagemap_entry env (re_capable re) (pg p) ?pte"
  have "min 1 (T - p) = 1" using assms by auto
  then obtain ppos tr where read: "pagemap_read re (table_walk env ptep_get table) 8 (of_nat (8 * p)) = (8, ppos, [?e], tr)"
    using tw.read_flat [of re mm "re_capable re" T p 1 1 env ptep_get table] assms
    by (auto simp: table_entry_def upt_rec)
  have pread: "pread8 re (table_walk env ptep_get table) (drop_bit 12 va * 8) = (8, ?e)"
    using read assms(10) by (simp add: pread8_def mult.commute)
  have e: "bit ?e 63 \<longleftrightarrow> \<not> pte_none ?pte \<and> pte_present ?pte"
      "take_bit 55 ?e = (if pte_none ?pte \<or> \<not> re_capable re then 0 else take_bit 55 (pme_frame env ?pte))"
    using pagemap_entry_fields [of env "re_capable re" "pg p" ?pte] by (simp_all only: Let_def)
  have first: "get_pfn_malloc (Some (pread8 re (table_walk env ptep_get table))) va =
      (if \<not> pte_none ?pte \<and> pte_present ?pte \<and> re_capable re then pte_pfn ?pte else 0)"
    unfolding get_pfn_malloc_def option.case Let_def pread prod.case present_bit and_low_mask e
    by (simp add: pme_frame_def pte_pfn_small)
  have "\<not> pte_none ?pte \<and> pte_present ?pte \<and> pte_pfn ?pte * 4096 = ?pte AND PTE_ADDR_MASK" if "bit ?pte 0"
    using present_entry [OF that] by simp
  with first show ?thesis by (simp add: Let_def)
qed

text \<open>A task of three pages whose page 1 is present at frame \<open>0x345\<close>, read by a privileged reader.\<close>

definition plain_env :: pmenv where
  "plain_env = \<lparr>vm_normal_page = \<lambda>_ _. None, softleaf_from_pte = id, softleaf_has_pfn = \<lambda>_. False,
     softleaf_to_pfn = id, softleaf_to_page = id, swp_type = take_bit 5, swp_offset = drop_bit 14,
     is_uffd_wp_marker = \<lambda>_. False, is_guard_marker = \<lambda>_. False, softleaf_from_pmd = id,
     pmd_page = id, folio_anon = \<lambda>_. True,
     mapped_exclusively = \<lambda>_. False, vma_softdirty = False\<rparr>"

definition three_pages :: read_env where
  "three_pages = \<lparr>re_mm = Some 0x1000, re_mmget = True, re_task_size = pg 3, re_capable = True,
     re_buffer = 0x2000, re_contents = \<lambda>_. 0, re_lock = \<lambda>_. 0, re_untag = id, re_copy_fails = \<lambda>_. False\<rparr>"

definition one_present :: "u64 \<Rightarrow> u64" where
  "one_present a = (if a = 0x9008 then 0x8000000000345067 else 0)"

theorem pagemap_read_flat_witness:
  "case pagemap_read three_pages (table_walk plain_env one_present (\<lambda>_. 0x9000)) 40 8 of
     (ret, ppos, out, tr) \<Rightarrow> ret = 16 \<and> ppos = 24 \<and>
       out = map (\<lambda>i. table_entry plain_env one_present (\<lambda>_. 0x9000) True (pg i)) [1, Suc 1]"
  using pagemap_read_flat [of three_pages "0x1000" 3 1 5 plain_env one_present "\<lambda>_. 0x9000"]
  by (simp add: three_pages_def split: prod.splits)

theorem get_pfn_exact_witness:
  "get_pfn_malloc (Some (pread8 three_pages (table_walk plain_env one_present (\<lambda>_. 0x9000)))) 0x1234 = 0x345"
  using get_pfn_exact [of three_pages "0x1000" 3 1 "0x1234" plain_env one_present "\<lambda>_. 0x9000"]
  by (simp add: three_pages_def one_present_def pte_pointer_pg [of 1, unfolded One_nat_def] pte_none_def
      pte_present_def pte_flags_def pte_pfn_def protnone_mask_def pte_needs_invert_def)

end
