(* ===== verification/Pagemap_Scan.thy ===== *)
theory Pagemap_Scan
  imports Pagemap
begin

text \<open>
  The \<open>PAGEMAP_SCAN\<close> command of \<open>mapping_field_decode/task_mmu.c\<close>: it walks a range of a task, asks
  for every page whether its categories match a request, and reports the matching pages as regions,
  neighbouring pages of equal categories merged, in a bounded bounce buffer that is flushed to the
  caller whenever the walk stops for lack of room. The abstraction \<open>region_pages\<close> reads a list of
  regions as the list of its pages; the operations on the buffer are shown against it.
\<close>

unbundle bit_operations_syntax

section \<open>Data\<close>

abbreviation PAGE_IS_WPALLOWED :: u64 where "PAGE_IS_WPALLOWED \<equiv> BIT_ULL 0"
abbreviation PAGE_IS_WRITTEN :: u64 where "PAGE_IS_WRITTEN \<equiv> BIT_ULL 1"
abbreviation PAGE_IS_FILE :: u64 where "PAGE_IS_FILE \<equiv> BIT_ULL 2"
abbreviation PAGE_IS_PRESENT :: u64 where "PAGE_IS_PRESENT \<equiv> BIT_ULL 3"
abbreviation PAGE_IS_SWAPPED :: u64 where "PAGE_IS_SWAPPED \<equiv> BIT_ULL 4"
abbreviation PAGE_IS_PFNZERO :: u64 where "PAGE_IS_PFNZERO \<equiv> BIT_ULL 5"
abbreviation PAGE_IS_HUGE :: u64 where "PAGE_IS_HUGE \<equiv> BIT_ULL 6"
abbreviation PAGE_IS_SOFT_DIRTY :: u64 where "PAGE_IS_SOFT_DIRTY \<equiv> BIT_ULL 7"
abbreviation PAGE_IS_GUARD :: u64 where "PAGE_IS_GUARD \<equiv> BIT_ULL 8"
abbreviation PM_SCAN_WP_MATCHING :: u64 where "PM_SCAN_WP_MATCHING \<equiv> BIT_ULL 0"
abbreviation PM_SCAN_CHECK_WPASYNC :: u64 where "PM_SCAN_CHECK_WPASYNC \<equiv> BIT_ULL 1"
abbreviation PM_SCAN_CATEGORIES :: u64 where "PM_SCAN_CATEGORIES \<equiv> mask 9"
abbreviation PM_SCAN_FLAGS :: u64 where "PM_SCAN_FLAGS \<equiv> mask 2"

record page_region =
  pr_start :: u64
  pr_end :: u64
  pr_cat :: u64

record pm_scan_arg =
  sa_size :: u64
  sa_flags :: u64
  sa_start :: u64
  sa_end :: u64
  sa_walk_end :: u64
  sa_vec :: u64
  sa_vec_len :: u64
  sa_max_pages :: u64
  sa_inverted :: u64
  sa_mask :: u64
  sa_anyof :: u64
  sa_return :: u64

text \<open>
  \<open>sp_buf\<close> is \<open>None\<close> when there is no output buffer. \<open>sp_user\<close> collects what was copied to the caller,
  \<open>sp_wp\<close> the addresses whose entries were write-protected, \<open>sp_flush\<close> the flushed TLB ranges.
\<close>

record scan_private =
  sp_arg :: pm_scan_arg
  sp_masks :: u64
  sp_vma_category :: u64
  sp_buf :: "page_region list option"
  sp_buf_len :: u64
  sp_index :: u64
  sp_found :: u64
  sp_out :: u64
  sp_user :: "page_region list"
  sp_wp :: "u64 list"
  sp_flush :: "(u64 \<times> u64) list"

text \<open>What the kernel tells about the area and its entries, beyond \<open>pmenv\<close>.\<close>

record scanenv = pmenv +
  is_zero_pfn :: "u64 \<Rightarrow> bool"
  pte_swp_uffd_wp_any :: "u64 \<Rightarrow> bool"
  vm_normal_page_pmd :: "u64 \<Rightarrow> u64 \<Rightarrow> u64 option"
  is_huge_zero_pmd :: "u64 \<Rightarrow> bool"
  huge_pte_uffd_wp :: "u64 \<Rightarrow> bool"
  pte_page :: "u64 \<Rightarrow> u64"
  uffd_wp_async :: bool
  uffd_wp_use_markers :: bool
  vma_pfnmap :: bool
  uffd_wp_range :: "u64 \<Rightarrow> u64 \<Rightarrow> int"

section \<open>Categories\<close>

definition pagemap_page_category :: "scan_private \<Rightarrow> scanenv \<Rightarrow> u64 \<Rightarrow> u64 \<Rightarrow> u64" where
  "pagemap_page_category p env addr pte =
    (if pte_none pte then 0 else
     if pte_present pte then
       (let categories = PAGE_IS_PRESENT;
            categories = or_if (\<not> pte_uffd_wp pte) PAGE_IS_WRITTEN categories;
            categories = or_if (sp_masks p AND PAGE_IS_FILE \<noteq> 0 \<and>
              (case vm_normal_page env addr pte of None \<Rightarrow> False | Some page \<Rightarrow> \<not> folio_anon env page))
              PAGE_IS_FILE categories;
            categories = or_if (is_zero_pfn env (pte_pfn pte)) PAGE_IS_PFNZERO categories in
        or_if (pte_soft_dirty pte) PAGE_IS_SOFT_DIRTY categories)
     else
       (let categories = PAGE_IS_SWAPPED;
            categories = or_if (\<not> pte_swp_uffd_wp_any env pte) PAGE_IS_WRITTEN categories;
            entry = softleaf_from_pte env pte;
            categories =
              (if is_guard_marker env entry then categories OR PAGE_IS_GUARD
               else or_if (sp_masks p AND PAGE_IS_FILE \<noteq> 0 \<and> softleaf_has_pfn env entry \<and>
                      \<not> folio_anon env (softleaf_to_page env entry)) PAGE_IS_FILE categories) in
        or_if (pte_swp_soft_dirty pte) PAGE_IS_SOFT_DIRTY categories))"

definition pagemap_thp_category :: "scan_private \<Rightarrow> scanenv \<Rightarrow> u64 \<Rightarrow> u64 \<Rightarrow> u64" where
  "pagemap_thp_category p env addr pmd =
    (let categories = PAGE_IS_HUGE in
     if pmd_none pmd then categories else
     if pmd_present pmd then
       (let categories = categories OR PAGE_IS_PRESENT;
            categories = or_if (\<not> pmd_uffd_wp pmd) PAGE_IS_WRITTEN categories;
            categories = or_if (sp_masks p AND PAGE_IS_FILE \<noteq> 0 \<and>
              (case vm_normal_page_pmd env addr pmd of None \<Rightarrow> False | Some page \<Rightarrow> \<not> folio_anon env page))
              PAGE_IS_FILE categories;
            categories = or_if (is_huge_zero_pmd env pmd) PAGE_IS_PFNZERO categories in
        or_if (pmd_soft_dirty pmd) PAGE_IS_SOFT_DIRTY categories)
     else
       (let categories = categories OR PAGE_IS_SWAPPED;
            categories = or_if (\<not> pmd_swp_uffd_wp pmd) PAGE_IS_WRITTEN categories;
            categories = or_if (pmd_swp_soft_dirty pmd) PAGE_IS_SOFT_DIRTY categories;
            entry = softleaf_from_pmd env pmd in
        or_if (sp_masks p AND PAGE_IS_FILE \<noteq> 0 \<and> softleaf_has_pfn env entry \<and>
                 \<not> folio_anon env (softleaf_to_page env entry)) PAGE_IS_FILE categories))"

definition pagemap_hugetlb_category :: "scanenv \<Rightarrow> u64 \<Rightarrow> u64" where
  "pagemap_hugetlb_category env pte =
    (let categories = PAGE_IS_HUGE in
     if pte_none pte then categories else
     if pte_present pte then
       (let categories = categories OR PAGE_IS_PRESENT;
            categories = or_if (\<not> huge_pte_uffd_wp env pte) PAGE_IS_WRITTEN categories;
            categories = or_if (\<not> folio_anon env (pte_page env pte)) PAGE_IS_FILE categories;
            categories = or_if (is_zero_pfn env (pte_pfn pte)) PAGE_IS_PFNZERO categories in
        or_if (pte_soft_dirty pte) PAGE_IS_SOFT_DIRTY categories)
     else
       (let categories = categories OR PAGE_IS_SWAPPED;
            categories = or_if (\<not> pte_swp_uffd_wp_any env pte) PAGE_IS_WRITTEN categories in
        or_if (pte_swp_soft_dirty pte) PAGE_IS_SOFT_DIRTY categories))"

definition is_interesting_page :: "u64 \<Rightarrow> scan_private \<Rightarrow> bool" where
  "is_interesting_page categories p =
    (let arg = sp_arg p; categories = categories XOR sa_inverted arg in
     if categories AND sa_mask arg \<noteq> sa_mask arg then False else
     if sa_anyof arg \<noteq> 0 \<and> categories AND sa_anyof arg = 0 then False else True)"

definition is_interesting_vma :: "u64 \<Rightarrow> scan_private \<Rightarrow> bool" where
  "is_interesting_vma categories p =
    (let arg = sp_arg p; required = sa_mask arg AND PAGE_IS_WPALLOWED;
         categories = categories XOR sa_inverted arg in
     if categories AND required \<noteq> required then False else True)"

text \<open>1 skips the area, a negative result aborts the walk.\<close>

definition pagemap_scan_test_walk :: "scanenv \<Rightarrow> scan_private \<Rightarrow> int \<times> scan_private" where
  "pagemap_scan_test_walk env p =
    (let wp_allowed = uffd_wp_async env \<and> uffd_wp_use_markers env; flags = sa_flags (sp_arg p) in
     if \<not> wp_allowed \<and> flags AND PM_SCAN_CHECK_WPASYNC \<noteq> 0 then (-1, p) else
     if \<not> wp_allowed \<and> flags AND PM_SCAN_WP_MATCHING \<noteq> 0 then (1, p) else
     if vma_pfnmap env then (1, p) else
     let vma_category = or_if wp_allowed PAGE_IS_WPALLOWED 0;
         vma_category = or_if (vma_softdirty env) PAGE_IS_SOFT_DIRTY vma_category in
     if \<not> is_interesting_vma vma_category p then (1, p) else
     (0, p\<lparr>sp_vma_category := vma_category\<rparr>))"

section \<open>The bounce buffer\<close>

abbreviation cur_buf :: "scan_private \<Rightarrow> page_region list \<Rightarrow> page_region" where
  "cur_buf p buf \<equiv> buf ! unat (sp_index p)"

text \<open>The first argument of the two buffer operations is \<open>p->vec_buf\<close>, known to be there.\<close>

definition pagemap_scan_push_range ::
  "page_region list \<Rightarrow> u64 \<Rightarrow> scan_private \<Rightarrow> u64 \<Rightarrow> u64 \<Rightarrow> bool \<times> scan_private" where
  "pagemap_scan_push_range buf categories p addr end =
    (let cur = cur_buf p buf; region = \<lparr>pr_start = addr, pr_end = end, pr_cat = categories\<rparr> in
     if addr = pr_end cur \<and> categories = pr_cat cur
     then (True, p\<lparr>sp_buf := Some (buf[unat (sp_index p) := cur\<lparr>pr_end := end\<rparr>])\<rparr>)
     else if pr_end cur \<noteq> 0 then
       (if sp_index p \<ge> sp_buf_len p - 1 then (False, p)
        else let p = p\<lparr>sp_index := sp_index p + 1\<rparr> in
          (True, p\<lparr>sp_buf := Some (buf[unat (sp_index p) := region])\<rparr>))
     else (True, p\<lparr>sp_buf := Some (buf[unat (sp_index p) := region])\<rparr>))"

definition pagemap_scan_backout_range :: "scan_private \<Rightarrow> u64 \<Rightarrow> u64 \<Rightarrow> scan_private" where
  "pagemap_scan_backout_range p addr end =
    (case sp_buf p of
       None \<Rightarrow> p
     | Some buf \<Rightarrow>
       let cur = cur_buf p buf;
           cur = (if pr_start cur \<noteq> addr then cur\<lparr>pr_end := addr\<rparr> else cur\<lparr>pr_start := 0, pr_end := 0\<rparr>) in
       p\<lparr>sp_buf := Some (buf[unat (sp_index p) := cur]), sp_found := sp_found p - (end - addr) div 4096\<rparr>)"

abbreviation ENOSPC :: int where "ENOSPC \<equiv> 28"
abbreviation ENOENT :: int where "ENOENT \<equiv> 2"

text \<open>
  The result, the end of what was really output and the state. \<open>check_add_overflow\<close> is the wrap of the
  sum.
\<close>

definition pagemap_scan_output ::
  "u64 \<Rightarrow> scan_private \<Rightarrow> u64 \<Rightarrow> u64 \<Rightarrow> int \<times> u64 \<times> scan_private" where
  "pagemap_scan_output categories p addr end =
    (case sp_buf p of
       None \<Rightarrow> (0, end, p)
     | Some buf \<Rightarrow>
       let categories = categories AND sa_return (sp_arg p);
           n_pages = (end - addr) div 4096;
           total_pages = sp_found p + n_pages;
           limit = (total_pages < n_pages \<or> total_pages > sa_max_pages (sp_arg p));
           n_too_much = total_pages - sa_max_pages (sp_arg p);
           (ret, end, n_pages) =
             (if limit then (- ENOSPC, end - n_too_much * 4096, n_pages - n_too_much) else (0, end, n_pages));
           (ok, p) = pagemap_scan_push_range buf categories p addr end;
           (ret, end, n_pages) = (if \<not> ok then (- ENOSPC, addr, 0) else (ret, end, n_pages));
           p = p\<lparr>sp_found := sp_found p + n_pages\<rparr>;
           p = (if ret \<noteq> 0 then p\<lparr>sp_arg := sp_arg p\<lparr>sa_walk_end := end\<rparr>\<rparr> else p) in
       (ret, end, p))"

section \<open>The callbacks of the walk\<close>

definition make_uffd_wp :: "u64 \<Rightarrow> scan_private \<Rightarrow> scan_private" where
  "make_uffd_wp addr p = p\<lparr>sp_wp := sp_wp p @ [addr]\<rparr>"

definition flush_tlb_range :: "u64 \<Rightarrow> u64 \<Rightarrow> scan_private \<Rightarrow> scan_private" where
  "flush_tlb_range start end p = p\<lparr>sp_flush := sp_flush p @ [(start, end)]\<rparr>"

text \<open>\<open>None\<close> for the entry is a PMD that is not a huge page (the lock is not given).\<close>

definition pagemap_scan_thp_entry ::
  "scanenv \<Rightarrow> u64 option \<Rightarrow> u64 \<Rightarrow> u64 \<Rightarrow> scan_private \<Rightarrow> int \<times> scan_private" where
  "pagemap_scan_thp_entry env huge start end p =
    (case huge of
       None \<Rightarrow> (- ENOENT, p)
     | Some pmd \<Rightarrow>
       let categories = sp_vma_category p OR pagemap_thp_category p env start pmd in
       if \<not> is_interesting_page categories p then (0, p) else
       let (ret, end, p) = pagemap_scan_output categories p start end in
       if start = end then (ret, p) else
       if NOT (sa_flags (sp_arg p)) AND PM_SCAN_WP_MATCHING \<noteq> 0 then (ret, p) else
       if NOT categories AND PAGE_IS_WRITTEN \<noteq> 0 then (ret, p) else
       if end \<noteq> start + 0x200000 then (- ENOENT, pagemap_scan_backout_range p start end) else
       (ret, flush_tlb_range start end (make_uffd_wp start p)))"

text \<open>
  The three loops of \<open>pagemap_scan_pmd_entry\<close> over the pages of a range, by the number of pages left.
  They return the last result, the address they stopped at, the start and end of what has to be
  flushed, and the state.
\<close>

fun wp_loop ::
  "scanenv \<Rightarrow> (u64 \<Rightarrow> u64) \<Rightarrow> nat \<Rightarrow> u64 \<Rightarrow> u64 \<Rightarrow> u64 \<Rightarrow> u64 \<Rightarrow> scan_private \<Rightarrow> u64 \<times> u64 \<times> u64 \<times> scan_private" where
  "wp_loop env ptep_get 0 pte addr start flush_end p = (addr, start, flush_end, p)"
| "wp_loop env ptep_get (Suc n) pte addr start flush_end p =
    (let ptent = ptep_get pte in
     if (pte_present ptent \<and> pte_uffd_wp ptent) \<or> pte_swp_uffd_wp_any env ptent
     then wp_loop env ptep_get n (pte + 8) (addr + 0x1000) start flush_end p
     else wp_loop env ptep_get n (pte + 8) (addr + 0x1000) (if flush_end = 0 then addr else start)
            (addr + 0x1000) (make_uffd_wp addr p))"

fun written_loop ::
  "scanenv \<Rightarrow> (u64 \<Rightarrow> u64) \<Rightarrow> nat \<Rightarrow> u64 \<Rightarrow> u64 \<Rightarrow> u64 \<Rightarrow> u64 \<Rightarrow> int \<Rightarrow> scan_private \<Rightarrow>
     int \<times> u64 \<times> u64 \<times> u64 \<times> scan_private" where
  "written_loop env ptep_get 0 pte addr start flush_end ret p = (ret, addr, start, flush_end, p)"
| "written_loop env ptep_get (Suc n) pte addr start flush_end ret p =
    (let next = addr + 0x1000; ptent = ptep_get pte in
     if (pte_present ptent \<and> pte_uffd_wp ptent) \<or> pte_swp_uffd_wp_any env ptent
     then written_loop env ptep_get n (pte + 8) (addr + 0x1000) start flush_end ret p
     else
       let (ret, next, p) = pagemap_scan_output (sp_vma_category p OR PAGE_IS_WRITTEN) p addr next in
       if next = addr then (ret, addr, start, flush_end, p) else
       if NOT (sa_flags (sp_arg p)) AND PM_SCAN_WP_MATCHING \<noteq> 0
       then written_loop env ptep_get n (pte + 8) (addr + 0x1000) start flush_end ret p
       else written_loop env ptep_get n (pte + 8) (addr + 0x1000) (if flush_end = 0 then addr else start)
              next ret (make_uffd_wp addr p))"

fun scan_loop ::
  "scanenv \<Rightarrow> (u64 \<Rightarrow> u64) \<Rightarrow> nat \<Rightarrow> u64 \<Rightarrow> u64 \<Rightarrow> u64 \<Rightarrow> u64 \<Rightarrow> int \<Rightarrow> scan_private \<Rightarrow>
     int \<times> u64 \<times> u64 \<times> u64 \<times> scan_private" where
  "scan_loop env ptep_get 0 pte addr start flush_end ret p = (ret, addr, start, flush_end, p)"
| "scan_loop env ptep_get (Suc n) pte addr start flush_end ret p =
    (let ptent = ptep_get pte;
         categories = sp_vma_category p OR pagemap_page_category p env addr ptent;
         next = addr + 0x1000 in
     if \<not> is_interesting_page categories p
     then scan_loop env ptep_get n (pte + 8) (addr + 0x1000) start flush_end ret p
     else
       let (ret, next, p) = pagemap_scan_output categories p addr next in
       if next = addr then (ret, addr, start, flush_end, p) else
       if NOT (sa_flags (sp_arg p)) AND PM_SCAN_WP_MATCHING \<noteq> 0
       then scan_loop env ptep_get n (pte + 8) (addr + 0x1000) start flush_end ret p
       else if NOT categories AND PAGE_IS_WRITTEN \<noteq> 0
       then scan_loop env ptep_get n (pte + 8) (addr + 0x1000) start flush_end ret p
       else scan_loop env ptep_get n (pte + 8) (addr + 0x1000) (if flush_end = 0 then addr else start)
              next ret (make_uffd_wp addr p))"

text \<open>\<open>start\<close> and \<open>end\<close> are page aligned, so the loops run over \<open>(end - start) / PAGE_SIZE\<close> entries.\<close>

definition flush_and_return :: "int \<times> u64 \<times> u64 \<times> u64 \<times> scan_private \<Rightarrow> int \<times> scan_private" where
  "flush_and_return = (\<lambda>(ret, addr, start, flush_end, p).
     (ret, if flush_end \<noteq> 0 then flush_tlb_range start addr p else p))"

definition pagemap_scan_pmd_entry ::
  "scanenv \<Rightarrow> (u64 \<Rightarrow> u64) \<Rightarrow> u64 option \<Rightarrow> u64 option \<Rightarrow> u64 \<Rightarrow> u64 \<Rightarrow> scan_private \<Rightarrow> int \<times> scan_private" where
  "pagemap_scan_pmd_entry env ptep_get huge pte_map start end p =
    (let (ret, p) = pagemap_scan_thp_entry env huge start end p in
     if ret \<noteq> - ENOENT then (ret, p) else
     case pte_map of
       None \<Rightarrow> (0, p)
     | Some pte \<Rightarrow>
       let n = unat ((end - start) div 4096); arg = sp_arg p in
       if sa_flags arg AND PM_SCAN_WP_MATCHING \<noteq> 0 \<and> sp_out p = 0
       then (let (addr, start, flush_end, p) = wp_loop env ptep_get n pte start start 0 p in
             flush_and_return (0, addr, start, flush_end, p))
       else if sa_anyof arg = 0 \<and> sa_inverted arg = 0 \<and> sa_mask arg = PAGE_IS_WRITTEN \<and>
               sa_return arg = PAGE_IS_WRITTEN
       then flush_and_return (written_loop env ptep_get n pte start start 0 0 p)
       else flush_and_return (scan_loop env ptep_get n pte start start 0 0 p))"

definition pagemap_scan_pte_hole ::
  "scanenv \<Rightarrow> bool \<Rightarrow> u64 \<Rightarrow> u64 \<Rightarrow> scan_private \<Rightarrow> int \<times> scan_private" where
  "pagemap_scan_pte_hole env has_vma addr end p =
    (if \<not> has_vma \<or> \<not> is_interesting_page (sp_vma_category p) p then (0, p) else
     let (ret, end, p) = pagemap_scan_output (sp_vma_category p) p addr end in
     if addr = end then (ret, p) else
     if NOT (sa_flags (sp_arg p)) AND PM_SCAN_WP_MATCHING \<noteq> 0 then (ret, p) else
     let err = uffd_wp_range env addr (end - addr) in
     (if err < 0 then err else ret, p))"

definition pagemap_scan_hugetlb_entry ::
  "scanenv \<Rightarrow> u64 \<Rightarrow> u64 \<Rightarrow> u64 \<Rightarrow> scan_private \<Rightarrow> int \<times> scan_private" where
  "pagemap_scan_hugetlb_entry env pte start end p =
    (let categories = sp_vma_category p OR pagemap_hugetlb_category env pte in
     if NOT (sa_flags (sp_arg p)) AND PM_SCAN_WP_MATCHING \<noteq> 0 then
       (if \<not> is_interesting_page categories p then (0, p) else
        let (ret, end, p) = pagemap_scan_output categories p start end in (ret, p))
     else
     if \<not> is_interesting_page categories p then (0, p) else
     let (ret, end, p) = pagemap_scan_output categories p start end in
     if start = end then (ret, p) else
     if NOT categories AND PAGE_IS_WRITTEN \<noteq> 0 then (ret, p) else
     if end \<noteq> start + 0x200000 then
       (let p = pagemap_scan_backout_range p start end in
        (0, p\<lparr>sp_arg := sp_arg p\<lparr>sa_walk_end := start\<rparr>\<rparr>))
     else (ret, flush_tlb_range start end (make_uffd_wp start p)))"

section \<open>The command\<close>

text \<open>
  What the command depends on: the argument block in the caller's memory (\<open>None\<close> faults), address
  checks, the memory for \<open>n\<close> regions with what it held before (\<open>None\<close> when there is none), and for
  the \<open>k\<close>-th round whether a fatal signal is pending, what the lock answers and whether the copy
  to the caller faults.
\<close>

record scan_io =
  si_arg :: "pm_scan_arg option"
  si_untag :: "u64 \<Rightarrow> u64"
  si_access_ok :: "u64 \<Rightarrow> u64 \<Rightarrow> bool"
  si_size_mul :: "u64 \<Rightarrow> u64 \<Rightarrow> u64"
  si_alloc :: "nat \<Rightarrow> page_region list option"
  si_signal :: "nat \<Rightarrow> bool"
  si_lock :: "nat \<Rightarrow> int"
  si_copy_fails :: "nat \<Rightarrow> bool"
  si_writeback_fails :: bool

definition pagemap_scan_get_args :: "scan_io \<Rightarrow> int + pm_scan_arg" where
  "pagemap_scan_get_args io =
    (case si_arg io of
       None \<Rightarrow> Inl (-14)
     | Some arg \<Rightarrow>
       if sa_size arg \<noteq> 96 then Inl (-22) else
       if sa_flags arg AND NOT PM_SCAN_FLAGS \<noteq> 0 then Inl (-22) else
       if (sa_inverted arg OR sa_mask arg OR sa_anyof arg OR sa_return arg) AND NOT PM_SCAN_CATEGORIES \<noteq> 0
       then Inl (-22) else
       let arg = arg\<lparr>sa_start := si_untag io (sa_start arg), sa_end := si_untag io (sa_end arg),
                     sa_vec := si_untag io (sa_vec arg)\<rparr> in
       if sa_start arg AND 0xFFF \<noteq> 0 then Inl (-22) else
       if \<not> si_access_ok io (sa_start arg) (sa_end arg - sa_start arg) then Inl (-14) else
       if sa_vec arg = 0 \<and> sa_vec_len arg \<noteq> 0 then Inl (-22) else
       if sa_vec arg \<noteq> 0 \<and> \<not> si_access_ok io (sa_vec arg) (si_size_mul io (sa_vec_len arg) 24) then Inl (-14) else
       let arg = arg\<lparr>sa_end := (sa_end arg + 0xFFF) AND NOT 0xFFF, sa_walk_end := 0\<rparr> in
       Inr (if sa_max_pages arg = 0 then arg\<lparr>sa_max_pages := -1\<rparr> else arg))"

text \<open>An empty first region: \<open>start = end = 0\<close>.\<close>

definition clear_first :: "page_region list \<Rightarrow> page_region list" where
  "clear_first buf = buf[0 := (buf ! 0)\<lparr>pr_start := 0, pr_end := 0\<rparr>]"

definition pagemap_scan_init_bounce_buffer :: "scan_io \<Rightarrow> scan_private \<Rightarrow> int \<times> scan_private" where
  "pagemap_scan_init_bounce_buffer io p =
    (if sa_vec_len (sp_arg p) = 0 then (0, p) else
     let p = p\<lparr>sp_buf_len := min 512 (sa_vec_len (sp_arg p))\<rparr> in
     case si_alloc io (unat (sp_buf_len p)) of
       None \<Rightarrow> (-12, p)
     | Some buf \<Rightarrow> (0, p\<lparr>sp_buf := Some (clear_first buf), sp_out := sa_vec (sp_arg p)\<rparr>))"

definition pagemap_scan_flush_buffer :: "bool \<Rightarrow> scan_private \<Rightarrow> int \<times> scan_private" where
  "pagemap_scan_flush_buffer copy_fails p =
    (case sp_buf p of
       None \<Rightarrow> (0, p)
     | Some buf \<Rightarrow>
       let n = unat (sp_index p);
           n = (if pr_end (buf ! n) \<noteq> pr_start (buf ! n) then n + 1 else n) in
       if n = 0 then (0, p) else
       if copy_fails then (-14, p) else
       let arg = sp_arg p; arg = arg\<lparr>sa_vec_len := sa_vec_len arg - of_nat n\<rparr> in
       (int n, p\<lparr>sp_user := sp_user p @ take n buf, sp_arg := arg, sp_out := sp_out p + of_nat (24 * n),
                 sp_index := 0, sp_buf_len := min (sp_buf_len p) (sa_vec_len arg),
                 sp_buf := Some (clear_first buf)\<rparr>))"

type_synonym scan_walker = "u64 \<Rightarrow> u64 \<Rightarrow> scan_private \<Rightarrow> int \<times> scan_private"

text \<open>
  The rounds of \<open>do_pagemap_scan\<close> from the \<open>k\<close>-th on. With an arbitrary walker the loop need not end:
  then the result is \<open>None\<close>.
\<close>

partial_function (option) scan_rounds ::
  "scan_io \<Rightarrow> scan_walker \<Rightarrow> nat \<Rightarrow> u64 \<Rightarrow> u64 \<Rightarrow> int \<Rightarrow> scan_private \<Rightarrow> (int \<times> u64 \<times> scan_private) option" where
  "scan_rounds io walk k walk_start n_ranges_out ret p =
    (if \<not> walk_start < sa_end (sp_arg p) then Some (ret, n_ranges_out, p) else
     if si_signal io k then Some (-4, n_ranges_out, p) else
     if si_lock io k \<noteq> 0 then Some (si_lock io k, n_ranges_out, p) else
     let (ret, p) = walk walk_start (sa_end (sp_arg p)) p;
         (n_out, p) = pagemap_scan_flush_buffer (si_copy_fails io k) p;
         (ret, n_ranges_out) = (if n_out < 0 then (n_out, n_ranges_out) else (ret, n_ranges_out + of_int n_out)) in
     if ret \<noteq> - ENOSPC then Some (ret, n_ranges_out, p) else
     if sa_vec_len (sp_arg p) = 0 \<or> sp_found p = sa_max_pages (sp_arg p) then Some (ret, n_ranges_out, p) else
     scan_rounds io walk (k + 1) (sa_walk_end (sp_arg p)) n_ranges_out ret p)"

definition do_pagemap_scan :: "scan_io \<Rightarrow> scan_walker \<Rightarrow> (int \<times> scan_private option) option" where
  "do_pagemap_scan io walk =
    (case pagemap_scan_get_args io of
       Inl ret \<Rightarrow> Some (ret, None)
     | Inr arg \<Rightarrow>
       let p = \<lparr>sp_arg = arg, sp_masks = sa_mask arg OR sa_anyof arg OR sa_return arg, sp_vma_category = 0,
                sp_buf = None, sp_buf_len = 0, sp_index = 0, sp_found = 0, sp_out = 0, sp_user = [],
                sp_wp = [], sp_flush = []\<rparr>;
           (ret, p) = pagemap_scan_init_bounce_buffer io p in
       if ret \<noteq> 0 then Some (ret, None) else
       case scan_rounds io walk 0 (sa_start arg) 0 ret p of
         None \<Rightarrow> None
       | Some (ret, n_ranges_out, p) \<Rightarrow>
         let ret = (if ret = 0 \<or> ret = - ENOSPC then sint (ucast n_ranges_out :: 32 word) else ret);
             p = (if sa_walk_end (sp_arg p) = 0 then p\<lparr>sp_arg := sp_arg p\<lparr>sa_walk_end := sa_end (sp_arg p)\<rparr>\<rparr> else p);
             ret = (if si_writeback_fails io then -14 else ret) in
         Some (ret, Some p))"

definition do_pagemap_cmd :: "u64 \<Rightarrow> u64 \<Rightarrow> scan_io \<Rightarrow> scan_walker \<Rightarrow> (int \<times> scan_private option) option" where
  "do_pagemap_cmd PAGEMAP_SCAN cmd io walk = (if cmd = PAGEMAP_SCAN then do_pagemap_scan io walk else Some (-22, None))"

section \<open>Regions as lists of pages\<close>

definition pages_between :: "u64 \<Rightarrow> u64 \<Rightarrow> u64 \<Rightarrow> (u64 \<times> u64) list" where
  "pages_between s e c = map (\<lambda>i. (s + 0x1000 * of_nat i, c)) [0..<(unat e - unat s) div 4096]"

definition region_pages :: "page_region \<Rightarrow> (u64 \<times> u64) list" where
  "region_pages r = pages_between (pr_start r) (pr_end r) (pr_cat r)"

definition ordered :: "u64 \<Rightarrow> u64 \<Rightarrow> bool" where
  "ordered s e \<longleftrightarrow> s \<le> e \<and> (unat e - unat s) mod 4096 = 0"

lemma orderedE:
  assumes "ordered s e" obtains n where "unat e = unat s + 4096 * n" "(unat e - unat s) div 4096 = n"
proof (rule that)
  have "unat s \<le> unat e" "4096 * ((unat e - unat s) div 4096) = unat e - unat s"
    using assms mult_div_mod_eq [of 4096 "unat e - unat s"] by (auto simp: ordered_def word_le_nat_alt)
  then show "unat e = unat s + 4096 * ((unat e - unat s) div 4096)" by simp
qed (rule refl)

lemma pages_between_empty: "pages_between s s c = []"
  by (simp add: pages_between_def)

lemma pages_between_append:
  assumes "ordered s m" and "ordered m e"
  shows "ordered s e" and "pages_between s e c = pages_between s m c @ pages_between m e c"
proof -
  obtain a where a: "unat m = unat s + 4096 * a" "(unat m - unat s) div 4096 = a" using assms(1) by (rule orderedE)
  obtain b where b: "unat e = unat m + 4096 * b" "(unat e - unat m) div 4096 = b" using assms(2) by (rule orderedE)
  have ab: "unat e - unat s = 4096 * (a + b)"
    by (simp only: a(1) b(1) add.assoc diff_add_inverse distrib_left)
  show "ordered s e"
    unfolding ordered_def word_le_nat_alt ab
    by (simp only: a(1) b(1) add.assoc le_add1 mod_mult_self1_is_0 simp_thms)
  have "(of_nat (unat m) :: u64) = of_nat (unat s) + of_nat 4096 * of_nat a"
    by (simp only: a(1) of_nat_add of_nat_mult)
  then have m: "m = s + 0x1000 * of_nat a"
    by (simp only: of_nat_unat ucast_id of_nat_numeral)
  have split: "[0..<a + b] = [0..<a] @ map (\<lambda>i. i + a) [0..<b]"
    using upt_add_eq_append [of 0 a b] map_add_upt [of a b] by (simp only: add_0 le0 add.commute)
  have shift: "s + 0x1000 * of_nat (i + a) = m + 0x1000 * of_nat i" for i
    by (simp only: m add.assoc) (simp only: of_nat_add distrib_left add.commute)
  have "(unat e - unat s) div 4096 = a + b"
    by (simp only: ab nonzero_mult_div_cancel_left zero_neq_numeral [symmetric] not_False_eq_True)
  then show "pages_between s e c = pages_between s m c @ pages_between m e c"
    unfolding pages_between_def a(2) b(2) by (simp only: split map_append map_map comp_def shift)
qed

definition buf_pages :: "scan_private \<Rightarrow> (u64 \<times> u64) list" where
  "buf_pages p = (case sp_buf p of None \<Rightarrow> []
     | Some buf \<Rightarrow> concat (map region_pages (take (unat (sp_index p) + 1) buf)))"

text \<open>
  The buffer's invariant: the cursor is inside, the regions up to it run forwards over whole pages,
  the count is within its bound, and no region in use is empty while pages may still be found.
\<close>

definition scan_inv :: "scan_private \<Rightarrow> bool" where
  "scan_inv p \<longleftrightarrow> (case sp_buf p of None \<Rightarrow> True
     | Some buf \<Rightarrow> sp_index p < sp_buf_len p \<and> unat (sp_buf_len p) \<le> length buf \<and>
         (\<forall>r \<in> set (take (unat (sp_index p) + 1) buf). ordered (pr_start r) (pr_end r) \<and>
            (sp_found p < sa_max_pages (sp_arg p) \<and> pr_end r \<noteq> 0 \<longrightarrow> pr_start r < pr_end r)) \<and>
         sp_found p \<le> sa_max_pages (sp_arg p))"

definition buffer_full :: "scan_private \<Rightarrow> bool" where
  "buffer_full p \<longleftrightarrow> (case sp_buf p of None \<Rightarrow> False
     | Some buf \<Rightarrow> sp_index p \<ge> sp_buf_len p - 1 \<and> pr_end (cur_buf p buf) \<noteq> 0)"

lemma take_Suc_update: "i < length xs \<Longrightarrow> take (i + 1) (xs[i := x]) = take i xs @ [x]"
  by (simp add: take_Suc_conv_app_nth)

lemma push_range_cases:
  assumes "sp_index p < sp_buf_len p" and "unat (sp_buf_len p) \<le> length buf"
    and "\<forall>r \<in> set (take (unat (sp_index p) + 1) buf). ordered (pr_start r) (pr_end r)"
    and "ordered addr end"
    and push: "pagemap_scan_push_range buf c p addr end = (ok, p')"
  obtains
    (Full) "\<not> ok" "p' = p" "sp_index p \<ge> sp_buf_len p - 1" "pr_end (cur_buf p buf) \<noteq> 0"
  | (Pushed) old new r i where "ok" "p' = p\<lparr>sp_index := i, sp_buf := Some (buf[unat i := r])\<rparr>"
      "i < sp_buf_len p" "take (unat (sp_index p) + 1) buf = old @ new"
      "take (unat i + 1) (buf[unat i := r]) = old @ [r]" "pr_end r = end" "ordered (pr_start r) end"
      "region_pages r = concat (map region_pages new) @ pages_between addr end c" "pr_start r \<le> addr"
proof -
  let ?i = "unat (sp_index p)" let ?cur = "cur_buf p buf"
  have i: "?i < length buf" using assms(1,2) by (simp add: word_less_nat_alt)
  have take: "take (?i + 1) buf = take ?i buf @ [?cur]" using i by (simp add: take_Suc_conv_app_nth)
  then have cur: "ordered (pr_start ?cur) (pr_end ?cur)" using assms(3) by simp
  let ?new = "\<lparr>pr_start = addr, pr_end = end, pr_cat = c\<rparr>"
  show thesis
  proof (cases "addr = pr_end ?cur \<and> c = pr_cat ?cur")
    case True
    have "ordered (pr_start ?cur) addr" using cur True by simp
    note merged = pages_between_append [OF this \<open>ordered addr end\<close>]
    show thesis
    proof (rule Pushed [where r = "?cur\<lparr>pr_end := end\<rparr>" and i = "sp_index p" and old = "take ?i buf" and new = "[?cur]"])
      show "take (?i + 1) (buf[?i := ?cur\<lparr>pr_end := end\<rparr>]) = take ?i buf @ [?cur\<lparr>pr_end := end\<rparr>]"
        using i by (rule take_Suc_update)
    qed (use push True take merged assms(1) \<open>ordered (pr_start ?cur) addr\<close> in
        \<open>auto simp: pagemap_scan_push_range_def region_pages_def ordered_def\<close>)
  next
    case new: False
    show thesis
    proof (cases "pr_end ?cur = 0")
      case True
      then have "pr_start ?cur = 0" using cur by (simp add: ordered_def)
      then have "region_pages ?cur = []" using True by (simp add: region_pages_def pages_between_empty)
      show thesis
      proof (rule Pushed [where r = "?new" and i = "sp_index p" and old = "take ?i buf" and new = "[?cur]"])
        show "take (?i + 1) (buf[?i := ?new]) = take ?i buf @ [?new]"
          using i by (rule take_Suc_update)
      qed (use push new True take assms(1,4) \<open>region_pages ?cur = []\<close> in
          \<open>auto simp: pagemap_scan_push_range_def region_pages_def Let_def\<close>)
    next
      case False
      show thesis
      proof (cases "sp_index p \<ge> sp_buf_len p - 1")
        case True
        then show thesis using push new False by (intro Full) (auto simp: pagemap_scan_push_range_def Let_def)
      next
        case room: False
        then have less: "sp_index p + 1 < sp_buf_len p" using assms(1) by unat_arith
        then have nxt: "unat (sp_index p + 1) = ?i + 1"
          using assms(1) room by unat_arith
        have i1: "?i + 1 < length buf" using less assms(2) nxt by (simp add: word_less_nat_alt)
        show thesis
        proof (rule Pushed [where r = "?new" and i = "sp_index p + 1" and old = "take (?i + 1) buf" and new = "[]"])
          show "take (unat (sp_index p + 1) + 1) (buf[unat (sp_index p + 1) := ?new]) = take (?i + 1) buf @ [?new]"
            unfolding nxt using i1 by (rule take_Suc_update)
        qed (use push new False room less assms(4) nxt in
            \<open>auto simp: pagemap_scan_push_range_def region_pages_def Let_def\<close>)
      qed
    qed
  qed
qed

text \<open>The arithmetic of the page limit: what is cut off leaves exactly the pages that were still allowed.\<close>

lemma unat_cut_pages:
  fixes addr "end" :: u64
  assumes "unat end = unat addr + 4096 * N" and "t \<le> N"
  shows "unat (end - of_nat t * 4096) = unat addr + 4096 * (N - t)"
proof -
  have "4096 * t < 2 ^ 64" using unat_u64 [of "end"] assms by simp
  then have t: "unat (of_nat t * 4096 :: u64) = 4096 * t"
    using unat_of_nat_small [of "4096 * t"] by (simp add: mult.commute)
  then show ?thesis using assms by (subst unat_sub) (auto simp: word_le_nat_alt diff_mult_distrib2)
qed

lemma scan_limit:
  fixes addr "end" found max_pages :: u64
  assumes N: "unat end = unat addr + 4096 * N" and "found \<le> max_pages"
  defines "n \<equiv> (end - addr) div 4096" and "excess \<equiv> found + (end - addr) div 4096 - max_pages"
  defines "limit \<equiv> found + n < n \<or> found + n > max_pages"
  shows "unat n = N"
    and "limit \<longleftrightarrow> unat found + N > unat max_pages"
    and "limit \<Longrightarrow> unat excess = unat found + N - unat max_pages"
proof -
  have sub: "unat (end - addr) = 4096 * N"
    using N by (subst unat_sub) (simp_all add: word_le_nat_alt)
  then show un: "unat n = N" by (simp add: n_def unat_div)
  have N52: "N < 2 ^ 52" using N unat_u64 [of "end"] by simp
  have F: "unat found \<le> unat max_pages" using assms(2) by (simp add: word_le_nat_alt)
  show lim: "limit \<longleftrightarrow> unat found + N > unat max_pages"
    unfolding limit_def word_less_nat_alt unat_add_wrap un
    using unat_u64 [of max_pages] unat_u64 [of found] N52 F by auto
  show "unat excess = unat found + N - unat max_pages" if limit
  proof -
    have t: "unat found + N - unat max_pages < 2 ^ 64" using F N52 by simp
    have "excess = of_nat (unat found + N) - of_nat (unat max_pages)"
      unfolding excess_def n_def [symmetric] of_nat_add un [symmetric] of_nat_unat ucast_id ..
    also have "\<dots> = of_nat (unat found + N - unat max_pages)"
      using that lim by (simp add: of_nat_diff)
    finally show ?thesis using unat_of_nat_small [OF t] by simp
  qed
qed

text \<open>
  One output: the pages reported grow by exactly the pages from \<open>addr\<close> to the end that is returned,
  under the categories the caller wants to see; an early end is the limit or a full buffer.
\<close>

lemma scan_output:
  assumes inv: "scan_inv p" "sp_buf p = Some buf" and range: "ordered addr end" "addr < end"
    and out: "pagemap_scan_output c p addr end = (ret, end', p')"
  shows "scan_inv p'" and "ordered addr end'" and "end' \<le> end" and "sp_buf p' \<noteq> None"
    and "buf_pages p' = buf_pages p @ pages_between addr end' (c AND sa_return (sp_arg p))"
    and "unat (sp_found p') = unat (sp_found p) + (unat end' - unat addr) div 4096"
    and "p' = p\<lparr>sp_buf := sp_buf p', sp_index := sp_index p', sp_found := sp_found p', sp_arg := sp_arg p'\<rparr>"
    and "if ret = 0 then end' = end \<and> sp_arg p' = sp_arg p
      else ret = - ENOSPC \<and> sp_arg p' = sp_arg p\<lparr>sa_walk_end := end'\<rparr> \<and>
        (sp_found p' = sa_max_pages (sp_arg p) \<or> buffer_full p')"
    and "end = addr + 0x1000 \<Longrightarrow> ret \<noteq> 0 \<Longrightarrow> end' = addr" and "ret \<noteq> 0 \<Longrightarrow> end' < end"
proof -
  let ?max = "sa_max_pages (sp_arg p)"
  let ?n = "(end - addr) div 4096" let ?excess = "sp_found p + ?n - ?max"
  define limit where "limit \<longleftrightarrow> sp_found p + ?n < ?n \<or> sp_found p + ?n > ?max"
  obtain N where N: "unat end = unat addr + 4096 * N" using range(1) by (rule orderedE)
  have found: "sp_found p \<le> ?max" and cursor: "sp_index p < sp_buf_len p" "unat (sp_buf_len p) \<le> length buf"
    and regions: "\<forall>r \<in> set (take (unat (sp_index p) + 1) buf). ordered (pr_start r) (pr_end r)"
    using inv by (auto simp: scan_inv_def)
  note lim = scan_limit [OF N found]
  define t where "t = (if limit then unat (sp_found p) + N - unat ?max else 0)"
  define stop where "stop = (if limit then end - ?excess * 4096 else end)"
  define count where "count = (if limit then ?n - ?excess else ?n)"
  have t: "t \<le> N" "unat (sp_found p) + (N - t) \<le> unat ?max" 
      "limit \<Longrightarrow> unat (sp_found p) + (N - t) = unat ?max" "\<not> limit \<Longrightarrow> t = 0"
    using lim(2) found by (auto simp: t_def limit_def word_le_nat_alt)
  have excess: "unat ?excess = t" if limit
    using lim(3) that by (simp add: t_def limit_def)
  have "unat (end - of_nat t * 4096) = unat addr + 4096 * (N - t)" using N t(1) by (rule unat_cut_pages)
  moreover have "?excess = of_nat t" if limit
  proof -
    have "of_nat (unat ?excess) = (of_nat t :: u64)" by (simp only: excess [OF that])
    then show ?thesis by (simp only: of_nat_unat ucast_id)
  qed
  ultimately have stop: "unat stop = unat addr + 4096 * (N - t)"
    using N t(4) by (auto simp: stop_def)
  have count: "unat count = N - t"
  proof (cases limit)
    case True
    then have "?excess \<le> ?n" using excess t(1) lim(1) by (simp only: word_le_nat_alt)
    then have "unat (?n - ?excess) = unat ?n - unat ?excess" by (rule unat_sub)
    then show ?thesis using True excess lim(1) by (simp only: count_def if_True)
  next
    case False
    then show ?thesis using t(4) [OF False] lim(1) by (simp only: count_def if_False diff_zero)
  qed
  have stop_ord: "ordered addr stop" "stop \<le> end" "(unat stop - unat addr) div 4096 = N - t"
    using stop N by (auto simp: ordered_def word_le_nat_alt)
  have sum: "unat (sp_found p + count) = unat (sp_found p) + (N - t)"
    using t(2) unat_u64 [of ?max] by (simp add: unat_add_wrap count)
  obtain ok q where push: "pagemap_scan_push_range buf (c AND sa_return (sp_arg p)) p addr stop = (ok, q)"
    by fastforce
  have p': "ret = (if ok \<and> \<not> limit then 0 else - ENOSPC)" "end' = (if ok then stop else addr)"
      "p' = (let p = q\<lparr>sp_found := sp_found q + (if ok then count else 0)\<rparr> in
        if ok \<and> \<not> limit then p else p\<lparr>sp_arg := sp_arg p\<lparr>sa_walk_end := end'\<rparr>\<rparr>)"
    using out inv(2) push
    by (auto simp: pagemap_scan_output_def Let_def limit_def stop_def count_def split: if_splits prod.splits)
  have old: "pr_start r < pr_end r"
    if "r \<in> set (take (unat (sp_index p) + 1) buf)" "sp_found p < ?max" "pr_end r \<noteq> 0" for r
    using that inv by (auto simp: scan_inv_def)
  have all: "scan_inv p' \<and> ordered addr end' \<and> end' \<le> end \<and> sp_buf p' \<noteq> None \<and>
      buf_pages p' = buf_pages p @ pages_between addr end' (c AND sa_return (sp_arg p)) \<and>
      unat (sp_found p') = unat (sp_found p) + (unat end' - unat addr) div 4096 \<and>
      p' = p\<lparr>sp_buf := sp_buf p', sp_index := sp_index p', sp_found := sp_found p', sp_arg := sp_arg p'\<rparr> \<and>
      (ret \<noteq> 0 \<longrightarrow> sp_found p' = ?max \<or> buffer_full p')"
  proof (cases rule: push_range_cases [OF cursor regions stop_ord(1) push, case_names Full Pushed])
    case Full
    then show ?thesis
      using inv p' range by (auto simp: scan_inv_def buf_pages_def buffer_full_def pages_between_empty ordered_def Let_def)
  next
    case (Pushed old new r i)
    let ?p = "q\<lparr>sp_found := sp_found p + count\<rparr>"
    have found': "sp_found p' = sp_found p + count" "sp_index p' = i" "sp_buf p' = Some (buf[unat i := r])"
        "sa_max_pages (sp_arg p') = ?max" "sp_buf_len p' = sp_buf_len p"
      using p' Pushed by (auto simp: Let_def)
    have in_use: "take (unat (sp_index p) + 1) buf = old @ new" "take (unat i + 1) (buf[unat i := r]) = old @ [r]"
      using Pushed by simp_all
    have le: "sp_found p + count \<le> ?max" using sum t(2) by (simp add: word_le_nat_alt)
    have nonempty: "pr_start r < pr_end r" if "sp_found p + count < ?max"
    proof -
      have "\<not> limit" using that sum t(3) by (auto simp: word_less_nat_alt)
      then show ?thesis using Pushed range by (auto simp: stop_def)
    qed
    have mono: "sp_found p < ?max" if "sp_found p + count < ?max"
      using that sum by (simp add: word_less_nat_alt)
    have "scan_inv p'"
      unfolding scan_inv_def found' option.case in_use
      using Pushed cursor le nonempty mono regions old
      by simp
    moreover have "buf_pages p' = buf_pages p @ pages_between addr end' (c AND sa_return (sp_arg p))"
    proof -
      have "buf_pages p' = concat (map region_pages (old @ [r]))"
        by (simp only: buf_pages_def found' option.case in_use)
      moreover have "buf_pages p = concat (map region_pages (old @ new))"
        by (simp only: buf_pages_def inv(2) option.case in_use)
      ultimately show ?thesis using Pushed p'(2) by simp
    qed
    moreover have "p' = p\<lparr>sp_buf := sp_buf p', sp_index := sp_index p', sp_found := sp_found p', sp_arg := sp_arg p'\<rparr>"
      using p' Pushed by (auto simp: Let_def)
    moreover have "ret \<noteq> 0 \<longrightarrow> sp_found p' = ?max"
      using p' Pushed sum t(3) by (auto simp: found' word_unat_eq_iff)
    ultimately show ?thesis using p' Pushed stop_ord sum found' by (auto simp: stop_ord)
  qed
  then show "scan_inv p'" and "ordered addr end'" and "end' \<le> end" and "sp_buf p' \<noteq> None"
    and "buf_pages p' = buf_pages p @ pages_between addr end' (c AND sa_return (sp_arg p))"
    and "unat (sp_found p') = unat (sp_found p) + (unat end' - unat addr) div 4096"
    and "p' = p\<lparr>sp_buf := sp_buf p', sp_index := sp_index p', sp_found := sp_found p', sp_arg := sp_arg p'\<rparr>"
    by blast+
  have arg: "sp_arg q = sp_arg p"
    using push by (auto simp: pagemap_scan_push_range_def Let_def split: if_splits)
  show "if ret = 0 then end' = end \<and> sp_arg p' = sp_arg p
      else ret = - ENOSPC \<and> sp_arg p' = sp_arg p\<lparr>sa_walk_end := end'\<rparr> \<and>
        (sp_found p' = ?max \<or> buffer_full p')"
    using p' all arg by (auto simp: Let_def stop_def)
  show "end' = addr" if one: "end = addr + 0x1000" "ret \<noteq> 0"
  proof (cases ok)
    case True
    then have limit using p'(1) one(2) by (cases limit) simp_all
    moreover have "N = 1" using lim(1) one(1) by simp
    ultimately have "unat stop = unat addr"
      using stop t(1) lim(2) by (auto simp: t_def limit_def)
    then show ?thesis using True p'(2) by (simp add: word_unat_eq_iff)
  next
    case False
    then show ?thesis using p'(2) by simp
  qed
  show "end' < end" if "ret \<noteq> 0"
  proof (cases ok)
    case True
    then have limit using p'(1) that by (cases limit) simp_all
    then have "t \<noteq> 0" using lim(2) by (simp add: t_def limit_def)
    then show ?thesis using True p'(2) stop N t(1) by (simp add: word_less_nat_alt)
  next
    case False
    then show ?thesis using p'(2) range(2) by simp
  qed
qed

section \<open>Scanning a run of pages\<close>

text \<open>
  \<open>pick\<close> says of a page address under which categories the page has to be reported, if at all.
  \<open>scanned pick n addr p ret stop p'\<close>: from \<open>p\<close>, a scan of the \<open>n\<close> pages from \<open>addr\<close> went as far as
  \<open>stop\<close>, reported exactly the picked pages before it, and either covered all pages or stopped because
  the page limit was reached or the buffer was full.
\<close>

definition page_at :: "u64 \<Rightarrow> nat \<Rightarrow> u64" where
  "page_at addr i = addr + 0x1000 * of_nat i"

definition picked :: "(u64 \<Rightarrow> u64 option) \<Rightarrow> u64 \<Rightarrow> nat \<Rightarrow> (u64 \<times> u64) list" where
  "picked pick addr n = List.map_filter (\<lambda>i. map_option (Pair (page_at addr i)) (pick (page_at addr i))) [0..<n]"

definition scanned ::
  "(u64 \<Rightarrow> u64 option) \<Rightarrow> nat \<Rightarrow> u64 \<Rightarrow> scan_private \<Rightarrow> int \<Rightarrow> u64 \<Rightarrow> scan_private \<Rightarrow> bool" where
  "scanned pick n addr p ret stop p' \<longleftrightarrow>
    scan_inv p' \<and> sp_buf p' \<noteq> None \<and> sp_masks p' = sp_masks p \<and> sp_vma_category p' = sp_vma_category p \<and>
    sp_user p' = sp_user p \<and> sp_buf_len p' = sp_buf_len p \<and> sp_out p' = sp_out p \<and>
    sp_arg p' = (if ret = 0 then sp_arg p else sp_arg p\<lparr>sa_walk_end := stop\<rparr>) \<and>
    (\<exists>m \<le> n. stop = page_at addr m \<and> (if ret = 0 then m = n else m < n) \<and>
       buf_pages p' = buf_pages p @ picked pick addr m \<and>
       unat (sp_found p') = unat (sp_found p) + length (picked pick addr m)) \<and>
    (ret = 0 \<or> ret = - ENOSPC \<and> (sp_found p' = sa_max_pages (sp_arg p) \<or> buffer_full p'))"

lemma page_at_0 [simp]: "page_at addr 0 = addr"
  by (simp add: page_at_def)

lemma page_at_add: "page_at (page_at addr a) b = page_at addr (a + b)"
  by (simp only: page_at_def add.assoc of_nat_add distrib_left)

lemma page_at_Suc: "addr + 0x1000 = page_at addr 1"
  by (simp add: page_at_def)

lemma picked_0 [simp]: "picked pick addr 0 = []"
  by (simp add: picked_def List.map_filter_simps)

lemma map_filter_map: "List.map_filter f (map g xs) = List.map_filter (\<lambda>x. f (g x)) xs"
  by (induction xs) (auto simp: List.map_filter_simps split: option.splits)

lemma map_filter_cong_upt:
  "(\<And>i. i < n \<Longrightarrow> f i = g i) \<Longrightarrow> List.map_filter f [0..<n] = List.map_filter g [0..<n]"
  by (induction n) (auto simp: map_filter_append List.map_filter_simps split: option.splits)

lemma picked_add: "picked pick addr (a + b) = picked pick addr a @ picked pick (page_at addr a) b"
proof -
  have "[0..<a + b] = [0..<a] @ map (\<lambda>i. i + a) [0..<b]"
    using upt_add_eq_append [of 0 a b] map_add_upt [of a b] by (simp only: add_0 le0 add.commute)
  then show ?thesis
    by (simp only: picked_def map_filter_append map_filter_map page_at_add add.commute)
qed

lemma picked_1: "picked pick addr 1 = (case pick addr of None \<Rightarrow> [] | Some c \<Rightarrow> [(addr, c)])"
  by (simp add: picked_def List.map_filter_simps split: option.split)

lemmas one_page = picked_1 [unfolded One_nat_def] page_at_Suc [unfolded One_nat_def, symmetric]

lemma scanned_start:
  "scan_inv p \<Longrightarrow> sp_buf p \<noteq> None \<Longrightarrow> scanned pick 0 addr p 0 addr p"
  by (simp add: scanned_def)

lemma scanned_append:
  assumes "scanned pick a addr p 0 (page_at addr a) q" and "scanned pick b (page_at addr a) q ret stop p'"
  shows "scanned pick (a + b) addr p ret stop p'"
proof -
  obtain m where m: "m \<le> b" "stop = page_at (page_at addr a) m" "if ret = 0 then m = b else m < b"
      "buf_pages p' = buf_pages q @ picked pick (page_at addr a) m"
      "unat (sp_found p') = unat (sp_found q) + length (picked pick (page_at addr a) m)"
    using assms(2) by (auto simp: scanned_def)
  have "buf_pages q = buf_pages p @ picked pick addr a"
      "unat (sp_found q) = unat (sp_found p) + length (picked pick addr a)"
    using assms(1) by (auto simp: scanned_def)
  then have "\<exists>m \<le> a + b. stop = page_at addr m \<and> (if ret = 0 then m = a + b else m < a + b) \<and>
      buf_pages p' = buf_pages p @ picked pick addr m \<and>
      unat (sp_found p') = unat (sp_found p) + length (picked pick addr m)"
    using m by (intro exI [of _ "a + m"]) (auto simp: page_at_add picked_add split: if_splits)
  then show ?thesis using assms by (auto simp: scanned_def)
qed

lemma scanned_skip:
  "scan_inv p \<Longrightarrow> sp_buf p \<noteq> None \<Longrightarrow> pick addr = None \<Longrightarrow> scanned pick 1 addr p 0 (page_at addr 1) p"
  by (auto simp: scanned_def one_page)

lemma ordered_page:
  assumes "unat addr + 4096 < 2 ^ 64"
  shows "ordered addr (addr + 0x1000)" and "addr < addr + 0x1000" and "pages_between addr (addr + 0x1000) c = [(addr, c)]"
    and "unat (addr + 0x1000) - unat addr = 4096"
proof -
  have "unat (addr + 0x1000) = unat addr + 4096" using assms by (simp add: unat_add_wrap)
  then show "ordered addr (addr + 0x1000)" and "addr < addr + 0x1000" and "pages_between addr (addr + 0x1000) c = [(addr, c)]"
      and "unat (addr + 0x1000) - unat addr = 4096"
    by (simp_all add: ordered_def word_le_nat_alt word_less_nat_alt pages_between_def)
qed

lemma scanned_cong:
  assumes "\<And>i. i < n \<Longrightarrow> pick (page_at s i) = pick' (page_at s i)"
  shows "scanned pick n s p ret stop p' = scanned pick' n s p ret stop p'"
proof -
  have "picked pick s m = picked pick' s m" if "m \<le> n" for m
    unfolding picked_def using assms that by (intro map_filter_cong_upt) simp
  then show ?thesis unfolding scanned_def by (simp cong: conj_cong)
qed

lemma scanned_stop:
  "scanned pick a s p ret stop p' \<Longrightarrow> ret \<noteq> 0 \<Longrightarrow> a \<le> n \<Longrightarrow> scanned pick n s p ret stop p'"
  unfolding scanned_def by (auto intro: order_trans less_le_trans)

lemma scanned_none:
  assumes "scan_inv p" "sp_buf p \<noteq> None" and "\<And>i. i < n \<Longrightarrow> pick (page_at s i) = None"
  shows "scanned pick n s p 0 (page_at s n) p"
proof -
  have "picked pick s n = picked (\<lambda>_. None) s n"
    unfolding picked_def using assms(3) by (intro map_filter_cong_upt) simp
  also have "\<dots> = []" by (induction n) (simp_all add: picked_def map_filter_append List.map_filter_simps)
  finally show ?thesis using assms by (auto simp: scanned_def)
qed

lemma scanned_output:
  assumes "scan_inv p" and "sp_buf p \<noteq> None" and "unat addr + 4096 < 2 ^ 64"
    and "pick addr = Some (c AND sa_return (sp_arg p))"
    and "pagemap_scan_output c p addr (addr + 0x1000) = (ret, nxt, p')"
  shows "if ret = 0 then nxt = page_at addr 1 \<and> scanned pick 1 addr p 0 nxt p'
    else nxt = addr \<and> (0 < n \<longrightarrow> scanned pick n addr p ret addr p')"
proof -
  obtain buf where buf: "sp_buf p = Some buf" using assms(2) by auto
  note range = ordered_page [OF assms(3)]
  note out = scan_output [OF assms(1) buf range(1,2) assms(5)]
  have same: "sp_masks p' = sp_masks p" "sp_vma_category p' = sp_vma_category p" "sp_user p' = sp_user p"
      "sp_buf_len p' = sp_buf_len p" "sp_out p' = sp_out p"
    using arg_cong [OF out(7), of sp_masks] arg_cong [OF out(7), of sp_vma_category]
      arg_cong [OF out(7), of sp_user] arg_cong [OF out(7), of sp_buf_len] arg_cong [OF out(7), of sp_out]
    by simp_all
  show ?thesis
    using out(1,4,5,6,8,9) range assms(4) same
    by (auto simp: scanned_def one_page pages_between_empty split: if_splits)
qed

text \<open>
  The two scanning loops differ only in how they select a page and its categories: both are instances
  of one loop over a selection, about which the reasoning is done once.
\<close>

type_synonym selection = "scan_private \<Rightarrow> u64 \<Rightarrow> u64 \<Rightarrow> u64 option"

fun gen_loop ::
  "selection \<Rightarrow> (u64 \<Rightarrow> u64) \<Rightarrow> nat \<Rightarrow> u64 \<Rightarrow> u64 \<Rightarrow> u64 \<Rightarrow> u64 \<Rightarrow> int \<Rightarrow> scan_private \<Rightarrow>
     int \<times> u64 \<times> u64 \<times> u64 \<times> scan_private" where
  "gen_loop sel ptep_get 0 pte addr start flush_end ret p = (ret, addr, start, flush_end, p)"
| "gen_loop sel ptep_get (Suc n) pte addr start flush_end ret p =
    (case sel p addr (ptep_get pte) of
       None \<Rightarrow> gen_loop sel ptep_get n (pte + 8) (addr + 0x1000) start flush_end ret p
     | Some c \<Rightarrow>
       let (ret, next, p) = pagemap_scan_output c p addr (addr + 0x1000) in
       if next = addr then (ret, addr, start, flush_end, p) else
       if NOT (sa_flags (sp_arg p)) AND PM_SCAN_WP_MATCHING \<noteq> 0 \<or> NOT c AND PAGE_IS_WRITTEN \<noteq> 0
       then gen_loop sel ptep_get n (pte + 8) (addr + 0x1000) start flush_end ret p
       else gen_loop sel ptep_get n (pte + 8) (addr + 0x1000) (if flush_end = 0 then addr else start)
              next ret (make_uffd_wp addr p))"

definition general_sel :: "scanenv \<Rightarrow> selection" where
  "general_sel env p a e =
    (let c = sp_vma_category p OR pagemap_page_category p env a e in
     if is_interesting_page c p then Some c else None)"

definition written_sel :: "scanenv \<Rightarrow> selection" where
  "written_sel env p a e =
    (if (pte_present e \<and> pte_uffd_wp e) \<or> pte_swp_uffd_wp_any env e then None
     else Some (sp_vma_category p OR PAGE_IS_WRITTEN))"

lemma scan_loop_gen:
  "scan_loop env ptep_get n pte addr start fl ret p = gen_loop (general_sel env) ptep_get n pte addr start fl ret p"
  by (induction n arbitrary: pte addr start fl ret p)
    (simp_all add: general_sel_def Let_def split: prod.splits)

lemma not_or_written: "(NOT c AND NOT b) AND b = 0" for b c :: u64
  by (rule bit_word_eqI) (simp add: bit_and_iff bit_not_iff)

lemma written_loop_gen:
  "written_loop env ptep_get n pte addr start fl ret p = gen_loop (written_sel env) ptep_get n pte addr start fl ret p"
  by (induction n arbitrary: pte addr start fl ret p)
    (simp_all add: written_sel_def Let_def not_or_written split: prod.splits)

definition sel_pick :: "selection \<Rightarrow> (u64 \<Rightarrow> u64) \<Rightarrow> scan_private \<Rightarrow> u64 \<Rightarrow> u64 option" where
  "sel_pick sel ent p a = map_option (\<lambda>c. c AND sa_return (sp_arg p)) (sel p a (ent a))"

text \<open>A selection looks at the request, the masks and the area only, which no output changes.\<close>

definition request :: "scan_private \<Rightarrow> u64 list" where
  "request p = [sp_masks p, sp_vma_category p, sa_mask (sp_arg p), sa_inverted (sp_arg p), sa_anyof (sp_arg p),
     sa_return (sp_arg p)]"

definition stable_sel :: "selection \<Rightarrow> bool" where
  "stable_sel sel \<longleftrightarrow> (\<forall>p q. request q = request p \<longrightarrow> sel q = sel p)"

lemma stable_selD: "stable_sel sel \<Longrightarrow> request q = request p \<Longrightarrow> sel q = sel p"
  unfolding stable_sel_def by blast

lemma stable_sels: "stable_sel (general_sel env)" "stable_sel (written_sel env)"
  unfolding stable_sel_def request_def list.inject
proof (safe intro!: ext)
  fix p q :: scan_private and a e
  assume eqs: "sp_masks q = sp_masks p" "sp_vma_category q = sp_vma_category p"
    "sa_mask (sp_arg q) = sa_mask (sp_arg p)" "sa_inverted (sp_arg q) = sa_inverted (sp_arg p)"
    "sa_anyof (sp_arg q) = sa_anyof (sp_arg p)" "sa_return (sp_arg q) = sa_return (sp_arg p)"
  show "general_sel env q a e = general_sel env p a e"
    unfolding general_sel_def pagemap_page_category_def is_interesting_page_def Let_def eqs by (rule refl)
  show "written_sel env q a e = written_sel env p a e"
    unfolding written_sel_def eqs by (rule refl)
qed

lemma scan_inv_wp: "scan_inv (make_uffd_wp a p) = scan_inv p" "buf_pages (make_uffd_wp a p) = buf_pages p"
  "buffer_full (make_uffd_wp a p) = buffer_full p"
  by (cases "sp_buf p"; simp add: make_uffd_wp_def scan_inv_def buf_pages_def buffer_full_def)+

lemma scanned_wp: "scanned pick n addr p ret stop (make_uffd_wp a p') = scanned pick n addr p ret stop p'"
  by (simp add: scanned_def scan_inv_wp) (simp add: make_uffd_wp_def)

lemma gen_loop_scanned:
  assumes stable: "stable_sel sel"
    and "scan_inv p" and "sp_buf p \<noteq> None" and "unat addr + 4096 * n < 2 ^ 64"
    and "\<And>i. i < n \<Longrightarrow> ptep_get (pte + of_nat (8 * i)) = ent (page_at addr i)"
    and "gen_loop sel ptep_get n pte addr start fl 0 p = (ret, stop, start', fl', p')"
  shows "scanned (sel_pick sel ent p) n addr p ret stop p'"
  using assms(2-)
proof (induction n arbitrary: pte addr start fl p)
  case 0
  then show ?case by (auto intro: scanned_start)
next
  case (Suc n)
  let ?pick = "sel_pick sel ent p"
  have ent: "ptep_get pte = ent addr" using Suc.prems(4) [of 0] by simp
  have rest: "i < n \<Longrightarrow> ptep_get ((pte + 8) + of_nat (8 * i)) = ent (page_at (page_at addr 1) i)" for i
    using Suc.prems(4) [of "Suc i"] by (simp add: page_at_add add.assoc)
  have room: "unat addr + 4096 < 2 ^ 64" "unat (page_at addr 1) + 4096 * n < 2 ^ 64"
    using Suc.prems(3) by (simp_all add: one_page unat_add_wrap)
  have go: "scanned ?pick (Suc n) addr p ret stop p'"
    if "scanned ?pick 1 addr p 0 (page_at addr 1) q"
      and "gen_loop sel ptep_get n (pte + 8) (addr + 0x1000) s f 0 q = (ret, stop, start', fl', p')" for q s f
  proof -
    have "sp_arg q = sp_arg p" using that(1) by (simp add: scanned_def)
    moreover have "sel q = sel p"
      by (rule stable_selD [OF stable]) (use that(1) in \<open>simp add: scanned_def request_def\<close>)
    ultimately have "sel_pick sel ent q = ?pick" by (simp add: sel_pick_def fun_eq_iff)
    then have "scanned ?pick n (page_at addr 1) q ret stop p'"
      using Suc.IH [of q "page_at addr 1" "pte + 8" s f] that rest room by (auto simp: scanned_def page_at_Suc)
    then show ?thesis using scanned_append [OF that(1)] by simp
  qed
  show ?case
  proof (cases "sel p addr (ent addr)")
    case None
    then have "?pick addr = None" by (simp add: sel_pick_def)
    from go [OF scanned_skip [where pick = ?pick, OF Suc.prems(1,2) this]] show ?thesis
      using Suc.prems(5) None by (simp add: ent)
  next
    case (Some c)
    then have pick: "?pick addr = Some (c AND sa_return (sp_arg p))" by (simp add: sel_pick_def)
    obtain r nxt q where out: "pagemap_scan_output c p addr (addr + 0x1000) = (r, nxt, q)" by (metis prod_cases3)
    note one = scanned_output [where n = "Suc n" and pick = ?pick, OF Suc.prems(1,2) room(1) pick out]
    show ?thesis
    proof (cases "r = 0")
      case True
      then have step: "scanned ?pick 1 addr p 0 (page_at addr 1) q" "nxt \<noteq> addr"
        using one ordered_page(2) [OF room(1)] by (auto simp: one_page)
      then show ?thesis
        using Suc.prems(5) Some True out go [of q] go [of "make_uffd_wp addr q"]
        by (auto simp: ent Let_def scanned_wp split: if_splits)
    next
      case False
      then show ?thesis using Suc.prems(5) Some out one by (auto simp: ent Let_def)
    qed
  qed
qed

section \<open>One PMD\<close>

text \<open>The selection \<open>pagemap_scan_pmd_entry\<close> makes for a table of entries, by the request.\<close>

definition pmd_sel :: "scanenv \<Rightarrow> scan_private \<Rightarrow> selection" where
  "pmd_sel env p =
    (if sa_anyof (sp_arg p) = 0 \<and> sa_inverted (sp_arg p) = 0 \<and> sa_mask (sp_arg p) = PAGE_IS_WRITTEN \<and>
        sa_return (sp_arg p) = PAGE_IS_WRITTEN
     then written_sel env else general_sel env)"

lemma stable_pmd_sel: "stable_sel (pmd_sel env p)"
  by (simp add: pmd_sel_def stable_sels)

lemma scanned_flush:
  "scanned pick n addr p ret stop (flush_tlb_range a b p') = scanned pick n addr p ret stop p'"
proof -
  have "scan_inv (flush_tlb_range a b p') = scan_inv p'" "buf_pages (flush_tlb_range a b p') = buf_pages p'"
    "buffer_full (flush_tlb_range a b p') = buffer_full p'"
    by (cases "sp_buf p'"; simp add: flush_tlb_range_def scan_inv_def buf_pages_def buffer_full_def)+
  then show ?thesis by (simp add: scanned_def) (simp add: flush_tlb_range_def)
qed

lemma page_at_pages:
  assumes "unat s + 4096 * n < 2 ^ 64"
  shows "unat (page_at s n) = unat s + 4096 * n" and "unat ((page_at s n - s) div 4096) = n"
proof -
  have "unat (0x1000 * of_nat n :: u64) = 4096 * n"
    using unat_of_nat_small [of "4096 * n"] assms by simp
  then show at: "unat (page_at s n) = unat s + 4096 * n"
    using assms by (simp add: page_at_def unat_add_wrap)
  have "unat (page_at s n - s) = 4096 * n"
    using at by (subst unat_sub) (simp_all add: word_le_nat_alt)
  then show "unat ((page_at s n - s) div 4096) = n" by (simp add: unat_div)
qed

text \<open>A run of pages without a table is output at once.\<close>

lemma hole_scanned:
  assumes "scan_inv p" "sp_buf p \<noteq> None" "unat s + 4096 * n < 2 ^ 64" "0 < n"
    and "sa_flags (sp_arg p) = 0"
    and "pagemap_scan_pte_hole env True s (page_at s n) p = (ret, p')"
  shows "\<exists>stop. scanned (\<lambda>_. if is_interesting_page (sp_vma_category p) p
      then Some (sp_vma_category p AND sa_return (sp_arg p)) else None) n s p ret stop p'"
proof (cases "is_interesting_page (sp_vma_category p) p")
  case False
  then have "ret = 0" "p' = p" using assms(6) by (auto simp: pagemap_scan_pte_hole_def)
  then show ?thesis using scanned_none [OF assms(1,2), of n "\<lambda>_. None" s] False by auto
next
  case True
  let ?c = "sp_vma_category p AND sa_return (sp_arg p)"
  obtain r stop q where out: "pagemap_scan_output (sp_vma_category p) p s (page_at s n) = (r, stop, q)"
    by (metis prod_cases3)
  obtain buf where buf: "sp_buf p = Some buf" using assms(2) by auto
  have range: "ordered s (page_at s n)" "s < page_at s n"
    using page_at_pages(1) [OF assms(3)] assms(4) by (auto simp: ordered_def word_le_nat_alt word_less_nat_alt)
  note o = scan_output [OF assms(1) buf range out]
  have flags: "sa_flags (sp_arg q) = 0"
    using o(8) assms(5) by (cases "r = 0") simp_all
  have "NOT (0 :: u64) AND PM_SCAN_WP_MATCHING \<noteq> 0" by (simp add: BIT_ULL_def)
  then have res: "ret = r" "p' = q"
    using assms(6) True out flags by (auto simp: pagemap_scan_pte_hole_def simp del: and_zero_eq split: if_splits)
  obtain m where m: "unat stop = unat s + 4096 * m" "(unat stop - unat s) div 4096 = m"
    using o(2) by (rule orderedE)
  have le: "m \<le> n" using m(1) o(3) page_at_pages(1) [OF assms(3)] by (simp add: word_le_nat_alt)
  have stop: "stop = page_at s m"
    using m(1) le assms(3) page_at_pages(1) [of s m] by (simp add: word_unat_eq_iff)
  have "m = n" if "r = 0" using that o(8) m(1) page_at_pages(1) [OF assms(3)] by simp
  moreover have "m < n" if "r \<noteq> 0"
    using o(10) [OF that] m(1) page_at_pages(1) [OF assms(3)] by (simp add: word_less_nat_alt)
  moreover have pages: "pages_between s stop ?c = picked (\<lambda>_. Some ?c) s m"
    by (simp add: pages_between_def m(2) picked_def page_at_def List.map_filter_def)
  moreover have "length (picked (\<lambda>_. Some ?c) s m) = m"
    by (simp add: picked_def List.map_filter_def)
  ultimately have "\<exists>m \<le> n. stop = page_at s m \<and> (if r = 0 then m = n else m < n) \<and>
      buf_pages q = buf_pages p @ picked (\<lambda>_. Some ?c) s m \<and>
      unat (sp_found q) = unat (sp_found p) + length (picked (\<lambda>_. Some ?c) s m)"
    using o(5,6) le m(2) stop by (intro exI [of _ m]) simp
  then have "scanned (\<lambda>_. Some ?c) n s p r stop q"
    using o(1,4,8) arg_cong [OF o(7), of sp_masks] arg_cong [OF o(7), of sp_vma_category]
      arg_cong [OF o(7), of sp_user] arg_cong [OF o(7), of sp_buf_len] arg_cong [OF o(7), of sp_out]
    unfolding scanned_def by (auto split: if_splits)
  then show ?thesis using True res by auto
qed

lemma pmd_entry_scanned:
  assumes "scan_inv p" "sp_buf p \<noteq> None" "unat s + 4096 * n < 2 ^ 64"
    and "sa_flags (sp_arg p) AND PM_SCAN_WP_MATCHING = 0 \<or> sp_out p \<noteq> 0"
    and "\<And>i. i < n \<Longrightarrow> ptep_get (pte + of_nat (8 * i)) = ent (page_at s i)"
    and "pagemap_scan_pmd_entry env ptep_get None (Some pte) s (page_at s n) p = (ret, p')"
  shows "\<exists>stop. scanned (sel_pick (pmd_sel env p) ent p) n s p ret stop p'"
proof -
  obtain ret' stop start fl q
    where loop: "gen_loop (pmd_sel env p) ptep_get n pte s s 0 0 p = (ret', stop, start, fl, q)"
    by (metis prod_cases5)
  have "pagemap_scan_pmd_entry env ptep_get None (Some pte) s (page_at s n) p =
      flush_and_return (ret', stop, start, fl, q)"
    using assms(4) loop
    by (auto simp: pagemap_scan_pmd_entry_def pagemap_scan_thp_entry_def page_at_pages [OF assms(3)] Let_def
        pmd_sel_def scan_loop_gen written_loop_gen)
  then have "ret = ret'" "p' = (if fl \<noteq> 0 then flush_tlb_range start stop q else q)"
    using assms(6) by (auto simp: flush_and_return_def)
  then show ?thesis
    using gen_loop_scanned [OF stable_pmd_sel assms(1-3,5) loop] by (auto simp: scanned_flush intro!: exI)
qed

text \<open>
  C5. Scanning a table of entries reports exactly the right pages: after \<open>pagemap_scan_pmd_entry\<close> on
  the \<open>n\<close> pages from \<open>s\<close> the buffer's regions, read as pages, have grown by precisely those pages
  before the stopping point that match the request, each once, in address order and under its
  categories restricted to the return mask, although neighbours are merged; it covers all \<open>n\<close> pages,
  or stops with \<open>-ENOSPC\<close> at a page it records as the end of the walk because the page limit is
  reached or the buffer is full; the limit is never exceeded.
\<close>

theorem scan_pmd_exact:
  assumes "scan_inv p" "sp_buf p \<noteq> None" "unat s + 4096 * n < 2 ^ 64"
    and "sa_flags (sp_arg p) AND PM_SCAN_WP_MATCHING = 0 \<or> sp_out p \<noteq> 0"
    and "\<forall>i < n. ptep_get (pte + of_nat (8 * i)) = ent (page_at s i)"
    and "pagemap_scan_pmd_entry env ptep_get None (Some pte) s (page_at s n) p = (ret, p')"
  shows "\<exists>m \<le> n. buf_pages p' = buf_pages p @ picked (sel_pick (pmd_sel env p) ent p) s m \<and>
      unat (sp_found p') = unat (sp_found p) + length (picked (sel_pick (pmd_sel env p) ent p) s m) \<and>
      sp_found p' \<le> sa_max_pages (sp_arg p) \<and>
      (if ret = 0 then m = n
       else ret = - ENOSPC \<and> m < n \<and> sa_walk_end (sp_arg p') = page_at s m \<and>
         (sp_found p' = sa_max_pages (sp_arg p) \<or> buffer_full p'))"
proof -
  obtain stop where sc: "scanned (sel_pick (pmd_sel env p) ent p) n s p ret stop p'"
    using pmd_entry_scanned [of p s n ptep_get pte ent env ret p'] assms by blast
  then have "sp_found p' \<le> sa_max_pages (sp_arg p')" by (auto simp: scanned_def scan_inv_def)
  then have "sp_found p' \<le> sa_max_pages (sp_arg p)" using sc by (simp add: scanned_def split: if_splits)
  with sc show ?thesis unfolding scanned_def by (auto split: if_splits)
qed

lemma and_BIT_ULL_eq: "k < 64 \<Longrightarrow> x AND BIT_ULL k = (if bit x k then BIT_ULL k else 0)"
  by (rule bit_word_eqI) (auto simp: bit_and_iff bit_BIT_ULL)

lemma BIT_ULL_nonzero: "k < 64 \<Longrightarrow> BIT_ULL k \<noteq> 0"
  using bit_BIT_ULL [of k k] by auto

lemma none_not_present: "pte_none pte \<Longrightarrow> \<not> pte_present pte"
proof -
  assume none: "pte_none pte"
  have "pte_flags pte AND 0x101 = pte_flags pte AND (NOT KNL_ERRATUM_MASK AND 0x101)" by simp
  also have "\<dots> = (pte AND NOT KNL_ERRATUM_MASK) AND (NOT PTE_ADDR_MASK AND 0x101)"
    by (simp only: pte_flags_def and.assoc and.left_commute)
  also have "\<dots> = 0" using none by (simp only: pte_none_def and_zero_eq zero_and_eq)
  finally show ?thesis by (simp add: pte_present_def)
qed

lemma category_written:
  "bit (pagemap_page_category p env a pte) 1 \<longleftrightarrow>
    \<not> pte_none pte \<and> (if pte_present pte then \<not> pte_uffd_wp pte else \<not> pte_swp_uffd_wp_any env pte)"
  by (auto simp: pagemap_page_category_def Let_def bit_or_if bit_BIT_ULL bit_or_iff)

text \<open>
  Two selections that report alike and write-protect alike give the same loop, state and results
  included.
\<close>

lemma output_request: "pagemap_scan_output c p addr end = (r, nxt, q) \<Longrightarrow> request q = request p"
  unfolding pagemap_scan_output_def pagemap_scan_push_range_def request_def
  by (auto simp: Let_def split: option.splits if_splits prod.splits)

lemma output_restricted:
  "c AND sa_return (sp_arg p) = d AND sa_return (sp_arg p) \<Longrightarrow>
   pagemap_scan_output c p addr end = pagemap_scan_output d p addr end"
  by (cases "sp_buf p") (simp_all only: pagemap_scan_output_def option.case Let_def)

definition alike :: "u64 \<Rightarrow> u64 option \<Rightarrow> u64 option \<Rightarrow> bool" where
  "alike ret x y \<longleftrightarrow>
    map_option (\<lambda>c. (c AND ret, NOT c AND PAGE_IS_WRITTEN)) x = map_option (\<lambda>c. (c AND ret, NOT c AND PAGE_IS_WRITTEN)) y"

lemma gen_loop_alike:
  assumes "stable_sel f" "stable_sel g"
    and "\<And>i. i < n \<Longrightarrow> alike (sa_return (sp_arg p)) (f p (page_at addr i) (ptep_get (pte + of_nat (8 * i))))
      (g p (page_at addr i) (ptep_get (pte + of_nat (8 * i))))"
  shows "gen_loop f ptep_get n pte addr start fl ret p = gen_loop g ptep_get n pte addr start fl ret p"
  using assms(3)
proof (induction n arbitrary: pte addr start fl ret p)
  case (Suc n)
  have go: "gen_loop f ptep_get n (pte + 8) (addr + 0x1000) s l r q = gen_loop g ptep_get n (pte + 8) (addr + 0x1000) s l r q"
    if "request q = request p" for q s l r
  proof (rule Suc.IH)
    fix i assume "i < n"
    have "f q = f p" "g q = g p" "sa_return (sp_arg q) = sa_return (sp_arg p)"
      using stable_selD [OF assms(1) that] stable_selD [OF assms(2) that] that by (simp_all add: request_def)
    then show "alike (sa_return (sp_arg q)) (f q (page_at (addr + 0x1000) i) (ptep_get (pte + 8 + of_nat (8 * i))))
        (g q (page_at (addr + 0x1000) i) (ptep_get (pte + 8 + of_nat (8 * i))))"
      using Suc.prems [of "Suc i"] \<open>i < n\<close> by (simp add: page_at_def algebra_simps)
  qed
  have first: "alike (sa_return (sp_arg p)) (f p addr (ptep_get pte)) (g p addr (ptep_get pte))"
    using Suc.prems [of 0] by (simp add: page_at_def)
  show ?case
  proof (cases "f p addr (ptep_get pte)")
    case None
    then have "g p addr (ptep_get pte) = None" using first by (simp add: alike_def)
    then show ?thesis using None go [OF refl] by simp
  next
    case (Some c)
    then obtain d where d: "g p addr (ptep_get pte) = Some d" "d AND sa_return (sp_arg p) = c AND sa_return (sp_arg p)"
        "NOT d AND PAGE_IS_WRITTEN = NOT c AND PAGE_IS_WRITTEN"
      using first unfolding alike_def by (cases "g p addr (ptep_get pte)") simp_all
    obtain r nxt q where out: "pagemap_scan_output c p addr (addr + 0x1000) = (r, nxt, q)" by (metis prod_cases3)
    have out': "pagemap_scan_output d p addr (addr + 0x1000) = (r, nxt, q)" using out output_restricted [OF d(2)] by simp
    have same: "request q = request p" "request (make_uffd_wp addr q) = request p"
      using output_request [OF out] by (simp_all add: request_def make_uffd_wp_def)
    show ?thesis
      by (simp only: gen_loop.simps Some d(1,3) out out' option.case Let_def prod.case go [OF same(1)] go [OF same(2)])
  qed
qed simp

text \<open>
  A request for written pages and nothing else, in an area that gives its pages no such category. An
  entry is unmarked when neither of its two write-protection tests finds a mark; a present entry is
  no marker.
\<close>

definition written_only :: "scan_private \<Rightarrow> bool" where
  "written_only p \<longleftrightarrow> sa_anyof (sp_arg p) = 0 \<and> sa_inverted (sp_arg p) = 0 \<and> sa_mask (sp_arg p) = PAGE_IS_WRITTEN \<and>
    sa_return (sp_arg p) = PAGE_IS_WRITTEN \<and> \<not> bit (sp_vma_category p) 1"

definition unmarked :: "scanenv \<Rightarrow> u64 \<Rightarrow> bool" where
  "unmarked env e \<longleftrightarrow> \<not> (pte_present e \<and> pte_uffd_wp e) \<and> \<not> pte_swp_uffd_wp_any env e"

lemma written_sels:
  assumes "written_only p" and "pte_present e \<Longrightarrow> \<not> pte_swp_uffd_wp_any env e"
  shows "general_sel env p a e = (if unmarked env e \<and> \<not> pte_none e
      then Some (sp_vma_category p OR pagemap_page_category p env a e) else None)"
    and "written_sel env p a e = (if unmarked env e then Some (sp_vma_category p OR PAGE_IS_WRITTEN) else None)"
    and "unmarked env e \<Longrightarrow> \<not> pte_none e \<Longrightarrow> bit (pagemap_page_category p env a e) 1"
proof -
  have cat: "bit (pagemap_page_category p env a e) 1 \<longleftrightarrow> unmarked env e \<and> \<not> pte_none e"
    using assms(2) unfolding category_written unmarked_def by auto
  show "general_sel env p a e = (if unmarked env e \<and> \<not> pte_none e
      then Some (sp_vma_category p OR pagemap_page_category p env a e) else None)"
    unfolding cat [symmetric] using assms(1)
    by (simp add: written_only_def general_sel_def is_interesting_page_def Let_def and_BIT_ULL_eq bit_or_iff BIT_ULL_nonzero)
  show "written_sel env p a e = (if unmarked env e then Some (sp_vma_category p OR PAGE_IS_WRITTEN) else None)"
    by (simp add: written_sel_def unmarked_def)
  show "unmarked env e \<Longrightarrow> \<not> pte_none e \<Longrightarrow> bit (pagemap_page_category p env a e) 1" using cat by blast
qed

lemma written_picks:
  assumes "written_only p" and "pte_present (ent a) \<Longrightarrow> \<not> pte_swp_uffd_wp_any env (ent a)"
  shows "sel_pick (general_sel env) ent p a =
      (if unmarked env (ent a) \<and> \<not> pte_none (ent a) then Some PAGE_IS_WRITTEN else None)"
    and "sel_pick (written_sel env) ent p a = (if unmarked env (ent a) then Some PAGE_IS_WRITTEN else None)"
  using assms(1) written_sels(3) [OF assms, of a]
  by (simp_all add: sel_pick_def written_sels [OF assms] written_only_def and_BIT_ULL_eq bit_or_iff bit_BIT_ULL)

lemma written_alike:
  assumes "written_only p" and "pte_present e \<Longrightarrow> \<not> pte_swp_uffd_wp_any env e" and "unmarked env e \<Longrightarrow> \<not> pte_none e"
  shows "alike (sa_return (sp_arg p)) (written_sel env p a e) (general_sel env p a e)"
proof -
  have "NOT (c OR d) AND BIT_ULL 1 = 0" if "bit d 1" for c d :: u64
    using that by (intro bit_word_eqI) (auto simp: bit_and_iff bit_not_iff bit_or_iff bit_BIT_ULL)
  moreover have "(c OR d) AND BIT_ULL 1 = BIT_ULL 1" if "bit d 1" for c d :: u64
    using that by (simp add: and_BIT_ULL_eq bit_or_iff)
  moreover have "bit (BIT_ULL 1) 1" by (simp add: bit_BIT_ULL)
  ultimately show ?thesis
    using assms(1,3) written_sels(3) [OF assms(1,2), of a] by (simp add: alike_def written_sels [OF assms(1,2)] written_only_def)
qed

lemma scanned_outcome:
  assumes "scanned pick n s p ret stop q"
  shows "\<exists>m \<le> n. stop = page_at s m \<and> buf_pages q = buf_pages p @ picked pick s m \<and>
    (if ret = 0 then m = n else ret = - ENOSPC \<and> m < n \<and> sa_walk_end (sp_arg q) = page_at s m \<and>
      (sp_found q = sa_max_pages (sp_arg p) \<or> buffer_full q))"
proof -
  obtain m where m: "m \<le> n" "stop = page_at s m" "if ret = 0 then m = n else m < n" "buf_pages q = buf_pages p @ picked pick s m"
    using assms unfolding scanned_def by blast
  moreover have "ret \<noteq> 0 \<Longrightarrow> ret = - ENOSPC \<and> (sp_found q = sa_max_pages (sp_arg p) \<or> buffer_full q)"
    using assms unfolding scanned_def by blast
  moreover have "ret \<noteq> 0 \<Longrightarrow> sa_walk_end (sp_arg q) = stop" using assms by (simp add: scanned_def)
  ultimately show ?thesis by (intro exI [of _ m]) (cases "ret = 0"; simp)
qed

text \<open>
  C38. The loop for written pages of \<open>pagemap_scan_pmd_entry\<close> is no faithful shortcut of its general
  loop. Run on the same request for written pages, over the same \<open>n\<close> pages of a table and from the same
  state, the shortcut reports as written exactly the pages whose entry is unmarked, the general loop
  exactly those whose entry is unmarked and not empty, each up to where its own run stops (at the end,
  or with \<open>-ENOSPC\<close> at the recorded address when the limit is reached or the buffer is full): the empty
  unmarked entries are reported by the shortcut alone. Without such an entry the two loops have the
  same outcome: result, stopping address, range to flush, pages marked and buffer.
\<close>

theorem written_shortcut_differs:
  fixes n :: nat and pte s :: u64 and ptep_get ent :: "u64 \<Rightarrow> u64"
  assumes "written_only p" "scan_inv p" "sp_buf p \<noteq> None" "unat s + 4096 * n < 2 ^ 64"
    and "\<forall>i < n. ptep_get (pte + of_nat (8 * i)) = ent (page_at s i)"
    and "\<forall>a. pte_present (ent a) \<longrightarrow> \<not> pte_swp_uffd_wp_any env (ent a)"
    and "written_loop env ptep_get n pte s s 0 0 p = (ret, stop, start, fl, q)"
    and "scan_loop env ptep_get n pte s s 0 0 p = (ret', stop', start', fl', q')"
  shows "(let outcome = (\<lambda>pick ret stop q. \<exists>m \<le> n. stop = page_at s m \<and> buf_pages q = buf_pages p @ picked pick s m \<and>
            (if ret = 0 then m = n
             else ret = - ENOSPC \<and> m < n \<and> sa_walk_end (sp_arg q) = page_at s m \<and>
               (sp_found q = sa_max_pages (sp_arg p) \<or> buffer_full q))) in
     outcome (\<lambda>a. if unmarked env (ent a) then Some PAGE_IS_WRITTEN else None) ret stop q \<and>
     outcome (\<lambda>a. if unmarked env (ent a) \<and> \<not> pte_none (ent a) then Some PAGE_IS_WRITTEN else None) ret' stop' q') \<and>
    (if list_all (\<lambda>i. \<not> (unmarked env (ent (page_at s i)) \<and> pte_none (ent (page_at s i)))) [0..<n]
     then (ret', stop', start', fl', q') = (ret, stop, start, fl, q) else True)"
proof -
  have picks: "sel_pick (general_sel env) ent p =
      (\<lambda>a. if unmarked env (ent a) \<and> \<not> pte_none (ent a) then Some PAGE_IS_WRITTEN else None)"
    "sel_pick (written_sel env) ent p = (\<lambda>a. if unmarked env (ent a) then Some PAGE_IS_WRITTEN else None)"
    using assms(6) by (auto simp: written_picks [OF assms(1)])
  have entries: "i < n \<Longrightarrow> ptep_get (pte + of_nat (8 * i)) = ent (page_at s i)" for i using assms(5) by blast
  note written = gen_loop_scanned [OF stable_sels(2) assms(2-4) entries assms(7) [unfolded written_loop_gen]]
  note general = gen_loop_scanned [OF stable_sels(1) assms(2-4) entries assms(8) [unfolded scan_loop_gen]]
  have same: "written_loop env ptep_get n pte s s 0 0 p = scan_loop env ptep_get n pte s s 0 0 p"
    if "list_all (\<lambda>i. \<not> (unmarked env (ent (page_at s i)) \<and> pte_none (ent (page_at s i)))) [0..<n]"
    unfolding written_loop_gen scan_loop_gen
  proof (rule gen_loop_alike [OF stable_sels(2,1)])
    fix i assume i: "i < n"
    have "unmarked env (ent (page_at s i)) \<Longrightarrow> \<not> pte_none (ent (page_at s i))"
      using that i by (simp add: list_all_iff)
    then show "alike (sa_return (sp_arg p)) (written_sel env p (page_at s i) (ptep_get (pte + of_nat (8 * i))))
        (general_sel env p (page_at s i) (ptep_get (pte + of_nat (8 * i))))"
      unfolding entries [OF i] using assms(6) by (intro written_alike [OF assms(1)]) blast+
  qed
  show ?thesis
    unfolding Let_def
  proof (intro conjI)
    show "\<exists>m \<le> n. stop = page_at s m \<and> buf_pages q = buf_pages p @
        picked (\<lambda>a. if unmarked env (ent a) then Some PAGE_IS_WRITTEN else None) s m \<and>
        (if ret = 0 then m = n else ret = - ENOSPC \<and> m < n \<and> sa_walk_end (sp_arg q) = page_at s m \<and>
          (sp_found q = sa_max_pages (sp_arg p) \<or> buffer_full q))"
      using scanned_outcome [OF written] by (simp only: picks)
    show "\<exists>m \<le> n. stop' = page_at s m \<and> buf_pages q' = buf_pages p @
        picked (\<lambda>a. if unmarked env (ent a) \<and> \<not> pte_none (ent a) then Some PAGE_IS_WRITTEN else None) s m \<and>
        (if ret' = 0 then m = n else ret' = - ENOSPC \<and> m < n \<and> sa_walk_end (sp_arg q') = page_at s m \<and>
          (sp_found q' = sa_max_pages (sp_arg p) \<or> buffer_full q'))"
      using scanned_outcome [OF general] by (simp only: picks)
    show "if list_all (\<lambda>i. \<not> (unmarked env (ent (page_at s i)) \<and> pte_none (ent (page_at s i)))) [0..<n]
        then (ret', stop', start', fl', q') = (ret, stop, start, fl, q) else True"
      using same assms(7,8) by simp
  qed
qed

section \<open>The rounds of the command\<close>

text \<open>A buffer as it is after allocation and after a flush.\<close>

definition fresh :: "scan_private \<Rightarrow> bool" where
  "fresh p \<longleftrightarrow> (case sp_buf p of None \<Rightarrow> False
     | Some buf \<Rightarrow> sp_index p = 0 \<and> 0 < sp_buf_len p \<and> unat (sp_buf_len p) \<le> length buf \<and>
         pr_start (buf ! 0) = 0 \<and> pr_end (buf ! 0) = 0 \<and> sp_found p \<le> sa_max_pages (sp_arg p) \<and>
         sp_buf_len p \<le> sa_vec_len (sp_arg p))"

lemma fresh_inv: "fresh p \<Longrightarrow> scan_inv p \<and> sp_buf p \<noteq> None \<and> buf_pages p = []"
proof -
  assume fresh: "fresh p"
  then obtain buf where buf: "sp_buf p = Some buf" by (auto simp: fresh_def split: option.splits)
  then have "buf \<noteq> []" using fresh by (auto simp: fresh_def word_less_nat_alt)
  then have "take 1 buf = [buf ! 0]" by (cases buf) auto
  then show ?thesis using fresh buf
    by (simp add: fresh_def scan_inv_def buf_pages_def ordered_def region_pages_def pages_between_def)
qed

lemma fresh_clear:
  "buf \<noteq> [] \<Longrightarrow> length (clear_first buf) = length buf \<and> pr_start (clear_first buf ! 0) = 0 \<and> pr_end (clear_first buf ! 0) = 0"
  by (simp add: clear_first_def)

lemma full_nonempty:
  assumes "scan_inv p" and "buffer_full p" and "sp_found p \<noteq> sa_max_pages (sp_arg p)"
  shows "buf_pages p \<noteq> []"
proof -
  obtain buf where buf: "sp_buf p = Some buf" using assms(2) by (auto simp: buffer_full_def split: option.splits)
  let ?i = "unat (sp_index p)" let ?cur = "cur_buf p buf"
  have "?i < length buf" using assms(1) buf by (auto simp: scan_inv_def word_less_nat_alt)
  then have take: "take (?i + 1) buf = take ?i buf @ [?cur]" by (simp add: take_Suc_conv_app_nth)
  have "sp_found p < sa_max_pages (sp_arg p)" using assms(1,3) buf by (auto simp: scan_inv_def)
  then have "ordered (pr_start ?cur) (pr_end ?cur)" "pr_start ?cur < pr_end ?cur"
    using assms(1,2) buf take by (auto simp: scan_inv_def buffer_full_def)
  then have "region_pages ?cur \<noteq> []"
    by (auto simp: region_pages_def pages_between_def word_less_nat_alt elim!: orderedE)
  then show ?thesis using buf take by (simp add: buf_pages_def)
qed

lemma flush_pages:
  assumes inv: "scan_inv p" "sp_buf p = Some buf" "sp_buf_len p \<le> sa_vec_len (sp_arg p)"
    and flush: "pagemap_scan_flush_buffer False p = (k, q)"
  shows "0 \<le> k" and "concat (map region_pages (sp_user q)) = concat (map region_pages (sp_user p)) @ buf_pages p"
    and "length (sp_user q) = length (sp_user p) + nat k"
    and "unat (sa_vec_len (sp_arg q)) + nat k = unat (sa_vec_len (sp_arg p))"
    and "sp_arg q = sp_arg p\<lparr>sa_vec_len := sa_vec_len (sp_arg q)\<rparr>"
    and "sp_found q = sp_found p" "sp_masks q = sp_masks p"
    and "k \<noteq> 0 \<Longrightarrow> sa_vec_len (sp_arg q) \<noteq> 0 \<Longrightarrow> fresh q" and "k = 0 \<Longrightarrow> q = p"
    and "nat k \<le> unat (sp_buf_len p)" and "unat (sp_buf_len q) \<le> unat (sp_buf_len p)"
proof -
  define n where "n = (if pr_end (cur_buf p buf) \<noteq> pr_start (cur_buf p buf) then unat (sp_index p) + 1 else unat (sp_index p))"
  let ?len = "sa_vec_len (sp_arg p)"
  have cursor: "unat (sp_index p) < unat (sp_buf_len p)" "unat (sp_buf_len p) \<le> length buf"
      "unat (sp_buf_len p) \<le> unat ?len"
    using inv by (auto simp: scan_inv_def word_less_nat_alt word_le_nat_alt)
  then have n: "n \<le> length buf" "n \<le> unat ?len" by (auto simp: n_def)
  have "take (unat (sp_index p) + 1) buf = take (unat (sp_index p)) buf @ [cur_buf p buf]"
    using cursor by (simp add: take_Suc_conv_app_nth)
  moreover have "region_pages (cur_buf p buf) = []" if "n = unat (sp_index p)"
    using that by (auto simp: n_def region_pages_def pages_between_def split: if_splits)
  ultimately have pages: "concat (map region_pages (take n buf)) = buf_pages p"
    using inv(2) by (auto simp: buf_pages_def n_def)
  have "unat (of_nat n :: u64) = n" using n(2) unat_u64 [of ?len] by (intro unat_of_nat_small) linarith
  then have len: "unat (?len - of_nat n) = unat ?len - n"
    using n(2) by (subst unat_sub) (simp_all add: word_le_nat_alt)
  define q' where "q' = p\<lparr>sp_user := sp_user p @ take n buf, sp_arg := sp_arg p\<lparr>sa_vec_len := ?len - of_nat n\<rparr>,
    sp_out := sp_out p + of_nat (24 * n), sp_index := 0, sp_buf_len := min (sp_buf_len p) (?len - of_nat n),
    sp_buf := Some (clear_first buf)\<rparr>"
  have "pagemap_scan_flush_buffer False p = (if n = 0 then (0, p) else (int n, q'))"
    unfolding pagemap_scan_flush_buffer_def inv(2) option.case Let_def if_False n_def [symmetric] q'_def
    by simp
  then have kq: "k = int n" "q = (if n = 0 then p else q')" using flush by (auto split: if_splits)
  have nil: "buf_pages p = []" if "n = 0" using pages that by simp
  show "0 \<le> k" and "concat (map region_pages (sp_user q)) = concat (map region_pages (sp_user p)) @ buf_pages p"
    and "length (sp_user q) = length (sp_user p) + nat k"
    and "unat (sa_vec_len (sp_arg q)) + nat k = unat ?len"
    and "sp_arg q = sp_arg p\<lparr>sa_vec_len := sa_vec_len (sp_arg q)\<rparr>"
    and "sp_found q = sp_found p" "sp_masks q = sp_masks p" and "k = 0 \<Longrightarrow> q = p"
    using kq n len pages nil by (simp_all add: q'_def)
  show "nat k \<le> unat (sp_buf_len p)" using kq cursor(1) by (simp add: n_def)
  show "unat (sp_buf_len q) \<le> unat (sp_buf_len p)" using kq by (simp add: q'_def word_le_nat_alt [symmetric])
  show "fresh q" if "k \<noteq> 0" "sa_vec_len (sp_arg q) \<noteq> 0"
  proof -
    have "0 < sp_buf_len p" using cursor by (simp add: word_less_nat_alt)
    moreover have "buf \<noteq> []" using cursor by auto
    moreover have "0 < unat (?len - of_nat n)"
      unfolding unat_gt_0 using that kq by (auto simp: q'_def)
    ultimately show ?thesis
      using that kq inv cursor fresh_clear [of buf]
      by (auto simp: fresh_def q'_def scan_inv_def min_def word_le_nat_alt word_less_nat_alt word_neq_0_conv)
  qed
qed

section \<open>Examples\<close>

text \<open>A soft-dirty area, and a request for its written pages with room for two regions.\<close>

definition scan_env :: scanenv where
  "scan_env = pmenv.extend (plain_env\<lparr>vma_softdirty := True\<rparr>)
     \<lparr>is_zero_pfn = \<lambda>_. False, pte_swp_uffd_wp_any = \<lambda>_. False, vm_normal_page_pmd = \<lambda>_ _. None,
      is_huge_zero_pmd = \<lambda>_. False, huge_pte_uffd_wp = \<lambda>_. False, pte_page = id, uffd_wp_async = False,
      uffd_wp_use_markers = False, vma_pfnmap = False, uffd_wp_range = \<lambda>_ _. 0\<rparr>"

definition written_request :: scan_private where
  "written_request = \<lparr>sp_arg = \<lparr>sa_size = 96, sa_flags = 0, sa_start = 0x1000, sa_end = 0x3000, sa_walk_end = 0,
       sa_vec = 0x9000, sa_vec_len = 2, sa_max_pages = 8, sa_inverted = 0, sa_mask = PAGE_IS_WRITTEN, sa_anyof = 0,
       sa_return = PAGE_IS_WRITTEN\<rparr>,
     sp_masks = PAGE_IS_WRITTEN, sp_vma_category = 0,
     sp_buf = Some (replicate 2 \<lparr>pr_start = 0, pr_end = 0, pr_cat = 0\<rparr>), sp_buf_len = 2, sp_index = 0,
     sp_found = 0, sp_out = 0x9000, sp_user = [], sp_wp = [], sp_flush = []\<rparr>"

text \<open>Of the two pages only the second is written: the first one's entry is write-protected.\<close>

definition second_written :: "u64 \<Rightarrow> u64" where
  "second_written a = (if a = 0x2000 then 0x8000000000346067 else 0x8000000000345467)"

theorem scan_pmd_exact_witness:
  "\<exists>ret p'. pagemap_scan_pmd_entry scan_env (\<lambda>pte. second_written (0x1000 + 0x200 * (pte - 0x7000))) None (Some 0x7000)
      0x1000 0x3000 written_request = (ret, p') \<and>
    (\<exists>m \<le> 2. buf_pages p' = picked (sel_pick (pmd_sel scan_env written_request) second_written written_request) 0x1000 m \<and>
      sp_found p' \<le> 8 \<and> (if ret = 0 then m = 2 else ret = - ENOSPC \<and> m < 2))"
proof -
  let ?get = "\<lambda>pte. second_written (0x1000 + 0x200 * (pte - 0x7000))"
  obtain ret p' where run: "pagemap_scan_pmd_entry scan_env ?get None (Some 0x7000) 0x1000 0x3000 written_request = (ret, p')"
    by fastforce
  have inv: "scan_inv written_request" "buf_pages written_request = []"
    by (simp_all add: scan_inv_def buf_pages_def written_request_def ordered_def numeral_2_eq_2 region_pages_def
        pages_between_def)
  have fields: "sp_buf written_request \<noteq> None" "sa_flags (sp_arg written_request) = 0"
      "sa_max_pages (sp_arg written_request) = 8"
    by (simp_all add: written_request_def)
  have at: "page_at 0x1000 2 = 0x3000" by (simp add: page_at_def)
  have entries: "\<forall>i < 2. ?get (0x7000 + of_nat (8 * i)) = second_written (page_at 0x1000 i)"
    by (simp add: page_at_def)
  show ?thesis
    using scan_pmd_exact [of written_request "0x1000" 2 ?get "0x7000" second_written scan_env ret p', unfolded at,
        OF inv(1) fields(1) _ _ entries run] run fields inv(2)
    by auto
qed

text \<open>Two empty entries: the shortcut goes over both, the general loop reports nothing.\<close>

theorem written_shortcut_differs_witness:
  "\<exists>m \<le> 2. (let (ret, stop, start, fl, q) = written_loop scan_env (\<lambda>_. 0) 2 0x7000 0x1000 0x1000 0 0 written_request in
      stop = page_at 0x1000 m \<and> buf_pages q = picked (\<lambda>_. Some PAGE_IS_WRITTEN) 0x1000 m) \<and>
    (let (ret, stop, start, fl, q) = scan_loop scan_env (\<lambda>_. 0) 2 0x7000 0x1000 0x1000 0 0 written_request in
      buf_pages q = [])"
proof -
  let ?w = "written_loop scan_env (\<lambda>_. 0) 2 0x7000 0x1000 0x1000 0 0 written_request"
  let ?g = "scan_loop scan_env (\<lambda>_. 0) 2 0x7000 0x1000 0x1000 0 0 written_request"
  obtain ret stop start fl q where w: "?w = (ret, stop, start, fl, q)" by (metis prod_cases5)
  obtain ret' stop' start' fl' q' where g: "?g = (ret', stop', start', fl', q')" by (metis prod_cases5)
  have empty: "pte_none 0" "\<not> pte_present 0" "unmarked scan_env 0"
    by (simp_all add: pte_none_def pte_present_def pte_flags_def unmarked_def scan_env_def pmenv.defs)
  have start: "written_only written_request" "scan_inv written_request" "buf_pages written_request = []" "sp_buf written_request \<noteq> None"
    by (simp_all add: written_only_def scan_inv_def buf_pages_def written_request_def ordered_def numeral_2_eq_2 region_pages_def
        pages_between_def)
  have none: "picked (\<lambda>_. None) a m = []" for a m by (simp add: picked_def List.map_filter_def)
  show ?thesis
    using written_shortcut_differs [OF start(1,2,4) _ _ _ w g, of "\<lambda>_. 0"] by (simp add: empty start(3) none w g Let_def) blast
qed

end
