(* ===== verification/Scan_Command.thy ===== *)
theory Scan_Command
  imports Pagemap_Scan
begin

text \<open>
  The \<open>PAGEMAP_SCAN\<close> command as a whole: its rounds of walking and flushing over a generic walker, whose
  contract is the locale \<open>scan_walker\<close>; the locale is interpreted on the walk over a table of entries
  with \<open>pagemap_scan_pmd_entry\<close>. The abstract specification is the list of the pages that match.
\<close>

unbundle bit_operations_syntax

definition static_request :: "scan_private \<Rightarrow> u64 list" where
  "static_request p = [sp_masks p, sa_mask (sp_arg p), sa_inverted (sp_arg p), sa_anyof (sp_arg p), sa_return (sp_arg p)]"

definition page_range :: "u64 \<Rightarrow> nat \<Rightarrow> bool" where
  "page_range s n \<longleftrightarrow> 4096 dvd unat s \<and> unat s + 4096 * n < 2 ^ 63"

lemma page_range_room: "page_range s n \<Longrightarrow> unat s + 4096 * n < 2 ^ 64"
  by (simp add: page_range_def)

lemma page_range_later: "page_range s n \<Longrightarrow> m \<le> n \<Longrightarrow> page_range (page_at s m) (n - m)"
  using page_at_pages(1) [of s m] by (auto simp: page_range_def)

lemma page_rangeE:
  assumes "page_range s n"
  obtains k where "s = pg k" "k + n < 2 ^ 51" "\<And>i. page_at s i = pg (k + i)"
proof -
  obtain k where k: "unat s = 4096 * k" using assms by (auto simp: page_range_def)
  then have "unat s = unat (pg k)"
    using assms unat_pg [of k] by (simp add: page_range_def)
  then have s: "s = pg k" by (simp add: word_unat_eq_iff)
  have "page_at s i = pg (k + i)" for i
    by (simp add: s page_at_def pg_def algebra_simps)
  then show thesis using that [of k] s k assms by (auto simp: page_range_def)
qed

text \<open>
  Where the last round of a command starts, when every copy succeeds and no limit stops it: a round
  whose walk does not complete is followed by one from the \<open>walk_end\<close> it recorded. \<open>None\<close> when no
  round among the first \<open>n\<close> completes.
\<close>

fun last_round :: "scan_walker \<Rightarrow> nat \<Rightarrow> u64 \<Rightarrow> scan_private \<Rightarrow> u64 option" where
  "last_round walk 0 s p = None"
| "last_round walk (Suc n) s p =
    (let (r, q) = walk s (sa_end (sp_arg p)) p; t = snd (pagemap_scan_flush_buffer False q) in
     if r = 0 then Some s else last_round walk n (sa_walk_end (sp_arg t)) t)"

lemma last_round_more: "last_round walk n s p = Some w \<Longrightarrow> n \<le> n' \<Longrightarrow> last_round walk n' s p = Some w"
proof (induction n arbitrary: n' s p)
  case (Suc n)
  obtain k where k: "n' = Suc k" "n \<le> k" using Suc.prems(2) by (cases n') auto
  show ?case
    using Suc.prems(1) Suc.IH [OF _ k(2)] by (auto simp: k(1) Let_def split: prod.splits if_splits)
qed simp

text \<open>
  A walk over \<open>n\<close> pages of an area reports the pages picked for the request; it may set the area's own
  category on the way.
\<close>

locale scan_walker =
  fixes walk :: scan_walker and pick :: "scan_private \<Rightarrow> u64 \<Rightarrow> u64 option"
  assumes walk_scanned:
    "scan_inv p \<Longrightarrow> sp_buf p \<noteq> None \<Longrightarrow> sa_flags (sp_arg p) = 0 \<Longrightarrow>
     page_range s n \<Longrightarrow> 0 < n \<Longrightarrow> walk s (page_at s n) p = (ret, p') \<Longrightarrow>
     \<exists>stop c. scanned (pick p) n s (p\<lparr>sp_vma_category := c\<rparr>) ret stop p'"
    and pick_static: "static_request q = static_request p \<Longrightarrow> pick q = pick p"
begin

lemma round:
  assumes "fresh p" and "sa_flags (sp_arg p) = 0"
    and "page_range s n" and "0 < n" and "walk s (page_at s n) p = (ret, q)"
  obtains m where "m \<le> n" "scan_inv q" "sp_buf q \<noteq> None" "sp_buf_len q \<le> sa_vec_len (sp_arg q)"
    "sp_arg q = (if ret = 0 then sp_arg p else sp_arg p\<lparr>sa_walk_end := page_at s m\<rparr>)"
    "sp_masks q = sp_masks p" "sp_user q = sp_user p" "buf_pages q = picked (pick p) s m"
    "unat (sp_found q) = unat (sp_found p) + length (picked (pick p) s m)"
    "sp_found q \<le> sa_max_pages (sp_arg p)"
    "if ret = 0 then m = n else ret = - ENOSPC \<and> m < n"
    "ret \<noteq> 0 \<and> sp_found q \<noteq> sa_max_pages (sp_arg p) \<longrightarrow> picked (pick p) s m \<noteq> []" "sp_buf_len q = sp_buf_len p"
proof -
  have p: "scan_inv p" "sp_buf p \<noteq> None" "buf_pages p = []" using fresh_inv [OF assms(1)] by auto
  obtain stop c where sc: "scanned (pick p) n s (p\<lparr>sp_vma_category := c\<rparr>) ret stop q"
    using walk_scanned [OF p(1,2) assms(2-5)] by blast
  have "buf_pages (p\<lparr>sp_vma_category := c\<rparr>) = []"
    using p by (auto simp: buf_pages_def split: option.splits)
  with sc obtain m where m: "m \<le> n" "stop = page_at s m" "buf_pages q = picked (pick p) s m"
      "unat (sp_found q) = unat (sp_found p) + length (picked (pick p) s m)"
      "if ret = 0 then m = n else m < n"
    by (auto simp: scanned_def)
  have q: "scan_inv q" "sp_buf q \<noteq> None" "sp_masks q = sp_masks p" "sp_user q = sp_user p" "sp_buf_len q = sp_buf_len p"
      "sp_arg q = (if ret = 0 then sp_arg p else sp_arg p\<lparr>sa_walk_end := page_at s m\<rparr>)"
    and stops: "ret = 0 \<or> ret = - ENOSPC \<and> (sp_found q = sa_max_pages (sp_arg p) \<or> buffer_full q)"
    using sc m(2) by (simp_all add: scanned_def)
  have max: "sa_max_pages (sp_arg q) = sa_max_pages (sp_arg p)" "sa_vec_len (sp_arg q) = sa_vec_len (sp_arg p)"
    using q(6) by simp_all
  have "sp_buf_len p \<le> sa_vec_len (sp_arg p)" using assms(1) by (auto simp: fresh_def split: option.splits)
  moreover have "sp_found q \<le> sa_max_pages (sp_arg p)"
    using q(1,2) max by (auto simp: scan_inv_def)
  moreover have "picked (pick p) s m \<noteq> []" if "ret \<noteq> 0" "sp_found q \<noteq> sa_max_pages (sp_arg p)"
    using that stops full_nonempty [OF q(1)] max m(3) by auto
  ultimately show ?thesis using that [of m] m q stops max by auto
qed

text \<open>
  What a run of the rounds from \<open>p\<close> at \<open>s\<close> leaves, when it gets to the \<open>m\<close>-th of \<open>n\<close> pages: the pages in
  the regions the caller got, their number, the room left in the vector and the reason to stop.
\<close>

definition rounds_post :: "scan_private \<Rightarrow> u64 \<Rightarrow> nat \<Rightarrow> u64 \<Rightarrow> nat \<Rightarrow> int \<Rightarrow> u64 \<Rightarrow> scan_private \<Rightarrow> bool" where
  "rounds_post p s n nout m ret' nout' p' \<longleftrightarrow>
    m \<le> n \<and> concat (map region_pages (sp_user p')) = concat (map region_pages (sp_user p)) @ picked (pick p) s m \<and>
    unat (sp_found p') = unat (sp_found p) + length (picked (pick p) s m) \<and>
    sp_found p' \<le> sa_max_pages (sp_arg p) \<and>
    unat (sa_vec_len (sp_arg p')) + length (sp_user p') = unat (sa_vec_len (sp_arg p)) + length (sp_user p) \<and>
    nout' + of_nat (length (sp_user p)) = nout + of_nat (length (sp_user p')) \<and>
    sa_end (sp_arg p') = sa_end (sp_arg p) \<and>
    (if ret' = 0 then m = n
     else ret' = - ENOSPC \<and> m < n \<and> sa_walk_end (sp_arg p') = page_at s m \<and>
       (sp_found p' = sa_max_pages (sp_arg p) \<or> sa_vec_len (sp_arg p') = 0)) \<and>
    length (sp_user p') \<le> length (sp_user p) + n * unat (sp_buf_len p) \<and>
    (ret' = 0 \<and> n \<noteq> 0 \<longrightarrow>
      (\<exists>i < n. last_round walk n s p = Some (page_at s i) \<and> (i = 0 \<longleftrightarrow> fst (walk s (page_at s n) p) = 0) \<and>
        sa_walk_end (sp_arg p') = (if i = 0 then sa_walk_end (sp_arg p) else page_at s i))) \<and>
    (n = 0 \<longrightarrow> sa_walk_end (sp_arg p') = sa_walk_end (sp_arg p))"

lemma rounds_post_append:
  assumes "rounds_post t (page_at s m) (n - m) nout' m' ret' nout'' p'"
    and "concat (map region_pages (sp_user t)) = concat (map region_pages (sp_user p)) @ picked (pick p) s m"
    and "unat (sp_found t) = unat (sp_found p) + length (picked (pick p) s m)"
    and "unat (sa_vec_len (sp_arg t)) + length (sp_user t) = unat (sa_vec_len (sp_arg p)) + length (sp_user p)"
    and "nout' + of_nat (length (sp_user p)) = nout + of_nat (length (sp_user t))"
    and "sa_end (sp_arg t) = sa_end (sp_arg p)" "sa_max_pages (sp_arg t) = sa_max_pages (sp_arg p)"
    and "pick t = pick p" and m: "m \<le> n" "0 < m" "m < n"
    and first: "fst (walk s (page_at s n) p) \<noteq> 0" and "sa_walk_end (sp_arg t) = page_at s m"
    and chain: "\<And>f. last_round walk (Suc f) s p = last_round walk f (page_at s m) t"
    and user: "length (sp_user t) \<le> length (sp_user p) + unat (sp_buf_len p)" "unat (sp_buf_len t) \<le> unat (sp_buf_len p)"
  shows "rounds_post p s n nout (m + m') ret' nout'' p'"
proof -
  have "picked (pick p) s (m + m') = picked (pick p) s m @ picked (pick p) (page_at s m) m'"
    by (rule picked_add)
  moreover have "nout'' + of_nat (length (sp_user p)) = nout + of_nat (length (sp_user p'))"
  proof -
    have "nout'' + of_nat (length (sp_user t)) = nout' + of_nat (length (sp_user p'))"
      using assms(1) by (simp add: rounds_post_def)
    then have "nout'' + of_nat (length (sp_user p)) + of_nat (length (sp_user t)) =
        nout' + of_nat (length (sp_user p)) + of_nat (length (sp_user p'))"
      by (simp add: add.commute add.left_commute)
    then show ?thesis unfolding assms(5) by (simp add: add.commute add.left_commute)
  qed
  moreover have "m + m' \<le> n" using assms(1) m by (auto simp: rounds_post_def)
  moreover have "\<exists>i < n. last_round walk n s p = Some (page_at s i) \<and> (i = 0 \<longleftrightarrow> fst (walk s (page_at s n) p) = 0) \<and>
      sa_walk_end (sp_arg p') = (if i = 0 then sa_walk_end (sp_arg p) else page_at s i)" if "ret' = 0"
  proof -
    obtain i where i: "i < n - m" "last_round walk (n - m) (page_at s m) t = Some (page_at s (m + i))"
        "sa_walk_end (sp_arg p') = (if i = 0 then sa_walk_end (sp_arg t) else page_at s (m + i))"
    proof -
      have "ret' = 0 \<and> n - m \<noteq> 0 \<longrightarrow> (\<exists>i < n - m. last_round walk (n - m) (page_at s m) t = Some (page_at s (m + i)) \<and>
          (i = 0 \<longleftrightarrow> fst (walk (page_at s m) (page_at s (m + (n - m))) t) = 0) \<and>
          sa_walk_end (sp_arg p') = (if i = 0 then sa_walk_end (sp_arg t) else page_at s (m + i)))"
        using assms(1) unfolding rounds_post_def page_at_add by (elim conjE)
      then show ?thesis using that m(3) \<open>ret' = 0\<close> by auto
    qed
    have "last_round walk (Suc (n - m)) s p = Some (page_at s (m + i))" using i(2) chain by simp
    then have "last_round walk n s p = Some (page_at s (m + i))" by (rule last_round_more) (use m in simp)
    then show ?thesis using i(1,3) m first assms(13) by (intro exI [of _ "m + i"]) auto
  qed
  moreover have "length (sp_user p') \<le> length (sp_user p) + n * unat (sp_buf_len p)"
  proof -
    have "length (sp_user p') \<le> length (sp_user t) + (n - m) * unat (sp_buf_len t)"
      using assms(1) by (simp add: rounds_post_def)
    also have "\<dots> \<le> length (sp_user p) + unat (sp_buf_len p) + (n - m) * unat (sp_buf_len p)"
      using user by (intro add_mono mult_le_mono) simp_all
    also have "\<dots> = length (sp_user p) + Suc (n - m) * unat (sp_buf_len p)" by simp
    also have "\<dots> \<le> length (sp_user p) + n * unat (sp_buf_len p)"
      using m by (intro add_mono mult_le_mono) simp_all
    finally show ?thesis .
  qed
  ultimately show ?thesis
    using assms(1-8) m first unfolding rounds_post_def assms(8) page_at_add by (auto split: if_splits)
qed

text \<open>One round with its flush.\<close>

lemma round_flushed:
  assumes "fresh p" and "sa_flags (sp_arg p) = 0"
    and "page_range s n" and "sa_end (sp_arg p) = page_at s n" and "0 < n"
    and io: "\<not> si_signal io k \<and> si_lock io k = 0 \<and> \<not> si_copy_fails io k"
  obtains r nout' t m where
    "scan_rounds io walk k s nout ret p =
        (if r = 0 \<or> sa_vec_len (sp_arg t) = 0 \<or> sp_found t = sa_max_pages (sp_arg t) then Some (r, nout', t)
         else scan_rounds io walk (k + 1) (page_at s m) nout' r t)"
    "m \<le> n" "r = fst (walk s (page_at s n) p)"
    "if r = 0 then m = n else r = - ENOSPC \<and> m < n"
    "concat (map region_pages (sp_user t)) = concat (map region_pages (sp_user p)) @ picked (pick p) s m"
    "unat (sp_found t) = unat (sp_found p) + length (picked (pick p) s m)"
    "sp_found t \<le> sa_max_pages (sp_arg t)"
    "unat (sa_vec_len (sp_arg t)) + length (sp_user t) = unat (sa_vec_len (sp_arg p)) + length (sp_user p)"
    "nout' + of_nat (length (sp_user p)) = nout + of_nat (length (sp_user t))"
    "sa_end (sp_arg t) = sa_end (sp_arg p)" "sa_max_pages (sp_arg t) = sa_max_pages (sp_arg p)"
    "sa_flags (sp_arg t) = sa_flags (sp_arg p)" "pick t = pick p"
    "sa_walk_end (sp_arg t) = (if r = 0 then sa_walk_end (sp_arg p) else page_at s m)"
    "r \<noteq> 0 \<and> sa_vec_len (sp_arg t) \<noteq> 0 \<and> sp_found t \<noteq> sa_max_pages (sp_arg t) \<longrightarrow> fresh t \<and> 0 < m"
    "\<forall>f. last_round walk (Suc f) s p = (if r = 0 then Some s else last_round walk f (page_at s m) t)"
    "length (sp_user t) \<le> length (sp_user p) + unat (sp_buf_len p)" "unat (sp_buf_len t) \<le> unat (sp_buf_len p)"
proof -
  have start: "s < sa_end (sp_arg p)"
    using page_range_room [OF assms(3)] assms(4,5) page_at_pages(1) [of s n] by (simp add: word_less_nat_alt)
  obtain r q where walked: "walk s (page_at s n) p = (r, q)" by fastforce
  obtain m where m: "m \<le> n" "scan_inv q" "sp_buf q \<noteq> None" "sp_buf_len q \<le> sa_vec_len (sp_arg q)"
      "sp_arg q = (if r = 0 then sp_arg p else sp_arg p\<lparr>sa_walk_end := page_at s m\<rparr>)"
      "sp_masks q = sp_masks p" "sp_user q = sp_user p" "buf_pages q = picked (pick p) s m"
      "unat (sp_found q) = unat (sp_found p) + length (picked (pick p) s m)"
      "sp_found q \<le> sa_max_pages (sp_arg p)"
      "if r = 0 then m = n else r = - ENOSPC \<and> m < n"
      "r \<noteq> 0 \<and> sp_found q \<noteq> sa_max_pages (sp_arg p) \<longrightarrow> picked (pick p) s m \<noteq> []" "sp_buf_len q = sp_buf_len p"
    by (rule round [OF assms(1-3,5) walked])
  obtain buf where buf: "sp_buf q = Some buf" using m(3) by auto
  obtain c t where flushed: "pagemap_scan_flush_buffer False q = (c, t)" by fastforce
  note fl = flush_pages [OF m(2) buf m(4) flushed]
  define nout' :: u64 where "nout' = nout + of_int c"
  have arg: "sa_end (sp_arg t) = sa_end (sp_arg p)" "sa_max_pages (sp_arg t) = sa_max_pages (sp_arg p)"
      "sa_flags (sp_arg t) = sa_flags (sp_arg p)" "sa_walk_end (sp_arg t) = sa_walk_end (sp_arg q)"
      "sa_vec_len (sp_arg q) = sa_vec_len (sp_arg p)" "static_request t = static_request p"
    using arg_cong [OF fl(5), of sa_end] arg_cong [OF fl(5), of sa_max_pages] arg_cong [OF fl(5), of sa_flags]
      arg_cong [OF fl(5), of sa_walk_end] arg_cong [OF fl(5), of sa_mask] arg_cong [OF fl(5), of sa_inverted]
      arg_cong [OF fl(5), of sa_anyof] arg_cong [OF fl(5), of sa_return] m(5,6) fl(7)
    by (simp_all add: static_request_def)
  have walk_end: "sa_walk_end (sp_arg t) = (if r = 0 then sa_walk_end (sp_arg p) else page_at s m)"
    using arg(4) m(5) by simp
  have sent: "nout' + of_nat (length (sp_user p)) = nout + of_nat (length (sp_user t))"
    by (simp only: nout'_def fl(3) m(7) of_nat_add of_nat_nat [OF fl(1)] add.assoc add.commute)
  have rounds: "scan_rounds io walk k s nout ret p =
      (if r = 0 \<or> sa_vec_len (sp_arg t) = 0 \<or> sp_found t = sa_max_pages (sp_arg t) then Some (r, nout', t)
       else scan_rounds io walk (k + 1) (page_at s m) nout' r t)"
  proof (cases "r = 0")
    case True
    then show ?thesis using start io walked flushed fl(1)
      by (subst scan_rounds.simps) (simp add: nout'_def assms(4))
  next
    case False
    then have "r = - ENOSPC" using m(11) by simp
    then show ?thesis using start io walked flushed fl(1) False walk_end
      by (subst scan_rounds.simps) (simp add: nout'_def assms(4))
  qed
  have again: "fresh t \<and> 0 < m"
    if "r \<noteq> 0" "sa_vec_len (sp_arg t) \<noteq> 0" "sp_found t \<noteq> sa_max_pages (sp_arg t)"
  proof -
    have some: "picked (pick p) s m \<noteq> []" using that m(12) arg(2) fl(6) by simp
    then have "0 < m" by (cases m) auto
    moreover have "c \<noteq> 0" using fl(9) fl(2) m(8) some by auto
    ultimately show ?thesis using fl(8) that by simp
  qed
  have now: "concat (map region_pages (sp_user t)) = concat (map region_pages (sp_user p)) @ picked (pick p) s m"
      "unat (sp_found t) = unat (sp_found p) + length (picked (pick p) s m)" "sp_found t \<le> sa_max_pages (sp_arg t)"
      "unat (sa_vec_len (sp_arg t)) + length (sp_user t) = unat (sa_vec_len (sp_arg p)) + length (sp_user p)"
    using fl(2,3,4,6) m(7-10) arg(2,5) by simp_all
  have r: "r = fst (walk s (page_at s n) p)" by (simp only: walked fst_conv)
  have chain: "\<forall>f. last_round walk (Suc f) s p = (if r = 0 then Some s else last_round walk f (page_at s m) t)"
    using walk_end by (simp add: assms(4) walked flushed)
  have user: "length (sp_user t) \<le> length (sp_user p) + unat (sp_buf_len p)" "unat (sp_buf_len t) \<le> unat (sp_buf_len p)"
    using fl(3,10,11) m(7,13) by simp_all
  show ?thesis
    by (rule that [OF rounds m(1) r m(11) now sent arg(1-3) pick_static [OF arg(6)] walk_end _ chain user]) (use again in blast)
qed

lemma rounds_exact:
  assumes "fresh p" and "sa_flags (sp_arg p) = 0"
    and "page_range s n" and "sa_end (sp_arg p) = page_at s n" and "0 < n \<or> ret = 0"
    and io: "\<And>j. \<not> si_signal io j \<and> si_lock io j = 0 \<and> \<not> si_copy_fails io j"
  shows "\<exists>ret' nout' p' m. scan_rounds io walk k s nout ret p = Some (ret', nout', p') \<and> rounds_post p s n nout m ret' nout' p'"
  using assms(1-5)
proof (induction n arbitrary: p s k nout ret rule: less_induct)
  case (less n)
  show ?case
  proof (cases "n = 0")
    case True
    then have "scan_rounds io walk k s nout ret p = Some (ret, nout, p)"
      using less.prems by (subst scan_rounds.simps) simp
    moreover have "rounds_post p s n nout 0 ret nout p"
      using less.prems True by (simp add: fresh_def rounds_post_def split: option.splits)
    ultimately show ?thesis by blast
  next
    case False
    then have n: "0 < n" by simp
    show ?thesis
    proof (cases rule: round_flushed [OF less.prems(1-4) n io [of k], where nout = nout and ret = ret, case_names round])
      case (round r nout' t m)
      show ?thesis
      proof (cases "r = 0 \<or> sa_vec_len (sp_arg t) = 0 \<or> sp_found t = sa_max_pages (sp_arg t)")
        case True
        have "length (sp_user t) \<le> length (sp_user p) + 1 * unat (sp_buf_len p)" using round(17) by simp
        also have "\<dots> \<le> length (sp_user p) + n * unat (sp_buf_len p)" using n by (intro add_mono mult_le_mono) simp_all
        finally have ended: "length (sp_user t) \<le> length (sp_user p) + n * unat (sp_buf_len p)"
          "r = 0 \<longrightarrow> last_round walk n s p = Some (page_at s 0)"
          using round(16) [THEN spec, of "n - 1"] n by simp_all
        have "rounds_post p s n nout m r nout' t"
          using round(2-11,14) False ended True by (auto simp: rounds_post_def)
        then show ?thesis using round(1) True by auto
      next
        case again: False
        then have t: "fresh t" "0 < m" "m < n" using round(4,15) by auto
        have "page_range (page_at s m) (n - m)"
          using less.prems(3) t(3) by (simp add: page_range_later)
        moreover have "sa_end (sp_arg t) = page_at (page_at s m) (n - m)"
          using less.prems(4) round(10) t(3) by (simp add: page_at_add)
        ultimately obtain ret' nout'' p' m'
          where rest: "scan_rounds io walk (k + 1) (page_at s m) nout' r t = Some (ret', nout'', p')"
            "rounds_post t (page_at s m) (n - m) nout' m' ret' nout'' p'"
          using less.IH [of "n - m" t "page_at s m" r "k + 1" nout'] t less.prems(2) round(12) by auto
        have "rounds_post p s n nout (m + m') ret' nout'' p'"
          by (rule rounds_post_append [OF rest(2) round(5,6,8-11,13) round(2) t(2,3)])
            (use round(3,14,16-18) again in auto)
        then show ?thesis using round(1) again rest(1) by auto
      qed
    qed
  qed
qed

text \<open>
  The rounds end whatever fails on the way: a signal, the lock or a copy ends them at once, and a round
  that goes on has moved its start.
\<close>

lemma rounds_end:
  assumes "fresh p" and "sa_flags (sp_arg p) = 0"
    and "page_range s n" and "sa_end (sp_arg p) = page_at s n"
  shows "scan_rounds io walk k s nout ret p \<noteq> None"
  using assms
proof (induction n arbitrary: p s k nout ret rule: less_induct)
  case (less n)
  show ?case
  proof (cases "n = 0 \<or> si_signal io k \<or> si_lock io k \<noteq> 0")
    case True
    then show ?thesis using less.prems(4) by (subst scan_rounds.simps) auto
  next
    case False
    then have n: "0 < n" and io: "\<not> si_signal io k" "si_lock io k = 0" by simp_all
    show ?thesis
    proof (cases "si_copy_fails io k")
      case True
      have start: "s < sa_end (sp_arg p)"
        using page_range_room [OF less.prems(3)] less.prems(4) n page_at_pages(1) [of s n] by (simp add: word_less_nat_alt)
      obtain r q where walked: "walk s (page_at s n) p = (r, q)" by fastforce
      obtain c t where flushed: "pagemap_scan_flush_buffer True q = (c, t)" by fastforce
      show ?thesis
      proof (cases rule: round [OF less.prems(1-3) n walked, case_names round])
        case (round m)
        obtain buf where buf: "sp_buf q = Some buf" using round(3) by auto
        have "r \<noteq> 0 \<longrightarrow> sp_found q = sa_max_pages (sp_arg q)" if "c \<noteq> -14"
        proof -
          have same: "c = 0" "t = q" "pagemap_scan_flush_buffer False q = (0, q)"
            using flushed that by (auto simp: pagemap_scan_flush_buffer_def buf Let_def split: if_splits)
          then have "buf_pages q = []" using flush_pages(2) [OF round(2) buf round(4) same(3)] by simp
          then show ?thesis using round(5,8,12) by auto
        qed
        moreover have "c = -14 \<or> c = 0 \<and> t = q"
          using flushed by (auto simp: pagemap_scan_flush_buffer_def buf Let_def split: if_splits)
        ultimately consider "c = -14" | "c = 0" "r = 0 \<or> sp_found t = sa_max_pages (sp_arg t)" by auto
        then show ?thesis
        proof cases
          case 1
          then show ?thesis
            using start io True walked flushed by (subst scan_rounds.simps) (simp add: less.prems(4))
        next
          case 2
          then show ?thesis
            using start io True walked flushed by (subst scan_rounds.simps) (auto simp add: less.prems(4))
        qed
      qed
    next
      case copied: False
      then have fine: "\<not> si_signal io k \<and> si_lock io k = 0 \<and> \<not> si_copy_fails io k" using io by simp
      show ?thesis
      proof (cases rule: round_flushed [OF less.prems n fine, where nout = nout and ret = ret, case_names round])
        case (round r nout' t m)
        show ?thesis
        proof (cases "r = 0 \<or> sa_vec_len (sp_arg t) = 0 \<or> sp_found t = sa_max_pages (sp_arg t)")
          case True
          then show ?thesis using round(1) by simp
        next
          case again: False
          then have t: "fresh t" "0 < m" "m < n" using round(4,15) by auto
          have "page_range (page_at s m) (n - m)" using less.prems(3) t(3) by (simp add: page_range_later)
          moreover have "sa_end (sp_arg t) = page_at (page_at s m) (n - m)"
            using less.prems(4) round(10) t(3) by (simp add: page_at_add)
          ultimately show ?thesis
            using less.IH [of "n - m" t "page_at s m"] t less.prems(2) round(1,12) again by simp
        qed
      qed
    qed
  qed
qed

end

section \<open>A walk over an area\<close>

text \<open>
  The generic page walk over one area, from PMD to PMD: a PMD without a table (\<open>table\<close> by PMD number)
  is a hole, another one is handed to \<open>pagemap_scan_pmd_entry\<close> with the pointer to its first entry.
\<close>

definition area_step ::
  "scanenv \<Rightarrow> (u64 \<Rightarrow> u64) \<Rightarrow> (u64 \<Rightarrow> u64 option) \<Rightarrow> scan_walker" where
  "area_step env ptep_get table start end p =
    (case table (drop_bit 21 start) of
       None \<Rightarrow> pagemap_scan_pte_hole env True start end p
     | Some pte \<Rightarrow> pagemap_scan_pmd_entry env ptep_get None (Some (pte_pointer (\<lambda>_. pte) start)) start end p)"

function area_steps ::
  "scanenv \<Rightarrow> (u64 \<Rightarrow> u64) \<Rightarrow> (u64 \<Rightarrow> u64 option) \<Rightarrow> scan_walker" where
  "area_steps env ptep_get table start end p =
    (if start < end then
       let (ret, p) = area_step env ptep_get table start (chunk_end start end) p in
       if ret \<noteq> 0 then (ret, p) else area_steps env ptep_get table (chunk_end start end) end p
     else (0, p))"
  by auto
termination
proof (relation "measure (\<lambda>(_, _, _, start, end, _). unat end - unat start)")
  fix start "end" :: u64
  assume "start < end"
  then show "((env, ptep_get, table, chunk_end start end, end, q), env, ptep_get, table, start, end, p) \<in>
      measure (\<lambda>(_, _, _, start, end, _). unat end - unat start)" for env ptep_get table q p
    using chunk_end_bounds [of start "end"] by (auto simp: word_less_nat_alt word_le_nat_alt)
qed simp

declare area_steps.simps [simp del]

definition area_walk ::
  "scanenv \<Rightarrow> (u64 \<Rightarrow> u64) \<Rightarrow> (u64 \<Rightarrow> u64 option) \<Rightarrow> scan_walker" where
  "area_walk env ptep_get table start end p =
    (let (ret, p) = pagemap_scan_test_walk env p in
     if ret < 0 then (ret, p) else if ret = 1 then (0, p) else area_steps env ptep_get table start end p)"

text \<open>The specification of what it reports of a page: nothing, or the page's categories.\<close>

definition area_category :: "scanenv \<Rightarrow> u64" where
  "area_category env =
    or_if (vma_softdirty env) PAGE_IS_SOFT_DIRTY
      (or_if (uffd_wp_async env \<and> uffd_wp_use_markers env) PAGE_IS_WPALLOWED 0)"

definition step_pick ::
  "scanenv \<Rightarrow> (u64 \<Rightarrow> u64) \<Rightarrow> (u64 \<Rightarrow> u64 option) \<Rightarrow> scan_private \<Rightarrow> u64 \<Rightarrow> u64 option" where
  "step_pick env ptep_get table p a =
    (case table (drop_bit 21 a) of
       None \<Rightarrow> if is_interesting_page (sp_vma_category p) p
         then Some (sp_vma_category p AND sa_return (sp_arg p)) else None
     | Some pte \<Rightarrow> sel_pick (pmd_sel env p) (\<lambda>a. ptep_get (pte_pointer (\<lambda>_. pte) a)) p a)"

definition area_pick ::
  "scanenv \<Rightarrow> (u64 \<Rightarrow> u64) \<Rightarrow> (u64 \<Rightarrow> u64 option) \<Rightarrow> scan_private \<Rightarrow> u64 \<Rightarrow> u64 option" where
  "area_pick env ptep_get table p a =
    (if vma_pfnmap env \<or> \<not> is_interesting_vma (area_category env) p then None
     else step_pick env ptep_get table (p\<lparr>sp_vma_category := area_category env\<rparr>) a)"

lemma step_scanned:
  assumes "scan_inv p" "sp_buf p \<noteq> None" "sa_flags (sp_arg p) = 0"
    and n: "0 < n" "k mod 512 + n \<le> 512" "k + n < 2 ^ 51"
    and "area_step env ptep_get table (pg k) (pg (k + n)) p = (ret, p')"
  shows "\<exists>stop. scanned (step_pick env ptep_get table p) n (pg k) p ret stop p'"
proof -
  have at: "page_at (pg k) i = pg (k + i)" for i by (simp add: page_at_def pg_def algebra_simps)
  have room: "unat (pg k) + 4096 * n < 2 ^ 64" using n unat_pg [of k] by simp
  obtain d r where dr: "k = 512 * d + r" "r < 512" by (metis mult_div_mod_eq mod_less_divisor zero_less_numeral)
  have same: "drop_bit 21 (pg (k + i)) = drop_bit 21 (pg k)" if "i < n" for i
  proof -
    have "(k + i) div 512 = k div 512" using that n dr by simp
    then show ?thesis using that n by (simp add: drop_bit_pg(2))
  qed
  show ?thesis
  proof (cases "table (drop_bit 21 (pg k))")
    case None
    then obtain stop where "scanned (\<lambda>_. if is_interesting_page (sp_vma_category p) p
        then Some (sp_vma_category p AND sa_return (sp_arg p)) else None) n (pg k) p ret stop p'"
      using hole_scanned [OF assms(1,2) room n(1) assms(3), of env ret p'] assms(7) by (auto simp: area_step_def at)
    moreover have "step_pick env ptep_get table p (page_at (pg k) i) =
        (if is_interesting_page (sp_vma_category p) p then Some (sp_vma_category p AND sa_return (sp_arg p)) else None)"
      if "i < n" for i using None same [OF that] by (simp add: step_pick_def at)
    ultimately show ?thesis
      using scanned_cong [of n "step_pick env ptep_get table p" "pg k"
          "\<lambda>_. if is_interesting_page (sp_vma_category p) p then Some (sp_vma_category p AND sa_return (sp_arg p)) else None"]
      by auto
  next
    case (Some pte)
    let ?ent = "\<lambda>a. ptep_get (pte_pointer (\<lambda>_. pte) a)"
    have "ptep_get (pte_pointer (\<lambda>_. pte) (pg k) + of_nat (8 * i)) = ?ent (page_at (pg k) i)" if "i < n" for i
      using that n pte_pointer_step [of k i "\<lambda>_. pte"] by (simp add: at)
    then obtain stop where "scanned (sel_pick (pmd_sel env p) ?ent p) n (pg k) p ret stop p'"
      using pmd_entry_scanned [OF assms(1,2) room, of ptep_get "pte_pointer (\<lambda>_. pte) (pg k)" ?ent env ret p']
        assms(3,7) Some by (auto simp: area_step_def at)
    moreover have "step_pick env ptep_get table p (page_at (pg k) i) = sel_pick (pmd_sel env p) ?ent p (page_at (pg k) i)"
      if "i < n" for i using Some same [OF that] by (simp add: step_pick_def at)
    ultimately show ?thesis
      using scanned_cong [of n "step_pick env ptep_get table p" "pg k" "sel_pick (pmd_sel env p) ?ent p"] by auto
  qed
qed

lemma step_pick_request:
  assumes "request q = request p"
  shows "step_pick env ptep_get table q = step_pick env ptep_get table p"
proof -
  have eqs: "sp_vma_category q = sp_vma_category p" "sa_mask (sp_arg q) = sa_mask (sp_arg p)"
    "sa_inverted (sp_arg q) = sa_inverted (sp_arg p)" "sa_anyof (sp_arg q) = sa_anyof (sp_arg p)"
    "sa_return (sp_arg q) = sa_return (sp_arg p)"
    using assms by (simp_all add: request_def)
  have sel: "pmd_sel env q = pmd_sel env p" unfolding pmd_sel_def eqs by (rule refl)
  have on: "pmd_sel env p q = pmd_sel env p p" by (rule stable_selD [OF stable_pmd_sel assms])
  show ?thesis
    by (intro ext) (unfold step_pick_def sel_pick_def is_interesting_page_def Let_def eqs sel on, rule refl)
qed

lemma area_pick_static:
  assumes "static_request q = static_request p"
  shows "area_pick env ptep_get table q = area_pick env ptep_get table p"
proof -
  let ?c = "area_category env"
  have "request (q\<lparr>sp_vma_category := ?c\<rparr>) = request (p\<lparr>sp_vma_category := ?c\<rparr>)"
    using assms by (simp add: request_def static_request_def)
  note picks = step_pick_request [OF this, of env ptep_get table]
  have "is_interesting_vma ?c q = is_interesting_vma ?c p"
    using assms by (simp add: is_interesting_vma_def static_request_def Let_def)
  then show ?thesis unfolding fun_eq_iff area_pick_def picks by simp
qed

lemma steps_scanned:
  assumes "scan_inv p" "sp_buf p \<noteq> None" "sa_flags (sp_arg p) = 0" "k + n < 2 ^ 51"
    and "area_steps env ptep_get table (pg k) (pg (k + n)) p = (ret, p')"
  shows "\<exists>stop. scanned (step_pick env ptep_get table p) n (pg k) p ret stop p'"
  using assms
proof (induction n arbitrary: k p rule: less_induct)
  case (less n)
  let ?pick = "step_pick env ptep_get table p"
  show ?case
  proof (cases "n = 0")
    case True
    then have "ret = 0" "p' = p" using less.prems(5) by (simp_all add: area_steps.simps)
    then show ?thesis using True scanned_start [OF less.prems(1,2)] by auto
  next
    case False
    define m where "m = min n (512 - k mod 512)"
    have "k mod 512 < 512" by simp
    then have m: "0 < m" "m \<le> n" "k mod 512 + m \<le> 512" using False by (auto simp: m_def)
    have less_end: "pg k < pg (k + n)" using False less.prems(4) by (simp add: pg_less)
    have "k + (512 - k mod 512) = 512 * (k div 512 + 1)"
    proof -
      obtain d r where "k = 512 * d + r" "r < 512" by (metis mult_div_mod_eq mod_less_divisor zero_less_numeral)
      then show ?thesis by simp
    qed
    then have "min (k + n) (512 * (k div 512 + 1)) = k + m" by (auto simp: m_def min_def)
    then have chunk: "chunk_end (pg k) (pg (k + n)) = pg (k + m)"
      using tw.chunk_end_pg [of k "k + n"] False less.prems(4) by simp
    obtain r q where one: "area_step env ptep_get table (pg k) (pg (k + m)) p = (r, q)" by fastforce
    obtain stop where sc: "scanned ?pick m (pg k) p r stop q"
      using step_scanned [OF less.prems(1-3) m(1,3) _ one] m(2) less.prems(4) by auto
    show ?thesis
    proof (cases "r = 0")
      case False
      then have "ret = r" "p' = q"
        using less.prems(5) less_end one by (simp_all add: area_steps.simps [of _ _ _ "pg k"] chunk)
      then show ?thesis using scanned_stop [OF sc False m(2)] by auto
    next
      case True
      then have "area_steps env ptep_get table (pg (k + m)) (pg (k + m + (n - m))) q = (ret, p')"
        using less.prems(5) less_end one m(2) by (simp add: area_steps.simps [of _ _ _ "pg k"] chunk)
      moreover have "scan_inv q" "sp_buf q \<noteq> None" "sp_arg q = sp_arg p" "request q = request p"
          "stop = page_at (pg k) m"
        using sc True by (auto simp: scanned_def request_def)
      ultimately obtain stop' where "scanned (step_pick env ptep_get table q) (n - m) (pg (k + m)) q ret stop' p'"
        using less.IH [of "n - m" q "k + m"] m less.prems(3,4) by auto
      then have "scanned ?pick (n - m) (page_at (pg k) m) q ret stop' p'"
        using step_pick_request [OF \<open>request q = request p\<close>] by (simp add: page_at_def pg_def algebra_simps)
      then show ?thesis
        using scanned_append [of ?pick m "pg k" p q "n - m" ret stop' p'] sc True \<open>stop = page_at (pg k) m\<close> m(2) by auto
    qed
  qed
qed

interpretation aw: scan_walker "area_walk env ptep_get table" "area_pick env ptep_get table"
  for env ptep_get table
proof unfold_locales
  show "area_pick env ptep_get table q = area_pick env ptep_get table p"
    if "static_request q = static_request p" for p q using that by (rule area_pick_static)
next
  fix p p' s n ret
  assume p: "scan_inv p" "sp_buf p \<noteq> None" "sa_flags (sp_arg p) = 0" "page_range s n" "0 < n"
    and walk: "area_walk env ptep_get table s (page_at s n) p = (ret, p')"
  let ?c = "area_category env"
  let ?q = "p\<lparr>sp_vma_category := ?c\<rparr>"
  show "\<exists>stop c. scanned (area_pick env ptep_get table p) n s (p\<lparr>sp_vma_category := c\<rparr>) ret stop p'"
  proof (cases "vma_pfnmap env \<or> \<not> is_interesting_vma ?c p")
    case True
    then have "ret = 0" "p' = p\<lparr>sp_vma_category := sp_vma_category p\<rparr>"
      using walk p(3) by (auto simp: area_walk_def pagemap_scan_test_walk_def area_category_def Let_def split: if_splits)
    moreover have "scanned (area_pick env ptep_get table p) n s p 0 (page_at s n) p"
      using p True by (intro scanned_none) (auto simp: area_pick_def)
    ultimately show ?thesis by (intro exI [of _ "page_at s n"] exI [of _ "sp_vma_category p"]) simp
  next
    case False
    obtain k where k: "s = pg k" "k + n < 2 ^ 51" "page_at s n = pg (k + n)" using p(4) by (elim page_rangeE) simp
    have "pagemap_scan_test_walk env p = (0, ?q)"
      using False p(3) by (simp add: pagemap_scan_test_walk_def area_category_def Let_def)
    then have steps: "area_steps env ptep_get table (pg k) (pg (k + n)) ?q = (ret, p')"
      using walk k by (simp add: area_walk_def)
    have "scan_inv ?q" using p(1) by (cases "sp_buf p") (simp_all add: scan_inv_def)
    then obtain stop where "scanned (step_pick env ptep_get table ?q) n (pg k) ?q ret stop p'"
      using steps_scanned [OF _ _ _ k(2) steps] p(2,3) by auto
    moreover have "area_pick env ptep_get table p = step_pick env ptep_get table ?q"
      using False by (simp add: area_pick_def fun_eq_iff)
    ultimately show ?thesis using k(1) by auto
  qed
qed

section \<open>The command over an area\<close>

text \<open>The state a command starts with, as far as the request goes.\<close>

definition scan_begin :: "pm_scan_arg \<Rightarrow> scan_private" where
  "scan_begin arg = \<lparr>sp_arg = arg, sp_masks = sa_mask arg OR sa_anyof arg OR sa_return arg, sp_vma_category = 0,
     sp_buf = None, sp_buf_len = 0, sp_index = 0, sp_found = 0, sp_out = 0, sp_user = [], sp_wp = [], sp_flush = []\<rparr>"

text \<open>
  A call without flags over \<open>n\<close> pages with room for at least one region, whose memory and copies are
  granted and which no signal interrupts.
\<close>

definition plain_call :: "scan_io \<Rightarrow> pm_scan_arg \<Rightarrow> page_region list \<Rightarrow> nat \<Rightarrow> bool" where
  "plain_call io arg buf n \<longleftrightarrow>
    pagemap_scan_get_args io = Inr arg \<and> sa_flags arg = 0 \<and> sa_vec_len arg \<noteq> 0 \<and> unat (sa_vec_len arg) < 2 ^ 31 \<and>
    page_range (sa_start arg) n \<and> sa_end arg = page_at (sa_start arg) n \<and>
    si_alloc io (unat (min 512 (sa_vec_len arg))) = Some buf \<and> length buf = unat (min 512 (sa_vec_len arg)) \<and>
    (\<forall>j. \<not> si_signal io j \<and> si_lock io j = 0 \<and> \<not> si_copy_fails io j) \<and> \<not> si_writeback_fails io"

definition scan_first :: "pm_scan_arg \<Rightarrow> page_region list \<Rightarrow> scan_private" where
  "scan_first arg buf = (scan_begin arg)\<lparr>sp_buf_len := min 512 (sa_vec_len arg), sp_buf := Some (clear_first buf),
     sp_out := sa_vec arg\<rparr>"

lemma first_fresh:
  assumes "0 < min 512 (sa_vec_len arg)" "p = scan_first arg buf" "length buf = unat (min 512 (sa_vec_len arg))"
  shows "fresh p"
proof -
  have "buf \<noteq> []" using assms(1,3) by (auto simp: word_less_nat_alt)
  then show ?thesis using assms fresh_clear [of buf] by (simp add: fresh_def scan_first_def scan_begin_def)
qed

lemma plain_call_fresh:
  assumes "plain_call io arg buf n"
  shows "fresh (scan_first arg buf)" and "pagemap_scan_init_bounce_buffer io (scan_begin arg) = (0, scan_first arg buf)"
proof -
  have "0 < min 512 (sa_vec_len arg)" using assms by (auto simp: plain_call_def min_def word_neq_0_conv)
  then show "fresh (scan_first arg buf)"
    by (rule first_fresh [OF _ refl]) (use assms in \<open>simp add: plain_call_def\<close>)
  show "pagemap_scan_init_bounce_buffer io (scan_begin arg) = (0, scan_first arg buf)"
    using assms by (simp add: pagemap_scan_init_bounce_buffer_def scan_first_def scan_begin_def plain_call_def)
qed

lemma small_int:
  "n < 2 ^ 31 \<Longrightarrow> sint (ucast (of_nat n :: u64) :: 32 word) = int n"
  by (simp add: sint_uint unsigned_ucast_eq uint_nat unat_of_nat take_bit_nat_eq_self signed_take_bit_int_eq_self
      take_bit_int_eq_self)

lemma get_args_walk_end: "pagemap_scan_get_args io = Inr arg \<Longrightarrow> sa_walk_end arg = 0"
  by (auto simp: pagemap_scan_get_args_def Let_def split: option.splits if_splits)

lemma scan_call:
  fixes env ptep_get table
  assumes "plain_call io arg buf n"
  defines "pick \<equiv> area_pick env ptep_get table (scan_begin arg)"
    and "first \<equiv> fst (area_walk env ptep_get table (sa_start arg) (sa_end arg) (scan_first arg buf))"
  shows "\<exists>m p. do_pagemap_scan io (area_walk env ptep_get table) = Some (int (length (sp_user p)), Some p) \<and>
      m \<le> n \<and> concat (map region_pages (sp_user p)) = picked pick (sa_start arg) m \<and>
      length (picked pick (sa_start arg) m) \<le> unat (sa_max_pages arg) \<and>
      length (sp_user p) \<le> unat (sa_vec_len arg) \<and>
      (m < n \<longrightarrow> sa_walk_end (sp_arg p) = (if page_at (sa_start arg) m = 0 then sa_end arg else page_at (sa_start arg) m) \<and>
         (length (picked pick (sa_start arg) m) = unat (sa_max_pages arg) \<or> length (sp_user p) = unat (sa_vec_len arg))) \<and>
      length (sp_user p) \<le> n * 512 \<and>
      (m = n \<and> n \<noteq> 0 \<longrightarrow>
        (\<exists>i < n. last_round (area_walk env ptep_get table) n (sa_start arg) (scan_first arg buf) = Some (page_at (sa_start arg) i) \<and>
          (i = 0 \<longleftrightarrow> first = 0) \<and> sa_walk_end (sp_arg p) = (if i = 0 then sa_end arg else page_at (sa_start arg) i)))"
proof -
  let ?p = "scan_first arg buf" let ?s = "sa_start arg" let ?walk = "area_walk env ptep_get table"
  note call = assms(1) [unfolded plain_call_def]
  have p: "sp_arg ?p = arg" "sp_user ?p = []" "sp_found ?p = 0" by (simp_all add: scan_first_def scan_begin_def)
  have pick: "area_pick env ptep_get table ?p = pick"
    unfolding pick_def by (rule area_pick_static) (simp add: scan_first_def static_request_def)
  obtain ret nout p' m where rounds: "scan_rounds io ?walk 0 ?s 0 0 ?p = Some (ret, nout, p')"
      and post: "aw.rounds_post env ptep_get table ?p ?s n 0 m ret nout p'"
    using aw.rounds_exact [OF plain_call_fresh(1) [OF assms(1)], of ?s n 0 io env ptep_get table 0 0] call p by auto
  note post = post [unfolded aw.rounds_post_def pick p, simplified]
  have vec: "length (sp_user p') \<le> unat (sa_vec_len arg)" using post by linarith
  then have len: "length (sp_user p') < 2 ^ 31" using call by linarith
  have count: "sint (ucast nout :: 32 word) = int (length (sp_user p'))"
    using post small_int [OF len] by simp
  define q where "q = (if sa_walk_end (sp_arg p') = 0 then p'\<lparr>sp_arg := sp_arg p'\<lparr>sa_walk_end := sa_end (sp_arg p')\<rparr>\<rparr> else p')"
  have q: "sp_user q = sp_user p'" "sa_walk_end (sp_arg q) =
      (if sa_walk_end (sp_arg p') = 0 then sa_end arg else sa_walk_end (sp_arg p'))"
    using post by (simp_all add: q_def)
  have ret: "ret = 0 \<or> ret = - ENOSPC" "m \<le> n" "ret = 0 \<longleftrightarrow> m = n" using post by (auto split: if_splits)
  have "do_pagemap_scan io ?walk = Some (int (length (sp_user q)), Some q)"
    using call plain_call_fresh(2) [OF assms(1)] rounds ret(1) count
    by (auto simp: do_pagemap_scan_def scan_begin_def [symmetric] q_def)
  moreover have "\<exists>i < n. last_round ?walk n ?s ?p = Some (page_at ?s i) \<and> (i = 0 \<longleftrightarrow> first = 0) \<and>
      sa_walk_end (sp_arg q) = (if i = 0 then sa_end arg else page_at ?s i)" if complete: "m = n" "n \<noteq> 0"
  proof -
    obtain i where i: "i < n" "last_round ?walk n ?s ?p = Some (page_at ?s i)" "i = 0 \<longleftrightarrow> first = 0"
        "sa_walk_end (sp_arg p') = (if i = 0 then sa_walk_end arg else page_at ?s i)"
      using post ret(3) complete call by (auto simp: first_def)
    moreover have "page_at ?s i \<noteq> 0" if "0 < i"
    proof -
      have "page_range ?s n" using call by blast
      then have "unat (page_at ?s i) = unat ?s + 4096 * i"
        using i(1) by (intro page_at_pages) (auto dest: page_range_room)
      then show ?thesis using that by auto
    qed
    ultimately show ?thesis using q(2) get_args_walk_end [of io arg] call by auto
  qed
  moreover have "length (sp_user q) \<le> n * 512"
  proof -
    have "sp_buf_len ?p \<le> 512" by (simp add: scan_first_def)
    then have "unat (sp_buf_len ?p) \<le> 512" by (simp add: word_le_nat_alt)
    then have "n * unat (sp_buf_len ?p) \<le> n * 512" by (rule mult_le_mono2)
    moreover have "length (sp_user p') \<le> n * unat (sp_buf_len ?p)" using post by simp
    ultimately show ?thesis unfolding q(1) by (rule order.trans [rotated])
  qed
  moreover have "length (picked pick ?s m) \<le> unat (sa_max_pages arg)"
    using post by (auto simp: word_le_nat_alt)
  moreover have "sa_walk_end (sp_arg q) = (if page_at ?s m = 0 then sa_end arg else page_at ?s m) \<and>
      (length (picked pick ?s m) = unat (sa_max_pages arg) \<or> length (sp_user q) = unat (sa_vec_len arg))" if "m < n"
    using post that ret(3) q by auto
  ultimately show ?thesis
    using post ret(2) q(1) vec by (intro exI [of _ m] exI [of _ q]) auto
qed

text \<open>What the kernel's \<open>access_ok\<close> and allocation promise: user addresses, and as much memory as asked for.\<close>

definition io_law :: "scan_io \<Rightarrow> bool" where
  "io_law io \<longleftrightarrow> (\<forall>a l. si_access_ok io a l \<longrightarrow> unat a + unat l < 2 ^ 62) \<and>
    (\<forall>n buf. si_alloc io n = Some buf \<longrightarrow> length buf = n)"

lemma args_range:
  assumes "pagemap_scan_get_args io = Inr arg" "io_law io"
  obtains n where "page_range (sa_start arg) n" "sa_end arg = page_at (sa_start arg) n"
proof -
  obtain s e where s: "sa_start arg = s" "s AND 0xFFF = 0" "si_access_ok io s (e - s)"
    and e: "sa_end arg = (e + 0xFFF) AND NOT 0xFFF"
    using assms(1) by (auto simp: pagemap_scan_get_args_def Let_def split: option.splits if_splits)
  have room: "unat s + unat (e - s) < 2 ^ 62" using assms(2) s(3) by (simp add: io_law_def)
  have "unat (s + (e - s)) = unat s + unat (e - s)" using room by (intro unat_add_small) simp
  then have se: "unat s \<le> unat e" "unat e < 2 ^ 62" using room by simp_all
  have "take_bit 12 s = 0" using s(2) unfolding low_mask_numerals by (simp only: take_bit_eq_mask)
  from arg_cong [OF this, of unat] have "unat s mod 4096 = 0"
    unfolding unsigned_take_bit_eq by (simp add: take_bit_eq_mod)
  then obtain k where k: "unat s = 4096 * k" by (auto simp: mod_eq_0_iff_dvd)
  have up: "unat (e + 0xFFF) = unat e + 0xFFF" using se(2) by (subst unat_add_small) simp_all
  have stop: "unat (sa_end arg) = (unat e + 4095) div 4096 * 4096"
    using unat_and_not_mask [of "e + 0xFFF" 12] unfolding e up by (simp add: low_mask_numerals)
  define n where "n = (unat e + 4095) div 4096 - k"
  have "k \<le> (unat e + 4095) div 4096" using se(1) k by linarith
  then have sum: "4096 * k + 4096 * n = unat (sa_end arg)" unfolding stop n_def by (simp add: diff_mult_distrib2)
  have "unat (sa_end arg) \<le> unat e + 4095" unfolding stop by (rule div_times_less_eq_dividend)
  then have small: "unat (sa_end arg) < 2 ^ 63" using se(2) by simp
  have "page_range s n" using k sum small by (simp add: page_range_def)
  moreover have "sa_end arg = page_at s n"
    using page_at_pages(1) [of s n] k sum small by (simp add: word_unat_eq_iff)
  ultimately show thesis using that s(1) by simp
qed

text \<open>
  C3. The command ends for every request without flags over an area with page tables and holes, whatever
  the limits and wherever it starts and ends, and whatever fails on the way: arguments that cannot be
  read, no memory, a signal or a killed lock in any round, a fault in any copy of the regions or of the
  arguments. Refilling the bounce buffer cannot go round for ever, because a round that filled it has
  moved the start of the next one.
\<close>

theorem pagemap_scan_ends:
  assumes "io_law io" and "\<forall>arg. pagemap_scan_get_args io = Inr arg \<longrightarrow> sa_flags arg = 0 \<and> sa_vec_len arg \<noteq> 0"
  shows "do_pagemap_cmd scan_cmd cmd io (area_walk env ptep_get table) \<noteq> None"
proof -
  let ?walk = "area_walk env ptep_get table"
  have ends: "scan_rounds io ?walk 0 (sa_start arg) 0 ret p \<noteq> None"
    if args: "pagemap_scan_get_args io = Inr arg" and init: "pagemap_scan_init_bounce_buffer io (scan_begin arg) = (ret, p)" "ret = 0"
    for arg ret p
  proof -
    have vec: "sa_vec_len arg \<noteq> 0" using assms(2) args by blast
    obtain n where n: "page_range (sa_start arg) n" "sa_end arg = page_at (sa_start arg) n" by (rule args_range [OF args assms(1)])
    obtain buf where buf: "si_alloc io (unat (min 512 (sa_vec_len arg))) = Some buf" "p = scan_first arg buf"
      using init vec by (auto simp: pagemap_scan_init_bounce_buffer_def scan_begin_def scan_first_def Let_def split: option.splits)
    have len: "length buf = unat (min 512 (sa_vec_len arg))" using assms(1) buf(1) by (auto simp: io_law_def)
    have "0 < min 512 (sa_vec_len arg)" using vec by (auto simp: min_def word_neq_0_conv)
    then have "fresh p" using buf(2) len by (rule first_fresh)
    then show ?thesis using aw.rounds_end [of p "sa_start arg" n io env ptep_get table 0 0 ret] n assms(2) args
      by (simp add: buf(2) scan_first_def scan_begin_def)
  qed
  have "do_pagemap_scan io ?walk \<noteq> None"
  proof (cases "pagemap_scan_get_args io")
    case (Inr arg)
    obtain ret p where init: "pagemap_scan_init_bounce_buffer io (scan_begin arg) = (ret, p)" by fastforce
    show ?thesis
      using ends [OF Inr init] init Inr
      by (cases "ret = 0") (auto simp: do_pagemap_scan_def scan_begin_def [symmetric] Let_def)
  qed (simp add: do_pagemap_scan_def)
  then show ?thesis by (simp add: do_pagemap_cmd_def)
qed

text \<open>
  C1. The command reports exactly the pages that match: for a request without flags over a page aligned
  range of an area with page tables and holes, with any limits, \<open>PAGEMAP_SCAN\<close> ends, and the regions
  handed to the caller, read as pages, are precisely the pages of a prefix of the range whose
  categories match, each once, in address order, under the categories asked for, across all refills of
  the bounce buffer; the count returned is the number of regions. The prefix is the whole range unless
  the page limit is reached or the vector is used up, and then \<open>walk_end\<close> is its end; neither limit is
  ever exceeded.
\<close>

theorem pagemap_scan_exact:
  assumes "plain_call io arg buf n"
  shows "\<exists>m \<le> n. \<exists>p. do_pagemap_scan io (area_walk env ptep_get table) = Some (int (length (sp_user p)), Some p) \<and>
    concat (map region_pages (sp_user p)) = picked (area_pick env ptep_get table (scan_begin arg)) (sa_start arg) m \<and>
    length (concat (map region_pages (sp_user p))) \<le> unat (sa_max_pages arg) \<and>
    length (sp_user p) \<le> unat (sa_vec_len arg) \<and>
    (m = n \<or>
      sa_walk_end (sp_arg p) = (if page_at (sa_start arg) m = 0 then sa_end arg else page_at (sa_start arg) m) \<and>
      (length (concat (map region_pages (sp_user p))) = unat (sa_max_pages arg) \<or> length (sp_user p) = unat (sa_vec_len arg)))"
proof -
  obtain m p where "do_pagemap_scan io (area_walk env ptep_get table) = Some (int (length (sp_user p)), Some p)" "m \<le> n"
      "concat (map region_pages (sp_user p)) = picked (area_pick env ptep_get table (scan_begin arg)) (sa_start arg) m"
      "length (picked (area_pick env ptep_get table (scan_begin arg)) (sa_start arg) m) \<le> unat (sa_max_pages arg)"
      "length (sp_user p) \<le> unat (sa_vec_len arg)"
      "m < n \<longrightarrow> sa_walk_end (sp_arg p) = (if page_at (sa_start arg) m = 0 then sa_end arg else page_at (sa_start arg) m) \<and>
         (length (picked (area_pick env ptep_get table (scan_begin arg)) (sa_start arg) m) = unat (sa_max_pages arg) \<or>
          length (sp_user p) = unat (sa_vec_len arg))"
    using scan_call [OF assms, of env ptep_get table] by blast
  then show ?thesis by (intro exI [of _ m] conjI exI [of _ p]) auto
qed

lemma picked_mono: "m \<le> n \<Longrightarrow> length (picked pick s m) \<le> length (picked pick s n)"
  using picked_add [of pick s m "n - m"] by simp

text \<open>
  C39. The \<open>walk_end\<close> of a command that scanned all of its \<open>n\<close> pages is the end of the range only when
  one round was enough; otherwise it is the address where the last but one round had stopped and the
  last one started, although everything behind it was scanned too: \<open>walk_end\<close> is only set to the end
  while it is zero. One round is enough exactly when the first walk completes.
\<close>

theorem scan_walk_end_stale:
  assumes "plain_call io arg buf n" and "0 < n"
    and "do_pagemap_scan io (area_walk env ptep_get table) = Some (ret, Some p)"
    and "length (picked (area_pick env ptep_get table (scan_begin arg)) (sa_start arg) n) < unat (sa_max_pages arg)"
    and "length (sp_user p) < unat (sa_vec_len arg)"
  shows "concat (map region_pages (sp_user p)) = picked (area_pick env ptep_get table (scan_begin arg)) (sa_start arg) n \<and>
    (\<exists>i < n. last_round (area_walk env ptep_get table) n (sa_start arg) (scan_first arg buf) = Some (page_at (sa_start arg) i) \<and>
      sa_walk_end (sp_arg p) = (if i = 0 then sa_end arg else page_at (sa_start arg) i) \<and>
      (i = 0 \<longleftrightarrow> fst (area_walk env ptep_get table (sa_start arg) (sa_end arg) (scan_first arg buf)) = 0)) \<and>
    (sa_walk_end (sp_arg p) = sa_end arg \<longleftrightarrow>
     fst (area_walk env ptep_get table (sa_start arg) (sa_end arg) (scan_first arg buf)) = 0)"
proof -
  let ?pick = "area_pick env ptep_get table (scan_begin arg)" let ?s = "sa_start arg"
  let ?first = "fst (area_walk env ptep_get table ?s (sa_end arg) (scan_first arg buf))"
  obtain m where m: "m \<le> n" "concat (map region_pages (sp_user p)) = picked ?pick ?s m"
      "m < n \<longrightarrow> length (picked ?pick ?s m) = unat (sa_max_pages arg)"
      "m = n \<and> n \<noteq> 0 \<longrightarrow> (\<exists>i < n. last_round (area_walk env ptep_get table) n ?s (scan_first arg buf) = Some (page_at ?s i) \<and>
        (i = 0 \<longleftrightarrow> ?first = 0) \<and> sa_walk_end (sp_arg p) = (if i = 0 then sa_end arg else page_at ?s i))"
    using scan_call [OF assms(1), of env ptep_get table] assms(3,5) by auto
  have all: "m = n" using m(1,3) picked_mono [OF m(1), of ?pick ?s] assms(4) by force
  obtain i where i: "i < n" "last_round (area_walk env ptep_get table) n ?s (scan_first arg buf) = Some (page_at ?s i)"
      "i = 0 \<longleftrightarrow> ?first = 0" "sa_walk_end (sp_arg p) = (if i = 0 then sa_end arg else page_at ?s i)"
    using m(4) all assms(2) by blast
  have "page_at ?s i \<noteq> sa_end arg"
  proof -
    have range: "unat ?s + 4096 * n < 2 ^ 64" and "sa_end arg = page_at ?s n"
      using assms(1) page_range_room by (auto simp: plain_call_def)
    then show ?thesis using i(1) page_at_pages(1) [of ?s n] page_at_pages(1) [of ?s i] by auto
  qed
  then show ?thesis using m(2) all i by auto
qed

section \<open>Examples\<close>

text \<open>A request for soft-dirty pages over three pages of a soft-dirty area that has no page table.\<close>

definition three_soft_dirty :: pm_scan_arg where
  "three_soft_dirty = \<lparr>sa_size = 96, sa_flags = 0, sa_start = 0x1000, sa_end = 0x4000, sa_walk_end = 0, sa_vec = 0x9000,
     sa_vec_len = 4, sa_max_pages = 8, sa_inverted = 0, sa_mask = 0x80, sa_anyof = 0, sa_return = 0x80\<rparr>"

definition scan_call_io :: scan_io where
  "scan_call_io = \<lparr>si_arg = Some three_soft_dirty, si_untag = id, si_access_ok = \<lambda>_ _. True, si_size_mul = (*),
     si_alloc = \<lambda>n. Some (replicate n \<lparr>pr_start = 7, pr_end = 7, pr_cat = 7\<rparr>), si_signal = \<lambda>_. False,
     si_lock = \<lambda>_. 0, si_copy_fails = \<lambda>_. False, si_writeback_fails = False\<rparr>"

lemma three_soft_dirty_call:
  "plain_call scan_call_io three_soft_dirty (replicate 4 \<lparr>pr_start = 7, pr_end = 7, pr_cat = 7\<rparr>) 3"
proof -
  have "pagemap_scan_get_args scan_call_io = Inr three_soft_dirty"
    by (simp add: pagemap_scan_get_args_def scan_call_io_def three_soft_dirty_def mask_numeral)
  then show ?thesis
    by (simp add: plain_call_def scan_call_io_def three_soft_dirty_def page_range_def page_at_def)
qed

theorem pagemap_scan_exact_witness:
  "\<exists>m \<le> 3. \<exists>p. do_pagemap_scan scan_call_io (area_walk scan_env (\<lambda>_. 0) (\<lambda>_. None)) =
      Some (int (length (sp_user p)), Some p) \<and>
    concat (map region_pages (sp_user p)) =
      picked (area_pick scan_env (\<lambda>_. 0) (\<lambda>_. None) (scan_begin three_soft_dirty)) 0x1000 m"
  using pagemap_scan_exact [OF three_soft_dirty_call, of scan_env "\<lambda>_. 0" "\<lambda>_. None"]
  by (force simp: three_soft_dirty_def)

text \<open>The same call by a reader whose memory faults on every copy.\<close>

definition faulting_io :: scan_io where
  "faulting_io = scan_call_io\<lparr>si_access_ok := \<lambda>a l. unat a + unat l < 2 ^ 62, si_copy_fails := \<lambda>_. True\<rparr>"

theorem pagemap_scan_ends_witness:
  "do_pagemap_cmd 1 1 faulting_io (area_walk scan_env (\<lambda>_. 0) (\<lambda>_. None)) \<noteq> None"
proof (rule pagemap_scan_ends)
  show "io_law faulting_io" by (simp add: io_law_def faulting_io_def scan_call_io_def)
  show "\<forall>arg. pagemap_scan_get_args faulting_io = Inr arg \<longrightarrow> sa_flags arg = 0 \<and> sa_vec_len arg \<noteq> 0"
    by (simp add: pagemap_scan_get_args_def faulting_io_def scan_call_io_def three_soft_dirty_def mask_numeral)
qed

lemma scan_env_fields:
  "vma_pfnmap scan_env = False" "uffd_wp_async scan_env = False" "area_category scan_env = 0x80"
  "vma_softdirty scan_env = True"
  by (simp_all add: scan_env_def pmenv.defs area_category_def or_if_def BIT_ULL_def)

text \<open>
  A refill: 600 pages of a soft-dirty area whose entries are present and empty in turns, so that no two
  neighbours share their categories and every region is a single page, more than the bounce buffer holds.
\<close>

definition refill_arg :: pm_scan_arg where
  "refill_arg = \<lparr>sa_size = 96, sa_flags = 0, sa_start = 0x200000, sa_end = 0x458000, sa_walk_end = 0, sa_vec = 0x9000000,
     sa_vec_len = 0x100000, sa_max_pages = 0x1000, sa_inverted = 0, sa_mask = 0x80, sa_anyof = 0, sa_return = 0x88\<rparr>"

definition refill_io :: scan_io where
  "refill_io = scan_call_io\<lparr>si_arg := Some refill_arg\<rparr>"

definition every_second :: "u64 \<Rightarrow> u64" where
  "every_second ptr = (if bit ptr 3 then 1 else 0)"

abbreviation refill_buf :: "page_region list" where
  "refill_buf \<equiv> replicate 512 \<lparr>pr_start = 7, pr_end = 7, pr_cat = 7\<rparr>"

abbreviation refill_walk :: scan_walker where
  "refill_walk \<equiv> area_walk scan_env every_second (\<lambda>_. Some 0)"

lemma refill_call: "plain_call refill_io refill_arg refill_buf 600"
proof -
  have "pagemap_scan_get_args refill_io = Inr refill_arg"
    by (simp add: pagemap_scan_get_args_def refill_io_def scan_call_io_def refill_arg_def mask_numeral)
  then show ?thesis
    by (simp add: plain_call_def refill_io_def scan_call_io_def refill_arg_def page_range_def page_at_def)
qed

lemma refill_pick:
  assumes "i < 600"
  shows "area_pick scan_env every_second (\<lambda>_. Some 0) (scan_begin refill_arg) (page_at 0x200000 i) =
    Some (if odd i then 0x88 else 0x80)"
proof -
  have at: "page_at 0x200000 i = pg (512 + i)" by (simp add: page_at_def pg_def algebra_simps)
  have "pte_pointer (\<lambda>_. 0) (pg (512 + i)) = of_nat (8 * (i mod 512))"
    using assms by (simp add: pte_pointer_pg)
  moreover have "bit (of_nat (8 * (i mod 512)) :: u64) 3 \<longleftrightarrow> odd i"
  proof -
    have "odd (i mod 512) \<longleftrightarrow> odd i" by (simp add: dvd_mod_iff)
    moreover have "8 * (i mod 512) div 8 = i mod 512" by simp
    ultimately show ?thesis by (simp add: bit_iff_odd [of "8 * (i mod 512)"] bit_of_nat_iff del: of_nat_mult)
  qed
  ultimately have "every_second (pte_pointer (\<lambda>_. 0) (page_at 0x200000 i)) = (if odd i then 1 else 0)"
    by (simp only: every_second_def at)
  then show ?thesis
    by (simp add: area_pick_def step_pick_def scan_env_fields is_interesting_vma_def is_interesting_page_def sel_pick_def
        pmd_sel_def general_sel_def scan_begin_def refill_arg_def pagemap_page_category_def pte_none_def pte_present_def
        pte_flags_def or_if_def BIT_ULL_def Let_def)
qed

lemma refill_picked:
  "picked (area_pick scan_env every_second (\<lambda>_. Some 0) (scan_begin refill_arg)) 0x200000 600 =
    map (\<lambda>i. (page_at 0x200000 i, if odd i then 0x88 else 0x80)) [0..<600]"
  unfolding picked_def by (rule map_filter_total) (simp add: refill_pick)

text \<open>Regions are runs of one category, so a buffer holds no more changes of the category than regions.\<close>

lemma runs_append: "length (remdups_adj (xs @ ys)) \<le> length (remdups_adj xs) + length (remdups_adj ys)"
proof (induction xs rule: remdups_adj.induct)
  case (2 x)
  show ?case by (cases ys) simp_all
qed simp_all

lemma region_runs: "length (remdups_adj (map snd (concat (map region_pages rs)))) \<le> length rs"
proof (induction rs)
  case (Cons r rs)
  have "map snd (region_pages r) = replicate (length (region_pages r)) (pr_cat r)"
    by (simp add: region_pages_def pages_between_def map_replicate_const o_def)
  then have "length (remdups_adj (map snd (region_pages r))) \<le> 1" by (simp add: remdups_adj_replicate)
  then show ?case using Cons runs_append [of "map snd (region_pages r)" "map snd (concat (map region_pages rs))"] by simp
qed simp

lemma buffer_runs:
  assumes "scan_inv p" "sp_buf p \<noteq> None"
  shows "length (remdups_adj (map snd (buf_pages p))) \<le> unat (sp_buf_len p)"
proof -
  obtain buf where buf: "sp_buf p = Some buf" using assms(2) by auto
  then have "unat (sp_index p) < unat (sp_buf_len p)" using assms(1) by (simp add: scan_inv_def word_less_nat_alt)
  moreover have "length (remdups_adj (map snd (buf_pages p))) \<le> length (take (unat (sp_index p) + 1) buf)"
    unfolding buf_pages_def buf option.case by (rule region_runs)
  ultimately show ?thesis by simp
qed

lemma refill_first: "fst (refill_walk 0x200000 0x458000 (scan_first refill_arg refill_buf)) \<noteq> 0"
proof
  assume complete: "fst (refill_walk 0x200000 0x458000 (scan_first refill_arg refill_buf)) = 0"
  let ?p = "scan_first refill_arg refill_buf"
  have at: "page_at 0x200000 600 = (0x458000 :: u64)" by (simp add: page_at_def)
  obtain q where q: "refill_walk 0x200000 0x458000 ?p = (0, q)" using complete by (metis prod.collapse)
  have p: "scan_inv ?p" "sp_buf ?p \<noteq> None" "buf_pages ?p = []" using fresh_inv [OF plain_call_fresh(1) [OF refill_call]] by auto
  have "static_request ?p = static_request (scan_begin refill_arg)" by (simp add: scan_first_def static_request_def)
  note pick = area_pick_static [OF this, of scan_env every_second "\<lambda>_. Some 0"]
  have flags: "sa_flags (sp_arg ?p) = 0" by (simp add: scan_first_def scan_begin_def refill_arg_def)
  have range: "page_range 0x200000 600" by (simp add: page_range_def)
  obtain stop c where sc: "scanned (area_pick scan_env every_second (\<lambda>_. Some 0) ?p) 600 0x200000
      (?p\<lparr>sp_vma_category := c\<rparr>) 0 stop q"
    using aw.walk_scanned [OF p(1,2) flags range _ q [folded at]] by auto
  have "buf_pages (?p\<lparr>sp_vma_category := c\<rparr>) = []" using p(3) by (auto simp: buf_pages_def split: option.splits)
  then have pages: "map snd (buf_pages q) = map (\<lambda>i. if odd i then 0x88 else 0x80) [0..<600]"
    using sc by (auto simp: scanned_def pick refill_picked comp_def)
  have "distinct_adj (map (\<lambda>i. if odd i then 0x88 else 0x80 :: u64) [0..<600])"
    by (simp add: distinct_adj_conv_nth)
  then have "length (remdups_adj (map snd (buf_pages q))) = 600"
    unfolding pages by (simp add: distinct_adj_conv_length_remdups_adj)
  moreover have "sp_buf_len q = 512" using sc by (simp add: scanned_def scan_first_def scan_begin_def refill_arg_def)
  ultimately show False using buffer_runs [of q] sc by (simp add: scanned_def)
qed

theorem scan_walk_end_stale_witness:
  "\<exists>ret p. do_pagemap_scan refill_io refill_walk = Some (ret, Some p) \<and>
    map fst (concat (map region_pages (sp_user p))) = map (page_at 0x200000) [0..<600] \<and>
    sa_walk_end (sp_arg p) \<noteq> 0x458000 \<and>
    last_round refill_walk 600 0x200000 (scan_first refill_arg refill_buf) = Some (sa_walk_end (sp_arg p))"
proof -
  have arg: "sa_start refill_arg = 0x200000" "sa_end refill_arg = 0x458000" "unat (sa_max_pages refill_arg) = 4096"
      "unat (sa_vec_len refill_arg) = 1048576"
    by (simp_all add: refill_arg_def)
  obtain m p where run: "do_pagemap_scan refill_io refill_walk = Some (int (length (sp_user p)), Some p)"
      "length (sp_user p) \<le> 600 * 512"
    using scan_call [OF refill_call, of scan_env every_second "\<lambda>_. Some 0"] by blast
  show ?thesis
    using scan_walk_end_stale [OF refill_call _ run(1)] run refill_first
    by (auto simp: arg refill_picked comp_def)
qed

end
