(* ===== verification/Page_Walk.thy ===== *)
theory Page_Walk
  imports Pagemap
begin

text \<open>
  The generic page walk over an area, as the callbacks of \<open>mapping_field_decode/task_mmu.c\<close> see it: one
  call for each PMD, from the start of the area or of the PMD to its end or to the end of the area. The
  walk itself is the kernel's; here it is a loop over \<open>chunk_end\<close> with the callback as an argument, and
  one induction rule that counts pages, which the walks of \<open>smaps\<close>, \<open>numa_maps\<close> and \<open>clear_refs\<close> share.
\<close>

unbundle bit_operations_syntax

function chunk_walk :: "(u64 \<Rightarrow> u64 \<Rightarrow> 's \<Rightarrow> 's) \<Rightarrow> u64 \<Rightarrow> u64 \<Rightarrow> 's \<Rightarrow> 's" where
  "chunk_walk step start end s =
    (if start < end then chunk_walk step (chunk_end start end) end (step start (chunk_end start end) s) else s)"
  by auto
termination
proof (relation "measure (\<lambda>(_, start, end, _). unat end - unat start)")
  fix start "end" :: u64
  assume "start < end"
  then show "((step, chunk_end start end, end, t), step, start, end, s) \<in>
      measure (\<lambda>(_, start, end, _). unat end - unat start)" for step and s t :: 's
    using chunk_end_bounds [of start "end"] by (auto simp: word_less_nat_alt word_le_nat_alt)
qed simp

declare chunk_walk.simps [simp del]

lemma chunk_walk_empty: "chunk_walk step start start s = s"
  by (simp add: chunk_walk.simps)

text \<open>A predicate that every call keeps holds at the end.\<close>

lemma chunk_walk_keeps:
  assumes "P s" and "\<And>start end s. P s \<Longrightarrow> P (step start end s)"
  shows "P (chunk_walk step start end s)"
  using assms
proof (induction step start "end" s rule: chunk_walk.induct)
  case (1 step start "end" s)
  then show ?case using chunk_walk.simps [of step start "end" s] by (cases "start < end") simp_all
qed

text \<open>
  The walk from page \<open>k\<close> over \<open>j\<close> pages: a predicate on the number of the page reached holds at the end
  when each call takes it on by the pages of its part of a PMD, which is all of it but at the two ends.
\<close>

lemma chunk_walk_pages:
  assumes step: "\<And>p m s. I p s \<Longrightarrow> k \<le> p \<Longrightarrow> 0 < m \<Longrightarrow> p mod 512 + m \<le> 512 \<Longrightarrow> p + m \<le> k + j \<Longrightarrow>
      p = k \<or> p mod 512 = 0 \<Longrightarrow> p + m = k + j \<or> (p + m) mod 512 = 0 \<Longrightarrow> I (p + m) (step (pg p) (pg (p + m)) s)"
    and "I k s" and "k + j < 2 ^ 51"
  shows "I (k + j) (chunk_walk step (pg k) (pg (k + j)) s)"
proof -
  have "I (k + j) (chunk_walk step (pg p) (pg (p + n)) s)" 
    if "I p s" "k \<le> p" "p + n = k + j" "p = k \<or> p mod 512 = 0" for p n s
    using that
  proof (induction n arbitrary: p s rule: less_induct)
    case (less n)
    show ?case
    proof (cases "n = 0")
      case True
      then show ?thesis using less.prems by (simp add: chunk_walk_empty)
    next
      case False
      then have "0 < n" "p + n < 2 ^ 51" using less.prems(3) assms(3) by simp_all
      then obtain m where m: "0 < m" "m \<le> n" "p mod 512 + m \<le> 512" "m = n \<or> (p + m) mod 512 = 0"
        and chunk: "chunk_end (pg p) (pg (p + n)) = pg (p + m)"
        and "unat ((pg (p + m) - pg p) div 4096) = m" and lt: "pg p < pg (p + n)" and "pg p < pg (p + m)"
        by (rule chunk_pages)
      have *: "I (p + m) (step (pg p) (pg (p + m)) s)" using step [of p s m] m less.prems by auto
      have "I (k + j) (chunk_walk step (pg (p + m)) (pg (p + m + (n - m))) (step (pg p) (pg (p + m)) s))"
      proof (cases "m = n")
        case True
        then show ?thesis using * less.prems(3) by (simp add: chunk_walk_empty)
      next
        case False
        then show ?thesis using less.IH [of "n - m" "p + m"] * m less.prems by simp
      qed
      then show ?thesis using lt m(2) by (simp add: chunk_walk.simps [of _ "pg p"] chunk)
    qed
  qed
  then show ?thesis using assms(2) by blast
qed

text \<open>The loop of a callback over the \<open>n\<close> entries of a table from \<open>pte\<close> on, for the addresses from \<open>addr\<close> on.\<close>

fun pte_run :: "(u64 \<Rightarrow> u64 \<Rightarrow> 's \<Rightarrow> 's) \<Rightarrow> nat \<Rightarrow> u64 \<Rightarrow> u64 \<Rightarrow> 's \<Rightarrow> 's" where
  "pte_run body 0 pte addr s = s"
| "pte_run body (Suc n) pte addr s = pte_run body n (pte + 8) (addr + 0x1000) (body addr pte s)"

lemma pte_run_pages:
  "k mod 512 + m \<le> 512 \<Longrightarrow> k + m < 2 ^ 52 \<Longrightarrow>
   pte_run body m (pte_pointer table (pg k)) (pg k) s = fold (\<lambda>i. body (pg i) (pte_pointer table (pg i))) [k..<k + m] s"
proof (induction m arbitrary: k s)
  case (Suc m)
  let ?s = "body (pg k) (pte_pointer table (pg k)) s"
  have list: "[k..<k + Suc m] = k # [Suc k..<Suc k + m]" by (simp add: upt_rec)
  show ?case
  proof (cases "m = 0")
    case True
    then show ?thesis by simp
  next
    case False
    have pos: "pte_pointer table (pg k) + 8 = pte_pointer table (pg (Suc k))"
      using pte_pointer_step [of k 1 table] Suc.prems False by simp
    have "Suc k mod 512 = Suc (k mod 512)" using Suc.prems False by (simp add: mod_Suc)
    then show ?thesis
      using Suc.IH [of "Suc k" ?s] Suc.prems unfolding list by (simp add: pos pg_Suc del: upt_Suc)
  qed
qed simp

text \<open>A callback that acts page by page makes a walk that acts page by page.\<close>

locale page_step =
  fixes step :: "u64 \<Rightarrow> u64 \<Rightarrow> 's \<Rightarrow> 's" and page :: "nat \<Rightarrow> 's \<Rightarrow> 's"
  assumes step_pages: "0 < m \<Longrightarrow> p mod 512 + m \<le> 512 \<Longrightarrow> p + m < 2 ^ 51 \<Longrightarrow>
    step (pg p) (pg (p + m)) s = fold page [p..<p + m] s"
begin

lemma walk_pages:
  assumes "k + j < 2 ^ 51"
  shows "chunk_walk step (pg k) (pg (k + j)) s = fold page [k..<k + j] s"
proof -
  let ?I = "\<lambda>p t. t = fold page [k..<p] s"
  have "?I (k + j) (chunk_walk step (pg k) (pg (k + j)) s)"
  proof (rule chunk_walk_pages)
    fix p m t
    assume "?I p t" "k \<le> p" "0 < m" "p mod 512 + m \<le> 512" "p + m \<le> k + j"
    moreover from \<open>k \<le> p\<close> have "[k..<p + m] = [k..<p] @ [p..<p + m]" by (rule upt_add_eq_append)
    ultimately show "?I (p + m) (step (pg p) (pg (p + m)) t)" using assms by (simp add: step_pages)
  qed (use assms in simp_all)
  then show ?thesis .
qed

end

end
