(* ===== verification/Smaps.thy ===== *)
theory Smaps
  imports Page_Walk
begin

text \<open>
  The memory statistics of \<open>/proc/<pid>/smaps\<close> and \<open>smaps_rollup\<close> from \<open>mapping_field_decode/task_mmu.c\<close>:
  the accumulation of one page, of a page or huge page with its sharing, of the entries of a table, of
  an area, and of all areas with the lock dropped in between. The invariant \<open>mss_sum\<close> says that the
  statistics are consistent, \<open>mss_within\<close> bounds them.
\<close>

unbundle bit_operations_syntax

section \<open>Data\<close>

record mem_size_stats =
  resident :: u64
  shared_clean :: u64
  shared_dirty :: u64
  private_clean :: u64
  private_dirty :: u64
  referenced :: u64
  anonymous :: u64
  lazyfree :: u64
  anonymous_thp :: u64
  shmem_thp :: u64
  file_thp :: u64
  swap :: u64
  shared_hugetlb :: u64
  private_hugetlb :: u64
  ksm :: u64
  pss :: u64
  pss_anon :: u64
  pss_file :: u64
  pss_shmem :: u64
  pss_dirty :: u64
  pss_locked :: u64
  swap_pss :: u64

text \<open>
  What the kernel tells about folios and entries. A folio is named by an address like a page;
  \<open>page_mapcount\<close> is \<open>CONFIG_PAGE_MAPCOUNT\<close>, of which \<open>CONFIG_NO_PAGE_MAPCOUNT\<close> is the opposite.
\<close>

record smapsenv = pmenv +
  page_folio :: "u64 \<Rightarrow> u64"
  folio_test_anon :: "u64 \<Rightarrow> bool"
  folio_test_swapbacked :: "u64 \<Rightarrow> bool"
  folio_test_dirty :: "u64 \<Rightarrow> bool"
  folio_test_ksm :: "u64 \<Rightarrow> bool"
  folio_test_young :: "u64 \<Rightarrow> bool"
  folio_test_referenced :: "u64 \<Rightarrow> bool"
  folio_is_zone_device :: "u64 \<Rightarrow> bool"
  folio_ref_count :: "u64 \<Rightarrow> int"
  folio_maybe_mapped_shared :: "u64 \<Rightarrow> bool"
  folio_average_page_mapcount :: "u64 \<Rightarrow> int"
  folio_precise_page_mapcount :: "u64 \<Rightarrow> u64 \<Rightarrow> int"
  page_mapcount :: bool
  compound_nr :: "u64 \<Rightarrow> nat"
  softleaf_is_swap :: "u64 \<Rightarrow> bool"
  softleaf_is_device_private :: "u64 \<Rightarrow> bool"
  swp_swapcount :: "u64 \<Rightarrow> int"
  normal_page_pmd :: "u64 \<Rightarrow> u64 \<Rightarrow> u64 option"
  thp_migration_supported :: bool
  vm_locked :: bool
  shmem_partial_swap_usage :: "u64 \<Rightarrow> u64 \<Rightarrow> u64"
  huge_page_size :: u64
  page_of_pte :: "u64 \<Rightarrow> u64"

section \<open>Accounting\<close>

definition smaps_page_accumulate ::
  "smapsenv \<Rightarrow> mem_size_stats \<Rightarrow> u64 \<Rightarrow> u64 \<Rightarrow> u64 \<Rightarrow> bool \<Rightarrow> bool \<Rightarrow> bool \<Rightarrow> mem_size_stats" where
  "smaps_page_accumulate env mss folio sz p dirty locked private =
    (let mss = mss\<lparr>pss := pss mss + p\<rparr>;
         mss = (if folio_test_anon env folio then mss\<lparr>pss_anon := pss_anon mss + p\<rparr>
                else if folio_test_swapbacked env folio then mss\<lparr>pss_shmem := pss_shmem mss + p\<rparr>
                else mss\<lparr>pss_file := pss_file mss + p\<rparr>);
         mss = (if locked then mss\<lparr>pss_locked := pss_locked mss + p\<rparr> else mss) in
     if dirty \<or> folio_test_dirty env folio then
       (let mss = mss\<lparr>pss_dirty := pss_dirty mss + p\<rparr> in
        if private then mss\<lparr>private_dirty := private_dirty mss + sz\<rparr>
        else mss\<lparr>shared_dirty := shared_dirty mss + sz\<rparr>)
     else if private then mss\<lparr>private_clean := private_clean mss + sz\<rparr>
     else mss\<lparr>shared_clean := shared_clean mss + sz\<rparr>)"

text \<open>The loop over the \<open>n\<close> pages left of a folio; a \<open>struct page\<close> has 64 bytes.\<close>

fun account_pages ::
  "smapsenv \<Rightarrow> u64 \<Rightarrow> nat \<Rightarrow> u64 \<Rightarrow> bool \<Rightarrow> bool \<Rightarrow> int \<Rightarrow> bool \<Rightarrow> mem_size_stats \<Rightarrow> mem_size_stats" where
  "account_pages env folio 0 page dirty locked mapcount exclusive mss = mss"
| "account_pages env folio (Suc n) page dirty locked mapcount exclusive mss =
    (let p = push_bit 12 0x1000;
         mapcount = (if page_mapcount env then folio_precise_page_mapcount env folio page else mapcount);
         exclusive = (if page_mapcount env then mapcount < 2 else exclusive);
         p = (if mapcount \<ge> 2 then p div of_int mapcount else p) in
     account_pages env folio n (page + 64) dirty locked mapcount exclusive
       (smaps_page_accumulate env mss folio 0x1000 p dirty locked exclusive))"

text \<open>The quantities that depend on the size of the page only.\<close>

definition account_size ::
  "smapsenv \<Rightarrow> mem_size_stats \<Rightarrow> u64 \<Rightarrow> u64 \<Rightarrow> bool \<Rightarrow> bool \<Rightarrow> mem_size_stats" where
  "account_size env mss folio sz young dirty =
    (let mss = (if folio_test_anon env folio then
                  (let mss = mss\<lparr>anonymous := anonymous mss + sz\<rparr> in
                   if \<not> folio_test_swapbacked env folio \<and> \<not> dirty \<and> \<not> folio_test_dirty env folio
                   then mss\<lparr>lazyfree := lazyfree mss + sz\<rparr> else mss)
                else mss);
         mss = (if folio_test_ksm env folio then mss\<lparr>ksm := ksm mss + sz\<rparr> else mss);
         mss = mss\<lparr>resident := resident mss + sz\<rparr> in
     if young \<or> folio_test_young env folio \<or> folio_test_referenced env folio
     then mss\<lparr>referenced := referenced mss + sz\<rparr> else mss)"

definition smaps_account ::
  "smapsenv \<Rightarrow> mem_size_stats \<Rightarrow> u64 \<Rightarrow> bool \<Rightarrow> bool \<Rightarrow> bool \<Rightarrow> bool \<Rightarrow> bool \<Rightarrow> mem_size_stats" where
  "smaps_account env mss page compound young dirty locked present =
    (let folio = page_folio env page;
         nr = (if compound then compound_nr env page else 1);
         sz = of_nat nr * 0x1000;
         mss = account_size env mss folio sz young dirty in
     if folio_ref_count env folio = 1 \<or> \<not> present
     then smaps_page_accumulate env mss folio sz (push_bit 12 sz) dirty locked present
     else account_pages env folio nr page dirty locked (folio_average_page_mapcount env folio)
            (\<not> folio_maybe_mapped_shared env folio) mss)"

text \<open>\<open>hole\<close> says whether the walk has the \<open>pte_hole\<close> operation.\<close>

definition smaps_pte_hole :: "smapsenv \<Rightarrow> u64 \<Rightarrow> u64 \<Rightarrow> mem_size_stats \<Rightarrow> mem_size_stats" where
  "smaps_pte_hole env addr end mss = mss\<lparr>swap := swap mss + shmem_partial_swap_usage env addr end\<rparr>"

definition smaps_pte_hole_lookup :: "smapsenv \<Rightarrow> bool \<Rightarrow> u64 \<Rightarrow> mem_size_stats \<Rightarrow> mem_size_stats" where
  "smaps_pte_hole_lookup env hole addr mss = (if hole then smaps_pte_hole env addr (addr + 0x1000) mss else mss)"

definition smaps_pte_entry :: "smapsenv \<Rightarrow> bool \<Rightarrow> u64 \<Rightarrow> u64 \<Rightarrow> mem_size_stats \<Rightarrow> mem_size_stats" where
  "smaps_pte_entry env hole ptent addr mss =
    (if pte_present ptent then
       (case vm_normal_page env addr ptent of
          None \<Rightarrow> mss
        | Some page \<Rightarrow> smaps_account env mss page False (pte_young ptent) (pte_dirty ptent) (vm_locked env) True)
     else if pte_none ptent then smaps_pte_hole_lookup env hole addr mss
     else
       (let entry = softleaf_from_pte env ptent in
        if softleaf_is_swap env entry then
          (let mss = mss\<lparr>swap := swap mss + 0x1000\<rparr>;
               mapcount = swp_swapcount env entry in
           if mapcount \<ge> 2
           then mss\<lparr>swap_pss := swap_pss mss + push_bit 12 0x1000 div of_int mapcount\<rparr>
           else mss\<lparr>swap_pss := swap_pss mss + push_bit 12 0x1000\<rparr>)
        else if softleaf_has_pfn env entry then
          smaps_account env mss (softleaf_to_page env entry) False False False (vm_locked env)
            (softleaf_is_device_private env entry)
        else mss))"

definition smaps_pmd_entry :: "smapsenv \<Rightarrow> u64 \<Rightarrow> u64 \<Rightarrow> mem_size_stats \<Rightarrow> mem_size_stats" where
  "smaps_pmd_entry env pmd addr mss =
    (if pmd_none pmd then mss else
     let (page, present) =
       (if pmd_present pmd then (normal_page_pmd env addr pmd, True)
        else if thp_migration_supported env then
          (let entry = softleaf_from_pmd env pmd in
           (if softleaf_has_pfn env entry then Some (softleaf_to_page env entry) else None, False))
        else (None, False)) in
     case page of
       None \<Rightarrow> mss
     | Some page \<Rightarrow>
       let folio = page_folio env page;
           mss = (if folio_test_anon env folio then mss\<lparr>anonymous_thp := anonymous_thp mss + 0x200000\<rparr>
                  else if folio_test_swapbacked env folio then mss\<lparr>shmem_thp := shmem_thp mss + 0x200000\<rparr>
                  else if folio_is_zone_device env folio then mss
                  else mss\<lparr>file_thp := file_thp mss + 0x200000\<rparr>) in
       smaps_account env mss page True (pmd_young pmd) (pmd_dirty pmd) (vm_locked env) present)"

fun pte_entries :: "smapsenv \<Rightarrow> bool \<Rightarrow> (u64 \<Rightarrow> u64) \<Rightarrow> nat \<Rightarrow> u64 \<Rightarrow> u64 \<Rightarrow> mem_size_stats \<Rightarrow> mem_size_stats" where
  "pte_entries env hole ptep_get 0 pte addr mss = mss"
| "pte_entries env hole ptep_get (Suc n) pte addr mss =
    pte_entries env hole ptep_get n (pte + 8) (addr + 0x1000) (smaps_pte_entry env hole (ptep_get pte) addr mss)"

text \<open>\<open>huge\<close> is the PMD when it is a huge page, \<open>pte_map\<close> the first entry when the table could be mapped.\<close>

definition smaps_pte_range ::
  "smapsenv \<Rightarrow> bool \<Rightarrow> (u64 \<Rightarrow> u64) \<Rightarrow> u64 option \<Rightarrow> u64 option \<Rightarrow> u64 \<Rightarrow> u64 \<Rightarrow> mem_size_stats \<Rightarrow> mem_size_stats" where
  "smaps_pte_range env hole ptep_get huge pte_map addr end mss =
    (case huge of
       Some pmd \<Rightarrow> smaps_pmd_entry env pmd addr mss
     | None \<Rightarrow>
       (case pte_map of
          None \<Rightarrow> mss
        | Some pte \<Rightarrow> pte_entries env hole ptep_get (unat ((end - addr) div 4096)) pte addr mss))"

definition smaps_hugetlb_range :: "smapsenv \<Rightarrow> u64 \<Rightarrow> bool \<Rightarrow> mem_size_stats \<Rightarrow> mem_size_stats" where
  "smaps_hugetlb_range env ptent hugetlb_pmd_shared mss =
    (let (folio, present) =
       (if pte_present ptent then (Some (page_folio env (page_of_pte env ptent)), True)
        else (let entry = softleaf_from_pte env ptent in
          (if softleaf_has_pfn env entry then Some (page_folio env (softleaf_to_page env entry)) else None, False))) in
     case folio of
       None \<Rightarrow> mss
     | Some folio \<Rightarrow>
       if \<not> present \<or> folio_maybe_mapped_shared env folio \<or> hugetlb_pmd_shared
       then mss\<lparr>shared_hugetlb := shared_hugetlb mss + huge_page_size env\<rparr>
       else mss\<lparr>private_hugetlb := private_hugetlb mss + huge_page_size env\<rparr>)"

section \<open>Consistency\<close>

definition mapped_size :: "mem_size_stats \<Rightarrow> u64" where
  "mapped_size mss = shared_clean mss + shared_dirty mss + private_clean mss + private_dirty mss"

definition pss_parts :: "mem_size_stats \<Rightarrow> u64" where
  "pss_parts mss = pss_anon mss + pss_file mss + pss_shmem mss"

definition mss_sum :: "mem_size_stats \<Rightarrow> bool" where
  "mss_sum mss \<longleftrightarrow> resident mss = mapped_size mss \<and> pss mss = pss_parts mss"

text \<open>What accumulating a page does to the sums, the sizes that depend on no sharing left alone.\<close>

definition sizes :: "mem_size_stats \<Rightarrow> u64 list" where
  "sizes mss = [resident mss, anonymous mss, lazyfree mss, referenced mss, ksm mss]"

lemma accumulate_view:
  defines "new \<equiv> \<lambda>env mss folio sz p dirty locked private. smaps_page_accumulate env mss folio sz p dirty locked private"
  shows "mapped_size (new env mss folio sz p dirty locked private) = mapped_size mss + sz"
    and "pss (new env mss folio sz p dirty locked private) = pss mss + p"
    and "pss_parts (new env mss folio sz p dirty locked private) = pss_parts mss + p"
    and "pss_dirty (new env mss folio sz p dirty locked private) =
      pss_dirty mss + (if dirty \<or> folio_test_dirty env folio then p else 0)"
    and "pss_locked (new env mss folio sz p dirty locked private) = pss_locked mss + (if locked then p else 0)"
    and "sizes (new env mss folio sz p dirty locked private) = sizes mss"
  by (simp_all add: new_def smaps_page_accumulate_def mapped_size_def pss_parts_def sizes_def Let_def)

lemma account_pages_view:
  "mapped_size (account_pages env folio n page dirty locked mc ex mss) = mapped_size mss + of_nat n * 0x1000"
  "pss mss = pss_parts mss \<Longrightarrow>
    pss (account_pages env folio n page dirty locked mc ex mss) = pss_parts (account_pages env folio n page dirty locked mc ex mss)"
  "sizes (account_pages env folio n page dirty locked mc ex mss) = sizes mss"
  by (induction n arbitrary: page mc ex mss) (simp_all add: accumulate_view Let_def distrib_right)

lemma account_size_view:
  "resident (account_size env mss folio sz young dirty) = resident mss + sz"
  "mapped_size (account_size env mss folio sz young dirty) = mapped_size mss"
  "pss (account_size env mss folio sz young dirty) = pss mss"
  "pss_parts (account_size env mss folio sz young dirty) = pss_parts mss"
  "pss_dirty (account_size env mss folio sz young dirty) = pss_dirty mss"
  "pss_locked (account_size env mss folio sz young dirty) = pss_locked mss"
  by (simp_all add: account_size_def mapped_size_def pss_parts_def Let_def)

lemma sizes_resident: "sizes mss' = sizes mss \<Longrightarrow> resident mss' = resident mss"
  by (simp add: sizes_def)

lemma account_sum: "mss_sum mss \<Longrightarrow> mss_sum (smaps_account env mss page compound young dirty locked present)"
  unfolding mss_sum_def smaps_account_def Let_def
  by (simp add: accumulate_view account_pages_view account_size_view sizes_resident [OF accumulate_view(6)]
      sizes_resident [OF account_pages_view(3)] del: account_pages.simps)

text \<open>The entries that are not accounted change none of the sums.\<close>

lemma sum_unchanged:
  "mss_sum (mss\<lparr>swap := a\<rparr>) = mss_sum mss" "mss_sum (mss\<lparr>swap_pss := a\<rparr>) = mss_sum mss"
  "mss_sum (mss\<lparr>anonymous_thp := a\<rparr>) = mss_sum mss" "mss_sum (mss\<lparr>shmem_thp := a\<rparr>) = mss_sum mss"
  "mss_sum (mss\<lparr>file_thp := a\<rparr>) = mss_sum mss" "mss_sum (mss\<lparr>shared_hugetlb := a\<rparr>) = mss_sum mss"
  "mss_sum (mss\<lparr>private_hugetlb := a\<rparr>) = mss_sum mss"
  by (simp_all add: mss_sum_def mapped_size_def pss_parts_def)

lemma pte_entry_sum: "mss_sum mss \<Longrightarrow> mss_sum (smaps_pte_entry env hole ptent addr mss)"
  by (auto simp: smaps_pte_entry_def smaps_pte_hole_lookup_def smaps_pte_hole_def Let_def sum_unchanged account_sum
      split: option.split)

lemma pte_entries_sum: "mss_sum mss \<Longrightarrow> mss_sum (pte_entries env hole ptep_get n pte addr mss)"
  by (induction n arbitrary: pte addr mss) (simp_all add: pte_entry_sum)

lemma pte_range_sum: "mss_sum mss \<Longrightarrow> mss_sum (smaps_pte_range env hole ptep_get huge pte_map addr end mss)"
  by (auto simp: smaps_pte_range_def smaps_pmd_entry_def Let_def sum_unchanged account_sum pte_entries_sum
      split: option.split)

lemma hugetlb_range_sum: "mss_sum mss \<Longrightarrow> mss_sum (smaps_hugetlb_range env ptent sh mss)"
  by (simp add: smaps_hugetlb_range_def Let_def sum_unchanged split: option.split)

section \<open>Bounds\<close>

text \<open>The statistics after at most \<open>n\<close> pages: the sums that depend on the sharing, and the sizes.\<close>

definition view_within :: "nat \<Rightarrow> mem_size_stats \<Rightarrow> bool" where
  "view_within n mss \<longleftrightarrow> unat (mapped_size mss) \<le> 4096 * n \<and> unat (pss mss) \<le> 4096 * unat (mapped_size mss) \<and>
    unat (pss_dirty mss) \<le> unat (pss mss) \<and> unat (pss_locked mss) \<le> unat (pss mss)"

definition sizes_within :: "nat \<Rightarrow> mem_size_stats \<Rightarrow> bool" where
  "sizes_within n mss \<longleftrightarrow> unat (resident mss) \<le> 4096 * n \<and> unat (anonymous mss) \<le> unat (resident mss) \<and>
    unat (lazyfree mss) \<le> unat (anonymous mss) \<and> unat (referenced mss) \<le> unat (resident mss) \<and>
    unat (ksm mss) \<le> unat (resident mss)"

lemma accumulate_within:
  assumes "view_within n mss" and "n + k < 2 ^ 40" and "unat sz = 4096 * k" and "unat p \<le> 4096 * unat sz"
  shows "view_within (n + k) (smaps_page_accumulate env mss folio sz p dirty locked private)"
proof -
  have m: "unat (mapped_size mss + sz) = unat (mapped_size mss) + unat sz"
    using assms by (intro unat_add_small) (simp add: view_within_def)
  have p: "unat (pss mss + p) = unat (pss mss) + unat p"
    using assms by (intro unat_add_small) (simp add: view_within_def)
  have part: "unat (x + (if c then p else 0)) \<le> unat (pss mss) + unat p" if "unat x \<le> unat (pss mss)" for x c
    using that p assms by (auto simp: unat_add_wrap)
  show ?thesis
    unfolding view_within_def accumulate_view m p
    using assms part by (auto simp: view_within_def)
qed

lemma account_pages_within:
  "view_within n mss \<Longrightarrow> n + k < 2 ^ 40 \<Longrightarrow> view_within (n + k) (account_pages env folio k page dirty locked mc ex mss)"
proof (induction k arbitrary: n page mc ex mss)
  case 0
  then show ?case by simp
next
  case (Suc k)
  define mc' where "mc' = (if page_mapcount env then folio_precise_page_mapcount env folio page else mc)"
  define ex' where "ex' = (if page_mapcount env then mc' < 2 else ex)"
  define p :: u64 where "p = (if 2 \<le> mc' then push_bit 12 0x1000 div of_int mc' else push_bit 12 0x1000)"
  have "unat p \<le> 4096 * unat (0x1000 :: u64)"
    by (auto simp: p_def unat_div intro: order_trans [OF div_le_dividend])
  then have "view_within (n + 1) (smaps_page_accumulate env mss folio 0x1000 p dirty locked ex)" for ex
    using Suc.prems by (intro accumulate_within) auto
  moreover have "account_pages env folio (Suc k) page dirty locked mc ex mss =
      account_pages env folio k (page + 64) dirty locked mc' ex' (smaps_page_accumulate env mss folio 0x1000 p dirty locked ex')"
    unfolding account_pages.simps Let_def mc'_def p_def ex'_def by (rule refl)
  ultimately show ?case
    using Suc.IH [of "n + 1"] Suc.prems(2) by simp
qed

lemma account_size_within:
  assumes "sizes_within n mss" and "n + k < 2 ^ 40" and "unat sz = 4096 * k"
  shows "sizes_within (n + k) (account_size env mss folio sz young dirty)"
proof -
  have add: "unat (x + sz) = unat x + unat sz" if "unat x \<le> unat (resident mss)" for x
    using that assms by (intro unat_add_small) (simp add: sizes_within_def)
  show ?thesis
    using assms by (auto simp: sizes_within_def account_size_def Let_def add)
qed

text \<open>How many pages one entry or one huge page adds at most.\<close>

lemma account_within:
  assumes "mss_sum mss" "view_within n mss" "sizes_within n mss"
    and "n + k < 2 ^ 40" and k: "k = (if compound then compound_nr env page else 1)"
  shows "view_within (n + k) (smaps_account env mss page compound young dirty locked present)"
    and "sizes_within (n + k) (smaps_account env mss page compound young dirty locked present)"
proof -
  have sz: "unat (of_nat k * 0x1000 :: u64) = 4096 * k"
    using unat_of_nat_small [of "4096 * k"] assms(4) by (simp add: mult.commute)
  then have shift: "unat (push_bit 12 (of_nat k * 0x1000 :: u64)) = 4096 * unat (of_nat k * 0x1000 :: u64)"
  proof -
    have "push_bit 12 (of_nat k * 0x1000) = (of_nat (16777216 * k) :: u64)"
      by (simp add: push_bit_eq_mult mult.commute)
    then show ?thesis using sz unat_of_nat_small [of "16777216 * k"] assms(4) by simp
  qed
  let ?charged = "account_size env mss (page_folio env page) (of_nat k * 0x1000) young dirty"
  have v: "view_within n ?charged" using assms(2) by (simp add: view_within_def account_size_view)
  have s: "sizes_within (n + k) ?charged" using assms(3,4) sz by (rule account_size_within)
  have "sizes_within (n + k) mss'" if "sizes mss' = sizes ?charged" for mss'
    using s that by (simp add: sizes_within_def sizes_def)
  then show "sizes_within (n + k) (smaps_account env mss page compound young dirty locked present)"
    by (simp add: smaps_account_def k [symmetric] Let_def accumulate_view(6) account_pages_view(3) del: account_pages.simps)
  show "view_within (n + k) (smaps_account env mss page compound young dirty locked present)"
    using accumulate_within [OF v assms(4) sz eq_refl [OF shift]] account_pages_within [OF v assms(4)]
    by (simp add: smaps_account_def k [symmetric] Let_def del: account_pages.simps)
qed

definition mss_within :: "nat \<Rightarrow> mem_size_stats \<Rightarrow> bool" where
  "mss_within n mss \<longleftrightarrow> mss_sum mss \<and> view_within n mss \<and> sizes_within n mss"

lemma within_mono: "mss_within n mss \<Longrightarrow> n \<le> m \<Longrightarrow> mss_within m mss"
  by (auto simp: mss_within_def view_within_def sizes_within_def)

lemma account_mss_within:
  assumes "mss_within n mss" and "n + (if compound then compound_nr env page else 1) < 2 ^ 40"
  shows "mss_within (n + (if compound then compound_nr env page else 1))
      (smaps_account env mss page compound young dirty locked present)"
  using assms account_within [of mss n _ compound env page] account_sum [of mss] unfolding mss_within_def by auto

lemma within_unchanged:
  "mss_within n (mss\<lparr>swap := a\<rparr>) = mss_within n mss" "mss_within n (mss\<lparr>swap_pss := a\<rparr>) = mss_within n mss"
  "mss_within n (mss\<lparr>anonymous_thp := a\<rparr>) = mss_within n mss" "mss_within n (mss\<lparr>shmem_thp := a\<rparr>) = mss_within n mss"
  "mss_within n (mss\<lparr>file_thp := a\<rparr>) = mss_within n mss" "mss_within n (mss\<lparr>shared_hugetlb := a\<rparr>) = mss_within n mss"
  "mss_within n (mss\<lparr>private_hugetlb := a\<rparr>) = mss_within n mss"
  by (simp_all add: mss_within_def sum_unchanged) (simp_all add: view_within_def sizes_within_def mapped_size_def)

lemma pte_entry_within:
  assumes "mss_within n mss" "n + 1 < 2 ^ 40"
  shows "mss_within (n + 1) (smaps_pte_entry env hole ptent addr mss)"
proof -
  have "mss_within (n + 1) (smaps_account env mss page False young dirty locked present)" for page young dirty locked present
    using account_mss_within [of n mss False env page young dirty locked present] assms by simp
  moreover have "mss_within (n + 1) mss" using assms(1) by (rule within_mono) simp
  ultimately show ?thesis
    by (auto simp: smaps_pte_entry_def smaps_pte_hole_lookup_def smaps_pte_hole_def Let_def within_unchanged
        split: option.split)
qed

lemma pte_entries_within:
  "mss_within n mss \<Longrightarrow> n + k < 2 ^ 40 \<Longrightarrow> mss_within (n + k) (pte_entries env hole ptep_get k pte addr mss)"
proof (induction k arbitrary: n pte addr mss)
  case (Suc k)
  then show ?case using pte_entry_within [of n mss env hole "ptep_get pte" addr] Suc.IH [of "n + 1"] by simp
qed simp

section \<open>An area\<close>

text \<open>\<open>sv_shmem\<close>: the area maps a file of a shared memory file system, of which \<open>sv_shmem_swapped\<close> is swapped out.\<close>

record smap_vma =
  sv_start :: u64
  sv_end :: u64
  sv_flags :: u64
  sv_shmem :: bool
  sv_shmem_swapped :: u64

type_synonym stats_walker = "smap_vma \<Rightarrow> bool \<Rightarrow> u64 \<Rightarrow> u64 \<Rightarrow> mem_size_stats \<Rightarrow> mem_size_stats"

definition smap_gather_stats :: "stats_walker \<Rightarrow> smap_vma \<Rightarrow> mem_size_stats \<Rightarrow> u64 \<Rightarrow> mem_size_stats" where
  "smap_gather_stats walk vma mss start =
    (if start \<ge> sv_end vma then mss else
     let (mss, hole) =
       (if sv_shmem vma then
          (let shmem_swapped = sv_shmem_swapped vma in
           if start = 0 \<and> (shmem_swapped = 0 \<or> sv_flags vma AND 8 \<noteq> 0 \<or> sv_flags vma AND 2 = 0)
           then (mss\<lparr>swap := swap mss + shmem_swapped\<rparr>, False) else (mss, True))
        else (mss, False)) in
     if start = 0 then walk vma hole (sv_start vma) (sv_end vma) mss
     else walk vma hole start (sv_end vma) mss)"

definition no_stats :: mem_size_stats where
  "no_stats = \<lparr>resident = 0, shared_clean = 0, shared_dirty = 0, private_clean = 0, private_dirty = 0, referenced = 0,
     anonymous = 0, lazyfree = 0, anonymous_thp = 0, shmem_thp = 0, file_thp = 0, swap = 0, shared_hugetlb = 0,
     private_hugetlb = 0, ksm = 0, pss = 0, pss_anon = 0, pss_file = 0, pss_shmem = 0, pss_dirty = 0, pss_locked = 0,
     swap_pss = 0\<rparr>"

text \<open>The lines of \<open>__show_smap\<close> in kB, \<open>SEQ_PUT_DEC\<close> dividing by 1024.\<close>

definition show_smap_lines :: "mem_size_stats \<Rightarrow> bool \<Rightarrow> (string \<times> u64) list" where
  "show_smap_lines mss rollup_mode =
    [(''Rss'', drop_bit 10 (resident mss)),
     (''Pss'', drop_bit 10 (drop_bit 12 (pss mss))),
     (''Pss_Dirty'', drop_bit 10 (drop_bit 12 (pss_dirty mss)))] @
    (if rollup_mode then
      [(''Pss_Anon'', drop_bit 10 (drop_bit 12 (pss_anon mss))),
       (''Pss_File'', drop_bit 10 (drop_bit 12 (pss_file mss))),
       (''Pss_Shmem'', drop_bit 10 (drop_bit 12 (pss_shmem mss)))]
     else []) @
    [(''Shared_Clean'', drop_bit 10 (shared_clean mss)),
     (''Shared_Dirty'', drop_bit 10 (shared_dirty mss)),
     (''Private_Clean'', drop_bit 10 (private_clean mss)),
     (''Private_Dirty'', drop_bit 10 (private_dirty mss)),
     (''Referenced'', drop_bit 10 (referenced mss)),
     (''Anonymous'', drop_bit 10 (anonymous mss)),
     (''KSM'', drop_bit 10 (ksm mss)),
     (''LazyFree'', drop_bit 10 (lazyfree mss)),
     (''AnonHugePages'', drop_bit 10 (anonymous_thp mss)),
     (''ShmemPmdMapped'', drop_bit 10 (shmem_thp mss)),
     (''FilePmdMapped'', drop_bit 10 (file_thp mss)),
     (''Shared_Hugetlb'', drop_bit 10 (shared_hugetlb mss)),
     (''Private_Hugetlb'', drop_bit 10 (private_hugetlb mss)),
     (''Swap'', drop_bit 10 (swap mss)),
     (''SwapPss'', drop_bit 10 (drop_bit 12 (swap_pss mss))),
     (''Locked'', drop_bit 10 (drop_bit 12 (pss_locked mss)))]"

section \<open>All areas\<close>

text \<open>
  \<open>rest\<close> are the answers of the calls of \<open>vma_next\<close> to come, after which it answers that there is no
  area; \<open>contended\<close> and \<open>lock\<close> tell for the \<open>k\<close>-th round whether someone waits for the lock and what
  taking it again answers. The result: the return code, \<open>last_vma_end\<close>, the statistics and the trace.
\<close>

fun rollup_loop ::
  "stats_walker \<Rightarrow> u64 \<Rightarrow> (nat \<Rightarrow> bool) \<Rightarrow> (nat \<Rightarrow> int) \<Rightarrow> nat \<Rightarrow> smap_vma list \<Rightarrow> smap_vma \<Rightarrow> mem_size_stats \<Rightarrow>
     int \<times> u64 \<times> mem_size_stats \<times> kevent list" where
  "rollup_loop walk mm contended lock k rest vma mss =
    (let mss = smap_gather_stats walk vma mss 0;
         last_vma_end = sv_end vma in
     if contended k then
       (let ret = lock k in
        if ret \<noteq> 0 then (ret, last_vma_end, mss, [Release (Mmap_lock mm)]) else
        let tr = [Release (Mmap_lock mm), Acquire (Mmap_lock mm)] in
        case rest of
          [] \<Rightarrow> (0, last_vma_end, mss, tr)
        | vma # rest \<Rightarrow>
          let (mss, last_vma_end) =
            (if sv_start vma \<ge> last_vma_end then (smap_gather_stats walk vma mss 0, sv_end vma)
             else if sv_end vma > last_vma_end then (smap_gather_stats walk vma mss last_vma_end, sv_end vma)
             else (mss, last_vma_end)) in
          case rest of
            [] \<Rightarrow> (0, last_vma_end, mss, tr)
          | vma # rest \<Rightarrow>
            let (ret, last_vma_end, mss, tr') = rollup_loop walk mm contended lock (k + 1) rest vma mss in
            (ret, last_vma_end, mss, tr @ tr'))
     else
       case rest of
         [] \<Rightarrow> (0, last_vma_end, mss, [])
       | vma # rest \<Rightarrow> rollup_loop walk mm contended lock (k + 1) rest vma mss)"

declare rollup_loop.simps [simp del]

text \<open>
  What the file depends on: the task and the address space (\<open>None\<close> when there is none), whether the
  address space is still alive, the first answer of the lock and what the loop depends on.
\<close>

record rollup_env =
  ru_task :: "u64 option"
  ru_mm :: "u64 option"
  ru_mmget :: bool
  ru_lock :: int
  ru_vmas :: "smap_vma list"
  ru_contended :: "nat \<Rightarrow> bool"
  ru_relock :: "nat \<Rightarrow> int"

text \<open>The printed range and statistics, when there are any.\<close>

definition show_smaps_rollup ::
  "stats_walker \<Rightarrow> rollup_env \<Rightarrow> int \<times> (u64 \<times> u64 \<times> (string \<times> u64) list) option \<times> kevent list" where
  "show_smaps_rollup walk re =
    (case ru_task re of
       None \<Rightarrow> (-3, None, [])
     | Some task \<Rightarrow>
       let tr = [Acquire (Task_ref task)] in
       case (if ru_mm re \<noteq> None \<and> \<not> ru_mmget re then None else ru_mm re) of
         None \<Rightarrow> (-3, None, tr @ [Release (Task_ref task)])
       | Some mm \<Rightarrow>
         let tr = tr @ [Acquire (Mm_ref mm)];
             done = [Release (Mm_ref mm), Release (Task_ref task)];
             ret = ru_lock re in
         if ret \<noteq> 0 then (ret, None, tr @ done) else
         let tr = tr @ [Acquire (Mmap_lock mm)];
             unlock = Release (Mmap_lock mm) # done in
         case ru_vmas re of
           [] \<Rightarrow> (0, Some (0, 0, show_smap_lines no_stats True), tr @ unlock)
         | vma # rest \<Rightarrow>
           let (ret, last_vma_end, mss, tr') =
             rollup_loop walk mm (ru_contended re) (ru_relock re) 0 rest vma no_stats in
           if ret \<noteq> 0 then (ret, None, tr @ tr' @ done)
           else (ret, Some (sv_start vma, last_vma_end, show_smap_lines mss True), tr @ tr' @ unlock))"

section \<open>What every walk keeps\<close>

text \<open>An invariant of the statistics that a walk over an area and a new swap count keep.\<close>

locale stats_keeper =
  fixes walk :: stats_walker and inv :: "mem_size_stats \<Rightarrow> bool"
  assumes walk_keeps: "inv mss \<Longrightarrow> inv (walk vma hole start end mss)"
    and swap_keeps: "inv mss \<Longrightarrow> inv (mss\<lparr>swap := a\<rparr>)"
begin

lemma gather_keeps: "inv mss \<Longrightarrow> inv (smap_gather_stats walk vma mss start)"
  by (auto simp: smap_gather_stats_def Let_def walk_keeps swap_keeps)

lemma loop_keeps:
  "inv mss \<Longrightarrow> rollup_loop walk mm contended lock k rest vma mss = (ret, last_vma_end, mss', tr) \<Longrightarrow> inv mss'"
proof (induction rest arbitrary: k vma mss ret last_vma_end mss' tr rule: length_induct)
  case (1 rest)
  have g: "inv m \<Longrightarrow> inv (smap_gather_stats walk v m st)" for m v st by (rule gather_keeps)
  have rec: "rollup_loop walk mm contended lock j xs v m = (ret', l', m', tr'') \<Longrightarrow> inv m \<Longrightarrow>
      length xs < length rest \<Longrightarrow> inv m'" for m xs v j ret' l' m' tr''
    using 1(1) by blast
  show ?case
    using 1(2,3) unfolding rollup_loop.simps [of walk mm contended lock k rest vma mss]
    by (auto simp: Let_def split: if_splits list.splits prod.splits intro!: g dest!: rec)
qed

end

section \<open>A walk over page tables\<close>

text \<open>
  The generic page walk over an area, from PMD to PMD: \<open>huge\<close> and \<open>table\<close> give the huge page or the
  table of a PMD by its number, and a PMD with neither is a hole.
\<close>

record stats_tables =
  st_env :: "smap_vma \<Rightarrow> smapsenv"
  st_ptep_get :: "u64 \<Rightarrow> u64"
  st_huge :: "u64 \<Rightarrow> u64 option"
  st_table :: "u64 \<Rightarrow> u64 option"

definition stats_step :: "stats_tables \<Rightarrow> stats_walker" where
  "stats_step st vma hole start end mss =
    (if st_huge st (drop_bit 21 start) = None \<and> st_table st (drop_bit 21 start) = None
     then (if hole then smaps_pte_hole (st_env st vma) start end mss else mss)
     else smaps_pte_range (st_env st vma) hole (st_ptep_get st) (st_huge st (drop_bit 21 start))
       (map_option (\<lambda>pte. pte_pointer (\<lambda>_. pte) start) (st_table st (drop_bit 21 start))) start end mss)"

definition stats_walk :: "stats_tables \<Rightarrow> stats_walker" where
  "stats_walk st vma hole = chunk_walk (stats_step st vma hole)"

lemma stats_step_sum: "mss_sum mss \<Longrightarrow> mss_sum (stats_step st vma hole start end mss)"
  by (simp add: stats_step_def smaps_pte_hole_def sum_unchanged pte_range_sum)

lemma stats_walk_sum: "mss_sum mss \<Longrightarrow> mss_sum (stats_walk st vma hole start end mss)"
  unfolding stats_walk_def by (rule chunk_walk_keeps) (simp_all add: stats_step_sum)

interpretation sums: stats_keeper "stats_walk st" mss_sum for st
  by unfold_locales (simp_all add: stats_walk_sum sum_unchanged)

section \<open>Properties of the rollup\<close>

lemma no_stats_sum: "mss_sum no_stats"
  by (simp add: mss_sum_def no_stats_def mapped_size_def pss_parts_def)

text \<open>
  C25. The totals of \<open>smaps_rollup\<close> add up: whatever the page tables hold, however the pages are shared,
  and however often the lock is lost and areas change in between, the printed statistics are ones in
  which the resident size is the sum of its four classes (shared or private, clean or dirty) and the
  proportional size the sum of its three kinds, as words and before the rounding to kB.
\<close>

theorem smaps_rollup_consistent:
  "case show_smaps_rollup (stats_walk st) re of
     (ret, None, tr) \<Rightarrow> True
   | (ret, Some (start, last_end, lines), tr) \<Rightarrow> ret = 0 \<and> (\<exists>mss. mss_sum mss \<and> lines = show_smap_lines mss True)"
proof -
  have "mss_sum mss" if "rollup_loop (stats_walk st) mm c l 0 rest vma no_stats = (ret, last_end, mss, tr)"
    for mm c l rest vma ret last_end mss tr
    using no_stats_sum that by (rule sums.loop_keeps)
  then show ?thesis
    using no_stats_sum
    by (auto simp: show_smaps_rollup_def Let_def split: option.splits list.splits prod.splits) blast
qed

lemma rollup_trace:
  "rollup_loop walk mm contended lock k rest vma mss = (ret, last_vma_end, mss', tr) \<Longrightarrow>
   mrun nstep (Mmap_lock mm # st) tr = Some (if ret = 0 then Mmap_lock mm # st else st)"
proof (induction rest arbitrary: k vma mss ret last_vma_end mss' tr rule: length_induct)
  case (1 rest)
  have rec: "rollup_loop walk mm contended lock j xs v m = (ret', l', m', tr') \<Longrightarrow> length xs < length rest \<Longrightarrow>
      mrun nstep (Mmap_lock mm # st) tr' = Some (if ret' = 0 then Mmap_lock mm # st else st)" for j xs v m ret' l' m' tr'
    using 1(1) by blast
  show ?case
    using 1(2) unfolding rollup_loop.simps [of walk mm contended lock k rest vma mss]
    by (auto simp: Let_def split: if_splits list.splits prod.splits dest!: rec)
qed

text \<open>
  However \<open>smaps_rollup\<close> ends (no task, no address space, a killed lock at the start or when it is
  taken again, success), for any walk and any pattern of contention: the task, the address space and
  the lock are given back in reverse order, and the statistics are printed exactly on success.
\<close>

theorem smaps_rollup_safe:
  "case show_smaps_rollup walk re of (ret, out, tr) \<Rightarrow> nested tr \<and> (out = None \<longleftrightarrow> ret \<noteq> 0)"
proof -
  have "mrun nstep (Mmap_lock mm # rs) tr = Some (if ret = 0 then Mmap_lock mm # rs else rs)"
    if "rollup_loop walk mm c l 0 rest vma no_stats = (ret, last_end, mss, tr)" for mm c l rest vma ret last_end mss tr rs
    using that by (rule rollup_trace)
  then show ?thesis
    by (auto simp: show_smaps_rollup_def nested_def mrun_append Let_def
        split: option.splits list.splits prod.splits if_splits)
qed

text \<open>In an address space that does not change, losing the lock changes nothing.\<close>

definition areas_in_order :: "smap_vma list \<Rightarrow> bool" where
  "areas_in_order vmas \<longleftrightarrow> successively (\<lambda>v w. sv_end v \<le> sv_start w) vmas"

lemma rollup_all:
  assumes "\<And>j. lock j = 0" and "areas_in_order (vma # rest)"
  shows "\<exists>tr. rollup_loop walk mm contended lock k rest vma mss =
    (0, sv_end (last (vma # rest)), foldl (\<lambda>mss vma. smap_gather_stats walk vma mss 0) mss (vma # rest), tr)"
  using assms(2)
proof (induction rest arbitrary: k vma mss rule: length_induct)
  case (1 rest)
  have rec: "areas_in_order (v # xs) \<Longrightarrow> length xs < length rest \<Longrightarrow>
    \<exists>tr. rollup_loop walk mm contended lock j xs v m =
    (0, sv_end (last (v # xs)), foldl (\<lambda>mss vma. smap_gather_stats walk vma mss 0) m (v # xs), tr)" for j xs v m
    using 1(1) by blast
  show ?case
  proof (cases rest)
    case Nil
    then show ?thesis by (simp add: rollup_loop.simps assms(1) [of k] Let_def)
  next
    case (Cons v xs)
    then have order: "sv_end vma \<le> sv_start v" "areas_in_order (v # xs)" "xs \<noteq> [] \<Longrightarrow> areas_in_order xs"
      using 1(2) by (auto simp: areas_in_order_def successively_Cons)
    show ?thesis
    proof (cases "contended k")
      case False
      then show ?thesis
        using rec [OF order(2), of "k + 1" "smap_gather_stats walk vma mss 0"] Cons
        by (simp add: rollup_loop.simps [of _ _ _ _ k] Let_def)
    next
      case True
      show ?thesis
      proof (cases xs)
        case Nil
        then show ?thesis
          using True order(1) Cons by (simp add: rollup_loop.simps assms(1) [of k] Let_def)
      next
        case xs: (Cons w ys)
        then obtain tr where "rollup_loop walk mm contended lock (k + 1) ys w
            (smap_gather_stats walk v (smap_gather_stats walk vma mss 0) 0) =
          (0, sv_end (last (w # ys)), foldl (\<lambda>mss vma. smap_gather_stats walk vma mss 0)
             (smap_gather_stats walk v (smap_gather_stats walk vma mss 0) 0) (w # ys), tr)"
          using rec [of w ys "k + 1" "smap_gather_stats walk v (smap_gather_stats walk vma mss 0) 0"] order(3) Cons by auto
        then show ?thesis
          using True order(1) Cons xs
          by (simp add: rollup_loop.simps [of _ _ _ _ k] assms(1) [of k] Let_def split: if_splits)
      qed
    qed
  qed
qed

text \<open>
  C17. In an address space that does not change, \<open>smaps_rollup\<close> is the sum over the areas: for any walk,
  any pattern of contention for the lock and any areas in address order, every area is gathered
  exactly once, in order and from its beginning, and the printed range runs from the start of the
  first area to the end of the last.
\<close>

theorem smaps_rollup_exact:
  assumes "ru_task re = Some task" "ru_mm re = Some mm" "ru_mmget re" "ru_lock re = 0"
    and "\<forall>j. ru_relock re j = 0" and "ru_vmas re = vma # rest" and "areas_in_order (vma # rest)"
  shows "\<exists>tr. show_smaps_rollup walk re =
    (0, Some (sv_start vma, sv_end (last (vma # rest)),
       show_smap_lines (foldl (\<lambda>mss vma. smap_gather_stats walk vma mss 0) no_stats (vma # rest)) True), tr)"
proof -
  obtain tr where "rollup_loop walk mm (ru_contended re) (ru_relock re) 0 rest vma no_stats =
      (0, sv_end (last (vma # rest)), foldl (\<lambda>mss vma. smap_gather_stats walk vma mss 0) no_stats (vma # rest), tr)"
    using rollup_all [of "ru_relock re" vma rest] assms(5,7) by blast
  then show ?thesis
    using assms by (simp add: show_smaps_rollup_def Let_def split: if_splits)
qed

section \<open>Properties of an area\<close>

lemma stats_step_within:
  assumes "mss_within n mss" "s < e" "n + unat ((e - s) div 4096) < 2 ^ 40"
    and "st_huge st (drop_bit 21 s) = None"
  shows "mss_within (n + unat ((e - s) div 4096)) (stats_step st vma hole s e mss)"
proof (cases "st_table st (drop_bit 21 s)")
  case None
  have "mss_within (n + unat ((e - s) div 4096)) mss" using assms(1) by (rule within_mono) simp
  then show ?thesis using None assms(4) by (simp add: stats_step_def smaps_pte_hole_def within_unchanged)
next
  case (Some pte)
  then show ?thesis
    using assms pte_entries_within [of n mss] by (simp add: stats_step_def smaps_pte_range_def)
qed

lemma stats_walk_within:
  assumes "mss_within n mss" "k + j < 2 ^ 51" "n + j < 2 ^ 40" and "\<forall>i. st_huge st i = None"
  shows "mss_within (n + j) (stats_walk st vma hole (pg k) (pg (k + j)) mss)"
proof -
  let ?I = "\<lambda>p. mss_within (n + p - k)"
  have "?I (k + j) (chunk_walk (stats_step st vma hole) (pg k) (pg (k + j)) mss)"
  proof (rule chunk_walk_pages)
    fix p m t
    assume *: "?I p t" "k \<le> p" "0 < m" "p + m \<le> k + j"
    then have size: "unat ((pg (p + m) - pg p) div 4096) = m" and lt: "pg p < pg (p + m)"
      using assms(2) pg_diff [of p m] by (simp_all add: pg_less)
    show "?I (p + m) (stats_step st vma hole (pg p) (pg (p + m)) t)"
      using stats_step_within [OF *(1) lt] * assms(3,4) size by (simp add: add.commute add.left_commute)
  qed (use assms(1,2) in simp_all)
  then show ?thesis by (simp add: stats_walk_def)
qed

lemma area_stats_within:
  assumes "sv_start vma = pg k" "sv_end vma = pg (k + j)" "k + j < 2 ^ 51" "j < 2 ^ 40"
    and "\<forall>i. st_huge st i = None"
  shows "mss_within j (smap_gather_stats (stats_walk st) vma no_stats 0)"
proof -
  have zero: "mss_within 0 (no_stats\<lparr>swap := a\<rparr>)" for a
    unfolding within_unchanged
    by (simp add: mss_within_def mss_sum_def view_within_def sizes_within_def no_stats_def mapped_size_def pss_parts_def)
  from stats_walk_within [OF zero, of k j st] have
    walk: "mss_within j (stats_walk st vma hole (pg k) (pg (k + j)) (no_stats\<lparr>swap := a\<rparr>))" for hole a
    using assms(3-5) by simp
  have "mss_within j no_stats" using within_mono [OF zero [of "swap no_stats"], of j] by simp
  moreover have "mss_within j (stats_walk st vma hole (pg k) (pg (k + j)) no_stats)" for hole
    using walk [of hole "swap no_stats"] by simp
  ultimately show ?thesis
    using walk by (simp add: smap_gather_stats_def Let_def assms(1,2))
qed

text \<open>
  The sizes of an area bound each other: after gathering the statistics of an area of \<open>j\<close> pages
  mapped by page tables, no counter has wrapped; the resident size is at most the area, the
  proportional size, its dirty and its locked part at most the resident size, and anonymous, lazily
  freeable, referenced and merged memory lie within it.
\<close>

theorem smaps_area_bounds:
  assumes "sv_start vma = pg k" "sv_end vma = pg (k + j)" "k + j < 2 ^ 51" "j < 2 ^ 40"
    and "\<forall>i. st_huge st i = None"
  shows "let mss = smap_gather_stats (stats_walk st) vma no_stats 0 in
    unat (resident mss) \<le> 4096 * j \<and> unat (pss mss) \<le> 4096 * unat (resident mss) \<and>
    pss_dirty mss \<le> pss mss \<and> pss_locked mss \<le> pss mss \<and> anonymous mss \<le> resident mss \<and>
    lazyfree mss \<le> anonymous mss \<and> referenced mss \<le> resident mss \<and> ksm mss \<le> resident mss"
  using area_stats_within [OF assms]
  unfolding Let_def mss_within_def view_within_def sizes_within_def mss_sum_def word_le_nat_alt by metis

section \<open>Examples\<close>

text \<open>
  Two neighbouring areas of one page each, whose page-table entries map a page shared by three and a
  page mapped once, in a process that loses the lock after the first area.
\<close>

definition shared_env :: smapsenv where
  "shared_env = pmenv.extend (plain_env\<lparr>vm_normal_page := \<lambda>_ pte. Some (pte AND 0xFF000)\<rparr>)
     \<lparr>page_folio = id, folio_test_anon = \<lambda>_. True, folio_test_swapbacked = \<lambda>_. True, folio_test_dirty = \<lambda>_. False,
      folio_test_ksm = \<lambda>_. False, folio_test_young = \<lambda>_. False, folio_test_referenced = \<lambda>_. False,
      folio_is_zone_device = \<lambda>_. False, folio_ref_count = \<lambda>_. 3, folio_maybe_mapped_shared = \<lambda>_. True,
      folio_average_page_mapcount = \<lambda>_. 1, folio_precise_page_mapcount = \<lambda>_ page. if page = 0x45000 then 3 else 1,
      page_mapcount = True, compound_nr = \<lambda>_. 1, softleaf_is_swap = \<lambda>_. False,
      softleaf_is_device_private = \<lambda>_. False, swp_swapcount = \<lambda>_. 0, normal_page_pmd = \<lambda>_ _. None,
      thp_migration_supported = False, vm_locked = False, shmem_partial_swap_usage = \<lambda>_ _. 0,
      huge_page_size = 0x200000, page_of_pte = id\<rparr>"

definition two_tables :: stats_tables where
  "two_tables = \<lparr>st_env = \<lambda>_. shared_env, st_ptep_get = \<lambda>pte. if pte = 0x9008 then 0x45067 else 0x46025,
     st_huge = \<lambda>_. None, st_table = \<lambda>_. Some 0x9000\<rparr>"

definition area :: "u64 \<Rightarrow> smap_vma" where
  "area i = \<lparr>sv_start = i * 0x1000, sv_end = i * 0x1000 + 0x1000, sv_flags = 3, sv_shmem = False, sv_shmem_swapped = 0\<rparr>"

definition two_areas :: rollup_env where
  "two_areas = \<lparr>ru_task = Some 0x100, ru_mm = Some 0x200, ru_mmget = True, ru_lock = 0, ru_vmas = [area 1, area 2],
     ru_contended = \<lambda>k. k = 0, ru_relock = \<lambda>_. 0\<rparr>"

theorem smaps_rollup_exact_witness:
  "\<exists>tr. show_smaps_rollup (stats_walk two_tables) two_areas =
    (0, Some (0x1000, 0x3000,
       show_smap_lines (smap_gather_stats (stats_walk two_tables) (area 2)
         (smap_gather_stats (stats_walk two_tables) (area 1) no_stats 0) 0) True), tr)"
  using smaps_rollup_exact [of two_areas "0x100" "0x200" "area 1" "[area 2]" "stats_walk two_tables"]
  by (simp add: two_areas_def areas_in_order_def) (simp add: area_def)

theorem smaps_area_bounds_witness:
  "let mss = smap_gather_stats (stats_walk two_tables) (area 1) no_stats 0 in
    unat (resident mss) \<le> 4096 \<and> unat (pss mss) \<le> 4096 * unat (resident mss) \<and> pss_dirty mss \<le> pss mss"
  using smaps_area_bounds [of "area 1" 1 1 two_tables]
  by (simp add: two_tables_def area_def pg_def Let_def)

text \<open>The first area: one dirty anonymous page, resident in full, a third of it proportional.\<close>

lemma area_1_stats:
  "let mss = smap_gather_stats (stats_walk two_tables) (area 1) no_stats 0 in
   resident mss = 0x1000 \<and> shared_dirty mss = 0x1000 \<and> pss mss = 0x555555 \<and> pss_dirty mss = 0x555555 \<and>
   anonymous mss = 0x1000 \<and> referenced mss = 0x1000"
  by (simp add: smap_gather_stats_def two_tables_def area_def stats_walk_def chunk_walk.simps stats_step_def chunk_end_def
      smaps_pte_range_def smaps_pte_entry_def shared_env_def pmenv.defs plain_env_def pte_pointer_def pte_present_def
      pte_flags_def pte_young_def pte_dirty_def smaps_account_def account_size_def smaps_page_accumulate_def
      no_stats_def Let_def)

end
