(* ===== verification/Maps.thy ===== *)
theory Maps
  imports Kernel_Trace
begin

text \<open>
  Reading \<open>/proc/<pid>/maps\<close> and \<open>smaps\<close>: the iteration over the areas of a task in
  \<open>mapping_field_decode/task_mmu.c\<close> with its locks (each area's own lock under RCU, with the lock of the
  address space as fallback), its position and its restarts, and the line printed for an area.
  Looking an area up by address is kernel code outside the file: the first area that ends after it.
\<close>

unbundle bit_operations_syntax

section \<open>Areas\<close>

text \<open>
  \<open>mv_file\<close>: page offset, device, inode and path of the mapped file. The names are those the area, its
  operations or the architecture give it, if any.
\<close>

record map_file =
  mf_pgoff :: u64
  mf_dev :: u32
  mf_ino :: u64
  mf_path :: string

record map_vma =
  mv_start :: u64
  mv_end :: u64
  mv_flags :: u64
  mv_file :: "map_file option"
  mv_has_mm :: bool
  mv_anon_name :: "string option"
  mv_ops_name :: "string option"
  mv_arch_name :: "string option"
  mv_heap :: bool
  mv_stack :: bool

definition find_vma :: "map_vma list \<Rightarrow> u64 \<Rightarrow> map_vma option" where
  "find_vma vmas addr = find (\<lambda>v. addr < mv_end v) vmas"

text \<open>The path, the name and the format of the name.\<close>

definition get_vma_name :: "map_vma \<Rightarrow> string option \<times> string option \<times> string option" where
  "get_vma_name vma =
    (let anon_name = (if mv_has_mm vma then mv_anon_name vma else None) in
     case mv_file vma of
       Some file \<Rightarrow>
         (case anon_name of
            Some name \<Rightarrow> (None, Some name, Some ''[anon_shmem:%s]'')
          | None \<Rightarrow> (Some (mf_path file), None, None))
     | None \<Rightarrow>
         (case mv_ops_name vma of
            Some name \<Rightarrow> (None, Some name, None)
          | None \<Rightarrow>
            (case mv_arch_name vma of
               Some name \<Rightarrow> (None, Some name, None)
             | None \<Rightarrow>
               if \<not> mv_has_mm vma then (None, Some ''[vdso]'', None) else
               if mv_heap vma then (None, Some ''[heap]'', None) else
               if mv_stack vma then (None, Some ''[stack]'', None) else
               (case anon_name of
                  Some name \<Rightarrow> (None, Some name, Some ''[anon:%s]'')
                | None \<Rightarrow> (None, None, None)))))"

text \<open>The line of an area: its range, permissions, offset, device, inode and name.\<close>

datatype map_line = Map_line u64 u64 string u64 u32 u32 u64 "string option"

definition perm_string :: "u64 \<Rightarrow> string" where
  "perm_string flags =
    [if flags AND 1 \<noteq> 0 then CHR ''r'' else CHR ''-'',
     if flags AND 2 \<noteq> 0 then CHR ''w'' else CHR ''-'',
     if flags AND 4 \<noteq> 0 then CHR ''x'' else CHR ''-'',
     if flags AND 0x80 \<noteq> 0 then CHR ''s'' else CHR ''p'']"

definition show_vma_header_prefix :: "u64 \<Rightarrow> u64 \<Rightarrow> u64 \<Rightarrow> u64 \<Rightarrow> u32 \<Rightarrow> u64 \<Rightarrow> string option \<Rightarrow> map_line" where
  "show_vma_header_prefix start end flags pgoff dev ino =
    Map_line start end (perm_string flags) pgoff (drop_bit 20 dev) (dev AND 0xFFFFF) ino"

text \<open>\<open>printf\<close> of a format with one \<open>%s\<close>.\<close>

fun put_name :: "string \<Rightarrow> string \<Rightarrow> string" where
  "put_name (c # d # fmt) name = (if c = CHR ''%'' \<and> d = CHR ''s'' then name @ fmt else c # put_name (d # fmt) name)"
| "put_name fmt name = fmt"

definition show_map_vma :: "map_vma \<Rightarrow> map_line" where
  "show_map_vma vma =
    (let (pgoff, dev, ino) =
       (case mv_file vma of
          None \<Rightarrow> (0, 0, 0)
        | Some file \<Rightarrow> (push_bit 12 (mf_pgoff file), mf_dev file, mf_ino file));
         (path, name, name_fmt) = get_vma_name vma in
     show_vma_header_prefix (mv_start vma) (mv_end vma) (mv_flags vma) pgoff dev ino
       (case path of
          Some p \<Rightarrow> Some p
        | None \<Rightarrow>
          (case name_fmt of
             Some fmt \<Rightarrow> Some (put_name fmt (case name of None \<Rightarrow> ''(null)'' | Some n \<Rightarrow> n))
           | None \<Rightarrow> name)))"

section \<open>The iteration\<close>

text \<open>
  The lock context and the iterator of an open file: \<open>mp_iter\<close> is the address the iterator stands at,
  \<open>mp_calls\<close> numbers the lookups.
\<close>

record maps_priv =
  mp_task :: "u64 option"
  mp_locked :: bool
  mp_vma :: "map_vma option"
  mp_iter :: u64
  mp_last :: int
  mp_calls :: nat
  mp_policy :: "u64 option"

text \<open>
  What the iteration depends on: the areas at the \<open>k\<close>-th lookup, what locking an area answers then
  (\<open>Some\<close> an error), the task, the address space, whether the file is \<open>smaps\<close> and the answer of the
  lock of the address space, the gate area, and the memory policy of the task (none without
  \<open>CONFIG_NUMA\<close>).
\<close>

record maps_env =
  me_task :: "u64 option"
  me_mm :: "u64 option"
  me_mmget :: bool
  me_smaps :: bool
  me_lock :: int
  me_vmas :: "nat \<Rightarrow> map_vma list"
  me_fail :: "nat \<Rightarrow> int option"
  me_gate :: "map_vma option"
  me_policy :: "u64 option"

definition SENTINEL_VMA_END :: int where "SENTINEL_VMA_END = -1"
definition SENTINEL_VMA_GATE :: int where "SENTINEL_VMA_GATE = -2"

definition reset_lock_ctx :: "maps_priv \<Rightarrow> maps_priv" where
  "reset_lock_ctx priv = priv\<lparr>mp_vma := None, mp_locked := False\<rparr>"

definition unlock_ctx_vma :: "maps_priv \<Rightarrow> maps_priv \<times> kevent list" where
  "unlock_ctx_vma priv =
    (case mp_vma priv of
       None \<Rightarrow> (priv, [])
     | Some vma \<Rightarrow> (priv\<lparr>mp_vma := None\<rparr>, [Release (Vma_lock (mv_start vma))]))"

definition lock_vma_range :: "maps_env \<Rightarrow> u64 \<Rightarrow> maps_priv \<Rightarrow> bool \<times> maps_priv \<times> kevent list" where
  "lock_vma_range env mm priv =
    (if me_smaps env then
       (if me_lock env \<noteq> 0 then (False, priv, [])
        else (True, priv\<lparr>mp_locked := True\<rparr>, [Acquire (Mmap_lock mm)]))
     else (True, reset_lock_ctx priv, [Acquire Rcu]))"

definition unlock_vma_range :: "u64 \<Rightarrow> maps_priv \<Rightarrow> maps_priv \<times> kevent list" where
  "unlock_vma_range mm priv =
    (if mp_locked priv then (priv, [Release (Mmap_lock mm)])
     else let (priv, tr) = unlock_ctx_vma priv in (priv, tr @ [Release Rcu]))"

text \<open>The next area from the iterator, an error or none.\<close>

definition iter_next :: "maps_env \<Rightarrow> maps_priv \<Rightarrow> map_vma option \<times> maps_priv" where
  "iter_next env priv =
    (let vma = find_vma (me_vmas env (mp_calls priv)) (mp_iter priv);
         priv = priv\<lparr>mp_calls := mp_calls priv + 1\<rparr> in
     (vma, case vma of None \<Rightarrow> priv | Some v \<Rightarrow> priv\<lparr>mp_iter := mv_end v\<rparr>))"

definition get_next_vma :: "maps_env \<Rightarrow> maps_priv \<Rightarrow> (int + map_vma option) \<times> maps_priv \<times> kevent list" where
  "get_next_vma env priv =
    (if mp_locked priv then (let (vma, priv) = iter_next env priv in (Inr vma, priv, []))
     else
       let (priv, tr) = unlock_ctx_vma priv in
       case me_fail env (mp_calls priv) of
         Some err \<Rightarrow> (Inl err, priv\<lparr>mp_calls := mp_calls priv + 1\<rparr>, tr)
       | None \<Rightarrow>
         let (vma, priv) = iter_next env priv in
         (case vma of
            None \<Rightarrow> (Inr None, priv, tr)
          | Some v \<Rightarrow> (Inr (Some v), priv\<lparr>mp_vma := Some v\<rparr>, tr @ [Acquire (Vma_lock (mv_start v))])))"

definition fallback_to_mmap_lock :: "u64 \<Rightarrow> maps_priv \<Rightarrow> int \<Rightarrow> bool \<times> maps_priv \<times> kevent list" where
  "fallback_to_mmap_lock mm priv pos =
    (if mp_locked priv then (False, priv, [])
     else (True, priv\<lparr>mp_iter := of_int pos, mp_locked := True\<rparr>, [Release Rcu, Acquire (Mmap_lock mm)]))"

text \<open>
  An error, or the area (none at the end). The retry happens at most once: after it the lock of the
  address space is held and the lookup cannot fail.
\<close>

definition found_vma ::
  "maps_env \<Rightarrow> map_vma option \<Rightarrow> maps_priv \<Rightarrow> int \<Rightarrow> (int + map_vma option) \<times> maps_priv \<times> int" where
  "found_vma env vma priv ppos =
    (let priv = priv\<lparr>mp_last := ppos\<rparr> in
     case vma of
       Some v \<Rightarrow> (Inr (Some v), priv, uint (mv_end v))
     | None \<Rightarrow> (Inr (me_gate env), priv, SENTINEL_VMA_GATE))"

definition proc_get_vma ::
  "maps_env \<Rightarrow> u64 \<Rightarrow> maps_priv \<Rightarrow> int \<Rightarrow> (int + map_vma option) \<times> maps_priv \<times> int \<times> kevent list" where
  "proc_get_vma env mm priv ppos =
    (case get_next_vma env priv of
       (Inl err, priv, tr) \<Rightarrow>
         let (again, priv', tr') = (if err = -11 then fallback_to_mmap_lock mm priv ppos else (False, priv, [])) in
         if again then
           (let (vma, priv) = iter_next env priv'; (r, priv, ppos) = found_vma env vma priv ppos in
            (r, priv, ppos, tr @ tr'))
         else (Inl err, priv, ppos, tr)
     | (Inr vma, priv, tr) \<Rightarrow>
         let (r, priv, ppos) = found_vma env vma priv ppos in (r, priv, ppos, tr))"

text \<open>The memory policy of the task, which \<open>numa_maps\<close> prints, is held from start to stop.\<close>

definition policy_trace :: "(kres \<Rightarrow> kevent) \<Rightarrow> u64 option \<Rightarrow> kevent list" where
  "policy_trace ev policy = (case policy of None \<Rightarrow> [] | Some p \<Rightarrow> [ev (Policy_ref p)])"

definition hold_task_mempolicy :: "maps_env \<Rightarrow> maps_priv \<Rightarrow> maps_priv \<times> kevent list" where
  "hold_task_mempolicy env priv = (priv\<lparr>mp_policy := me_policy env\<rparr>, policy_trace Acquire (me_policy env))"

definition release_task_mempolicy :: "maps_priv \<Rightarrow> kevent list" where
  "release_task_mempolicy priv = policy_trace Release (mp_policy priv)"

definition m_start ::
  "maps_env \<Rightarrow> maps_priv \<Rightarrow> int \<Rightarrow> (int + map_vma option) \<times> maps_priv \<times> int \<times> kevent list" where
  "m_start env priv ppos =
    (let last_addr = ppos in
     if last_addr = SENTINEL_VMA_END then (Inr None, priv, ppos, []) else
     let priv = priv\<lparr>mp_task := me_task env\<rparr> in
     case mp_task priv of
       None \<Rightarrow> (Inl (-3), priv, ppos, [])
     | Some task \<Rightarrow>
       let tr = [Acquire (Task_ref task)] in
       case (if me_mm env \<noteq> None \<and> \<not> me_mmget env then None else me_mm env) of
         None \<Rightarrow> (Inr None, priv\<lparr>mp_task := None\<rparr>, ppos, tr @ [Release (Task_ref task)])
       | Some mm \<Rightarrow>
         let tr = tr @ [Acquire (Mm_ref mm)];
             (ok, priv, tr') = lock_vma_range env mm priv in
         if \<not> ok
         then (Inl (-4), priv\<lparr>mp_task := None\<rparr>, ppos, tr @ tr' @ [Release (Mm_ref mm), Release (Task_ref task)])
         else
           let (ppos, last_addr) = (if last_addr > 0 then (mp_last priv, mp_last priv) else (ppos, last_addr));
               priv = priv\<lparr>mp_iter := of_int last_addr\<rparr>;
               (priv, hold) = hold_task_mempolicy env priv;
               tr = tr @ tr' @ hold in
           if last_addr = SENTINEL_VMA_GATE then (Inr (me_gate env), priv, ppos, tr)
           else
             let (r, priv, ppos, tr') = proc_get_vma env mm priv ppos in (r, priv, ppos, tr @ tr'))"

definition m_next ::
  "maps_env \<Rightarrow> u64 \<Rightarrow> maps_priv \<Rightarrow> int \<Rightarrow> (int + map_vma option) \<times> maps_priv \<times> int \<times> kevent list" where
  "m_next env mm priv ppos =
    (if ppos = SENTINEL_VMA_GATE then (Inr None, priv, SENTINEL_VMA_END, [])
     else proc_get_vma env mm priv ppos)"

definition m_stop :: "u64 \<Rightarrow> maps_priv \<Rightarrow> maps_priv \<times> kevent list" where
  "m_stop mm priv =
    (case mp_task priv of
       None \<Rightarrow> (priv, [])
     | Some task \<Rightarrow>
       let drop = release_task_mempolicy priv;
           (priv, tr) = unlock_vma_range mm priv in
       (priv\<lparr>mp_task := None\<rparr>, drop @ tr @ [Release (Mm_ref mm), Release (Task_ref task)]))"

section \<open>Passes of a reader\<close>

text \<open>
  The protocol of the sequence file: a pass starts at the saved position, shows items and advances until
  its buffer is full after \<open>n\<close> of them or the iteration ends, and stops. What is pending then is the
  first item of the next pass.
\<close>

fun seq_nexts ::
  "maps_env \<Rightarrow> u64 \<Rightarrow> nat \<Rightarrow> (int + map_vma option) \<times> maps_priv \<times> int \<Rightarrow> map_vma list \<times> maps_priv \<times> int \<times> kevent list" where
  "seq_nexts env mm (Suc n) (Inr (Some vma), priv, ppos) =
    (let (r, priv, ppos, tr) = m_next env mm priv ppos;
         (items, priv, ppos, tr') = seq_nexts env mm n (r, priv, ppos) in
     (vma # items, priv, ppos, tr @ tr'))"
| "seq_nexts env mm n (r, priv, ppos) = ([], priv, ppos, [])"

definition seq_pass :: "maps_env \<Rightarrow> u64 \<Rightarrow> nat \<Rightarrow> maps_priv \<Rightarrow> int \<Rightarrow> map_vma list \<times> maps_priv \<times> int \<times> kevent list" where
  "seq_pass env mm n priv ppos =
    (let (r, priv, ppos, tr) = m_start env priv ppos;
         (items, priv, ppos, tr') = seq_nexts env mm n (r, priv, ppos);
         (priv, tr'') = m_stop mm priv in
     (items, priv, ppos, tr @ tr' @ tr''))"

fun seq_passes :: "maps_env \<Rightarrow> u64 \<Rightarrow> nat list \<Rightarrow> maps_priv \<Rightarrow> int \<Rightarrow> map_vma list" where
  "seq_passes env mm [] priv ppos = []"
| "seq_passes env mm (n # ns) priv ppos =
    (let (items, priv, ppos, tr) = seq_pass env mm n priv ppos in items @ seq_passes env mm ns priv ppos)"

section \<open>Locks\<close>

text \<open>What is held between two operations.\<close>

definition lock_held :: "u64 \<Rightarrow> maps_priv \<Rightarrow> kres multiset" where
  "lock_held mm priv =
    (if mp_locked priv then {#Mmap_lock mm#}
     else (case mp_vma priv of None \<Rightarrow> {#} | Some vma \<Rightarrow> {#Vma_lock (mv_start vma)#}) + {#Rcu#})"

definition policy_held :: "u64 option \<Rightarrow> kres multiset" where
  "policy_held policy = (case policy of None \<Rightarrow> {#} | Some p \<Rightarrow> {#Policy_ref p#})"

definition seq_held :: "u64 \<Rightarrow> maps_priv \<Rightarrow> kres multiset" where
  "seq_held mm priv = (case mp_task priv of None \<Rightarrow> {#}
     | Some task \<Rightarrow> lock_held mm priv + policy_held (mp_policy priv) + {#Mm_ref mm, Task_ref task#})"

lemma policy_run:
  "mrun rstep h (policy_trace Acquire policy) = Some (h + policy_held policy)"
  "mrun rstep (h + policy_held policy) (policy_trace Release policy) = Some h"
  by (simp_all add: policy_trace_def policy_held_def split: option.split)

lemma found_vma_ctx:
  "found_vma env vma priv ppos = (r, priv', ppos') \<Longrightarrow>
   mp_task priv' = mp_task priv \<and> mp_locked priv' = mp_locked priv \<and> mp_vma priv' = mp_vma priv \<and>
   mp_policy priv' = mp_policy priv"
  by (auto simp: found_vma_def Let_def split: option.splits)

lemma iter_next_ctx:
  "iter_next env priv = (vma, priv') \<Longrightarrow>
   mp_task priv' = mp_task priv \<and> mp_locked priv' = mp_locked priv \<and> mp_vma priv' = mp_vma priv \<and> mp_last priv' = mp_last priv \<and>
   mp_policy priv' = mp_policy priv"
  by (auto simp: iter_next_def Let_def split: option.splits)

lemma get_next_vma_trace:
  "get_next_vma env priv = (r, priv', tr) \<Longrightarrow>
   mrun rstep (lock_held mm priv + h) tr = Some (lock_held mm priv' + h) \<and> mp_task priv' = mp_task priv \<and>
   mp_policy priv' = mp_policy priv \<and>
   (if \<exists>err. r = Inl err then mp_vma priv' = None \<and> \<not> mp_locked priv' else True)"
  by (auto simp: get_next_vma_def unlock_ctx_vma_def lock_held_def Let_def dest!: iter_next_ctx
      split: if_splits option.splits prod.splits)

lemma proc_get_vma_trace:
  assumes "proc_get_vma env mm priv ppos = (r, priv', ppos', tr)"
  shows "mrun rstep (lock_held mm priv + h) tr = Some (lock_held mm priv' + h) \<and> mp_task priv' = mp_task priv \<and>
   mp_policy priv' = mp_policy priv"
proof -
  obtain r1 p1 t1 where get: "get_next_vma env priv = (r1, p1, t1)" by (metis prod_cases3)
  have g: "mrun rstep (lock_held mm priv + h) t1 = Some (lock_held mm p1 + h)" "mp_task p1 = mp_task priv"
    "mp_policy p1 = mp_policy priv"
    and err: "r1 = Inl e \<Longrightarrow> mp_vma p1 = None \<and> \<not> mp_locked p1" for e
    using get_next_vma_trace [OF get, of mm h] by auto
  have same: "lock_held mm q' = lock_held mm q" if "mp_locked q' = mp_locked q" "mp_vma q' = mp_vma q" for q' q
    using that by (simp add: lock_held_def)
  show ?thesis
  proof (cases r1)
    case (Inr vma)
    then show ?thesis
      using assms get g by (auto simp: proc_get_vma_def Let_def split: prod.splits dest!: found_vma_ctx intro: same)
  next
    case (Inl e)
    show ?thesis
    proof (cases "e = -11")
      case False
      then show ?thesis using assms get g Inl by (auto simp: proc_get_vma_def)
    next
      case True
      let ?p = "p1\<lparr>mp_iter := of_int ppos, mp_locked := True\<rparr>"
      obtain vma p2 where nxt: "iter_next env ?p = (vma, p2)" by fastforce
      obtain r3 p3 pos3 where found: "found_vma env vma p2 ppos = (r3, p3, pos3)" by (metis prod_cases3)
      have "priv' = p3" "tr = t1 @ [Release Rcu, Acquire (Mmap_lock mm)]"
        using assms get Inl True nxt found err [OF Inl]
        by (auto simp: proc_get_vma_def fallback_to_mmap_lock_def Let_def)
      moreover have "mp_locked p3" "mp_task p3 = mp_task p1" "mp_policy p3 = mp_policy p1"
        using iter_next_ctx [OF nxt] found_vma_ctx [OF found] by simp_all
      ultimately show ?thesis
        using g err [OF Inl] by (simp add: mrun_append lock_held_def)
    qed
  qed
qed

lemma m_next_trace:
  assumes "m_next env mm priv ppos = (r, priv', ppos', tr)" and "mp_task priv = Some task"
  shows "mrun rstep (seq_held mm priv) tr = Some (seq_held mm priv') \<and> mp_task priv' = Some task"
  using assms proc_get_vma_trace [of env mm priv ppos r priv' ppos' tr "policy_held (mp_policy priv) + {#Mm_ref mm, Task_ref task#}"]
  by (auto simp: m_next_def seq_held_def add.assoc split: if_splits)

lemma lock_vma_range_trace:
  assumes "lock_vma_range env mm priv = (ok, priv', tr)"
  shows "mrun rstep h tr = Some ((if ok then lock_held mm priv' else {#}) + h) \<and> mp_task priv' = mp_task priv"
  using assms by (auto simp: lock_vma_range_def reset_lock_ctx_def lock_held_def split: if_splits)

lemma m_start_locked:
  assumes "ppos \<noteq> SENTINEL_VMA_END" "me_task env = Some task" "me_mm env = Some mm" "me_mmget env"
    and "lock_vma_range env mm (priv\<lparr>mp_task := Some task\<rparr>) = (True, p1, t1)"
  defines "pos \<equiv> if ppos > 0 then mp_last p1 else ppos"
    and "begun \<equiv> [Acquire (Task_ref task), Acquire (Mm_ref mm)] @ t1 @ policy_trace Acquire (me_policy env)"
  shows "m_start env priv ppos =
      (if pos = SENTINEL_VMA_GATE then (Inr (me_gate env), p1\<lparr>mp_iter := of_int pos, mp_policy := me_policy env\<rparr>, pos, begun)
       else let (r, priv, ppos, tr') = proc_get_vma env mm (p1\<lparr>mp_iter := of_int pos, mp_policy := me_policy env\<rparr>) pos in
         (r, priv, ppos, begun @ tr'))"
  using assms(1-5)
  by (simp add: m_start_def pos_def begun_def hold_task_mempolicy_def Let_def split: prod.splits)

lemma m_start_trace:
  assumes "m_start env priv ppos = (r, priv', ppos', tr)" and "mp_task priv = None"
  shows "mp_task priv' = None \<and> mrun rstep {#} tr = Some {#} \<and> (\<nexists>v. r = Inr (Some v)) \<or>
    (\<exists>mm task. me_mm env = Some mm \<and> mp_task priv' = Some task \<and> mrun rstep {#} tr = Some (seq_held mm priv'))"
proof -
  let ?priv = "priv\<lparr>mp_task := me_task env\<rparr>"
  show ?thesis
  proof (cases "ppos = SENTINEL_VMA_END \<or> me_task env = None \<or> me_mm env = None \<or> \<not> me_mmget env")
    case True
    then show ?thesis using assms by (auto simp: m_start_def Let_def split: option.splits if_splits)
  next
    case False
    then obtain task mm where some: "me_task env = Some task" "me_mm env = Some mm" by auto
    obtain ok p1 t1 where lock: "lock_vma_range env mm ?priv = (ok, p1, t1)" by (metis prod_cases3)
    note l = lock_vma_range_trace [OF lock]
    show ?thesis
    proof (cases ok)
      case False
      then show ?thesis
        using assms some lock l [of "{#Mm_ref mm, Task_ref task#}"] \<open>\<not> (ppos = SENTINEL_VMA_END \<or> _)\<close>
        by (auto simp: m_start_def Let_def mrun_append add_mset_commute)
    next
      case True
      define pos where "pos = (if ppos > 0 then mp_last p1 else ppos)"
      define begun where "begun = [Acquire (Task_ref task), Acquire (Mm_ref mm)] @ t1 @ policy_trace Acquire (me_policy env)"
      let ?p = "p1\<lparr>mp_iter := of_int pos, mp_policy := me_policy env\<rparr>" and ?refs = "{#Mm_ref mm, Task_ref task#}"
      have p: "mp_task ?p = Some task" "lock_held mm ?p = lock_held mm p1"
        using l some by (auto simp: lock_held_def)
      have start: "m_start env priv ppos =
          (if pos = SENTINEL_VMA_GATE then (Inr (me_gate env), ?p, pos, begun)
           else let (r, priv, ppos, tr') = proc_get_vma env mm ?p pos in (r, priv, ppos, begun @ tr'))"
        using \<open>\<not> (ppos = SENTINEL_VMA_END \<or> _)\<close> some lock True m_start_locked [of ppos env task mm priv p1 t1]
        by (simp add: pos_def begun_def)
      have base: "mrun rstep {#} begun = Some (lock_held mm p1 + (policy_held (me_policy env) + ?refs))"
        using l [of ?refs] True policy_run(1) [of "lock_held mm p1 + ?refs"]
        by (simp add: begun_def mrun_append ac_simps add_mset_commute)
      show ?thesis
      proof (cases "pos = SENTINEL_VMA_GATE")
        case True
        then show ?thesis using assms(1) start base p some by (auto simp: seq_held_def ac_simps)
      next
        case False
        obtain r2 p2 pos2 t2 where get: "proc_get_vma env mm ?p pos = (r2, p2, pos2, t2)" by (metis prod_cases4)
        then have "priv' = p2" "tr = begun @ t2"
          using assms(1) start False by auto
        then show ?thesis
          using proc_get_vma_trace [OF get, of "policy_held (me_policy env) + ?refs"] base p some l
          by (auto simp: mrun_append seq_held_def add.assoc split: option.splits)
      qed
    qed
  qed
qed

lemma m_stop_trace:
  assumes "m_stop mm priv = (priv', tr)"
  shows "mrun rstep (seq_held mm priv) tr = Some {#} \<and> mp_task priv' = None"
proof (cases "mp_task priv")
  case None
  then show ?thesis using assms by (simp add: m_stop_def seq_held_def)
next
  case (Some task)
  let ?rest = "lock_held mm priv + {#Mm_ref mm, Task_ref task#}"
  have held: "seq_held mm priv = ?rest + policy_held (mp_policy priv)" by (simp add: seq_held_def Some ac_simps)
  have "mrun rstep ?rest (snd (unlock_vma_range mm priv)) = Some {#Mm_ref mm, Task_ref task#}"
    by (auto simp: unlock_vma_range_def unlock_ctx_vma_def lock_held_def Let_def split: option.split)
  then show ?thesis
    using assms Some policy_run(2) [of ?rest "mp_policy priv"]
    by (auto simp: m_stop_def held release_task_mempolicy_def mrun_append Let_def split: prod.splits)
qed

lemma seq_nexts_trace:
  assumes "seq_nexts env mm n (r, priv, ppos) = (items, priv', ppos', tr)" and "mp_task priv = Some task"
  shows "mrun rstep (seq_held mm priv) tr = Some (seq_held mm priv') \<and> mp_task priv' = Some task"
  using assms
proof (induction n arbitrary: r priv ppos items priv' ppos' tr)
  case 0
  then show ?case by simp
next
  case (Suc n)
  show ?case
  proof (cases "\<exists>v. r = Inr (Some v)")
    case False
    then have "seq_nexts env mm (Suc n) (r, priv, ppos) = ([], priv, ppos, [])"
      by (cases r; cases "projr r") auto
    then show ?thesis using Suc.prems by simp
  next
    case True
    obtain r1 p1 pos1 t1 where m1: "m_next env mm priv ppos = (r1, p1, pos1, t1)" by (metis prod_cases4)
    obtain is2 p2 pos2 t2 where m2: "seq_nexts env mm n (r1, p1, pos1) = (is2, p2, pos2, t2)" by (metis prod_cases4)
    note one = m_next_trace [OF m1 Suc.prems(2)]
    then have "mrun rstep (seq_held mm p1) t2 = Some (seq_held mm p2) \<and> mp_task p2 = Some task"
      using Suc.IH [OF m2] by simp
    then show ?thesis using True one m1 m2 Suc.prems(1) by (auto simp: mrun_append)
  qed
qed

lemma seq_pass_balanced:
  assumes "mp_task priv = None" and "me_mm env = Some mm"
  shows "case seq_pass env mm n priv ppos of (items, priv', ppos', tr) \<Rightarrow> balanced tr \<and> mp_task priv' = None"
proof -
  obtain r p1 pos1 t1 where start: "m_start env priv ppos = (r, p1, pos1, t1)" by (metis prod_cases4)
  obtain is2 p2 pos2 t2 where nexts: "seq_nexts env mm n (r, p1, pos1) = (is2, p2, pos2, t2)" by (metis prod_cases4)
  obtain p3 t3 where stop: "m_stop mm p2 = (p3, t3)" by fastforce
  have pass: "seq_pass env mm n priv ppos = (is2, p3, pos2, t1 @ t2 @ t3)"
    by (simp add: seq_pass_def start nexts stop)
  have "mrun rstep {#} (t1 @ t2) = Some (seq_held mm p2)"
    using m_start_trace [OF start assms(1)]
  proof (elim disjE conjE exE)
    assume none: "mp_task p1 = None" "mrun rstep {#} t1 = Some {#}" "\<nexists>v. r = Inr (Some v)"
    then have "seq_nexts env mm n (r, p1, pos1) = ([], p1, pos1, [])"
      by (cases n; cases r; cases "projr r") auto
    then show ?thesis using none nexts by (simp add: seq_held_def)
  next
    fix mm' task
    assume "me_mm env = Some mm'" "mp_task p1 = Some task" "mrun rstep {#} t1 = Some (seq_held mm' p1)"
    then show ?thesis using assms(2) seq_nexts_trace [OF nexts] by (simp add: mrun_append)
  qed
  then have "mrun rstep {#} ((t1 @ t2) @ t3) = Some {#}"
    using m_stop_trace [OF stop] by (subst mrun_append) simp
  then show ?thesis using pass m_stop_trace [OF stop] by (simp add: balanced_def held_def)
qed

text \<open>
  A pass over \<open>maps\<close> or \<open>smaps\<close> gives everything back: however many items are
  shown, whatever the lookups answer and however the areas change in between, with a failing lock, an
  interrupted one, and the fallback from the area's lock to the lock of the address space in the
  middle of the pass, no task, address space, memory policy, area, RCU section or lock is
  left held or released twice.
\<close>

theorem maps_pass_safe:
  assumes "mp_task priv = None" and "me_mm env = Some mm"
  shows "case seq_pass env mm n priv ppos of (items, priv', ppos', tr) \<Rightarrow> balanced tr \<and> mp_task priv' = None"
  using assms by (rule seq_pass_balanced)

section \<open>What the passes show\<close>

text \<open>The address after the \<open>i\<close>-th area, where the lookup of the next one starts.\<close>

definition area_pos :: "map_vma list \<Rightarrow> nat \<Rightarrow> u64" where
  "area_pos vmas i = (if i = 0 then 0 else mv_end (vmas ! (i - 1)))"

definition ascending :: "map_vma list \<Rightarrow> bool" where
  "ascending vmas \<longleftrightarrow> sorted_wrt (<) (map mv_end vmas) \<and> (\<forall>v \<in> set vmas. 0 < mv_end v)"

lemma find_vma_pos:
  assumes "ascending vmas" and "i \<le> length vmas"
  shows "find_vma vmas (area_pos vmas i) = (if i < length vmas then Some (vmas ! i) else None)"
proof -
  have ends: "j < k \<Longrightarrow> k < length vmas \<Longrightarrow> mv_end (vmas ! j) < mv_end (vmas ! k)" "k < length vmas \<Longrightarrow> 0 < mv_end (vmas ! k)" for j k
    using assms(1) by (auto simp: ascending_def sorted_wrt_iff_nth_less)
  have before: "\<not> area_pos vmas i < mv_end (vmas ! j)" if "j < i" for j
  proof (cases "j = i - 1")
    case True
    then show ?thesis using that by (simp add: area_pos_def)
  next
    case False
    then have "mv_end (vmas ! j) < mv_end (vmas ! (i - 1))"
      using that assms(2) by (intro ends(1)) auto
    then show ?thesis using that by (simp add: area_pos_def)
  qed
  show ?thesis
  proof (cases "i < length vmas")
    case True
    then have "area_pos vmas i < mv_end (vmas ! i)"
      using ends(1) [of "i - 1" i] ends(2) [of i] by (cases "i = 0") (simp_all add: area_pos_def)
    then show ?thesis using True before by (auto simp: find_vma_def find_Some_iff)
  next
    case False
    then show ?thesis using before assms(2) by (auto simp: find_vma_def find_None_iff in_set_conv_nth)
  qed
qed

text \<open>
  A reader of a task whose areas do not change: the items are the areas and the gate area. \<open>pending\<close>
  describes an open file after \<open>i\<close> items, whether it has a lock or not.
\<close>

definition steady :: "maps_env \<Rightarrow> map_vma list \<Rightarrow> bool" where
  "steady env vmas \<longleftrightarrow> me_vmas env = (\<lambda>_. vmas) \<and> ascending vmas \<and> (\<forall>k. me_fail env k = None \<or> me_fail env k = Some (-11))"

definition map_items :: "maps_env \<Rightarrow> map_vma list \<Rightarrow> map_vma list" where
  "map_items env vmas = vmas @ (case me_gate env of None \<Rightarrow> [] | Some gate \<Rightarrow> [gate])"

definition pending :: "map_vma list \<Rightarrow> nat \<Rightarrow> maps_priv \<Rightarrow> int \<Rightarrow> bool" where
  "pending vmas i priv ppos \<longleftrightarrow>
    (if i < length vmas then mp_last priv = uint (area_pos vmas i) \<and> ppos = uint (mv_end (vmas ! i))
     else if i = length vmas then ppos = SENTINEL_VMA_GATE
     else ppos = SENTINEL_VMA_END)"

lemma found_at:
  assumes "steady env vmas" "i \<le> length vmas"
    and "found_vma env (find_vma vmas (area_pos vmas i)) priv (uint (area_pos vmas i)) = (r, priv', ppos')"
  shows "r = Inr (if i < length vmas then Some (vmas ! i) else me_gate env)" and "pending vmas i priv' ppos'"
    and "mp_iter priv' = mp_iter priv"
  using assms find_vma_pos [of vmas i]
  by (auto simp: steady_def found_vma_def pending_def Let_def split: if_splits)

lemma iter_next_at:
  assumes "steady env vmas" "i \<le> length vmas" "mp_iter priv = area_pos vmas i" and "iter_next env priv = (vma, priv')"
  shows "vma = find_vma vmas (area_pos vmas i)" and "i < length vmas \<Longrightarrow> mp_iter priv' = area_pos vmas (Suc i)"
  using assms find_vma_pos [of vmas i]
  by (auto simp: steady_def iter_next_def area_pos_def Let_def split: option.splits)

lemma proc_get_vma_at:
  assumes "steady env vmas" "i \<le> length vmas" "mp_iter priv = area_pos vmas i"
    and get: "proc_get_vma env mm priv (uint (area_pos vmas i)) = (r, priv', ppos', tr)"
  shows "r = Inr (if i < length vmas then Some (vmas ! i) else me_gate env) \<and> pending vmas i priv' ppos' \<and>
    (i < length vmas \<longrightarrow> mp_iter priv' = area_pos vmas (Suc i))"
proof -
  have found: "r = Inr (if i < length vmas then Some (vmas ! i) else me_gate env) \<and> pending vmas i priv' ppos' \<and>
      (i < length vmas \<longrightarrow> mp_iter priv' = area_pos vmas (Suc i))"
    if "found_vma env (find_vma vmas (area_pos vmas i)) q (uint (area_pos vmas i)) = (r, priv', ppos')"
      and "i < length vmas \<Longrightarrow> mp_iter q = area_pos vmas (Suc i)" for q
    using found_at [OF assms(1,2) that(1)] that(2) by simp
  have next_at: "\<exists>q'. iter_next env q = (find_vma vmas (area_pos vmas i), q') \<and> (i < length vmas \<longrightarrow> mp_iter q' = area_pos vmas (Suc i))"
    if "mp_iter q = area_pos vmas i" for q
    using iter_next_at [OF assms(1,2) that] by (metis surj_pair)
  obtain p0 t0 where unlocked: "unlock_ctx_vma priv = (p0, t0)" by fastforce
  then have p0: "mp_iter p0 = area_pos vmas i" "mp_locked p0 = mp_locked priv"
    using assms(3) by (auto simp: unlock_ctx_vma_def split: option.splits)
  have "me_fail env (mp_calls p0) = None \<or> me_fail env (mp_calls p0) = Some (-11)"
    using assms(1) by (simp add: steady_def)
  then consider (locked) "mp_locked priv" | (free) "\<not> mp_locked priv" "me_fail env (mp_calls p0) = None"
    | (again) "\<not> mp_locked priv" "me_fail env (mp_calls p0) = Some (-11)"
    by (cases "mp_locked priv") auto
  then show ?thesis
  proof cases
    case locked
    obtain q where "iter_next env priv = (find_vma vmas (area_pos vmas i), q)" "i < length vmas \<Longrightarrow> mp_iter q = area_pos vmas (Suc i)"
      using next_at [OF assms(3)] by blast
    then show ?thesis
      using get locked found by (auto simp: proc_get_vma_def get_next_vma_def Let_def split: prod.splits)
  next
    case free
    obtain q where q: "iter_next env p0 = (find_vma vmas (area_pos vmas i), q)" "i < length vmas \<Longrightarrow> mp_iter q = area_pos vmas (Suc i)"
      using next_at [OF p0(1)] by blast
    show ?thesis
    proof (cases "find_vma vmas (area_pos vmas i)")
      case None
      then show ?thesis
        using get free unlocked q found [of q]
        by (auto simp: proc_get_vma_def get_next_vma_def Let_def split: prod.splits)
    next
      case (Some v)
      then show ?thesis
        using get free unlocked q found [of "q\<lparr>mp_vma := Some v\<rparr>"]
        by (auto simp: proc_get_vma_def get_next_vma_def Let_def split: prod.splits)
    qed
  next
    case again
    let ?q = "p0\<lparr>mp_calls := mp_calls p0 + 1, mp_iter := area_pos vmas i, mp_locked := True\<rparr>"
    obtain q where "iter_next env ?q = (find_vma vmas (area_pos vmas i), q)" "i < length vmas \<Longrightarrow> mp_iter q = area_pos vmas (Suc i)"
      using next_at [of ?q] by auto
    then show ?thesis
      using get again unlocked p0(2) found [of q]
      by (auto simp: proc_get_vma_def get_next_vma_def fallback_to_mmap_lock_def Let_def split: prod.splits)
  qed
qed

lemma uint_area_pos_neq: "uint (a :: u64) \<noteq> SENTINEL_VMA_GATE" "uint (a :: u64) \<noteq> SENTINEL_VMA_END"
  unfolding SENTINEL_VMA_GATE_def SENTINEL_VMA_END_def using uint_ge_0 [of a] by linarith+

lemma area_end_pos: "ascending vmas \<Longrightarrow> i < length vmas \<Longrightarrow> 0 < uint (mv_end (vmas ! i))"
  using nth_mem [of i vmas] by (auto simp: ascending_def word_less_def)

text \<open>Starting a pass where the last one stopped, or at the beginning, yields the pending item.\<close>

lemma m_start_at:
  assumes "steady env vmas" "me_task env = Some task" "me_mm env = Some mm" "me_mmget env" "me_lock env = 0"
    and "pending vmas i priv ppos \<or> i = 0 \<and> ppos = 0"
    and start: "m_start env priv ppos = (r, priv', ppos', tr)"
  shows "r = Inr (if i < length vmas then Some (vmas ! i) else if i = length vmas then me_gate env else None) \<and>
    pending vmas i priv' ppos' \<and> (i < length vmas \<longrightarrow> mp_iter priv' = area_pos vmas (Suc i))"
proof -
  obtain p1 t1 where lock: "lock_vma_range env mm (priv\<lparr>mp_task := Some task\<rparr>) = (True, p1, t1)"
      and p1: "mp_last p1 = mp_last priv"
    using assms(5) by (cases "me_smaps env") (simp_all add: lock_vma_range_def reset_lock_ctx_def)
  have asc: "ascending vmas" using assms(1) by (simp add: steady_def)
  show ?thesis
  proof (cases "i \<le> length vmas \<and> (i < length vmas \<or> ppos = 0)")
    case True
    have pos: "(if ppos > 0 then mp_last p1 else ppos) = uint (area_pos vmas i)" "ppos \<noteq> SENTINEL_VMA_END"
      using assms(6) True area_end_pos [OF asc, of i] uint_area_pos_neq p1
      by (auto simp: pending_def area_pos_def SENTINEL_VMA_GATE_def SENTINEL_VMA_END_def split: if_splits)
    obtain r1 q pos1 t where get: "proc_get_vma env mm (p1\<lparr>mp_iter := area_pos vmas i, mp_policy := me_policy env\<rparr>)
        (uint (area_pos vmas i)) = (r1, q, pos1, t)"
      by (metis prod_cases4)
    have "r = r1" "priv' = q" "ppos' = pos1"
      using start m_start_locked [OF pos(2) assms(2-4) lock] unfolding pos(1)
      by (simp_all add: uint_area_pos_neq get)
    then show ?thesis using proc_get_vma_at [OF assms(1) _ _ get] True by auto
  next
    case False
    then have "(i = length vmas \<and> ppos = SENTINEL_VMA_GATE) \<or> (i > length vmas \<and> ppos = SENTINEL_VMA_END)"
      using assms(6) by (auto simp: pending_def split: if_splits)
    then show ?thesis
      using start assms(2-5) lock
      by (auto simp: m_start_def hold_task_mempolicy_def pending_def SENTINEL_VMA_GATE_def SENTINEL_VMA_END_def Let_def split: if_splits)
  qed
qed

lemma m_next_at:
  assumes "steady env vmas" "pending vmas i priv ppos" "i \<le> length vmas"
    and "i < length vmas \<longrightarrow> mp_iter priv = area_pos vmas (Suc i)"
    and nxt: "m_next env mm priv ppos = (r, priv', ppos', tr)"
  shows "r = Inr (if Suc i < length vmas then Some (vmas ! Suc i) else if Suc i = length vmas then me_gate env else None) \<and>
    pending vmas (Suc i) priv' ppos' \<and> (Suc i < length vmas \<longrightarrow> mp_iter priv' = area_pos vmas (Suc (Suc i)))"
proof (cases "i < length vmas")
  case True
  then have "ppos = uint (area_pos vmas (Suc i))" using assms(2) by (simp add: pending_def area_pos_def)
  then show ?thesis
    using nxt assms(4) True uint_area_pos_neq proc_get_vma_at [OF assms(1), of "Suc i" priv mm r priv' ppos' tr]
    by (auto simp: m_next_def)
next
  case False
  then show ?thesis using nxt assms(2,3) by (auto simp: m_next_def pending_def)
qed

lemma seq_nexts_at:
  assumes "steady env vmas" "pending vmas i priv ppos"
    and "i < length vmas \<longrightarrow> mp_iter priv = area_pos vmas (Suc i)"
    and "seq_nexts env mm n (Inr (if i < length vmas then Some (vmas ! i) else if i = length vmas then me_gate env else None),
       priv, ppos) = (items, priv', ppos', tr)"
  shows "items = take n (drop i (map_items env vmas)) \<and> (\<exists>j. pending vmas j priv' ppos' \<and>
    drop j (map_items env vmas) = drop (i + n) (map_items env vmas))"
  using assms(2-)
proof (induction n arbitrary: i priv ppos items priv' ppos' tr)
  case 0
  then show ?case by auto
next
  case (Suc n)
  let ?r = "\<lambda>i. Inr (if i < length vmas then Some (vmas ! i) else if i = length vmas then me_gate env else None) :: int + map_vma option"
  show ?case
  proof (cases "i < length (map_items env vmas)")
    case False
    then have "drop i (map_items env vmas) = []" "drop (i + Suc n) (map_items env vmas) = []" "projr (?r i) = None"
      by (auto simp: map_items_def split: option.splits)
    then show ?thesis using Suc.prems by (auto intro: exI [of _ i])
  next
    case True
    then have r: "?r i = Inr (Some (map_items env vmas ! i))" "i \<le> length vmas"
      by (auto simp: map_items_def nth_append split: option.splits)
    obtain r1 p1 pos1 t1 where m1: "m_next env mm priv ppos = (r1, p1, pos1, t1)" by (metis prod_cases4)
    obtain is2 p2 pos2 t2 where m2: "seq_nexts env mm n (r1, p1, pos1) = (is2, p2, pos2, t2)" by (metis prod_cases4)
    note n1 = m_next_at [OF assms(1) Suc.prems(1) r(2) Suc.prems(2) m1]
    then have rest: "is2 = take n (drop (Suc i) (map_items env vmas)) \<and> (\<exists>j. pending vmas j p2 pos2 \<and>
        drop j (map_items env vmas) = drop (Suc i + n) (map_items env vmas))"
      using Suc.IH [of "Suc i" p1 pos1 is2 p2 pos2 t2] m2 by auto
    have "items = map_items env vmas ! i # is2" "priv' = p2" "ppos' = pos2"
      using Suc.prems(3) m1 m2 unfolding r(1) by (auto split: prod.splits)
    then show ?thesis using rest Cons_nth_drop_Suc [OF True, symmetric] by simp
  qed
qed

lemma seq_pass_at:
  assumes "steady env vmas" "me_task env = Some task" "me_mm env = Some mm" "me_mmget env" "me_lock env = 0"
    and "pending vmas i priv ppos \<or> i = 0 \<and> ppos = 0"
    and pass: "seq_pass env mm n priv ppos = (items, priv', ppos', tr)"
  shows "items = take n (drop i (map_items env vmas)) \<and> (\<exists>j. pending vmas j priv' ppos' \<and>
    drop j (map_items env vmas) = drop (i + n) (map_items env vmas))"
proof -
  obtain r p1 pos1 t1 where start: "m_start env priv ppos = (r, p1, pos1, t1)" by (metis prod_cases4)
  obtain is2 p2 pos2 t2 where nexts: "seq_nexts env mm n (r, p1, pos1) = (is2, p2, pos2, t2)" by (metis prod_cases4)
  obtain p3 t3 where stop: "m_stop mm p2 = (p3, t3)" by fastforce
  have "items = is2" "priv' = p3" "ppos' = pos2" using pass by (simp_all add: seq_pass_def start nexts stop)
  moreover have "mp_last p3 = mp_last p2"
    using stop by (auto simp: m_stop_def unlock_vma_range_def unlock_ctx_vma_def Let_def split: option.splits if_splits)
  then have "pending vmas j p3 pos2 = pending vmas j p2 pos2" for j by (simp add: pending_def)
  ultimately show ?thesis
    using m_start_at [OF assms(1-6) start] seq_nexts_at [OF assms(1), of i p1 pos1 mm n is2 p2 pos2 t2] nexts by auto
qed

lemma seq_passes_at:
  assumes "steady env vmas" "me_task env = Some task" "me_mm env = Some mm" "me_mmget env" "me_lock env = 0"
    and "pending vmas i priv ppos \<or> i = 0 \<and> ppos = 0"
  shows "seq_passes env mm ns priv ppos = take (sum_list ns) (drop i (map_items env vmas))"
  using assms(6)
proof (induction ns arbitrary: i priv ppos)
  case Nil
  then show ?case by simp
next
  case (Cons n ns)
  obtain items priv' ppos' tr where pass: "seq_pass env mm n priv ppos = (items, priv', ppos', tr)" by (metis prod_cases4)
  obtain j where j: "items = take n (drop i (map_items env vmas))" "pending vmas j priv' ppos'"
      "drop j (map_items env vmas) = drop (i + n) (map_items env vmas)"
    using seq_pass_at [OF assms(1-5) Cons.prems pass] by blast
  have "seq_passes env mm ns priv' ppos' = take (sum_list ns) (drop j (map_items env vmas))"
    using j(2) by (intro Cons.IH) blast
  then show ?case
    using pass j(1,3) take_add [of n "sum_list ns" "drop i (map_items env vmas)"] by (simp add: add.commute)
qed

text \<open>
  C21. A reader of \<open>maps\<close> or \<open>smaps\<close> sees every area exactly once, in address order, and then the gate
  area, however his reads cut the file into passes: the passes together show the first items of that
  list, as many as they have room for, also when an area's lock is refused in the middle of any pass
  and the lookup falls back to the lock of the address space.
\<close>

theorem maps_passes_complete:
  assumes "steady env vmas" "me_task env = Some task" "me_mm env = Some mm" "me_mmget env" "me_lock env = 0"
  shows "seq_passes env mm ns priv 0 = take (sum_list ns) (map_items env vmas)"
  using seq_passes_at [OF assms, of 0 priv 0 ns] by simp

section \<open>Examples\<close>

text \<open>Two areas and a gate area; the second lookup cannot lock the area.\<close>

definition plain_area :: "u64 \<Rightarrow> u64 \<Rightarrow> u64 \<Rightarrow> map_vma" where
  "plain_area s e flags = \<lparr>mv_start = s, mv_end = e, mv_flags = flags, mv_file = None, mv_has_mm = True,
     mv_anon_name = None, mv_ops_name = None, mv_arch_name = None, mv_heap = False, mv_stack = False\<rparr>"

definition two_maps :: maps_env where
  "two_maps = \<lparr>me_task = Some 0x100, me_mm = Some 0x200, me_mmget = True, me_smaps = False, me_lock = 0,
     me_vmas = \<lambda>_. [plain_area 0x1000 0x3000 5, plain_area 0x3000 0x4000 3],
     me_fail = \<lambda>k. if k = 1 then Some (-11) else None,
     me_gate = Some (plain_area 0xFFFFFFFFFF600000 0xFFFFFFFFFF601000 4), me_policy = Some 0x300\<rparr>"

definition new_priv :: maps_priv where
  "new_priv = \<lparr>mp_task = None, mp_locked = False, mp_vma = None, mp_iter = 0, mp_last = 0, mp_calls = 0, mp_policy = None\<rparr>"

theorem maps_passes_complete_witness:
  "seq_passes two_maps 0x200 [1, 0, 5] new_priv 0 =
    [plain_area 0x1000 0x3000 5, plain_area 0x3000 0x4000 3, plain_area 0xFFFFFFFFFF600000 0xFFFFFFFFFF601000 4]"
proof -
  let ?vmas = "[plain_area 0x1000 0x3000 5, plain_area 0x3000 0x4000 3]"
  have "steady two_maps [plain_area 0x1000 0x3000 5, plain_area 0x3000 0x4000 3]"
    by (simp add: steady_def two_maps_def ascending_def plain_area_def)
  moreover have "me_task two_maps = Some 0x100" "me_mm two_maps = Some 0x200" "me_mmget two_maps" "me_lock two_maps = 0"
    by (simp_all add: two_maps_def)
  ultimately have "seq_passes two_maps 0x200 [1, 0, 5] new_priv 0 = take (sum_list [1, 0, 5]) (map_items two_maps ?vmas)"
    by (rule maps_passes_complete)
  also have "map_items two_maps ?vmas = ?vmas @ [plain_area 0xFFFFFFFFFF600000 0xFFFFFFFFFF601000 4]"
    by (simp add: map_items_def two_maps_def)
  finally show ?thesis by simp
qed

theorem maps_pass_safe_witness:
  "case seq_pass two_maps 0x200 2 new_priv 0 of (items, priv, ppos, tr) \<Rightarrow> balanced tr \<and> mp_task priv = None"
  using maps_pass_safe [of new_priv two_maps "0x200" 2 0] by (simp add: new_priv_def two_maps_def)

end
