(* ===== verification/Maps_Query.thy ===== *)
theory Maps_Query
  imports Maps
begin

text \<open>
  The \<open>PROCMAP_QUERY\<close> command of \<open>mapping_field_decode/task_mmu.c\<close>: the search for the area that matches
  a query, with the area's lock and its fallback, and the command around it with its argument checks,
  the answer it builds and its cleanup. The specification of the search is a \<open>find\<close> over the areas.
\<close>

unbundle bit_operations_syntax

section \<open>The search\<close>

abbreviation QUERY_READABLE :: u32 where "QUERY_READABLE \<equiv> 0x01"
abbreviation QUERY_WRITABLE :: u32 where "QUERY_WRITABLE \<equiv> 0x02"
abbreviation QUERY_EXECUTABLE :: u32 where "QUERY_EXECUTABLE \<equiv> 0x04"
abbreviation QUERY_SHARED :: u32 where "QUERY_SHARED \<equiv> 0x08"
abbreviation QUERY_COVERING_OR_NEXT :: u32 where "QUERY_COVERING_OR_NEXT \<equiv> 0x10"
abbreviation QUERY_FILE_BACKED :: u32 where "QUERY_FILE_BACKED \<equiv> 0x20"
abbreviation QUERY_VMA_FLAGS :: u32 where "QUERY_VMA_FLAGS \<equiv> 0x0F"

text \<open>
  The areas, what locking one answers at the \<open>k\<close>-th lookup, and the lock context: whether the lock of
  the address space is held, the locked area and the number of lookups.
\<close>

record query_env =
  qe_mm :: u64
  qe_vmas :: "map_vma list"
  qe_fail :: "nat \<Rightarrow> int option"

record lock_ctx =
  lc_locked :: bool
  lc_vma :: "map_vma option"
  lc_calls :: nat

definition query_vma_teardown :: "u64 \<Rightarrow> lock_ctx \<Rightarrow> kevent list" where
  "query_vma_teardown mm ctx =
    (if lc_locked ctx then [Release (Mmap_lock mm)]
     else (case lc_vma ctx of None \<Rightarrow> [] | Some vma \<Rightarrow> [Release (Vma_lock (mv_start vma))]))"

definition query_vma_find_by_addr ::
  "query_env \<Rightarrow> lock_ctx \<Rightarrow> u64 \<Rightarrow> (int + map_vma option) \<times> lock_ctx \<times> kevent list" where
  "query_vma_find_by_addr env ctx addr =
    (if lc_locked ctx then (Inr (find_vma (qe_vmas env) addr), ctx, []) else
     let tr = (case lc_vma ctx of None \<Rightarrow> [] | Some vma \<Rightarrow> [Release (Vma_lock (mv_start vma))]);
         k = lc_calls ctx;
         ctx = ctx\<lparr>lc_vma := None, lc_calls := k + 1\<rparr> in
     case qe_fail env k of
       Some err \<Rightarrow>
         if err = -11
         then (Inr (find_vma (qe_vmas env) addr), ctx\<lparr>lc_locked := True\<rparr>,
               tr @ [Acquire Rcu, Release Rcu, Acquire (Mmap_lock (qe_mm env))])
         else (Inl err, ctx, tr @ [Acquire Rcu, Release Rcu])
     | None \<Rightarrow>
         (case find_vma (qe_vmas env) addr of
            None \<Rightarrow> (Inr None, ctx, tr @ [Acquire Rcu, Release Rcu])
          | Some vma \<Rightarrow>
              (Inr (Some vma), ctx\<lparr>lc_vma := Some vma\<rparr>,
               tr @ [Acquire Rcu, Acquire (Vma_lock (mv_start vma)), Release Rcu])))"

text \<open>Whether an area has what the query asks for.\<close>

definition query_perm :: "u32 \<Rightarrow> u64" where
  "query_perm flags =
    (let perm = 0;
         perm = (if flags AND QUERY_READABLE \<noteq> 0 then perm OR 1 else perm);
         perm = (if flags AND QUERY_WRITABLE \<noteq> 0 then perm OR 2 else perm);
         perm = (if flags AND QUERY_EXECUTABLE \<noteq> 0 then perm OR 4 else perm) in
     if flags AND QUERY_SHARED \<noteq> 0 then perm OR 0x80 else perm)"

definition query_skips :: "u32 \<Rightarrow> map_vma \<Rightarrow> bool" where
  "query_skips flags vma \<longleftrightarrow>
    (flags AND QUERY_FILE_BACKED \<noteq> 0 \<and> mv_file vma = None) \<or>
    (flags AND QUERY_VMA_FLAGS \<noteq> 0 \<and> mv_flags vma AND query_perm flags \<noteq> query_perm flags)"

lemma find_by_addr_found:
  "query_vma_find_by_addr env ctx addr = (Inr (Some vma), ctx', tr) \<Longrightarrow> find_vma (qe_vmas env) addr = Some vma"
  by (auto simp: query_vma_find_by_addr_def Let_def split: if_splits option.splits)

lemma find_vma_after: "find_vma vmas addr = Some vma \<Longrightarrow> addr < mv_end vma"
  by (auto simp: find_vma_def find_Some_iff)

text \<open>The result is an error or the area. The loop ends because the next lookup starts at the end of the area.\<close>

function query_matching_vma ::
  "query_env \<Rightarrow> lock_ctx \<Rightarrow> u64 \<Rightarrow> u32 \<Rightarrow> (int + map_vma) \<times> lock_ctx \<times> kevent list" where
  "query_matching_vma env ctx addr flags =
    (case query_vma_find_by_addr env ctx addr of
       (Inl err, ctx, tr) \<Rightarrow> (Inl err, ctx, tr)
     | (Inr None, ctx, tr) \<Rightarrow> (Inl (-2), ctx, tr)
     | (Inr (Some vma), ctx, tr) \<Rightarrow>
         if \<not> query_skips flags vma \<and> (flags AND QUERY_COVERING_OR_NEXT \<noteq> 0 \<or> mv_start vma \<le> addr)
         then (Inr vma, ctx, tr)
         else if flags AND QUERY_COVERING_OR_NEXT \<noteq> 0
         then let (r, ctx, tr') = query_matching_vma env ctx (mv_end vma) flags in (r, ctx, tr @ tr')
         else (Inl (-2), ctx, tr))"
  by auto
termination
proof (relation "measure (\<lambda>(env, ctx, addr, flags). 2 ^ 64 - unat addr)")
  fix env :: query_env and ctx ctx' :: lock_ctx and addr :: u64 and flags :: u32 and r xs vo vma tr
  assume "(r, xs) = query_vma_find_by_addr env ctx addr" "r = Inr vo" "vo = Some vma" "(ctx', tr) = xs"
  then have "addr < mv_end vma" using find_by_addr_found [of env ctx addr vma ctx' tr] find_vma_after by simp
  then show "((env, ctx', mv_end vma, flags), env, ctx, addr, flags) \<in> measure (\<lambda>(env, ctx, addr, flags). 2 ^ 64 - unat addr)"
    using unat_u64 [of "mv_end vma"] by (simp add: word_less_nat_alt)
qed simp

declare query_matching_vma.simps [simp del]

text \<open>What the search promises: the first area that ends after the address and has what is asked for.\<close>

definition areas_disjoint :: "map_vma list \<Rightarrow> bool" where
  "areas_disjoint vmas \<longleftrightarrow> (\<forall>v \<in> set vmas. mv_start v < mv_end v) \<and> sorted_wrt (\<lambda>v w. mv_end v \<le> mv_start w) vmas"

definition query_has :: "u32 \<Rightarrow> map_vma \<Rightarrow> bool" where
  "query_has flags v \<longleftrightarrow>
    (flags AND QUERY_FILE_BACKED \<noteq> 0 \<longrightarrow> mv_file v \<noteq> None) \<and>
    (flags AND QUERY_READABLE \<noteq> 0 \<longrightarrow> mv_flags v AND 1 \<noteq> 0) \<and> (flags AND QUERY_WRITABLE \<noteq> 0 \<longrightarrow> mv_flags v AND 2 \<noteq> 0) \<and>
    (flags AND QUERY_EXECUTABLE \<noteq> 0 \<longrightarrow> mv_flags v AND 4 \<noteq> 0) \<and> (flags AND QUERY_SHARED \<noteq> 0 \<longrightarrow> mv_flags v AND 0x80 \<noteq> 0)"

definition query_spec :: "map_vma list \<Rightarrow> u64 \<Rightarrow> u32 \<Rightarrow> map_vma option" where
  "query_spec vmas addr flags =
    find (\<lambda>v. addr < mv_end v \<and> (flags AND QUERY_COVERING_OR_NEXT \<noteq> 0 \<or> mv_start v \<le> addr) \<and> query_has flags v) vmas"

lemma u64_and_subset: "a AND p = p \<longleftrightarrow> (\<forall>n. bit p n \<longrightarrow> bit a n)" for a p :: u64
  by (auto simp: bit_eq_iff bit_and_iff dest: bit_u64_bound)

lemma bit_query_perm:
  "bit (query_perm flags) n \<longleftrightarrow>
    (flags AND QUERY_READABLE \<noteq> 0 \<and> n = 0) \<or> (flags AND QUERY_WRITABLE \<noteq> 0 \<and> n = 1) \<or>
    (flags AND QUERY_EXECUTABLE \<noteq> 0 \<and> n = 2) \<or> (flags AND QUERY_SHARED \<noteq> 0 \<and> n = 7)"
  unfolding query_perm_def Let_def
  by (simp only: bit_or_iff single_flag_bits bit_0_eq bot_apply if_distrib [of "\<lambda>w. bit w n"] split: if_splits) auto

lemma query_skips_iff: "query_skips flags v \<longleftrightarrow> \<not> query_has flags v"
proof -
  have none: "query_perm flags = 0" if "flags AND QUERY_VMA_FLAGS = 0"
  proof -
    have "flags AND k = 0" if "k = QUERY_VMA_FLAGS AND k" for k
      using \<open>flags AND QUERY_VMA_FLAGS = 0\<close> that by (metis and.assoc and_zero_eq(1) bit.conj_zero_left)
    then show ?thesis by (simp add: query_perm_def Let_def)
  qed
  have "mv_flags v AND query_perm flags = query_perm flags \<longleftrightarrow>
    (flags AND QUERY_READABLE \<noteq> 0 \<longrightarrow> mv_flags v AND 1 \<noteq> 0) \<and> (flags AND QUERY_WRITABLE \<noteq> 0 \<longrightarrow> mv_flags v AND 2 \<noteq> 0) \<and>
    (flags AND QUERY_EXECUTABLE \<noteq> 0 \<longrightarrow> mv_flags v AND 4 \<noteq> 0) \<and> (flags AND QUERY_SHARED \<noteq> 0 \<longrightarrow> mv_flags v AND 0x80 \<noteq> 0)"
    unfolding u64_and_subset bit_query_perm and_pow2_iff and_one_eq_0_iff by auto
  then show ?thesis using none by (auto simp: query_skips_def query_has_def)
qed

lemma find_append: "find P (xs @ ys) = (case find P xs of None \<Rightarrow> find P ys | Some x \<Rightarrow> Some x)"
  by (induction xs) auto

lemma find_vma_split:
  assumes "find_vma vmas addr = Some v"
  obtains pre post where "vmas = pre @ v # post" "\<forall>w \<in> set pre. mv_end w \<le> addr" "addr < mv_end v"
proof -
  obtain i where i: "i < length vmas" "addr < mv_end (vmas ! i)" "v = vmas ! i" "\<forall>j < i. \<not> addr < mv_end (vmas ! j)"
    using assms unfolding find_vma_def find_Some_iff by blast
  then have "vmas = take i vmas @ v # drop (Suc i) vmas" by (simp add: id_take_nth_drop)
  moreover have "\<forall>w \<in> set (take i vmas). mv_end w \<le> addr" using i by (fastforce simp: in_set_conv_nth not_less)
  ultimately show thesis using that i by blast
qed

lemma query_spec_step:
  assumes "areas_disjoint vmas" and found: "find_vma vmas addr = Some v"
  shows "query_spec vmas addr flags =
    (if query_has flags v \<and> (flags AND QUERY_COVERING_OR_NEXT \<noteq> 0 \<or> mv_start v \<le> addr) then Some v
     else if flags AND QUERY_COVERING_OR_NEXT \<noteq> 0 then query_spec vmas (mv_end v) flags else None)"
proof -
  obtain pre post where split: "vmas = pre @ v # post" "\<forall>w \<in> set pre. mv_end w \<le> addr" "addr < mv_end v"
    using found by (rule find_vma_split)
  have post: "mv_end v \<le> mv_start w" "mv_start w < mv_end w" if "w \<in> set post" for w
    using assms(1) that by (auto simp: areas_disjoint_def split(1) sorted_wrt_append)
  have skip: "find (\<lambda>w. a < mv_end w \<and> P w) pre = None" if "addr \<le> a" for a P
    using split(2) that by (auto simp: find_None_iff)
  have later: "find (\<lambda>w. addr < mv_end w \<and> P w) post = find (\<lambda>w. mv_end v < mv_end w \<and> P w) post" for P
  proof (rule find_cong [OF refl])
    fix w assume "w \<in> set post"
    then have "mv_end v < mv_end w" using post [of w] by simp
    then show "(addr < mv_end w \<and> P w) = (mv_end v < mv_end w \<and> P w)" using split(3) by auto
  qed
  have none: "find (\<lambda>w. addr < mv_end w \<and> mv_start w \<le> addr \<and> P w) post = None" for P
    using post split(3) by (force simp: find_None_iff)
  show ?thesis
    using split(3) skip [of addr] skip [of "mv_end v"] later [of "query_has flags"]
      none [of "query_has flags"]
    by (auto simp: query_spec_def split(1) find_append)
qed

lemma find_by_addr_steady:
  assumes "\<And>k. qe_fail env k = None \<or> qe_fail env k = Some (-11)"
  shows "fst (query_vma_find_by_addr env ctx addr) = Inr (find_vma (qe_vmas env) addr)"
  using assms [of "lc_calls ctx"]
  by (auto simp: query_vma_find_by_addr_def Let_def split: option.splits)

lemma query_matching_exact:
  assumes "areas_disjoint (qe_vmas env)" and "\<And>k. qe_fail env k = None \<or> qe_fail env k = Some (-11)"
  shows "fst (query_matching_vma env ctx addr flags) =
    (case query_spec (qe_vmas env) addr flags of None \<Rightarrow> Inl (-2) | Some v \<Rightarrow> Inr v)"
  using assms
proof (induction env ctx addr flags rule: query_matching_vma.induct)
  case (1 env ctx addr flags)
  obtain ctx' tr where found: "query_vma_find_by_addr env ctx addr = (Inr (find_vma (qe_vmas env) addr), ctx', tr)"
    using find_by_addr_steady [OF 1(3), of ctx addr] by (metis prod.collapse fst_conv)
  show ?case
  proof (cases "find_vma (qe_vmas env) addr")
    case None
    then have "query_spec (qe_vmas env) addr flags = None"
      by (auto simp: find_vma_def query_spec_def find_None_iff)
    then show ?thesis using found None by (simp add: query_matching_vma.simps [of env ctx addr])
  next
    case (Some v)
    show ?thesis
      using found Some query_spec_step [OF 1(2) Some, of flags] 1(1) [OF found [symmetric] refl Some refl] 1(2,3)
      by (auto simp: query_matching_vma.simps [of env ctx addr] query_skips_iff split: prod.splits)
  qed
qed

section \<open>Locks of the search\<close>

definition lc_held :: "u64 \<Rightarrow> lock_ctx \<Rightarrow> kres multiset" where
  "lc_held mm ctx =
    (if lc_locked ctx then {#Mmap_lock mm#}
     else (case lc_vma ctx of None \<Rightarrow> {#} | Some vma \<Rightarrow> {#Vma_lock (mv_start vma)#}))"

lemma find_by_addr_trace:
  "query_vma_find_by_addr env ctx addr = (r, ctx', tr) \<Longrightarrow>
   mrun rstep (h + lc_held (qe_mm env) ctx) tr = Some (h + lc_held (qe_mm env) ctx')"
  by (auto simp: query_vma_find_by_addr_def lc_held_def Let_def split: if_splits option.splits)

lemma query_matching_trace:
  "query_matching_vma env ctx addr flags = (r, ctx', tr) \<Longrightarrow>
   mrun rstep (h + lc_held (qe_mm env) ctx) tr = Some (h + lc_held (qe_mm env) ctx')"
proof (induction env ctx addr flags arbitrary: r ctx' tr rule: query_matching_vma.induct)
  case (1 env ctx addr flags)
  obtain r1 c1 t1 where found: "query_vma_find_by_addr env ctx addr = (r1, c1, t1)" by (metis prod_cases3)
  note one = find_by_addr_trace [OF found, of h]
  have rec: "mrun rstep (h + lc_held (qe_mm env) c1) t2 = Some (h + lc_held (qe_mm env) c2)"
    if "r1 = Inr (Some v)" "query_skips flags v \<or> flags AND QUERY_COVERING_OR_NEXT = 0 \<and> \<not> mv_start v \<le> addr"
      "flags AND QUERY_COVERING_OR_NEXT \<noteq> 0" "query_matching_vma env c1 (mv_end v) flags = (r2, c2, t2)" for v r2 c2 t2
    using 1(1) [OF found [symmetric] that(1) refl refl _ that(3,4)] that(2,3) by auto
  show ?case
    using 1(2) found one unfolding query_matching_vma.simps [of env ctx addr]
    by (auto split: sum.splits option.splits if_splits prod.splits simp: mrun_append dest: rec)
qed

lemma query_teardown_trace:
  "mrun rstep (h + lc_held mm ctx) (query_vma_teardown mm ctx) = Some h"
  by (auto simp: query_vma_teardown_def lc_held_def split: option.splits)

section \<open>The command\<close>

record procmap_query =
  pq_size :: u64
  pq_query_flags :: u64
  pq_query_addr :: u64
  pq_vma_start :: u64
  pq_vma_end :: u64
  pq_vma_flags :: u64
  pq_vma_page_size :: u64
  pq_vma_offset :: u64
  pq_inode :: u64
  pq_dev_major :: u32
  pq_dev_minor :: u32
  pq_vma_name_size :: u32
  pq_build_id_size :: u32
  pq_vma_name_addr :: u64
  pq_build_id_addr :: u64

text \<open>
  What the command depends on: the size the caller gives and his argument block (or the error of
  copying it), the address space, the page size and build identity of an area, memory, the path of a
  file in a buffer (\<open>Inl\<close> an error), and whether the three copies to the caller fault.
\<close>

record query_io =
  qi_usize :: "u64 option"
  qi_copy :: "int + procmap_query"
  qi_mm :: "u64 option"
  qi_mmget :: bool
  qi_page_size :: "map_vma \<Rightarrow> u64"
  qi_build_id :: "map_vma \<Rightarrow> int + string"
  qi_kmalloc :: bool
  qi_d_path :: "string \<Rightarrow> nat \<Rightarrow> int + string"
  qi_name_faults :: bool
  qi_build_id_faults :: bool
  qi_arg_faults :: bool

text \<open>The answer about the area itself.\<close>

definition query_answer :: "query_io \<Rightarrow> map_vma \<Rightarrow> procmap_query \<Rightarrow> procmap_query" where
  "query_answer io vma karg =
    (let karg = karg\<lparr>pq_vma_start := mv_start vma, pq_vma_end := mv_end vma\<rparr>;
         f = 0;
         f = (if mv_flags vma AND 1 \<noteq> 0 then f OR ucast QUERY_READABLE else f);
         f = (if mv_flags vma AND 2 \<noteq> 0 then f OR ucast QUERY_WRITABLE else f);
         f = (if mv_flags vma AND 4 \<noteq> 0 then f OR ucast QUERY_EXECUTABLE else f);
         f = (if mv_flags vma AND 0x80 \<noteq> 0 then f OR ucast QUERY_SHARED else f);
         karg = karg\<lparr>pq_vma_flags := f, pq_vma_page_size := qi_page_size io vma\<rparr> in
     case mv_file vma of
       Some file \<Rightarrow> karg\<lparr>pq_vma_offset := push_bit 12 (mf_pgoff file), pq_dev_major := drop_bit 20 (mf_dev file),
         pq_dev_minor := mf_dev file AND 0xFFFFF, pq_inode := mf_ino file\<rparr>
     | None \<Rightarrow> karg\<lparr>pq_vma_offset := 0, pq_dev_major := 0, pq_dev_minor := 0, pq_inode := 0\<rparr>)"

text \<open>The build identity when it is asked for: an error, or the identity to copy and the size to report.\<close>

definition query_build_id :: "query_io \<Rightarrow> map_vma \<Rightarrow> procmap_query \<Rightarrow> int + string \<times> procmap_query" where
  "query_build_id io vma karg =
    (if pq_build_id_size karg = 0 then Inr ([], karg) else
     case qi_build_id io vma of
       Inl err \<Rightarrow> Inr ([], karg\<lparr>pq_build_id_size := 0\<rparr>)
     | Inr build_id \<Rightarrow>
       let build_id_sz = of_nat (length build_id) in
       if pq_build_id_size karg < build_id_sz then Inl (-36)
       else Inr (build_id, karg\<lparr>pq_build_id_size := build_id_sz\<rparr>))"

text \<open>
  The name when it is asked for: an error or the name, with the buffer that was allocated. The size
  reported counts the terminating zero.
\<close>

definition query_name :: "query_io \<Rightarrow> map_vma \<Rightarrow> procmap_query \<Rightarrow> (int + string \<times> procmap_query) \<times> bool" where
  "query_name io vma karg =
    (if pq_vma_name_size karg = 0 then (Inr ([], karg), False) else
     let name_buf_sz = min 4096 (unat (pq_vma_name_size karg));
         (path, name, name_fmt) = get_vma_name vma in
     if path = None \<and> name_fmt = None \<and> name = None then (Inr ([], karg\<lparr>pq_vma_name_size := 0\<rparr>), False) else
     if \<not> qi_kmalloc io then (Inl (-12), False) else
     case (case path of
             Some p \<Rightarrow> qi_d_path io p name_buf_sz
           | None \<Rightarrow> Inr (case name_fmt of
               Some fmt \<Rightarrow> put_name fmt (case name of None \<Rightarrow> ''(null)'' | Some n \<Rightarrow> n)
             | None \<Rightarrow> (case name of None \<Rightarrow> [] | Some n \<Rightarrow> n))) of
       Inl err \<Rightarrow> (Inl err, True)
     | Inr text \<Rightarrow>
       let name_sz = 1 + length text in
       if name_sz > name_buf_sz then (Inl (-36), True)
       else (Inr (text, karg\<lparr>pq_vma_name_size := of_nat name_sz\<rparr>), True))"

text \<open>The result with the answer, the name and the build identity the caller got, and the trace.\<close>

type_synonym query_out = "int \<times> procmap_query option \<times> string option \<times> string option \<times> kevent list"

definition query_copy_out ::
  "query_io \<Rightarrow> procmap_query \<Rightarrow> string \<Rightarrow> string \<Rightarrow> kevent list \<Rightarrow> kevent list \<Rightarrow> query_out" where
  "query_copy_out io karg text build_id tr kfree =
    (if pq_vma_name_size karg \<noteq> 0 \<and> qi_name_faults io then (-14, None, None, None, tr @ kfree) else
     let name_out = (if pq_vma_name_size karg \<noteq> 0 then Some text else None);
         tr = tr @ kfree in
     if pq_build_id_size karg \<noteq> 0 \<and> qi_build_id_faults io then (-14, None, name_out, None, tr) else
     let build_id_out = (if pq_build_id_size karg \<noteq> 0 then Some build_id else None) in
     if qi_arg_faults io then (-14, None, name_out, build_id_out, tr)
     else (0, Some karg, name_out, build_id_out, tr))"

definition do_procmap_query :: "query_io \<Rightarrow> query_env \<Rightarrow> query_out" where
  "do_procmap_query io env =
    (case qi_usize io of
       None \<Rightarrow> (-14, None, None, None, [])
     | Some usize \<Rightarrow>
       if usize > 4096 then (-7, None, None, None, []) else
       if usize < 24 then (-22, None, None, None, []) else
       case qi_copy io of
         Inl err \<Rightarrow> (err, None, None, None, [])
       | Inr karg \<Rightarrow>
         if pq_query_flags karg AND NOT 0x3F \<noteq> 0 then (-22, None, None, None, []) else
         if (pq_vma_name_size karg \<noteq> 0) \<noteq> (pq_vma_name_addr karg \<noteq> 0) then (-22, None, None, None, []) else
         if (pq_build_id_size karg \<noteq> 0) \<noteq> (pq_build_id_addr karg \<noteq> 0) then (-22, None, None, None, []) else
         if qi_mm io = None \<or> \<not> qi_mmget io then (-3, None, None, None, []) else
         let mm = qe_mm env;
             ctx = \<lparr>lc_locked = False, lc_vma = None, lc_calls = 0\<rparr>;
             (r, ctx, tr) = query_matching_vma env ctx (pq_query_addr karg) (ucast (pq_query_flags karg));
             tr = Acquire (Mm_ref mm) # tr;
             done = query_vma_teardown mm ctx @ [Release (Mm_ref mm)] in
         case r of
           Inl err \<Rightarrow> (err, None, None, None, tr @ done)
         | Inr vma \<Rightarrow>
           case query_build_id io vma (query_answer io vma karg) of
             Inl err \<Rightarrow> (err, None, None, None, tr @ done)
           | Inr (build_id, karg) \<Rightarrow>
             let (n, allocated) = query_name io vma karg;
                 tr = (if allocated then tr @ [Acquire (Kbuf 0)] else tr);
                 kfree = (if allocated then [Release (Kbuf 0)] else []) in
             case n of
               Inl err \<Rightarrow> (err, None, None, None, tr @ done @ kfree)
             | Inr (text, karg) \<Rightarrow> query_copy_out io karg text build_id (tr @ done) kfree)"

definition procfs_procmap_ioctl :: "u32 \<Rightarrow> u32 \<Rightarrow> query_io \<Rightarrow> query_env \<Rightarrow> query_out" where
  "procfs_procmap_ioctl PROCMAP_QUERY cmd io env =
    (if cmd = PROCMAP_QUERY then do_procmap_query io env else (-515, None, None, None, []))"

section \<open>Properties\<close>

lemma query_copy_out_trace:
  "query_copy_out io karg text build_id tr kfree = (ret, out, name, bid, tr') \<Longrightarrow> tr' = tr @ kfree"
  by (auto simp: query_copy_out_def Let_def split: if_splits)

lemma search_trace:
  assumes "query_matching_vma env \<lparr>lc_locked = False, lc_vma = None, lc_calls = 0\<rparr> addr flags = (r, ctx, tr)"
  shows "mrun rstep h tr = Some (h + lc_held (qe_mm env) ctx)"
  using query_matching_trace [OF assms, of h] by (simp add: lc_held_def)

text \<open>The cleanup, with or without the name buffer, gives back what the search and the buffer hold.\<close>

lemma cleanup_trace:
  fixes mm ctx
  defines "cleanup \<equiv> query_vma_teardown mm ctx @ [Release (Mm_ref mm)]"
  shows "mrun rstep ({#Mm_ref mm#} + lc_held mm ctx) cleanup = Some {#}"
    and "mrun rstep ({#Mm_ref mm#} + lc_held mm ctx) (Acquire (Kbuf 0) # cleanup @ [Release (Kbuf 0)]) = Some {#}"
proof -
  have "mrun rstep (h + lc_held mm ctx) cleanup = mrun rstep h [Release (Mm_ref mm)]" for h
    using query_teardown_trace [of h mm ctx] by (simp add: cleanup_def mrun_append)
  from this [of "{#Mm_ref mm#}"] this [of "{#Mm_ref mm, Kbuf 0#}"]
  show "mrun rstep ({#Mm_ref mm#} + lc_held mm ctx) cleanup = Some {#}"
    and "mrun rstep ({#Mm_ref mm#} + lc_held mm ctx) (Acquire (Kbuf 0) # cleanup @ [Release (Kbuf 0)]) = Some {#}"
    by (simp_all add: mrun_append ac_simps)
qed

lemma query_trace_balanced:
  "case do_procmap_query io env of (ret, out, name, build_id, tr) \<Rightarrow> balanced tr"
proof -
  let ?ctx = "\<lparr>lc_locked = False, lc_vma = None, lc_calls = 0\<rparr>"
  have "balanced (Acquire (Mm_ref (qe_mm env)) # tr @ rest)"
    if "query_matching_vma env ?ctx a f = (r, ctx, tr)"
      and "mrun rstep ({#Mm_ref (qe_mm env)#} + lc_held (qe_mm env) ctx) rest = Some {#}" for a f r ctx tr rest
    using search_trace [OF that(1), of "{#Mm_ref (qe_mm env)#}"] that(2)
    by (simp add: balanced_def held_def mrun_append)
  note ends = this [OF _ cleanup_trace(1)] this [OF _ cleanup_trace(2)]
  show ?thesis
    using ends
    by (auto simp: do_procmap_query_def Let_def balanced_def held_def split: option.splits sum.splits prod.splits if_splits
        dest!: query_copy_out_trace)
qed

text \<open>
  However \<open>PROCMAP_QUERY\<close> ends (a refused argument, no address space, no area, an interrupted or
  refused area lock with or without the fallback, no memory, a name or identity that does not fit, a
  fault in any of the three copies, success), after any number of areas skipped: the address space,
  every area lock, RCU section and lock taken and the name buffer have been given back, exactly once.
\<close>

theorem procmap_query_balanced:
  "case do_procmap_query io env of (ret, out, name, build_id, tr) \<Rightarrow> balanced tr"
  by (rule query_trace_balanced)

lemma query_answer_sizes:
  "pq_vma_name_size (query_answer io vma karg) = pq_vma_name_size karg"
  "pq_build_id_size (query_answer io vma karg) = pq_build_id_size karg"
  by (simp_all add: query_answer_def Let_def split: option.split)

lemma query_build_id_sizes:
  "query_build_id io vma karg = Inr (b, k) \<Longrightarrow>
   pq_build_id_size k \<le> pq_build_id_size karg \<and> pq_vma_name_size k = pq_vma_name_size karg"
  by (auto simp: query_build_id_def Let_def split: if_splits sum.splits)

lemma query_name_sizes:
  assumes "query_name io vma karg = (Inr (text, k), allocated)"
  shows "pq_vma_name_size k \<le> pq_vma_name_size karg \<and> pq_vma_name_size k \<le> 4096 \<and>
    pq_build_id_size k = pq_build_id_size karg \<and> (pq_vma_name_size k = 0 \<or> unat (pq_vma_name_size k) = length text + 1)"
proof (cases "pq_vma_name_size karg = 0 \<or> pq_vma_name_size k = 0")
  case True
  then show ?thesis
    using assms by (auto simp: query_name_def Let_def split: if_splits sum.splits prod.splits)
next
  case False
  then have k: "k = karg\<lparr>pq_vma_name_size := of_nat (1 + length text)\<rparr>" "1 + length text \<le> min 4096 (unat (pq_vma_name_size karg))"
    using assms unfolding query_name_def Let_def by (auto split: if_splits sum.splits prod.splits)
  then have "unat (of_nat (1 + length text) :: u32) = 1 + length text"
    using k(2) by (simp only: unat_of_nat) (simp add: min_def split: if_splits)
  then show ?thesis using k by (simp add: word_le_nat_alt)
qed

lemma query_copy_out_success:
  "query_copy_out io karg text build_id tr kfree = (ret, Some k, name, bid, tr') \<Longrightarrow>
   ret = 0 \<and> k = karg \<and> name = (if pq_vma_name_size karg \<noteq> 0 then Some text else None)"
  by (auto simp: query_copy_out_def Let_def split: if_splits)

lemma query_success:
  assumes "do_procmap_query io env = (ret, Some k, name, bid, tr)"
  obtains karg ctx tr0 vma b k1 s k2 allocated tr1 kfree where
    "qi_copy io = Inr karg"
    "query_matching_vma env \<lparr>lc_locked = False, lc_vma = None, lc_calls = 0\<rparr> (pq_query_addr karg) (ucast (pq_query_flags karg)) =
      (Inr vma, ctx, tr0)"
    "query_build_id io vma (query_answer io vma karg) = Inr (b, k1)"
    "query_name io vma k1 = (Inr (s, k2), allocated)"
    "query_copy_out io k2 s b tr1 kfree = (ret, Some k, name, bid, tr)"
  using assms
  by (auto simp: do_procmap_query_def Let_def split: option.splits sum.splits prod.splits if_splits)

text \<open>
  The caller's buffers are never overrun: the name copied has, with its terminating zero, the size
  reported, which is at most the size of his buffer and at most \<open>PATH_MAX\<close>, and the build identity is
  reported with at most the size of his buffer.
\<close>

theorem procmap_query_bounds:
  "case do_procmap_query io env of (ret, Some k, name, build_id, tr) \<Rightarrow>
       ret = 0 \<and> (\<exists>karg. qi_copy io = Inr karg \<and> pq_vma_name_size k \<le> pq_vma_name_size karg \<and>
         pq_vma_name_size k \<le> 4096 \<and> pq_build_id_size k \<le> pq_build_id_size karg \<and>
         (case name of None \<Rightarrow> pq_vma_name_size k = 0 | Some text \<Rightarrow> unat (pq_vma_name_size k) = length text + 1))
   | (ret, None, name, build_id, tr) \<Rightarrow> True"
proof -
  have "ret = 0 \<and> (\<exists>karg. qi_copy io = Inr karg \<and> pq_vma_name_size k \<le> pq_vma_name_size karg \<and>
         pq_vma_name_size k \<le> 4096 \<and> pq_build_id_size k \<le> pq_build_id_size karg \<and>
         (case name of None \<Rightarrow> pq_vma_name_size k = 0 | Some text \<Rightarrow> unat (pq_vma_name_size k) = length text + 1))"
    if success: "do_procmap_query io env = (ret, Some k, name, build_id, tr)" for ret k name build_id tr
    by (rule query_success [OF success])
      (auto dest!: query_build_id_sizes query_name_sizes query_copy_out_success simp: query_answer_sizes
        intro: order_trans)
  then show ?thesis by (auto split: prod.split option.split)
qed

text \<open>
  C18. For an address space whose areas are disjoint and in order, a well-formed query that asks for no
  name and no build identity is answered by the specification: the search ends, the result is \<open>-ENOENT\<close>
  with nothing written when no area has what the query asks for, otherwise success with the answer for
  the first such area, whichever area locks are refused on the way.
\<close>

theorem procmap_query_exact:
  assumes "areas_disjoint (qe_vmas env)" "\<And>k. qe_fail env k = None \<or> qe_fail env k = Some (-11)"
    and "qi_usize io = Some usize" "24 \<le> usize" "usize \<le> 4096" "qi_copy io = Inr karg"
    and "pq_query_flags karg AND NOT 0x3F = 0" "qi_mm io = Some mm" "qi_mmget io" "\<not> qi_arg_faults io"
    and "pq_vma_name_size karg = 0" "pq_vma_name_addr karg = 0" "pq_build_id_size karg = 0" "pq_build_id_addr karg = 0"
  shows "case do_procmap_query io env of (ret, out, name, build_id, tr) \<Rightarrow>
    (ret, out) = (case query_spec (qe_vmas env) (pq_query_addr karg) (ucast (pq_query_flags karg)) of
       None \<Rightarrow> (-2, None)
     | Some v \<Rightarrow> (0, Some (query_answer io v karg)))"
proof -
  let ?q = "query_matching_vma env \<lparr>lc_locked = False, lc_vma = None, lc_calls = 0\<rparr> (pq_query_addr karg) (ucast (pq_query_flags karg))"
  let ?spec = "query_spec (qe_vmas env) (pq_query_addr karg) (ucast (pq_query_flags karg))"
  obtain r ctx tr where q: "?q = (r, ctx, tr)" by (metis prod_cases3)
  have r: "r = (case ?spec of None \<Rightarrow> Inl (-2) | Some v \<Rightarrow> Inr v)"
    using query_matching_exact [OF assms(1,2), of _ "pq_query_addr karg" "ucast (pq_query_flags karg)"] q by (metis fst_conv)
  have "\<not> 4096 < usize" "\<not> usize < 24" using assms(4,5) by auto
  then show ?thesis
    using assms(3,6-) q r
    by (auto simp: do_procmap_query_def Let_def query_build_id_def query_name_def query_copy_out_def query_answer_sizes
        split: option.split)
qed

text \<open>An address space of two areas, the lower one private and without a file, the upper one executable.\<close>

definition demo_area :: "u64 \<Rightarrow> u64 \<Rightarrow> u64 \<Rightarrow> map_vma" where
  "demo_area s e f = \<lparr>mv_start = s, mv_end = e, mv_flags = f, mv_file = None, mv_has_mm = True, mv_anon_name = None,
     mv_ops_name = None, mv_arch_name = None, mv_heap = False, mv_stack = False\<rparr>"

definition demo_query_env :: query_env where
  "demo_query_env = \<lparr>qe_mm = 9, qe_vmas = [demo_area 0x1000 0x3000 3, demo_area 0x8000 0x9000 5],
     qe_fail = (\<lambda>k. if k = 0 then None else Some (-11))\<rparr>"

definition demo_query :: "u64 \<Rightarrow> u64 \<Rightarrow> procmap_query" where
  "demo_query addr flags = \<lparr>pq_size = 104, pq_query_flags = flags, pq_query_addr = addr, pq_vma_start = 0, pq_vma_end = 0,
     pq_vma_flags = 0, pq_vma_page_size = 0, pq_vma_offset = 0, pq_inode = 0, pq_dev_major = 0, pq_dev_minor = 0,
     pq_vma_name_size = 0, pq_build_id_size = 0, pq_vma_name_addr = 0, pq_build_id_addr = 0\<rparr>"

definition demo_query_io :: "u64 \<Rightarrow> u64 \<Rightarrow> query_io" where
  "demo_query_io addr flags = \<lparr>qi_usize = Some 104, qi_copy = Inr (demo_query addr flags), qi_mm = Some 9, qi_mmget = True,
     qi_page_size = (\<lambda>v. 4096), qi_build_id = (\<lambda>v. Inl (-22)), qi_kmalloc = True, qi_d_path = (\<lambda>p n. Inl (-36)),
     qi_name_faults = False, qi_build_id_faults = False, qi_arg_faults = False\<rparr>"

theorem procmap_query_exact_witness:
  "case do_procmap_query (demo_query_io 0x2000 0x14) demo_query_env of (ret, out, name, build_id, tr) \<Rightarrow>
    (ret, map_option pq_vma_start out) = (0, Some 0x8000)"
proof -
  have "query_spec (qe_vmas demo_query_env) 0x2000 0x14 = Some (demo_area 0x8000 0x9000 5)"
    by (simp add: query_spec_def demo_query_env_def demo_area_def query_has_def)
  then show ?thesis
    using procmap_query_exact [of demo_query_env "demo_query_io 0x2000 0x14" 104 "demo_query 0x2000 0x14" 9]
    by (auto simp: demo_query_io_def demo_query_def demo_query_env_def areas_disjoint_def demo_area_def query_answer_def Let_def)
qed

end
