(* ===== verification/Entry_Ops.thy ===== *)
theory Entry_Ops
  imports X86_Pgtable
begin

text \<open>
  The operations of \<open>kernel_module/pgtable.h\<close> that change a page-table entry: setting and clearing its
  flags, moving the dirty bit between its hardware and its software place, changing its protection,
  building it from a frame number. An entry without the write bit and with the hardware dirty bit is a
  shadow stack; the lemmas show that no operation makes one by accident, that dirtiness, accesses and
  frames survive, and where they do not.
\<close>

unbundle bit_operations_syntax

section \<open>Flags\<close>

definition page_bit :: "nat \<Rightarrow> u64" where
  "page_bit k = push_bit k 1"

abbreviation PG_PRESENT :: u64 where "PG_PRESENT \<equiv> page_bit 0"
abbreviation PG_RW :: u64 where "PG_RW \<equiv> page_bit 1"
abbreviation PG_USER :: u64 where "PG_USER \<equiv> page_bit 2"
abbreviation PG_PWT :: u64 where "PG_PWT \<equiv> page_bit 3"
abbreviation PG_PCD :: u64 where "PG_PCD \<equiv> page_bit 4"
abbreviation PG_ACCESSED :: u64 where "PG_ACCESSED \<equiv> page_bit 5"
abbreviation PG_DIRTY :: u64 where "PG_DIRTY \<equiv> page_bit 6"
abbreviation PG_PSE :: u64 where "PG_PSE \<equiv> page_bit 7"
abbreviation PG_PAT :: u64 where "PG_PAT \<equiv> page_bit 7"
abbreviation PG_GLOBAL :: u64 where "PG_GLOBAL \<equiv> page_bit 8"
abbreviation PG_PROTNONE :: u64 where "PG_PROTNONE \<equiv> page_bit 8"
abbreviation PG_SPECIAL :: u64 where "PG_SPECIAL \<equiv> page_bit 9"
abbreviation PG_UFFD_WP :: u64 where "PG_UFFD_WP \<equiv> page_bit 10"
abbreviation PG_SOFT_DIRTY :: u64 where "PG_SOFT_DIRTY \<equiv> page_bit 11"
abbreviation PG_PAT_LARGE :: u64 where "PG_PAT_LARGE \<equiv> page_bit 12"
abbreviation PG_DEVMAP :: u64 where "PG_DEVMAP \<equiv> page_bit 57"
abbreviation PG_SAVED_DIRTY :: u64 where "PG_SAVED_DIRTY \<equiv> page_bit 58"
abbreviation PG_NX :: u64 where "PG_NX \<equiv> page_bit 63"
abbreviation PG_DIRTY_BITS :: u64 where "PG_DIRTY_BITS \<equiv> PG_DIRTY OR PG_SAVED_DIRTY"
abbreviation PG_SWP_SOFT_DIRTY :: u64 where "PG_SWP_SOFT_DIRTY \<equiv> PG_RW"
abbreviation PG_SWP_UFFD_WP :: u64 where "PG_SWP_UFFD_WP \<equiv> PG_USER"
abbreviation PG_SWP_EXCLUSIVE :: u64 where "PG_SWP_EXCLUSIVE \<equiv> PG_PWT"
abbreviation COMMON_PAGE_CHG_MASK :: u64 where
  "COMMON_PAGE_CHG_MASK \<equiv> PTE_ADDR_MASK OR PG_PCD OR PG_PWT OR PG_SPECIAL OR PG_ACCESSED OR PG_DIRTY_BITS OR
     PG_SOFT_DIRTY OR PG_DEVMAP OR PG_UFFD_WP"
abbreviation PAGE_CHG_MASK :: u64 where "PAGE_CHG_MASK \<equiv> COMMON_PAGE_CHG_MASK OR PG_PAT"
abbreviation HPAGE_CHG_MASK :: u64 where "HPAGE_CHG_MASK \<equiv> COMMON_PAGE_CHG_MASK OR PG_PSE OR PG_PAT_LARGE"

section \<open>Setting and clearing flags\<close>

named_theorems entry_defs "definitions of the operations on entries"

definition pte_set_flags :: "u64 \<Rightarrow> u64 \<Rightarrow> u64" where
  "pte_set_flags pte s = pte OR s"

definition pte_clear_flags :: "u64 \<Rightarrow> u64 \<Rightarrow> u64" where
  "pte_clear_flags pte clear = pte AND NOT clear"

definition pmd_set_flags :: "u64 \<Rightarrow> u64 \<Rightarrow> u64" where
  "pmd_set_flags pmd s = pmd OR s"

definition pmd_clear_flags :: "u64 \<Rightarrow> u64 \<Rightarrow> u64" where
  "pmd_clear_flags pmd clear = pmd AND NOT clear"

definition pud_set_flags :: "u64 \<Rightarrow> u64 \<Rightarrow> u64" where
  "pud_set_flags pud s = pud OR s"

definition pud_clear_flags :: "u64 \<Rightarrow> u64 \<Rightarrow> u64" where
  "pud_clear_flags pud clear = pud AND NOT clear"

definition mksaveddirty_shift :: "u64 \<Rightarrow> u64" where
  "mksaveddirty_shift v =
    (let cond = drop_bit 1 (NOT v) AND 1;
         v = v OR push_bit 58 (drop_bit 6 v AND cond) in
     v AND NOT (push_bit 6 cond))"

definition clear_saveddirty_shift :: "u64 \<Rightarrow> u64" where
  "clear_saveddirty_shift v =
    (let cond = drop_bit 1 v AND 1;
         v = v OR push_bit 6 (drop_bit 58 v AND cond) in
     v AND NOT (push_bit 58 cond))"

definition pte_mksaveddirty :: "u64 \<Rightarrow> u64" where
  "pte_mksaveddirty pte = mksaveddirty_shift pte"

definition pte_clear_saveddirty :: "u64 \<Rightarrow> u64" where
  "pte_clear_saveddirty pte = clear_saveddirty_shift pte"

definition pmd_mksaveddirty :: "u64 \<Rightarrow> u64" where
  "pmd_mksaveddirty pmd = mksaveddirty_shift pmd"

definition pmd_clear_saveddirty :: "u64 \<Rightarrow> u64" where
  "pmd_clear_saveddirty pmd = clear_saveddirty_shift pmd"

definition pud_mksaveddirty :: "u64 \<Rightarrow> u64" where
  "pud_mksaveddirty pud = mksaveddirty_shift pud"

definition pud_clear_saveddirty :: "u64 \<Rightarrow> u64" where
  "pud_clear_saveddirty pud = clear_saveddirty_shift pud"

definition pte_wrprotect :: "u64 \<Rightarrow> u64" where
  "pte_wrprotect pte = pte_mksaveddirty (pte_clear_flags pte PG_RW)"

definition pte_mkold :: "u64 \<Rightarrow> u64" where
  "pte_mkold pte = pte_clear_flags pte PG_ACCESSED"

definition pte_mkclean :: "u64 \<Rightarrow> u64" where
  "pte_mkclean pte = pte_clear_flags pte PG_DIRTY_BITS"

definition pte_mkdirty :: "u64 \<Rightarrow> u64" where
  "pte_mkdirty pte = pte_mksaveddirty (pte_set_flags pte (PG_DIRTY OR PG_SOFT_DIRTY))"

definition pte_mkyoung :: "u64 \<Rightarrow> u64" where
  "pte_mkyoung pte = pte_set_flags pte PG_ACCESSED"

definition pte_mkhuge :: "u64 \<Rightarrow> u64" where
  "pte_mkhuge pte = pte_set_flags pte PG_PSE"

definition pte_mkdevmap :: "u64 \<Rightarrow> u64" where
  "pte_mkdevmap pte = pte_set_flags pte (PG_SPECIAL OR PG_DEVMAP)"

definition pte_mksoft_dirty :: "u64 \<Rightarrow> u64" where
  "pte_mksoft_dirty pte = pte_set_flags pte PG_SOFT_DIRTY"

definition pte_clear_soft_dirty :: "u64 \<Rightarrow> u64" where
  "pte_clear_soft_dirty pte = pte_clear_flags pte PG_SOFT_DIRTY"

definition pte_mkuffd_wp :: "u64 \<Rightarrow> u64" where
  "pte_mkuffd_wp pte = pte_wrprotect (pte_set_flags pte PG_UFFD_WP)"

definition pte_clear_uffd_wp :: "u64 \<Rightarrow> u64" where
  "pte_clear_uffd_wp pte = pte_clear_flags pte PG_UFFD_WP"

definition pte_mkwrite_novma :: "u64 \<Rightarrow> u64" where
  "pte_mkwrite_novma pte = pte_set_flags pte PG_RW"

definition pte_mkwrite_shstk :: "u64 \<Rightarrow> u64" where
  "pte_mkwrite_shstk pte = pte_set_flags (pte_clear_flags pte PG_RW) PG_DIRTY"

definition pmd_wrprotect :: "u64 \<Rightarrow> u64" where
  "pmd_wrprotect pmd = pmd_mksaveddirty (pmd_clear_flags pmd PG_RW)"

definition pmd_mkold :: "u64 \<Rightarrow> u64" where
  "pmd_mkold pmd = pmd_clear_flags pmd PG_ACCESSED"

definition pmd_mkclean :: "u64 \<Rightarrow> u64" where
  "pmd_mkclean pmd = pmd_clear_flags pmd PG_DIRTY_BITS"

definition pmd_mkdirty :: "u64 \<Rightarrow> u64" where
  "pmd_mkdirty pmd = pmd_mksaveddirty (pmd_set_flags pmd (PG_DIRTY OR PG_SOFT_DIRTY))"

definition pmd_mkyoung :: "u64 \<Rightarrow> u64" where
  "pmd_mkyoung pmd = pmd_set_flags pmd PG_ACCESSED"

definition pmd_mkhuge :: "u64 \<Rightarrow> u64" where
  "pmd_mkhuge pmd = pmd_set_flags pmd PG_PSE"

definition pmd_mkdevmap :: "u64 \<Rightarrow> u64" where
  "pmd_mkdevmap pmd = pmd_set_flags pmd PG_DEVMAP"

definition pmd_mksoft_dirty :: "u64 \<Rightarrow> u64" where
  "pmd_mksoft_dirty pmd = pmd_set_flags pmd PG_SOFT_DIRTY"

definition pmd_clear_soft_dirty :: "u64 \<Rightarrow> u64" where
  "pmd_clear_soft_dirty pmd = pmd_clear_flags pmd PG_SOFT_DIRTY"

definition pmd_mkuffd_wp :: "u64 \<Rightarrow> u64" where
  "pmd_mkuffd_wp pmd = pmd_wrprotect (pmd_set_flags pmd PG_UFFD_WP)"

definition pmd_clear_uffd_wp :: "u64 \<Rightarrow> u64" where
  "pmd_clear_uffd_wp pmd = pmd_clear_flags pmd PG_UFFD_WP"

definition pmd_mkwrite_novma :: "u64 \<Rightarrow> u64" where
  "pmd_mkwrite_novma pmd = pmd_set_flags pmd PG_RW"

definition pmd_mkwrite_shstk :: "u64 \<Rightarrow> u64" where
  "pmd_mkwrite_shstk pmd = pmd_set_flags (pmd_clear_flags pmd PG_RW) PG_DIRTY"

definition pud_wrprotect :: "u64 \<Rightarrow> u64" where
  "pud_wrprotect pud = pud_mksaveddirty (pud_clear_flags pud PG_RW)"

definition pud_mkold :: "u64 \<Rightarrow> u64" where
  "pud_mkold pud = pud_clear_flags pud PG_ACCESSED"

definition pud_mkclean :: "u64 \<Rightarrow> u64" where
  "pud_mkclean pud = pud_clear_flags pud PG_DIRTY_BITS"

definition pud_mkdirty :: "u64 \<Rightarrow> u64" where
  "pud_mkdirty pud = pud_mksaveddirty (pud_set_flags pud (PG_DIRTY OR PG_SOFT_DIRTY))"

definition pud_mkyoung :: "u64 \<Rightarrow> u64" where
  "pud_mkyoung pud = pud_set_flags pud PG_ACCESSED"

definition pud_mkhuge :: "u64 \<Rightarrow> u64" where
  "pud_mkhuge pud = pud_set_flags pud PG_PSE"

definition pud_mkdevmap :: "u64 \<Rightarrow> u64" where
  "pud_mkdevmap pud = pud_set_flags pud PG_DEVMAP"

definition pud_mksoft_dirty :: "u64 \<Rightarrow> u64" where
  "pud_mksoft_dirty pud = pud_set_flags pud PG_SOFT_DIRTY"

definition pud_clear_soft_dirty :: "u64 \<Rightarrow> u64" where
  "pud_clear_soft_dirty pud = pud_clear_flags pud PG_SOFT_DIRTY"

definition pud_mkwrite :: "u64 \<Rightarrow> u64" where
  "pud_mkwrite pud = pud_clear_saveddirty (pud_set_flags pud PG_RW)"

definition pte_mkexec :: "u64 \<Rightarrow> u64" where
  "pte_mkexec pte = pte_clear_flags pte PG_NX"

definition pte_clrhuge :: "u64 \<Rightarrow> u64" where
  "pte_clrhuge pte = pte_clear_flags pte PG_PSE"

definition pte_mkglobal :: "u64 \<Rightarrow> u64" where
  "pte_mkglobal pte = pte_set_flags pte PG_GLOBAL"

definition pte_clrglobal :: "u64 \<Rightarrow> u64" where
  "pte_clrglobal pte = pte_clear_flags pte PG_GLOBAL"

definition pte_mkspecial :: "u64 \<Rightarrow> u64" where
  "pte_mkspecial pte = pte_set_flags pte PG_SPECIAL"

text \<open>Entries of swapped-out pages keep their marks in other bits.\<close>

definition pte_swp_mkexclusive :: "u64 \<Rightarrow> u64" where
  "pte_swp_mkexclusive pte = pte_set_flags pte PG_SWP_EXCLUSIVE"

definition pte_swp_clear_exclusive :: "u64 \<Rightarrow> u64" where
  "pte_swp_clear_exclusive pte = pte_clear_flags pte PG_SWP_EXCLUSIVE"

definition pte_swp_mksoft_dirty :: "u64 \<Rightarrow> u64" where
  "pte_swp_mksoft_dirty pte = pte_set_flags pte PG_SWP_SOFT_DIRTY"

definition pte_swp_clear_soft_dirty :: "u64 \<Rightarrow> u64" where
  "pte_swp_clear_soft_dirty pte = pte_clear_flags pte PG_SWP_SOFT_DIRTY"

definition pmd_swp_mksoft_dirty :: "u64 \<Rightarrow> u64" where
  "pmd_swp_mksoft_dirty pmd = pmd_set_flags pmd PG_SWP_SOFT_DIRTY"

definition pmd_swp_clear_soft_dirty :: "u64 \<Rightarrow> u64" where
  "pmd_swp_clear_soft_dirty pmd = pmd_clear_flags pmd PG_SWP_SOFT_DIRTY"

definition pte_swp_mkuffd_wp :: "u64 \<Rightarrow> u64" where
  "pte_swp_mkuffd_wp pte = pte_set_flags pte PG_SWP_UFFD_WP"

definition pte_swp_clear_uffd_wp :: "u64 \<Rightarrow> u64" where
  "pte_swp_clear_uffd_wp pte = pte_clear_flags pte PG_SWP_UFFD_WP"

definition pmd_swp_mkuffd_wp :: "u64 \<Rightarrow> u64" where
  "pmd_swp_mkuffd_wp pmd = pmd_set_flags pmd PG_SWP_UFFD_WP"

definition pmd_swp_clear_uffd_wp :: "u64 \<Rightarrow> u64" where
  "pmd_swp_clear_uffd_wp pmd = pmd_clear_flags pmd PG_SWP_UFFD_WP"

section \<open>Tests\<close>

text \<open>\<open>shstk\<close> is whether the processor has shadow stacks.\<close>

definition pte_shstk :: "bool \<Rightarrow> u64 \<Rightarrow> bool" where
  "pte_shstk shstk pte \<longleftrightarrow> shstk \<and> pte_flags pte AND (PG_RW OR PG_DIRTY) = PG_DIRTY"

definition pmd_shstk :: "bool \<Rightarrow> u64 \<Rightarrow> bool" where
  "pmd_shstk shstk pmd \<longleftrightarrow> shstk \<and> pmd_flags pmd AND (PG_RW OR PG_DIRTY OR PG_PSE) = (PG_DIRTY OR PG_PSE)"

definition pud_shstk :: "bool \<Rightarrow> u64 \<Rightarrow> bool" where
  "pud_shstk shstk pud \<longleftrightarrow> shstk \<and> pud_flags pud AND (PG_RW OR PG_DIRTY OR PG_PSE) = (PG_DIRTY OR PG_PSE)"

definition pte_write :: "bool \<Rightarrow> u64 \<Rightarrow> bool" where
  "pte_write shstk pte \<longleftrightarrow> pte_flags pte AND PG_RW \<noteq> 0 \<or> pte_shstk shstk pte"

definition pmd_write :: "bool \<Rightarrow> u64 \<Rightarrow> bool" where
  "pmd_write shstk pmd \<longleftrightarrow> pmd_flags pmd AND PG_RW \<noteq> 0 \<or> pmd_shstk shstk pmd"

definition pud_write :: "u64 \<Rightarrow> bool" where
  "pud_write pud \<longleftrightarrow> pud_flags pud AND PG_RW \<noteq> 0"

definition pud_dirty :: "u64 \<Rightarrow> bool" where
  "pud_dirty pud \<longleftrightarrow> pud_flags pud AND PG_DIRTY_BITS \<noteq> 0"

definition pud_young :: "u64 \<Rightarrow> bool" where
  "pud_young pud \<longleftrightarrow> pud_flags pud AND PG_ACCESSED \<noteq> 0"

definition pud_soft_dirty :: "u64 \<Rightarrow> bool" where
  "pud_soft_dirty pud \<longleftrightarrow> pud_flags pud AND PG_SOFT_DIRTY \<noteq> 0"

definition pte_huge :: "u64 \<Rightarrow> bool" where
  "pte_huge pte \<longleftrightarrow> pte_flags pte AND PG_PSE \<noteq> 0"

definition pte_global :: "u64 \<Rightarrow> bool" where
  "pte_global pte \<longleftrightarrow> pte_flags pte AND PG_GLOBAL \<noteq> 0"

definition pte_exec :: "u64 \<Rightarrow> bool" where
  "pte_exec pte \<longleftrightarrow> pte_flags pte AND PG_NX = 0"

definition pte_special :: "u64 \<Rightarrow> bool" where
  "pte_special pte \<longleftrightarrow> pte_flags pte AND PG_SPECIAL \<noteq> 0"

definition pte_swp_exclusive :: "u64 \<Rightarrow> bool" where
  "pte_swp_exclusive pte \<longleftrightarrow> pte_flags pte AND PG_SWP_EXCLUSIVE \<noteq> 0"

definition pmd_trans_huge :: "u64 \<Rightarrow> bool" where
  "pmd_trans_huge pmd \<longleftrightarrow> pmd AND (PG_PSE OR PG_DEVMAP) = PG_PSE"

definition pmd_devmap :: "u64 \<Rightarrow> bool" where
  "pmd_devmap pmd \<longleftrightarrow> pmd AND PG_DEVMAP \<noteq> 0"

definition pte_protnone :: "u64 \<Rightarrow> bool" where
  "pte_protnone pte \<longleftrightarrow> pte_flags pte AND (PG_PROTNONE OR PG_PRESENT) = PG_PROTNONE"

definition pmd_protnone :: "u64 \<Rightarrow> bool" where
  "pmd_protnone pmd \<longleftrightarrow> pmd_flags pmd AND (PG_PROTNONE OR PG_PRESENT) = PG_PROTNONE"

definition pte_accessible :: "int \<Rightarrow> u64 \<Rightarrow> bool" where
  "pte_accessible tlb_flush_pending pte \<longleftrightarrow> pte_flags pte AND PG_PRESENT \<noteq> 0 \<or> pte_flags pte AND PG_PROTNONE \<noteq> 0 \<and> tlb_flush_pending \<noteq> (0 :: int)"

section \<open>Frames and protections\<close>

text \<open>\<open>supported\<close> is \<open>__supported_pte_mask\<close>, the flags the processor has. A check that only warns is left out.\<close>

definition massage_pgprot :: "u64 \<Rightarrow> u64 \<Rightarrow> u64" where
  "massage_pgprot supported protval = (if protval AND PG_PRESENT \<noteq> 0 then protval AND supported else protval)"

definition check_pgprot :: "u64 \<Rightarrow> u64 \<Rightarrow> u64" where
  "check_pgprot supported pgprot = massage_pgprot supported pgprot"

definition pfn_pte :: "u64 \<Rightarrow> u64 \<Rightarrow> u64 \<Rightarrow> u64" where
  "pfn_pte supported page_nr pgprot = 
    ((push_bit 12 page_nr XOR protnone_mask pgprot) AND PTE_ADDR_MASK) OR check_pgprot supported pgprot"

definition pfn_pmd :: "u64 \<Rightarrow> u64 \<Rightarrow> u64 \<Rightarrow> u64" where
  "pfn_pmd supported page_nr pgprot = 
    ((push_bit 12 page_nr XOR protnone_mask pgprot) AND HUGE_2MB_MASK) OR check_pgprot supported pgprot"

definition pfn_pud :: "u64 \<Rightarrow> u64 \<Rightarrow> u64 \<Rightarrow> u64" where
  "pfn_pud supported page_nr pgprot = 
    ((push_bit 12 page_nr XOR protnone_mask pgprot) AND HUGE_1GB_MASK) OR check_pgprot supported pgprot"

definition pud_pfn :: "u64 \<Rightarrow> u64" where
  "pud_pfn pud = drop_bit 12 ((pud XOR protnone_mask pud) AND pud_pfn_mask pud)"

definition pmd_mkinvalid :: "u64 \<Rightarrow> u64 \<Rightarrow> u64" where
  "pmd_mkinvalid supported pmd = pfn_pmd supported (pmd_pfn pmd) (pmd_flags pmd AND NOT (PG_PRESENT OR PG_PROTNONE))"

definition pud_mkinvalid :: "u64 \<Rightarrow> u64 \<Rightarrow> u64" where
  "pud_mkinvalid supported pud = pfn_pud supported (pud_pfn pud) (pud_flags pud AND NOT (PG_PRESENT OR PG_PROTNONE))"

definition flip_protnone_guard :: "u64 \<Rightarrow> u64 \<Rightarrow> u64 \<Rightarrow> u64" where
  "flip_protnone_guard oldval val msk = 
    (if pte_needs_invert oldval \<noteq> pte_needs_invert val then (val AND NOT msk) OR (NOT val AND msk) else val)"

definition pte_modify :: "u64 \<Rightarrow> u64 \<Rightarrow> u64 \<Rightarrow> u64" where
  "pte_modify supported pte newprot = 
    (let oldval = pte;
         val = oldval AND PAGE_CHG_MASK;
         val = val OR (check_pgprot supported newprot AND NOT PAGE_CHG_MASK);
         val = flip_protnone_guard oldval val PTE_ADDR_MASK in
     if oldval AND PG_RW \<noteq> 0 then pte_mksaveddirty val else pte_clear_saveddirty val)"

definition pmd_modify :: "u64 \<Rightarrow> u64 \<Rightarrow> u64 \<Rightarrow> u64" where
  "pmd_modify supported pmd newprot = 
    (let oldval = pmd;
         val = oldval AND (HPAGE_CHG_MASK AND NOT PG_DIRTY);
         val = val OR (check_pgprot supported newprot AND NOT HPAGE_CHG_MASK);
         val = flip_protnone_guard oldval val HUGE_2MB_MASK in
     if oldval AND PG_RW \<noteq> 0 then pmd_mksaveddirty val else pmd_clear_saveddirty val)"

definition pud_modify :: "u64 \<Rightarrow> u64 \<Rightarrow> u64 \<Rightarrow> u64" where
  "pud_modify supported pud newprot = 
    (let oldval = pud;
         val = oldval AND HPAGE_CHG_MASK;
         val = val OR (check_pgprot supported newprot AND NOT HPAGE_CHG_MASK);
         val = flip_protnone_guard oldval val HUGE_1GB_MASK in
     if oldval AND PG_RW \<noteq> 0 then pud_mksaveddirty val else pud_clear_saveddirty val)"

definition pgprot_modify :: "u64 \<Rightarrow> u64 \<Rightarrow> u64" where
  "pgprot_modify oldprot newprot = (oldprot AND PAGE_CHG_MASK) OR (newprot AND NOT PAGE_CHG_MASK)"

definition pte_advance_pfn :: "u64 \<Rightarrow> u64 \<Rightarrow> u64" where
  "pte_advance_pfn pte nr = (if pte_needs_invert pte then pte - push_bit 12 nr else pte + push_bit 12 nr)"

definition protval_4k_2_large :: "u64 \<Rightarrow> u64" where
  "protval_4k_2_large val = (val AND NOT (PG_PAT OR PG_PAT_LARGE)) OR push_bit 5 (val AND PG_PAT)"

definition protval_large_2_4k :: "u64 \<Rightarrow> u64" where
  "protval_large_2_4k val = (val AND NOT (PG_PAT OR PG_PAT_LARGE)) OR drop_bit 5 (val AND PG_PAT_LARGE)"

section \<open>Access\<close>

text \<open>A \<open>u16\<close> key times 2 is an \<open>int\<close>; keys are below 16. \<open>pkru\<close> is what \<open>read_pkru\<close> answers.\<close>

definition pte_flags_pkey :: "u64 \<Rightarrow> u64" where
  "pte_flags_pkey flags = drop_bit 59 (flags AND (page_bit 59 OR page_bit 60 OR page_bit 61 OR page_bit 62))"

definition pkru_allows_read :: "u32 \<Rightarrow> u64 \<Rightarrow> bool" where
  "pkru_allows_read pkru pkey \<longleftrightarrow> pkru AND push_bit (2 * unat pkey) 1 = 0"

definition pkru_allows_write :: "u32 \<Rightarrow> u64 \<Rightarrow> bool" where
  "pkru_allows_write pkru pkey \<longleftrightarrow> pkru AND push_bit (2 * unat pkey) 3 = 0"

definition pkru_allows_pkey :: "u32 \<Rightarrow> u64 \<Rightarrow> bool \<Rightarrow> bool" where
  "pkru_allows_pkey pkru pkey write \<longleftrightarrow> pkru_allows_read pkru pkey \<and> (write \<longrightarrow> pkru_allows_write pkru pkey)"

definition pte_access_permitted :: "u32 \<Rightarrow> u64 \<Rightarrow> bool \<Rightarrow> bool" where
  "pte_access_permitted pkru pteval write = 
    (let need_pte_bits = PG_PRESENT OR PG_USER;
         need_pte_bits = (if write then need_pte_bits OR PG_RW else need_pte_bits) in
     if pteval AND need_pte_bits \<noteq> need_pte_bits then False
     else pkru_allows_pkey pkru (pte_flags_pkey pteval) write)"

text \<open>Page levels: 1 is 4 KB, 2 is 2 MB, 3 is 1 GB. The two halves of a table pair of page-table isolation.\<close>

definition page_level_shift :: "nat \<Rightarrow> nat" where
  "page_level_shift level = (12 - 9) + level * 9"

definition page_level_size :: "nat \<Rightarrow> u64" where
  "page_level_size level = push_bit (page_level_shift level) 1"

definition page_level_mask :: "nat \<Rightarrow> u64" where
  "page_level_mask level = NOT (page_level_size level - 1)"

definition pgdp_maps_userspace :: "u64 \<Rightarrow> bool" where
  "pgdp_maps_userspace ptr \<longleftrightarrow> (ptr AND NOT (NOT 0xFFF)) div 8 < 256"

definition kernel_to_user_pgdp :: "u64 \<Rightarrow> u64" where
  "kernel_to_user_pgdp pgdp = pgdp OR page_bit 12"

definition user_to_kernel_pgdp :: "u64 \<Rightarrow> u64" where
  "user_to_kernel_pgdp pgdp = pgdp AND NOT (page_bit 12)"

section \<open>Bits of the results\<close>

named_theorems entry_bits "what an operation does to each bit of an entry"

lemma bit_page_bit [entry_bits]: "bit (page_bit k) n \<longleftrightarrow> n = k \<and> n < 64"
  unfolding page_bit_def bit_push_bit_iff bit_1_iff by auto

lemma and_page_bit: "x AND page_bit k = 0 \<longleftrightarrow> \<not> (k < 64 \<and> bit x k)"
proof (cases "k < 64 \<and> bit x k")
  case True
  then have "bit (x AND page_bit k) k" by (simp add: bit_and_iff bit_page_bit)
  then show ?thesis using True by auto
next
  case False
  then have "\<not> bit (x AND page_bit k) n" for n by (auto simp: bit_and_iff bit_page_bit)
  then show ?thesis using False by (simp add: bit_eq_iff)
qed

lemma and_1_of_bit: "drop_bit k v AND 1 = (if bit v k then 1 else 0)" for v :: u64
  using drop_bit_and_one_iff [of k v] by (simp add: and_one_eq mod_2_eq_odd split: if_splits)

lemma shift_cases:
  "mksaveddirty_shift v =
    (if bit v 1 then v else if bit v 6 then (v OR PG_SAVED_DIRTY) AND NOT PG_DIRTY else v AND NOT PG_DIRTY)"
  "clear_saveddirty_shift v =
    (if \<not> bit v 1 then v else if bit v 58 then (v OR PG_DIRTY) AND NOT PG_SAVED_DIRTY else v AND NOT PG_SAVED_DIRTY)"
proof -
  have "drop_bit 1 (NOT v) AND 1 = (if bit v 1 then 0 else 1)"
    by (subst and_1_of_bit) (simp add: bit_not_iff)
  then show "mksaveddirty_shift v =
    (if bit v 1 then v else if bit v 6 then (v OR PG_SAVED_DIRTY) AND NOT PG_DIRTY else v AND NOT PG_DIRTY)"
    by (cases "bit v 1"; cases "bit v 6")
      (simp_all only: mksaveddirty_shift_def page_bit_def Let_def if_True if_False and_1_of_bit [of 6], simp_all)
  show "clear_saveddirty_shift v =
    (if \<not> bit v 1 then v else if bit v 58 then (v OR PG_DIRTY) AND NOT PG_SAVED_DIRTY else v AND NOT PG_SAVED_DIRTY)"
    by (cases "bit v 1"; cases "bit v 58")
      (simp_all only: clear_saveddirty_shift_def page_bit_def Let_def if_True if_False and_1_of_bit [of 58] and_1_of_bit [of 1], simp_all)
qed

lemma bit_mksaveddirty [entry_bits]:
  "bit (mksaveddirty_shift v) n \<longleftrightarrow>
    (if bit v 1 then bit v n else if n = 58 then bit v 58 \<or> bit v 6 else n \<noteq> 6 \<and> bit v n)"
  by (auto simp: shift_cases bit_and_iff bit_or_iff bit_not_iff bit_page_bit dest: bit_u64_bound)

lemma bit_clear_saveddirty [entry_bits]:
  "bit (clear_saveddirty_shift v) n \<longleftrightarrow>
    (if \<not> bit v 1 then bit v n else if n = 6 then bit v 58 \<or> bit v 6 else n \<noteq> 58 \<and> bit v n)"
  by (auto simp: shift_cases bit_and_iff bit_or_iff bit_not_iff bit_page_bit dest: bit_u64_bound)

lemmas flag_op_defs =
  pte_set_flags_def pte_clear_flags_def pmd_set_flags_def pmd_clear_flags_def pud_set_flags_def
  pud_clear_flags_def pte_mksaveddirty_def pte_clear_saveddirty_def pmd_mksaveddirty_def
  pmd_clear_saveddirty_def pud_mksaveddirty_def pud_clear_saveddirty_def pte_wrprotect_def pte_mkold_def
  pte_mkclean_def pte_mkdirty_def pte_mkyoung_def pte_mkhuge_def pte_mkdevmap_def pte_mksoft_dirty_def
  pte_clear_soft_dirty_def pte_mkuffd_wp_def pte_clear_uffd_wp_def pte_mkwrite_novma_def
  pte_mkwrite_shstk_def pmd_wrprotect_def pmd_mkold_def pmd_mkclean_def pmd_mkdirty_def pmd_mkyoung_def
  pmd_mkhuge_def pmd_mkdevmap_def pmd_mksoft_dirty_def pmd_clear_soft_dirty_def pmd_mkuffd_wp_def
  pmd_clear_uffd_wp_def pmd_mkwrite_novma_def pmd_mkwrite_shstk_def pud_wrprotect_def pud_mkold_def
  pud_mkclean_def pud_mkdirty_def pud_mkyoung_def pud_mkhuge_def pud_mkdevmap_def pud_mksoft_dirty_def
  pud_clear_soft_dirty_def pud_mkwrite_def pte_mkexec_def pte_clrhuge_def pte_mkglobal_def pte_clrglobal_def
  pte_mkspecial_def pte_swp_mkexclusive_def pte_swp_clear_exclusive_def pte_swp_mksoft_dirty_def
  pte_swp_clear_soft_dirty_def pmd_swp_mksoft_dirty_def pmd_swp_clear_soft_dirty_def pte_swp_mkuffd_wp_def
  pte_swp_clear_uffd_wp_def pmd_swp_mkuffd_wp_def pmd_swp_clear_uffd_wp_def

lemmas word_bits = bit_and_iff bit_or_iff bit_not_iff bit_xor_iff bit_range_masks

lemma bit_pte_flags [entry_bits]: "bit (pte_flags p) n \<longleftrightarrow> bit p n \<and> \<not> (12 \<le> n \<and> n < 52)"
  unfolding pte_flags_def word_bits by (auto dest: bit_u64_bound)

lemma test_numerals:
  "(0x400000000000040 :: u64) = PG_DIRTY OR PG_SAVED_DIRTY" "(0x20 :: u64) = PG_ACCESSED" "(0x800 :: u64) = PG_SOFT_DIRTY"
  "(0x400 :: u64) = PG_UFFD_WP" "(0x101 :: u64) = PG_PRESENT OR PG_PROTNONE" "(0x181 :: u64) = PG_PRESENT OR PG_PROTNONE OR PG_PSE"
  "(0x2 :: u64) = PG_RW" "(0x4 :: u64) = PG_USER"
  by (simp_all add: page_bit_def)

lemma and_flags_eq_0: "x AND (a OR b) = 0 \<longleftrightarrow> x AND a = 0 \<and> x AND b = 0" for x a b :: u64
  by (auto simp: bit_eq_iff bit_and_iff bit_or_iff)

text \<open>What the tests of the header read.\<close>

lemma tests [entry_bits]:
  "pte_dirty p \<longleftrightarrow> bit p 6 \<or> bit p 58" "pmd_dirty p \<longleftrightarrow> bit p 6 \<or> bit p 58" "pud_dirty p \<longleftrightarrow> bit p 6 \<or> bit p 58"
  "pte_young p \<longleftrightarrow> bit p 5" "pmd_young p \<longleftrightarrow> bit p 5" "pud_young p \<longleftrightarrow> bit p 5"
  "pte_soft_dirty p \<longleftrightarrow> bit p 11" "pmd_soft_dirty p \<longleftrightarrow> bit p 11" "pud_soft_dirty p \<longleftrightarrow> bit p 11"
  "pte_uffd_wp p \<longleftrightarrow> bit p 10" "pmd_uffd_wp p \<longleftrightarrow> bit p 10"
  "pte_present p \<longleftrightarrow> bit p 0 \<or> bit p 8" "pmd_present p \<longleftrightarrow> bit p 0 \<or> bit p 7 \<or> bit p 8"
  "pte_swp_soft_dirty p \<longleftrightarrow> bit p 1" "pmd_swp_soft_dirty p \<longleftrightarrow> bit p 1" "pud_write p \<longleftrightarrow> bit p 1"
  "pte_swp_uffd_wp p \<longleftrightarrow> bit p 2" "pmd_swp_uffd_wp p \<longleftrightarrow> bit p 2"
  unfolding pte_dirty_def pmd_dirty_def pud_dirty_def pte_young_def pmd_young_def pud_young_def pte_soft_dirty_def
    pmd_soft_dirty_def pud_soft_dirty_def pte_uffd_wp_def pmd_uffd_wp_def pte_present_def pmd_present_def
    pte_swp_soft_dirty_def pmd_swp_soft_dirty_def pud_write_def pte_swp_uffd_wp_def pmd_swp_uffd_wp_def test_numerals
    and_flags_eq_0 and_page_bit bit_pte_flags flags_bits
  by auto

section \<open>What an entry says\<close>

text \<open>
  The levels, the operations on an entry and the function each level has for them, if any.
\<close>

datatype level = Pte | Pmd | Pud

datatype entry_op = Wrprotect | Mkold | Mkclean | Mkdirty | Mkyoung | Mkhuge | Mkdevmap | Mksoft_dirty | Clear_soft_dirty
  | Mkuffd_wp | Clear_uffd_wp | Mkwrite | Mkexec | Clrhuge | Mkglobal | Clrglobal | Mkspecial

fun level_op :: "level \<Rightarrow> entry_op \<Rightarrow> (u64 \<Rightarrow> u64) option" where
  "level_op Pte Wrprotect = Some pte_wrprotect"
| "level_op Pte Mkold = Some pte_mkold"
| "level_op Pte Mkclean = Some pte_mkclean"
| "level_op Pte Mkdirty = Some pte_mkdirty"
| "level_op Pte Mkyoung = Some pte_mkyoung"
| "level_op Pte Mkhuge = Some pte_mkhuge"
| "level_op Pte Mkdevmap = Some pte_mkdevmap"
| "level_op Pte Mksoft_dirty = Some pte_mksoft_dirty"
| "level_op Pte Clear_soft_dirty = Some pte_clear_soft_dirty"
| "level_op Pte Mkuffd_wp = Some pte_mkuffd_wp"
| "level_op Pte Clear_uffd_wp = Some pte_clear_uffd_wp"
| "level_op Pte Mkwrite = Some pte_mkwrite_novma"
| "level_op Pte Mkexec = Some pte_mkexec"
| "level_op Pte Clrhuge = Some pte_clrhuge"
| "level_op Pte Mkglobal = Some pte_mkglobal"
| "level_op Pte Clrglobal = Some pte_clrglobal"
| "level_op Pte Mkspecial = Some pte_mkspecial"
| "level_op Pmd Wrprotect = Some pmd_wrprotect"
| "level_op Pmd Mkold = Some pmd_mkold"
| "level_op Pmd Mkclean = Some pmd_mkclean"
| "level_op Pmd Mkdirty = Some pmd_mkdirty"
| "level_op Pmd Mkyoung = Some pmd_mkyoung"
| "level_op Pmd Mkhuge = Some pmd_mkhuge"
| "level_op Pmd Mkdevmap = Some pmd_mkdevmap"
| "level_op Pmd Mksoft_dirty = Some pmd_mksoft_dirty"
| "level_op Pmd Clear_soft_dirty = Some pmd_clear_soft_dirty"
| "level_op Pmd Mkuffd_wp = Some pmd_mkuffd_wp"
| "level_op Pmd Clear_uffd_wp = Some pmd_clear_uffd_wp"
| "level_op Pmd Mkwrite = Some pmd_mkwrite_novma"
| "level_op Pud Wrprotect = Some pud_wrprotect"
| "level_op Pud Mkold = Some pud_mkold"
| "level_op Pud Mkclean = Some pud_mkclean"
| "level_op Pud Mkdirty = Some pud_mkdirty"
| "level_op Pud Mkyoung = Some pud_mkyoung"
| "level_op Pud Mkhuge = Some pud_mkhuge"
| "level_op Pud Mkdevmap = Some pud_mkdevmap"
| "level_op Pud Mksoft_dirty = Some pud_mksoft_dirty"
| "level_op Pud Clear_soft_dirty = Some pud_clear_soft_dirty"
| "level_op Pud Mkwrite = Some pud_mkwrite"
| "level_op l op = None"

fun run_ops :: "level \<Rightarrow> entry_op list \<Rightarrow> u64 \<Rightarrow> u64 option" where
  "run_ops l [] e = Some e"
| "run_ops l (op # ops) e = (case level_op l op of None \<Rightarrow> None | Some f \<Rightarrow> run_ops l ops (f e))"

text \<open>
  The abstraction: what the tests of a level say of an entry, and its other bits (frame, presence,
  rights). The place of the dirty bit is not part of it. \<open>view_op\<close> is the effect that is meant.
\<close>

record entry_view =
  ev_write :: bool
  ev_dirty :: bool
  ev_young :: bool
  ev_soft_dirty :: bool
  ev_rest :: u64

definition other_bits :: "u64 \<Rightarrow> u64" where
  "other_bits e = e AND NOT (PG_RW OR PG_DIRTY OR PG_SAVED_DIRTY OR PG_ACCESSED OR PG_SOFT_DIRTY)"

fun view :: "level \<Rightarrow> bool \<Rightarrow> u64 \<Rightarrow> entry_view" where
  "view Pte shstk e = \<lparr>ev_write = pte_write shstk e, ev_dirty = pte_dirty e, ev_young = pte_young e,
     ev_soft_dirty = pte_soft_dirty e, ev_rest = other_bits e\<rparr>"
| "view Pmd shstk e = \<lparr>ev_write = pmd_write shstk e, ev_dirty = pmd_dirty e, ev_young = pmd_young e,
     ev_soft_dirty = pmd_soft_dirty e, ev_rest = other_bits e\<rparr>"
| "view Pud shstk e = \<lparr>ev_write = pud_write e, ev_dirty = pud_dirty e, ev_young = pud_young e,
     ev_soft_dirty = pud_soft_dirty e, ev_rest = other_bits e\<rparr>"

fun view_op :: "level \<Rightarrow> entry_op \<Rightarrow> entry_view \<Rightarrow> entry_view" where
  "view_op l Wrprotect v = v\<lparr>ev_write := False\<rparr>"
| "view_op l Mkold v = v\<lparr>ev_young := False\<rparr>"
| "view_op l Mkclean v = v\<lparr>ev_dirty := False\<rparr>"
| "view_op l Mkdirty v = v\<lparr>ev_dirty := True, ev_soft_dirty := True\<rparr>"
| "view_op l Mkyoung v = v\<lparr>ev_young := True\<rparr>"
| "view_op l Mkhuge v = v\<lparr>ev_rest := ev_rest v OR PG_PSE\<rparr>"
| "view_op l Mkdevmap v = v\<lparr>ev_rest := ev_rest v OR (if l = Pte then PG_SPECIAL OR PG_DEVMAP else PG_DEVMAP)\<rparr>"
| "view_op l Mksoft_dirty v = v\<lparr>ev_soft_dirty := True\<rparr>"
| "view_op l Clear_soft_dirty v = v\<lparr>ev_soft_dirty := False\<rparr>"
| "view_op l Mkuffd_wp v = v\<lparr>ev_write := False, ev_rest := ev_rest v OR PG_UFFD_WP\<rparr>"
| "view_op l Clear_uffd_wp v = v\<lparr>ev_rest := ev_rest v AND NOT PG_UFFD_WP\<rparr>"
| "view_op l Mkwrite v = v\<lparr>ev_write := True\<rparr>"
| "view_op l Mkexec v = v\<lparr>ev_rest := ev_rest v AND NOT PG_NX\<rparr>"
| "view_op l Clrhuge v = v\<lparr>ev_rest := ev_rest v AND NOT PG_PSE\<rparr>"
| "view_op l Mkglobal v = v\<lparr>ev_rest := ev_rest v OR PG_GLOBAL\<rparr>"
| "view_op l Clrglobal v = v\<lparr>ev_rest := ev_rest v AND NOT PG_GLOBAL\<rparr>"
| "view_op l Mkspecial v = v\<lparr>ev_rest := ev_rest v OR PG_SPECIAL\<rparr>"

text \<open>The invariant: the entry is not write-protected with the hardware dirty bit, the form of a shadow stack.\<close>

definition no_shstk :: "u64 \<Rightarrow> bool" where
  "no_shstk e \<longleftrightarrow> e AND (PG_RW OR PG_DIRTY) \<noteq> PG_DIRTY"

lemma masked_eq:
  fixes e m k :: u64
  assumes "\<And>n. n < 64 \<Longrightarrow> bit m n \<longleftrightarrow> n \<in> A \<union> B" and "\<And>n. n < 64 \<Longrightarrow> bit k n \<longleftrightarrow> n \<in> B" and "A \<inter> B = {}"
    and "\<forall>n \<in> A \<union> B. n < 64"
  shows "e AND m = k \<longleftrightarrow> (\<forall>n \<in> A. \<not> bit e n) \<and> (\<forall>n \<in> B. bit e n)"
proof
  assume "e AND m = k"
  then have "bit (e AND m) n = bit k n" for n by simp
  then have eq: "bit e n \<and> n \<in> A \<union> B \<longleftrightarrow> n \<in> B" if "n < 64" for n
    using assms(1,2) [OF that] \<open>\<And>n. bit (e AND m) n = bit k n\<close> [of n] unfolding bit_and_iff by blast
  then show "(\<forall>n \<in> A. \<not> bit e n) \<and> (\<forall>n \<in> B. bit e n)" using assms(3,4) by blast
next
  assume "(\<forall>n \<in> A. \<not> bit e n) \<and> (\<forall>n \<in> B. bit e n)"
  then have "bit (e AND m) n = bit k n" if "n < 64" for n using assms(1,2) [OF that] assms(3) by (auto simp: bit_and_iff)
  then show "e AND m = k" by (intro bit_word_eqI) simp
qed

lemma masked_dirty:
  "e AND (PG_RW OR PG_DIRTY) = PG_DIRTY \<longleftrightarrow> \<not> bit e 1 \<and> bit e 6"
  "e AND (PG_RW OR PG_DIRTY OR PG_PSE) = (PG_DIRTY OR PG_PSE) \<longleftrightarrow> \<not> bit e 1 \<and> bit e 6 \<and> bit e 7"
  by (subst masked_eq [where A = "{1}" and B = "{6}"] masked_eq [where A = "{1}" and B = "{6, 7}"];
      auto simp: bit_or_iff bit_page_bit)+

lemma no_shstk_bits: "no_shstk e \<longleftrightarrow> bit e 1 \<or> \<not> bit e 6"
  unfolding no_shstk_def masked_dirty by auto

lemma shstk_tests:
  "pte_shstk shstk p \<longleftrightarrow> shstk \<and> \<not> bit p 1 \<and> bit p 6"
  "pmd_shstk shstk p \<longleftrightarrow> shstk \<and> \<not> bit p 1 \<and> bit p 6 \<and> bit p 7"
  unfolding pte_shstk_def pmd_shstk_def masked_dirty bit_pte_flags flags_bits by auto

lemma write_tests [entry_bits]:
  assumes "no_shstk p"
  shows "pte_write shstk p \<longleftrightarrow> bit p 1" "pmd_write shstk p \<longleftrightarrow> bit p 1"
  using assms
  by (auto simp: pte_write_def pmd_write_def shstk_tests no_shstk_bits and_page_bit bit_pte_flags flags_bits)

text \<open>What an entry says, bit by bit.\<close>

lemma bit_other_bits [entry_bits]: "bit (other_bits e) n \<longleftrightarrow> bit e n \<and> n \<notin> {1, 5, 6, 11, 58}"
  unfolding other_bits_def word_bits bit_page_bit by (auto dest: bit_u64_bound)

lemma view_bits:
  assumes "no_shstk e"
  shows "view l shstk e = \<lparr>ev_write = bit e 1, ev_dirty = (bit e 6 \<or> bit e 58), ev_young = bit e 5,
    ev_soft_dirty = bit e 11, ev_rest = other_bits e\<rparr>"
  using write_tests [OF assms] by (cases l) (simp_all add: tests)

declare view.simps [simp del]

text \<open>The forms the functions have: clearing or setting flags, with the dirty bit moved afterwards or not.\<close>

lemma view_clear:
  assumes "no_shstk e" and "\<not> bit c 1" and "bit c 6 = bit c 58"
  shows "no_shstk (e AND NOT c) \<and> view l shstk (e AND NOT c) =
    \<lparr>ev_write = bit e 1, ev_dirty = ((bit e 6 \<or> bit e 58) \<and> \<not> bit c 6), ev_young = (bit e 5 \<and> \<not> bit c 5),
     ev_soft_dirty = (bit e 11 \<and> \<not> bit c 11), ev_rest = other_bits (e AND NOT c)\<rparr>"
proof -
  have ok: "no_shstk (e AND NOT c)" using assms by (auto simp: no_shstk_bits bit_and_iff bit_not_iff)
  then show ?thesis using ok assms(2,3) by (auto simp: view_bits bit_and_iff bit_not_iff)
qed

lemma view_set:
  assumes "no_shstk e" and "\<not> bit s 6" and "\<not> bit s 58"
  shows "no_shstk (e OR s) \<and> view l shstk (e OR s) =
    \<lparr>ev_write = (bit e 1 \<or> bit s 1), ev_dirty = (bit e 6 \<or> bit e 58), ev_young = (bit e 5 \<or> bit s 5),
     ev_soft_dirty = (bit e 11 \<or> bit s 11), ev_rest = other_bits e OR other_bits s\<rparr>"
proof -
  have ok: "no_shstk (e OR s)" using assms by (auto simp: no_shstk_bits bit_or_iff)
  have "other_bits (e OR s) = other_bits e OR other_bits s"
    by (rule bit_eqI) (auto simp: bit_other_bits bit_or_iff)
  then show ?thesis using ok assms(2,3) by (auto simp: view_bits bit_or_iff)
qed

lemma other_bits_saveddirty:
  "other_bits (mksaveddirty_shift e) = other_bits e" "other_bits (clear_saveddirty_shift e) = other_bits e"
  by (rule bit_eqI, auto simp: bit_other_bits bit_mksaveddirty bit_clear_saveddirty)+

lemma view_mksaveddirty:
  "no_shstk (mksaveddirty_shift e) \<and> view l shstk (mksaveddirty_shift e) =
    \<lparr>ev_write = bit e 1, ev_dirty = (bit e 6 \<or> bit e 58), ev_young = bit e 5, ev_soft_dirty = bit e 11,
     ev_rest = other_bits e\<rparr>"
proof -
  have ok: "no_shstk (mksaveddirty_shift e)" by (auto simp: no_shstk_bits bit_mksaveddirty)
  then show ?thesis by (auto simp: view_bits bit_mksaveddirty other_bits_saveddirty)
qed

lemma view_clear_saveddirty:
  assumes "no_shstk e"
  shows "no_shstk (clear_saveddirty_shift e) \<and> view l shstk (clear_saveddirty_shift e) =
    \<lparr>ev_write = bit e 1, ev_dirty = (bit e 6 \<or> bit e 58), ev_young = bit e 5, ev_soft_dirty = bit e 11,
     ev_rest = other_bits e\<rparr>"
proof -
  have ok: "no_shstk (clear_saveddirty_shift e)" using assms by (auto simp: no_shstk_bits bit_clear_saveddirty)
  then show ?thesis using assms by (auto simp: view_bits bit_clear_saveddirty other_bits_saveddirty)
qed

lemma other_page_bit: "other_bits (page_bit k) = (if k \<in> {1, 5, 6, 11, 58} then 0 else page_bit k)"
  by (rule bit_eqI) (auto simp: bit_other_bits bit_page_bit)

lemma other_bits_or: "other_bits (a OR b) = other_bits a OR other_bits b"
  by (rule bit_eqI) (auto simp: bit_other_bits bit_or_iff)

lemma other_bits_clear: "other_bits (e AND NOT c) = other_bits e AND NOT (other_bits c)"
  by (rule bit_eqI) (auto simp: bit_other_bits bit_and_iff bit_not_iff)

lemma view_mkclean:
  "no_shstk (e AND NOT PG_DIRTY AND NOT PG_SAVED_DIRTY) \<and> view l shstk (e AND NOT PG_DIRTY AND NOT PG_SAVED_DIRTY) =
    \<lparr>ev_write = bit e 1, ev_dirty = False, ev_young = bit e 5, ev_soft_dirty = bit e 11, ev_rest = other_bits e\<rparr>"
proof -
  have ok: "no_shstk (e AND NOT PG_DIRTY AND NOT PG_SAVED_DIRTY)"
    unfolding no_shstk_bits word_bits bit_page_bit by simp
  have "other_bits (e AND NOT PG_DIRTY AND NOT PG_SAVED_DIRTY) = other_bits e"
    by (rule bit_eqI) (auto simp: bit_other_bits bit_and_iff bit_not_iff bit_page_bit)
  then show ?thesis using ok by (simp add: view_bits bit_and_iff bit_not_iff bit_page_bit)
qed

lemma level_op_bits:
  assumes "level_op l op = Some f" and "no_shstk e"
  shows "no_shstk (f e) \<and> view l shstk (f e) = view_op l op (view l shstk e)"
  using assms
  by (cases "(l, op)" rule: level_op.cases)
    (auto simp: flag_op_defs view_mksaveddirty view_clear_saveddirty view_clear view_set bit_page_bit bit_or_iff
      bit_and_iff bit_not_iff other_page_bit bit_clear_saveddirty other_bits_saveddirty other_bits_or other_bits_clear view_mkclean view_bits)

text \<open>
  C8. The operations on entries do what their names say, on all three levels: after any sequence of
  them, starting from an entry that is not in the form of a shadow stack, the tests for writability,
  dirtiness, accesses and soft-dirtiness and every other bit have the values the abstract operations
  give, wherever the dirty bit is kept, and no write-protected entry carries the hardware dirty bit.
\<close>

theorem entry_ops_refine:
  assumes "no_shstk e" and "run_ops l ops e = Some e'"
  shows "view l shstk e' = fold (view_op l) ops (view l shstk e) \<and> no_shstk e'"
  using assms
proof (induction ops arbitrary: e)
  case (Cons op ops)
  then obtain f where "level_op l op = Some f" "run_ops l ops (f e) = Some e'" by (auto split: option.splits)
  then show ?case using Cons.IH [of "f e"] Cons.prems(1) level_op_bits [of l op f e shstk] by simp
qed simp

theorem entry_ops_refine_witness:
  "run_ops Pte [Wrprotect, Clear_soft_dirty, Mkuffd_wp] 0x867 = Some 0x400000000000425 \<and>
   view Pte True 0x400000000000425 =
     \<lparr>ev_write = False, ev_dirty = True, ev_young = True, ev_soft_dirty = False, ev_rest = 0x405\<rparr>"
proof -
  have run: "run_ops Pte [Wrprotect, Clear_soft_dirty, Mkuffd_wp] 0x867 = Some 0x400000000000425"
    by (simp add: flag_op_defs shift_cases page_bit_def)
  have "no_shstk 0x867" by (simp add: no_shstk_def page_bit_def)
  moreover have "other_bits 0x867 = 0x5" by (simp add: other_bits_def page_bit_def)
  ultimately show ?thesis
    using entry_ops_refine [OF _ run, of True] run view_bits [of "0x867" Pte True] by (simp add: page_bit_def)
qed

section \<open>Changing the protection\<close>

lemma bit_pte_pfn: "bit (pte_pfn p) n \<longleftrightarrow> n < 40 \<and> (bit p (n + 12) \<noteq> pte_needs_invert p)"
  unfolding pte_pfn_def protnone_mask_def bit_drop_bit_eq comp_def word_bits
  by (auto simp: bit_not_iff add.commute dest: bit_u64_bound)

lemma needs_invert_bits: "bit p 0 \<or> bit p 8 \<Longrightarrow> pte_needs_invert p \<longleftrightarrow> \<not> bit p 0"
  by (auto simp: pte_needs_invert_def and_one_eq_0_iff)

lemma needs_invert_present: "pte_needs_invert p \<Longrightarrow> \<not> bit p 0"
  by (simp add: pte_needs_invert_def and_one_eq_0_iff)

lemma bit_massage: "bit (massage_pgprot s q) n \<longleftrightarrow> bit q n \<and> (bit q 0 \<longrightarrow> bit s n)"
  by (auto simp: massage_pgprot_def and_page_bit bit_and_iff)

lemma bit_flip:
  "bit (flip_protnone_guard old val msk) n \<longleftrightarrow>
    (bit val n \<noteq> (bit msk n \<and> pte_needs_invert old \<noteq> pte_needs_invert val))"
  by (auto simp: flip_protnone_guard_def word_bits dest: bit_u64_bound)

lemma bit_common_chg: "bit COMMON_PAGE_CHG_MASK n \<longleftrightarrow> 12 \<le> n \<and> n < 52 \<or> n \<in> {3, 4, 5, 6, 9, 10, 11, 57, 58}"
proof -
  have eq: "bit (page_bit k) n \<longleftrightarrow> n = k" if "k < 64" for k using that by (auto simp: bit_page_bit)
  show ?thesis
    unfolding bit_or_iff bit_addr_mask
    by (simp only: eq [of 3, simplified] eq [of 4, simplified] eq [of 5, simplified] eq [of 6, simplified] eq [of 9, simplified]
      eq [of 10, simplified] eq [of 11, simplified] eq [of 57, simplified] eq [of 58, simplified]) blast
qed

lemma bit_chg:
  "bit PAGE_CHG_MASK n \<longleftrightarrow> bit COMMON_PAGE_CHG_MASK n \<or> n = 7"
  "bit HPAGE_CHG_MASK n \<longleftrightarrow> bit COMMON_PAGE_CHG_MASK n \<or> n = 7 \<or> n = 12"
  by (auto simp only: bit_or_iff [of COMMON_PAGE_CHG_MASK] bit_or_iff [of PG_PSE] bit_or_iff [of PG_PAT_LARGE] bit_page_bit
    bit_or_iff [of "COMMON_PAGE_CHG_MASK OR PG_PSE"] bit_or_iff [of _ PG_PAT_LARGE])

text \<open>The bits of the value \<open>pte_modify\<close> builds before it moves the dirty bit.\<close>

lemma pte_modify_val:
  defines "chg \<equiv> PAGE_CHG_MASK"
  shows "\<exists>val. pte_modify s p q = (if bit p 1 then mksaveddirty_shift val else clear_saveddirty_shift val) \<and>
    (\<forall>n. bit val n \<longleftrightarrow> ((if bit chg n then bit p n else bit (massage_pgprot s q) n) \<noteq>
      (12 \<le> n \<and> n < 52 \<and> pte_needs_invert p \<noteq> pte_needs_invert ((p AND chg) OR (massage_pgprot s q AND NOT chg)))))"
proof (intro exI conjI allI)
  let ?val = "flip_protnone_guard p ((p AND chg) OR (massage_pgprot s q AND NOT chg)) PTE_ADDR_MASK"
  show "pte_modify s p q = (if bit p 1 then mksaveddirty_shift ?val else clear_saveddirty_shift ?val)"
    unfolding pte_modify_def Let_def chg_def and_page_bit pte_mksaveddirty_def pte_clear_saveddirty_def check_pgprot_def
    by simp
  show "bit ?val n \<longleftrightarrow> ((if bit chg n then bit p n else bit (massage_pgprot s q) n) \<noteq>
      (12 \<le> n \<and> n < 52 \<and> pte_needs_invert p \<noteq> pte_needs_invert ((p AND chg) OR (massage_pgprot s q AND NOT chg))))" for n
    unfolding bit_flip bit_addr_mask bit_and_iff bit_or_iff bit_not_iff by (auto dest: bit_u64_bound)
qed

lemma massage_present:
  assumes "supported AND PG_PRESENT \<noteq> 0" and "newprot AND (PG_PRESENT OR PG_PROTNONE) \<noteq> 0"
  shows "bit (massage_pgprot supported newprot) 0 \<or> bit (massage_pgprot supported newprot) 8"
  using assms unfolding and_flags_eq_0 and_page_bit bit_massage by auto

lemma bit_shifted:
  "n \<notin> {6, 58} \<Longrightarrow> bit (if w then mksaveddirty_shift v else clear_saveddirty_shift v) n = bit v n"
  by (auto simp: bit_mksaveddirty bit_clear_saveddirty)

lemma dirty_shifted:
  "bit (if w then mksaveddirty_shift v else clear_saveddirty_shift v) 6 \<or>
   bit (if w then mksaveddirty_shift v else clear_saveddirty_shift v) 58 \<longleftrightarrow> bit v 6 \<or> bit v 58"
  by (auto simp: bit_mksaveddirty bit_clear_saveddirty)

text \<open>
  C11. \<open>pte_modify\<close> changes the protection and nothing else: for an entry that is not in the form of a
  shadow stack and a protection that is present or \<open>PROT_NONE\<close>, the frame is the same although its bits
  may be inverted, as are dirtiness, accesses and the soft-dirty and userfaultfd marks; the entry is
  writable exactly if the new protection (as far as the processor supports it) is, and no shadow stack
  comes into being.
\<close>

theorem pte_modify_keeps:
  assumes "no_shstk pte" and "supported AND PG_PRESENT \<noteq> 0" and "newprot AND (PG_PRESENT OR PG_PROTNONE) \<noteq> 0"
  shows "let p' = pte_modify supported pte newprot in
    pte_pfn p' = pte_pfn pte \<and> pte_dirty p' = pte_dirty pte \<and> pte_young p' = pte_young pte \<and>
    pte_soft_dirty p' = pte_soft_dirty pte \<and> pte_uffd_wp p' = pte_uffd_wp pte \<and> pte_present p' \<and>
    (pte_write shstk p' \<longleftrightarrow> check_pgprot supported newprot AND PG_RW \<noteq> 0) \<and> no_shstk p'"
proof -
  let ?m = "massage_pgprot supported newprot" and ?p' = "pte_modify supported pte newprot"
  let ?w = "(pte AND PAGE_CHG_MASK) OR (?m AND NOT PAGE_CHG_MASK)"
  obtain val where p': "?p' = (if bit pte 1 then mksaveddirty_shift val else clear_saveddirty_shift val)"
    and val: "\<And>n. bit val n \<longleftrightarrow> ((if bit PAGE_CHG_MASK n then bit pte n else bit ?m n) \<noteq>
      (12 \<le> n \<and> n < 52 \<and> pte_needs_invert pte \<noteq> pte_needs_invert ?w))"
    using pte_modify_val [of supported pte newprot] by blast
  have chg: "bit PAGE_CHG_MASK n \<longleftrightarrow> 12 \<le> n \<and> n < 52 \<or> n \<in> {3, 4, 5, 6, 7, 9, 10, 11, 57, 58}" for n
    unfolding bit_chg bit_common_chg by blast
  have m: "bit ?m 0 \<or> bit ?m 8" using massage_present [OF assms(2,3)] .
  have w: "bit ?w 0 = bit ?m 0" "bit ?w 8 = bit ?m 8"
    unfolding bit_or_iff [of "pte AND PAGE_CHG_MASK"] bit_and_iff bit_not_iff chg by simp_all
  then have inv: "pte_needs_invert ?w \<longleftrightarrow> \<not> bit ?m 0" using m needs_invert_bits [of ?w] by blast
  have same: "bit ?p' n = bit val n" if "n \<notin> {6, 58}" for n unfolding p' using that by (rule bit_shifted)
  have low: "bit val n \<longleftrightarrow> (if bit PAGE_CHG_MASK n then bit pte n else bit ?m n)" if "n < 12 \<or> 52 \<le> n" for n
    using that unfolding val by auto
  have p_low: "bit ?p' 0 = bit ?m 0" "bit ?p' 8 = bit ?m 8" "bit ?p' 1 = bit ?m 1" "bit ?p' 5 = bit pte 5" "bit ?p' 10 = bit pte 10"
    "bit ?p' 11 = bit pte 11"
    using same low unfolding chg by simp_all
  have inv': "pte_needs_invert ?p' \<longleftrightarrow> \<not> bit ?m 0" using m p_low needs_invert_bits [of ?p'] by blast
  have "pte_pfn ?p' = pte_pfn pte"
  proof (rule bit_eqI)
    fix n
    have "bit ?p' (n + 12) \<longleftrightarrow> (bit pte (n + 12) \<noteq> (pte_needs_invert pte \<noteq> (\<not> bit ?m 0)))" if "n < 40"
      using that same [of "n + 12"] unfolding val chg inv by auto
    then show "bit (pte_pfn ?p') n = bit (pte_pfn pte) n" unfolding bit_pte_pfn inv' by blast
  qed
  moreover have dirty: "bit val 6 = bit pte 6" "bit val 58 = bit pte 58" using low unfolding chg by simp_all
  moreover have "no_shstk ?p'"
    using assms(1) dirty unfolding no_shstk_bits p' by (auto simp: bit_mksaveddirty bit_clear_saveddirty)
  ultimately show ?thesis
    using p_low m dirty_shifted [of "bit pte 1" val] unfolding Let_def tests check_pgprot_def and_page_bit p' [symmetric]
    by (simp add: write_tests)
qed

theorem pte_modify_keeps_witness:
  "pte_pfn (pte_modify (NOT 0) 0x12345067 0x120) = 0x12345 \<and> pte_dirty (pte_modify (NOT 0) 0x12345067 0x120)"
proof -
  have "pte_pfn 0x12345067 = 0x12345" by (simp add: pte_pfn_def protnone_mask_def pte_needs_invert_def)
  moreover have "pte_dirty 0x12345067" by (simp add: pte_dirty_def pte_flags_def)
  moreover have "no_shstk 0x12345067" by (simp add: no_shstk_def page_bit_def)
  ultimately show ?thesis
    using pte_modify_keeps [of "0x12345067" "NOT 0" "0x120"] by (simp add: page_bit_def Let_def)
qed

lemma bit_guarded:
  assumes "\<not> bit msk n"
  shows "bit (flip_protnone_guard old ((p AND k) OR (m AND NOT chg)) msk) n \<longleftrightarrow> bit p n \<and> bit k n \<or> bit m n \<and> \<not> bit chg n"
  using assms unfolding bit_flip bit_or_iff [of "p AND k"] bit_and_iff bit_not_iff by (auto dest: bit_u64_bound)

lemma guarded_dirty:
  assumes "n \<in> {6, 58}" and "msk \<in> {PTE_ADDR_MASK, HUGE_2MB_MASK, HUGE_1GB_MASK}"
  shows "bit (flip_protnone_guard old ((p AND k) OR (m AND NOT chg)) msk) n \<longleftrightarrow> bit p n \<and> bit k n \<or> bit m n \<and> \<not> bit chg n"
proof (rule bit_guarded)
  show "\<not> bit msk n" using assms unfolding insert_iff empty_iff by (elim disjE FalseE; simp only: bit_range_masks; simp)
qed

lemma bit_hpage_keep: "bit (HPAGE_CHG_MASK AND NOT PG_DIRTY) n \<longleftrightarrow> bit HPAGE_CHG_MASK n \<and> n \<noteq> 6"
  unfolding bit_and_iff [of HPAGE_CHG_MASK] bit_not_iff bit_page_bit by (auto dest: bit_u64_bound)

text \<open>
  C35. Changing the protection keeps the dirtiness of a page and of a 1 GB page, but not of a 2 MB page:
  there \<open>pmd_modify\<close> drops the hardware dirty bit, whatever the protections, and only an entry whose
  dirtiness had already been moved to the software bit is still dirty afterwards.
\<close>

theorem modify_dirty:
  "pte_dirty (pte_modify supported e newprot) = pte_dirty e \<and>
   pud_dirty (pud_modify supported e newprot) = pud_dirty e \<and>
   (pmd_dirty (pmd_modify supported e newprot) \<longleftrightarrow> e AND PG_SAVED_DIRTY \<noteq> 0)"
  unfolding tests and_page_bit pte_modify_def pud_modify_def pmd_modify_def Let_def pte_mksaveddirty_def pud_mksaveddirty_def
    pmd_mksaveddirty_def pte_clear_saveddirty_def pud_clear_saveddirty_def pmd_clear_saveddirty_def dirty_shifted
  by (simp only: guarded_dirty insert_iff simp_thms bit_hpage_keep bit_chg bit_common_chg) simp

section \<open>Frames in entries\<close>

lemma bit_pfn_pte:
  "bit (pfn_pte s k q) n \<longleftrightarrow> 12 \<le> n \<and> n < 52 \<and> (bit k (n - 12) \<noteq> pte_needs_invert q) \<or> bit (massage_pgprot s q) n"
  unfolding pfn_pte_def check_pgprot_def protnone_mask_def word_bits bit_push_bit_iff
  by (auto simp: bit_not_iff)

text \<open>
  C34. A frame number put into an entry comes out again: for a number below \<open>2 ^ 40\<close> and a protection that
  is present or \<open>PROT_NONE\<close>, \<open>pte_pfn\<close> inverts \<open>pfn_pte\<close> and the flags are the supported ones of the
  protection, although the frame of a \<open>PROT_NONE\<close> entry is stored inverted.
\<close>

theorem pfn_pte_roundtrip:
  assumes "page_nr < 2 ^ 40" and "newprot AND PTE_ADDR_MASK = 0"
    and "supported AND PG_PRESENT \<noteq> 0" and "newprot AND (PG_PRESENT OR PG_PROTNONE) \<noteq> 0"
  shows "pte_pfn (pfn_pte supported page_nr newprot) = page_nr \<and>
    pte_flags (pfn_pte supported page_nr newprot) = check_pgprot supported newprot"
proof
  let ?e = "pfn_pte supported page_nr newprot" and ?m = "massage_pgprot supported newprot"
  have frame: "\<not> (bit newprot n \<and> 12 \<le> n \<and> n < 52)" for n
    using arg_cong [OF assms(2), of "\<lambda>w. bit w n"] by (simp only: bit_and_iff bit_addr_mask bit_0_eq) auto
  then have m: "\<not> (bit ?m n \<and> 12 \<le> n \<and> n < 52)" for n unfolding bit_massage by blast
  have q: "bit newprot 0 \<or> bit newprot 8" "bit ?m 0 = bit newprot 0" "bit ?m 8 \<or> bit ?m 0"
    using assms(3,4) massage_present [OF assms(3,4)] unfolding and_flags_eq_0 and_page_bit bit_massage by auto
  have e: "bit ?e 0 = bit ?m 0" "bit ?e 8 = bit ?m 8" unfolding bit_pfn_pte by simp_all
  have inv: "pte_needs_invert newprot \<longleftrightarrow> \<not> bit newprot 0" "pte_needs_invert ?e \<longleftrightarrow> \<not> bit newprot 0"
    using q e needs_invert_bits [of newprot] needs_invert_bits [of ?e] by auto
  show "pte_pfn ?e = page_nr"
  proof (rule bit_eqI)
    fix n
    have small: "bit page_nr n \<Longrightarrow> n < 40"
      using unat_less_exp_bits [of page_nr 40 n] assms(1) by (simp add: word_less_nat_alt)
    then show "bit (pte_pfn ?e) n = bit page_nr n"
      using m [of "n + 12"] unfolding bit_pte_pfn inv bit_pfn_pte by auto
  qed
  show "pte_flags ?e = check_pgprot supported newprot"
    using m unfolding check_pgprot_def by (intro bit_eqI) (auto simp: bit_pte_flags bit_pfn_pte)
qed

theorem pfn_pte_roundtrip_witness:
  "pte_pfn (pfn_pte (NOT 0) 0x12345 0x120) = 0x12345 \<and> pfn_pte (NOT 0) 0x12345 0x120 = 0xFFFFFEDCBA120"
  using pfn_pte_roundtrip [of "0x12345" "0x120" "NOT 0"]
  by (simp add: page_bit_def pfn_pte_def protnone_mask_def pte_needs_invert_def check_pgprot_def massage_pgprot_def)

lemma unat_frame: "unat (drop_bit 12 (q AND PTE_ADDR_MASK)) = (unat q div 2 ^ 12) mod 2 ^ 40" for q :: u64
proof -
  have "drop_bit 12 (q AND PTE_ADDR_MASK) = take_bit 40 (drop_bit 12 q)"
    by (rule bit_eqI) (unfold bit_drop_bit_eq comp_def bit_and_iff bit_addr_mask bit_take_bit_iff, auto)
  then have "unat (drop_bit 12 (q AND PTE_ADDR_MASK)) = take_bit 40 (drop_bit 12 (unat q))"
    by (simp only: unsigned_take_bit_eq unat_drop_bit_eq)
  then show ?thesis by (simp only: drop_bit_eq_div take_bit_eq_mod)
qed

lemma unat_push_12: "unat (push_bit 12 k :: u64) = (unat k mod 2 ^ 52) * 2 ^ 12"
proof -
  have "unat (push_bit 12 k :: u64) = (unat k * 2 ^ 12) mod (2 ^ 52 * 2 ^ 12)"
    unfolding unsigned_push_bit_eq by (simp add: take_bit_eq_mod push_bit_eq_mult)
  then show ?thesis by (simp only: mod_mult_mult2)
qed

lemma low_of_add_push: "take_bit 12 (a + push_bit 12 k) = take_bit 12 a" for a k :: u64
proof -
  have "unat (take_bit 12 (a + push_bit 12 k)) = ((unat a + (unat k mod 2 ^ 52) * 2 ^ 12) mod (2 ^ 52 * 2 ^ 12)) mod 2 ^ 12"
    unfolding unsigned_take_bit_eq unat_word_ariths unat_push_12 by (simp add: take_bit_eq_mod)
  also have "\<dots> = unat a mod 2 ^ 12" by (subst mod_mod_cancel) simp_all
  also have "\<dots> = unat (take_bit 12 a)" unfolding unsigned_take_bit_eq by (simp add: take_bit_eq_mod)
  finally show ?thesis by (simp only: word_unat_eq_iff)
qed

lemma frame_add:
  fixes q k :: u64
  assumes "unat (drop_bit 12 (q AND PTE_ADDR_MASK)) + unat k < 2 ^ 40"
  shows "drop_bit 12 ((q + push_bit 12 k) AND PTE_ADDR_MASK) = drop_bit 12 (q AND PTE_ADDR_MASK) + k"
proof -
  define a where "a = unat q div 2 ^ 52"
  define f where "f = (unat q div 2 ^ 12) mod 2 ^ 40"
  define b where "b = unat q mod 2 ^ 12"
  have q: "unat q = a * 2 ^ 52 + f * 2 ^ 12 + b"
  proof -
    define d where "d = unat q div 2 ^ 12"
    have "d div 2 ^ 40 = a" unfolding a_def d_def by (simp only: div_mult2_eq [symmetric]) simp
    then have "d = a * 2 ^ 40 + f" using div_mult_mod_eq [of d "2 ^ 40"] unfolding f_def d_def by simp
    moreover have "unat q = d * 2 ^ 12 + b" unfolding b_def d_def by (simp only: div_mult_mod_eq)
    ultimately show ?thesis by (simp add: algebra_simps)
  qed
  have small: "f + unat k < 2 ^ 40" "b < 2 ^ 12" using assms unfolding unat_frame f_def b_def by simp_all
  have "a < 2 ^ 12" unfolding a_def using unat_u64 [of q] by (simp add: div_less_iff_less_mult)
  have x: "unat (push_bit 12 k) = unat k * 2 ^ 12"
    using small(1) unfolding unat_push_12 by simp
  have "a * 2 ^ 52 + (f + unat k) * 2 ^ 12 + b < 2 ^ 64"
    using small \<open>a < 2 ^ 12\<close> by simp
  then have sum: "unat (q + push_bit 12 k) = a * 2 ^ 52 + (f + unat k) * 2 ^ 12 + b"
    unfolding unat_add_wrap x q by (simp add: algebra_simps)
  have "(a * 2 ^ 52 + (f + unat k) * 2 ^ 12 + b) div 2 ^ 12 = a * 2 ^ 40 + (f + unat k)"
    using small(2) by simp
  then have "unat (drop_bit 12 ((q + push_bit 12 k) AND PTE_ADDR_MASK)) = f + unat k"
    unfolding unat_frame sum using small(1) by simp
  also have "\<dots> = unat (drop_bit 12 (q AND PTE_ADDR_MASK) + k)"
    using assms unfolding unat_add_wrap unat_frame f_def by simp
  finally show ?thesis by (simp only: word_unat_eq_iff)
qed

lemma pfn_of_inverted: "pte_pfn p = drop_bit 12 ((if pte_needs_invert p then NOT p else p) AND PTE_ADDR_MASK)"
  by (simp only: pte_pfn_def protnone_mask_def bit.xor_compl_right xor.right_neutral if_distrib [of "\<lambda>m. p XOR m"])

text \<open>Advancing an entry adds to its frame or subtracts from the inverted one; the number advances.\<close>

lemma pte_advance_pfn_number:
  assumes "take_bit 12 pte \<noteq> 0" and "unat (pte_pfn pte) + unat nr < 2 ^ 40"
  shows "pte_pfn (pte_advance_pfn pte nr) = pte_pfn pte + nr"
proof -
  have not_sub: "NOT (a - b) = NOT a + b" for a b :: u64 by (simp add: not_eq_complement)
  note keep = low_of_add_push [of _ nr]
  have low: "take_bit 12 (pte_advance_pfn pte nr) = take_bit 12 pte"
  proof (cases "pte_needs_invert pte")
    case True
    then have "take_bit 12 (NOT (pte_advance_pfn pte nr)) = take_bit 12 (NOT pte)"
      by (simp add: pte_advance_pfn_def not_sub keep)
    then show ?thesis by (simp only: take_bit_not_iff)
  qed (simp add: pte_advance_pfn_def keep)
  have inv: "pte_needs_invert p \<longleftrightarrow> \<not> bit (take_bit 12 p) 0" if "take_bit 12 p \<noteq> 0" for p :: u64
    using that by (auto simp: pte_needs_invert_def and_one_eq_0_iff bit_take_bit_iff)
  have "pte_needs_invert (pte_advance_pfn pte nr) = pte_needs_invert pte"
    using inv [of pte] inv [of "pte_advance_pfn pte nr"] assms(1) low by simp
  then show ?thesis
    using assms(2) frame_add [of "if pte_needs_invert pte then NOT pte else pte" nr] unfolding pfn_of_inverted
    by (cases "pte_needs_invert pte") (simp_all only: pte_advance_pfn_def not_sub if_True if_False)
qed

text \<open>The attribute bit of a 4 KB entry moves to its place in a large entry and back.\<close>

lemma protval_roundtrip:
  assumes "val AND PG_PAT_LARGE = 0"
  shows "protval_large_2_4k (protval_4k_2_large val) = val"
proof (rule bit_eqI)
  fix n
  have "\<not> bit val 12" using assms by (simp add: and_page_bit)
  then show "bit (protval_large_2_4k (protval_4k_2_large val)) n = bit val n"
    unfolding protval_large_2_4k_def protval_4k_2_large_def word_bits bit_push_bit_iff bit_drop_bit_eq comp_def bit_page_bit
    by (auto dest: bit_u64_bound)
qed

end
