(* ===== verification/Clear_Refs.thy ===== *)
theory Clear_Refs
  imports Entry_Ops Page_Walk
begin

text \<open>
  \<open>/proc/<pid>/clear_refs\<close> of \<open>mapping_field_decode/task_mmu.c\<close> and the marking of entries by the
  write-protecting \<open>PAGEMAP_SCAN\<close>: operations that change page-table entries. The entries are a memory
  that the operations update, with the entry operations of \<open>Entry_Ops\<close>; the lemmas connect them with
  what \<open>pagemap\<close> reports afterwards.
\<close>

unbundle bit_operations_syntax

section \<open>State\<close>

datatype clear_refs_types = CLEAR_REFS_ALL | CLEAR_REFS_ANON | CLEAR_REFS_MAPPED | CLEAR_REFS_SOFT_DIRTY
  | CLEAR_REFS_MM_HIWATER_RSS

definition clear_refs_type :: "int \<Rightarrow> clear_refs_types option" where
  "clear_refs_type i =
    (if i < 1 \<or> i \<ge> 6 then None
     else if i = 1 then Some CLEAR_REFS_ALL
     else if i = 2 then Some CLEAR_REFS_ANON
     else if i = 3 then Some CLEAR_REFS_MAPPED
     else if i = 4 then Some CLEAR_REFS_SOFT_DIRTY
     else Some CLEAR_REFS_MM_HIWATER_RSS)"

text \<open>The entries by their pointers, the flags of the folios by the folio's address.\<close>

record page_state =
  ps_pte :: "u64 \<Rightarrow> u64"
  ps_pmd :: "u64 \<Rightarrow> u64"
  ps_young :: "u64 \<Rightarrow> bool"
  ps_referenced :: "u64 \<Rightarrow> bool"

text \<open>
  What the kernel tells: the configuration, the area's kind, the folio behind an entry and whether it
  is pinned for DMA, which entries are migration entries, and the kernel's own operations on entries:
  what \<open>pmdp_invalidate\<close> finds (the processor may have set bits since the entry was read) and leaves,
  and what clearing the accessed bit leaves.
\<close>

record crenv =
  cr_soft_dirty :: bool
  cr_shstk :: bool
  cr_is_cow :: bool
  cr_has_pinned :: bool
  cr_normal_folio :: "u64 \<Rightarrow> u64 \<Rightarrow> u64 option"
  cr_dma_pinned :: "u64 \<Rightarrow> bool"
  cr_pmd_migration :: "u64 \<Rightarrow> bool"
  cr_pmd_folio :: "u64 \<Rightarrow> u64"
  cr_invalidate :: "u64 \<Rightarrow> u64 \<times> u64"
  cr_pte_old :: "u64 \<Rightarrow> u64"
  cr_pmd_old :: "u64 \<Rightarrow> u64"

abbreviation set_pte :: "u64 \<Rightarrow> u64 \<Rightarrow> page_state \<Rightarrow> page_state" where
  "set_pte p v s \<equiv> s\<lparr>ps_pte := (ps_pte s)(p := v)\<rparr>"

abbreviation set_pmd :: "u64 \<Rightarrow> u64 \<Rightarrow> page_state \<Rightarrow> page_state" where
  "set_pmd p v s \<equiv> s\<lparr>ps_pmd := (ps_pmd s)(p := v)\<rparr>"

section \<open>Entries\<close>

definition pte_is_pinned :: "crenv \<Rightarrow> u64 \<Rightarrow> u64 \<Rightarrow> bool" where
  "pte_is_pinned env addr pte =
    (if \<not> pte_write (cr_shstk env) pte then False
     else if \<not> cr_is_cow env then False
     else if \<not> cr_has_pinned env then False
     else case cr_normal_folio env addr pte of None \<Rightarrow> False | Some folio \<Rightarrow> cr_dma_pinned env folio)"

definition clear_soft_dirty :: "crenv \<Rightarrow> u64 \<Rightarrow> u64 \<Rightarrow> page_state \<Rightarrow> page_state" where
  "clear_soft_dirty env addr pte s =
    (if \<not> cr_soft_dirty env then s else
     let ptent = ps_pte s pte in
     if pte_none ptent then s else
     if pte_present ptent then
       (if pte_is_pinned env addr ptent then s else
        let old_pte = ps_pte s pte;
            s = set_pte pte 0 s;
            ptent = pte_wrprotect old_pte;
            ptent = pte_clear_soft_dirty ptent in
        set_pte pte ptent s)
     else set_pte pte (pte_swp_clear_soft_dirty ptent) s)"

definition clear_soft_dirty_pmd :: "crenv \<Rightarrow> u64 \<Rightarrow> u64 \<Rightarrow> page_state \<Rightarrow> page_state" where
  "clear_soft_dirty_pmd env addr pmdp s =
    (let pmd = ps_pmd s pmdp in
     if \<not> cr_soft_dirty env then s else
     if pmd_present pmd then
       (let (old, invalid) = cr_invalidate env pmd;
            s = set_pmd pmdp invalid s;
            pmd = (if pmd_dirty old then pmd_mkdirty pmd else pmd);
            pmd = (if pmd_young old then pmd_mkyoung pmd else pmd);
            pmd = pmd_wrprotect pmd;
            pmd = pmd_clear_soft_dirty pmd in
        set_pmd pmdp pmd s)
     else if cr_pmd_migration env pmd then set_pmd pmdp (pmd_swp_clear_soft_dirty pmd) s
     else s)"

definition clear_folio :: "u64 \<Rightarrow> page_state \<Rightarrow> page_state" where
  "clear_folio folio s = s\<lparr>ps_young := (ps_young s)(folio := False), ps_referenced := (ps_referenced s)(folio := False)\<rparr>"

definition clear_pte :: "crenv \<Rightarrow> clear_refs_types \<Rightarrow> u64 \<Rightarrow> u64 \<Rightarrow> page_state \<Rightarrow> page_state" where
  "clear_pte env type addr pte s =
    (let ptent = ps_pte s pte in
     if type = CLEAR_REFS_SOFT_DIRTY then clear_soft_dirty env addr pte s else
     if \<not> pte_present ptent then s else
     case cr_normal_folio env addr ptent of
       None \<Rightarrow> s
     | Some folio \<Rightarrow> clear_folio folio (set_pte pte (cr_pte_old env ptent) s))"

definition clear_ptes :: "crenv \<Rightarrow> clear_refs_types \<Rightarrow> nat \<Rightarrow> u64 \<Rightarrow> u64 \<Rightarrow> page_state \<Rightarrow> page_state" where
  "clear_ptes env type = pte_run (clear_pte env type)"

text \<open>
  \<open>huge\<close> is the pointer to the PMD when it is a huge page, \<open>pte_map\<close> the first entry when the table
  could be mapped.
\<close>

definition clear_refs_pte_range ::
  "crenv \<Rightarrow> clear_refs_types \<Rightarrow> u64 option \<Rightarrow> u64 option \<Rightarrow> u64 \<Rightarrow> u64 \<Rightarrow> page_state \<Rightarrow> page_state" where
  "clear_refs_pte_range env type huge pte_map addr end s =
    (case huge of
       Some pmd \<Rightarrow>
         if type = CLEAR_REFS_SOFT_DIRTY then clear_soft_dirty_pmd env addr pmd s else
         if \<not> pmd_present (ps_pmd s pmd) then s else
         let folio = cr_pmd_folio env (ps_pmd s pmd);
             s = set_pmd pmd (cr_pmd_old env (ps_pmd s pmd)) s in
         clear_folio folio s
     | None \<Rightarrow>
         case pte_map of
           None \<Rightarrow> s
         | Some pte \<Rightarrow> clear_ptes env type (unat ((end - addr) div 4096)) pte addr s)"

text \<open>The walk skips an area when this is 1.\<close>

definition clear_refs_test_walk :: "clear_refs_types \<Rightarrow> u64 \<Rightarrow> bool \<Rightarrow> int" where
  "clear_refs_test_walk type vm_flags vm_file =
    (if vm_flags AND 0x400 \<noteq> 0 then 1
     else if type = CLEAR_REFS_ANON \<and> vm_file then 1
     else if type = CLEAR_REFS_MAPPED \<and> \<not> vm_file then 1
     else 0)"

section \<open>The file\<close>

record clear_vma =
  xv_start :: u64
  xv_end :: u64
  xv_flags :: u64
  xv_file :: bool

text \<open>
  What a write depends on: the caller's copy, the number parsed (or the parser's error), the task, its
  address space, the answer of the lock; and its state: the areas, the entries, the peak of the
  resident size with the current one, the count of pending TLB flushes and the number of flushes.
\<close>

record clear_env =
  ce_copy_faults :: bool
  ce_parse :: "int + int"
  ce_task :: "u64 option"
  ce_mm :: "u64 option"
  ce_lock :: int
  ce_walk :: "clear_refs_types \<Rightarrow> clear_vma list \<Rightarrow> page_state \<Rightarrow> page_state"

record clear_state =
  cs_vmas :: "clear_vma list"
  cs_pages :: page_state
  cs_rss :: u64
  cs_hiwater_rss :: u64
  cs_flush_pending :: int
  cs_flushes :: nat

definition VM_SOFTDIRTY :: u64 where "VM_SOFTDIRTY = 0x8000000"

definition clear_vma_softdirty :: "clear_vma \<Rightarrow> clear_vma" where
  "clear_vma_softdirty vma =
    (if xv_flags vma AND VM_SOFTDIRTY = 0 then vma else vma\<lparr>xv_flags := xv_flags vma AND NOT VM_SOFTDIRTY\<rparr>)"

abbreviation PROC_NUMBUF :: u64 where "PROC_NUMBUF \<equiv> 13"

definition clear_refs_write :: "clear_env \<Rightarrow> u64 \<Rightarrow> clear_state \<Rightarrow> int \<times> clear_state \<times> kevent list" where
  "clear_refs_write env cnt s =
    (let cnt = (if cnt > PROC_NUMBUF - 1 then PROC_NUMBUF - 1 else cnt) in
     if ce_copy_faults env then (-14, s, []) else
     case ce_parse env of
       Inl rv \<Rightarrow> (rv, s, [])
     | Inr itype \<Rightarrow>
       case clear_refs_type itype of
         None \<Rightarrow> (-22, s, [])
       | Some type \<Rightarrow>
         case ce_task env of
           None \<Rightarrow> (-3, s, [])
         | Some task \<Rightarrow>
           let tr = [Acquire (Task_ref task)]; put = [Release (Task_ref task)] in
           case ce_mm env of
             None \<Rightarrow> (uint cnt, s, tr @ put)
           | Some mm \<Rightarrow>
             let tr = tr @ [Acquire (Mm_ref mm)]; put = Release (Mm_ref mm) # put in
             if ce_lock env \<noteq> 0 then (-4, s, tr @ put) else
             let tr = tr @ [Acquire (Mmap_lock mm)]; put = Release (Mmap_lock mm) # put in
             if type = CLEAR_REFS_MM_HIWATER_RSS then (uint cnt, s\<lparr>cs_hiwater_rss := cs_rss s\<rparr>, tr @ put) else
             let s = (if type = CLEAR_REFS_SOFT_DIRTY
                      then s\<lparr>cs_vmas := map clear_vma_softdirty (cs_vmas s), cs_flush_pending := cs_flush_pending s + 1\<rparr>
                      else s);
                 s = s\<lparr>cs_pages := ce_walk env type (cs_vmas s) (cs_pages s)\<rparr>;
                 s = (if type = CLEAR_REFS_SOFT_DIRTY
                      then s\<lparr>cs_flushes := cs_flushes s + 1, cs_flush_pending := cs_flush_pending s - 1\<rparr> else s) in
             (uint cnt, s, tr @ put))"

lemma clear_refs_type_none: "clear_refs_type i = None \<longleftrightarrow> \<not> (1 \<le> i \<and> i \<le> 5)"
  by (simp add: clear_refs_type_def)

lemma clear_refs_type_some:
  "clear_refs_type i = Some type \<Longrightarrow>
   i = 1 \<and> type = CLEAR_REFS_ALL \<or> i = 2 \<and> type = CLEAR_REFS_ANON \<or> i = 3 \<and> type = CLEAR_REFS_MAPPED \<or>
   i = 4 \<and> type = CLEAR_REFS_SOFT_DIRTY \<or> i = 5 \<and> type = CLEAR_REFS_MM_HIWATER_RSS"
  by (auto simp: clear_refs_type_def split: if_splits)

section \<open>Safety\<close>

text \<open>The requests that do not walk, and the state after one that does.\<close>

lemma write_bytes:
  "12 < cnt \<Longrightarrow> min (unat cnt) 12 = 12" "\<not> 12 < cnt \<Longrightarrow> uint cnt = int (min (unat cnt) 12)" for cnt :: u64
proof -
  have less: "12 < cnt \<longleftrightarrow> 12 < unat cnt" by (simp only: word_less_nat_alt) simp
  show "12 < cnt \<Longrightarrow> min (unat cnt) 12 = 12" unfolding less by linarith
  show "\<not> 12 < cnt \<Longrightarrow> uint cnt = int (min (unat cnt) 12)" unfolding less by (simp add: min_def)
qed

lemma write_refused:
  assumes "\<not> ce_copy_faults env" "ce_parse env = Inr i"
  shows "clear_refs_type i = None \<Longrightarrow> clear_refs_write env cnt s = (-22, s, [])"
    and "clear_refs_type i = Some type \<Longrightarrow> ce_task env = None \<Longrightarrow> clear_refs_write env cnt s = (-3, s, [])"
    and "clear_refs_type i = Some type \<Longrightarrow> ce_task env = Some task \<Longrightarrow> ce_mm env = None \<Longrightarrow>
      clear_refs_write env cnt s = (int (min (unat cnt) 12), s, [Acquire (Task_ref task), Release (Task_ref task)])"
    and "clear_refs_type i = Some type \<Longrightarrow> ce_task env = Some task \<Longrightarrow> ce_mm env = Some mm \<Longrightarrow> ce_lock env \<noteq> 0 \<Longrightarrow>
      clear_refs_write env cnt s = (-4, s, [Acquire (Task_ref task), Acquire (Mm_ref mm), Release (Mm_ref mm),
        Release (Task_ref task)])"
  using assms by (simp_all add: clear_refs_write_def Let_def write_bytes)

definition locked_state :: "clear_env \<Rightarrow> clear_refs_types \<Rightarrow> clear_state \<Rightarrow> clear_state" where
  "locked_state env type s =
    (if type = CLEAR_REFS_MM_HIWATER_RSS then s\<lparr>cs_hiwater_rss := cs_rss s\<rparr> else
     let vmas = (if type = CLEAR_REFS_SOFT_DIRTY then map clear_vma_softdirty (cs_vmas s) else cs_vmas s) in
     s\<lparr>cs_vmas := vmas, cs_pages := ce_walk env type vmas (cs_pages s),
       cs_flushes := (if type = CLEAR_REFS_SOFT_DIRTY then cs_flushes s + 1 else cs_flushes s)\<rparr>)"

lemma write_run:
  assumes "\<not> ce_copy_faults env" "ce_parse env = Inr i" "clear_refs_type i = Some type"
    and "ce_task env = Some task" "ce_mm env = Some mm" "ce_lock env = 0"
  shows "clear_refs_write env cnt s = (int (min (unat cnt) 12), locked_state env type s,
    [Acquire (Task_ref task), Acquire (Mm_ref mm), Acquire (Mmap_lock mm), Release (Mmap_lock mm), Release (Mm_ref mm),
     Release (Task_ref task)])"
  using assms by (simp add: clear_refs_write_def locked_state_def Let_def write_bytes)

text \<open>
  C20. However a write to \<open>clear_refs\<close> ends, for any walk, its answer is the documented one: \<open>-EFAULT\<close> when
  the caller's memory cannot be read, the parser's error, \<open>-EINVAL\<close> for a number that is no request,
  \<open>-ESRCH\<close> without a task, \<open>-EINTR\<close> when waiting for the lock was interrupted, and otherwise the bytes
  taken, at most 12, also when the task has no address space. Task, address space and lock are given
  back in reverse order and no flush is left pending. The state changes only for a request that got the
  lock: request 5 sets the peak to the resident size and touches nothing else; the others walk, request
  4 after clearing the soft-dirty flag of the areas and with one flush of the TLB.
\<close>

theorem clear_refs_write_safe:
  "case clear_refs_write env cnt s of (ret, s', tr) \<Rightarrow>
    nested tr \<and> cs_flush_pending s' = cs_flush_pending s \<and>
    ret = (if ce_copy_faults env then -14 else
      case ce_parse env of
        Inl err \<Rightarrow> err
      | Inr itype \<Rightarrow>
          if \<not> (1 \<le> itype \<and> itype \<le> 5) then -22 else
          if ce_task env = None then -3 else
          if ce_mm env \<noteq> None \<and> ce_lock env \<noteq> 0 then -4 else int (min (unat cnt) 12)) \<and>
    (let locked = (\<lambda>i. \<not> ce_copy_faults env \<and> ce_parse env = Inr i \<and> ce_task env \<noteq> None \<and> ce_mm env \<noteq> None \<and> ce_lock env = 0);
         walks = locked 1 \<or> locked 2 \<or> locked 3 \<or> locked 4 in
     cs_vmas s' = (if locked 4 then map clear_vma_softdirty (cs_vmas s) else cs_vmas s) \<and>
     cs_flushes s' = (if locked 4 then cs_flushes s + 1 else cs_flushes s) \<and>
     cs_hiwater_rss s' = (if locked 5 then cs_rss s else cs_hiwater_rss s) \<and> cs_rss s' = cs_rss s \<and>
     (if walks then \<exists>i type. ce_parse env = Inr i \<and> clear_refs_type i = Some type \<and>
        cs_pages s' = ce_walk env type (cs_vmas s') (cs_pages s)
      else cs_pages s' = cs_pages s))"
proof -
  consider (fault) "ce_copy_faults env" | (parse) err where "\<not> ce_copy_faults env" "ce_parse env = Inl err"
    | (number) i where "\<not> ce_copy_faults env" "ce_parse env = Inr i" "clear_refs_type i = None"
    | (request) i type where "\<not> ce_copy_faults env" "ce_parse env = Inr i" "clear_refs_type i = Some type"
    by (cases "ce_parse env") auto
  then show ?thesis
  proof cases
    case fault
    then show ?thesis by (simp add: clear_refs_write_def Let_def nested_def)
  next
    case parse
    then show ?thesis by (simp add: clear_refs_write_def Let_def nested_def)
  next
    case number
    then have "\<not> (1 \<le> i \<and> i \<le> 5)" "i \<noteq> 1" "i \<noteq> 2" "i \<noteq> 3" "i \<noteq> 4" "i \<noteq> 5" using clear_refs_type_none [of i] by auto
    then show ?thesis by (simp add: write_refused(1) [OF number] number nested_def)
  next
    case request
    note type = clear_refs_type_some [OF request(3)]
    have range: "1 \<le> i \<and> i \<le> 5" using type by auto
    consider (dead) "ce_task env = None" | (kernel) task where "ce_task env = Some task" "ce_mm env = None"
      | (signal) task mm where "ce_task env = Some task" "ce_mm env = Some mm" "ce_lock env \<noteq> 0"
      | (run) task mm where "ce_task env = Some task" "ce_mm env = Some mm" "ce_lock env = 0" by fastforce
    then show ?thesis
    proof cases
      case dead
      then show ?thesis by (simp add: write_refused(2) [OF request dead] request(1,2) range nested_def)
    next
      case kernel
      then show ?thesis by (simp add: write_refused(3) [OF request kernel] request(1,2) range nested_def)
    next
      case signal
      then show ?thesis by (simp add: write_refused(4) [OF request signal] request(1,2) range nested_def)
    next
      case run
      show ?thesis
        using type request(3)
        by (elim disjE conjE) (simp_all add: write_run [OF request run] request(1,2) run locked_state_def Let_def nested_def)
    qed
  qed
qed

section \<open>What \<open>pagemap\<close> shows of a cleared entry\<close>

text \<open>The value \<open>clear_soft_dirty\<close> gives an entry.\<close>

definition soft_cleared :: "crenv \<Rightarrow> u64 \<Rightarrow> u64 \<Rightarrow> u64" where
  "soft_cleared env addr v =
    (if \<not> cr_soft_dirty env \<or> pte_none v then v
     else if pte_present v then (if pte_is_pinned env addr v then v else pte_clear_soft_dirty (pte_wrprotect v))
     else pte_swp_clear_soft_dirty v)"

lemma clear_soft_dirty_entry:
  "clear_soft_dirty env addr pte s = s\<lparr>ps_pte := (ps_pte s)(pte := soft_cleared env addr (ps_pte s pte))\<rparr>"
  by (simp add: clear_soft_dirty_def soft_cleared_def Let_def)

lemma bit_wrprotect_clear:
  "bit (pte_clear_soft_dirty (pte_wrprotect v)) n \<longleftrightarrow>
    n \<noteq> 1 \<and> n \<noteq> 11 \<and> (if n = 6 then False else if n = 58 then bit v 6 \<or> bit v 58 else bit v n)"
  unfolding pte_clear_soft_dirty_def pte_wrprotect_def pte_clear_flags_def pte_mksaveddirty_def bit_mksaveddirty word_bits
    bit_page_bit
  by (auto dest: bit_u64_bound)

lemma bit_swp_clear: "bit (pte_swp_clear_soft_dirty v) n \<longleftrightarrow> n \<noteq> 1 \<and> bit v n"
  unfolding pte_swp_clear_soft_dirty_def pte_clear_flags_def word_bits bit_page_bit by (auto dest: bit_u64_bound)

lemma pte_none_bits: "pte_none v \<longleftrightarrow> (\<forall>n. n \<noteq> 5 \<and> n \<noteq> 6 \<longrightarrow> \<not> bit v n)"
proof -
  have "(0x60 :: u64) = page_bit 5 OR page_bit 6" by (simp add: page_bit_def)
  then have "bit (v AND NOT KNL_ERRATUM_MASK) n \<longleftrightarrow> bit v n \<and> n \<noteq> 5 \<and> n \<noteq> 6" for n
    by (simp only: word_bits bit_page_bit) (auto dest: bit_u64_bound)
  then show ?thesis unfolding pte_none_def bit_eq_iff by (simp only: bit_0_eq bot_apply) (auto dest: bit_u64_bound)
qed

lemma present_not_none: "pte_present v \<Longrightarrow> \<not> pte_none v"
  unfolding pte_none_bits tests by (auto intro: exI [of _ 0] exI [of _ 8])

lemma cleared_tests:
  assumes "v' = pte_clear_soft_dirty (pte_wrprotect v)"
  shows "pte_present v' = pte_present v" "pte_uffd_wp v' = pte_uffd_wp v" "\<not> pte_soft_dirty v'" "pte_dirty v' = pte_dirty v"
    "pte_young v' = pte_young v" "\<not> pte_write shstk v'" "pte_present v \<Longrightarrow> pte_pfn v' = pte_pfn v"
proof -
  show "pte_present v' = pte_present v" "pte_uffd_wp v' = pte_uffd_wp v" "\<not> pte_soft_dirty v'" "pte_dirty v' = pte_dirty v"
    "pte_young v' = pte_young v"
    unfolding assms tests bit_wrprotect_clear by auto
  have "no_shstk v'" unfolding assms no_shstk_bits bit_wrprotect_clear by simp
  then show "\<not> pte_write shstk v'" unfolding assms by (simp add: write_tests bit_wrprotect_clear)
  assume "pte_present v"
  then have "bit v 0 \<or> bit v 8" "bit v' 0 \<or> bit v' 8" unfolding assms tests bit_wrprotect_clear by auto
  then have inv: "pte_needs_invert v \<longleftrightarrow> \<not> bit v 0" "pte_needs_invert v' \<longleftrightarrow> \<not> bit v 0"
    using needs_invert_bits [of v] needs_invert_bits [of v'] by (auto simp: assms bit_wrprotect_clear)
  show "pte_pfn v' = pte_pfn v"
    by (rule bit_eqI) (auto simp: bit_pte_pfn inv, auto simp: assms bit_wrprotect_clear)
qed

lemma swp_cleared_tests:
  "\<not> pte_swp_soft_dirty (pte_swp_clear_soft_dirty v)"
  "pte_swp_uffd_wp (pte_swp_clear_soft_dirty v) = pte_swp_uffd_wp v"
  "pte_present (pte_swp_clear_soft_dirty v) = pte_present v"
  unfolding tests bit_swp_clear by auto

text \<open>
  What the kernel's decoding of an entry may depend on: neither the page of a mapped entry nor the swap
  entry of another depends on the marks that clearing changes, and a swap entry is more than its mark.
\<close>

definition marks_ignored :: "pmenv \<Rightarrow> u64 \<Rightarrow> u64 \<Rightarrow> bool" where
  "marks_ignored penv addr v \<longleftrightarrow>
    (if pte_present v then vm_normal_page penv addr (pte_clear_soft_dirty (pte_wrprotect v)) = vm_normal_page penv addr v
     else softleaf_from_pte penv (pte_swp_clear_soft_dirty v) = softleaf_from_pte penv v \<and>
       pte_none (pte_swp_clear_soft_dirty v) = pte_none v)"

lemma make_pme_clear: "make_pme frame flags AND NOT PM_SOFT_DIRTY = make_pme frame (flags AND NOT PM_SOFT_DIRTY)"
  by (rule bit_eqI) (unfold bit_make_pme bit_and_iff bit_not_iff bit_BIT_ULL, auto)

lemma pme_flags_cleared:
  assumes "\<not> pte_none v" and "marks_ignored penv addr v" and "cr_soft_dirty env" and "\<not> pte_is_pinned env addr v \<or> \<not> pte_present v"
  shows "pme_flags (penv\<lparr>vma_softdirty := False\<rparr>) addr (soft_cleared env addr v) =
    pme_flags (penv\<lparr>vma_softdirty := b\<rparr>) addr v AND NOT PM_SOFT_DIRTY"
proof (cases "pte_present v")
  case True
  let ?v = "pte_clear_soft_dirty (pte_wrprotect v)"
  have v: "soft_cleared env addr v = ?v" using assms True by (simp add: soft_cleared_def)
  have page: "vm_normal_page penv addr ?v = vm_normal_page penv addr v" using assms(2) True by (simp add: marks_ignored_def)
  show ?thesis
    unfolding v pme_flags_def Let_def
    by (rule bit_eqI)
      (cases "vm_normal_page penv addr v";
        auto simp: True page cleared_tests [OF refl] bit_or_if bit_BIT_ULL bit_and_iff bit_not_iff and_BIT_ULL)
next
  case False
  let ?v = "pte_swp_clear_soft_dirty v"
  have v: "soft_cleared env addr v = ?v" using assms False by (simp add: soft_cleared_def)
  have leaf: "softleaf_from_pte penv ?v = softleaf_from_pte penv v" using assms(2) False by (simp add: marks_ignored_def)
  show ?thesis
    unfolding v pme_flags_def Let_def
    by (rule bit_eqI)
      (auto simp: False leaf swp_cleared_tests bit_or_if bit_or_iff bit_BIT_ULL bit_and_iff bit_not_iff and_BIT_ULL)
qed

lemma pagemap_cleared:
  assumes "marks_ignored penv addr v" and "cr_soft_dirty env" and "\<not> pte_is_pinned env addr v \<or> \<not> pte_present v"
  shows "pte_to_pagemap_entry (penv\<lparr>vma_softdirty := False\<rparr>) show_pfn addr (soft_cleared env addr v) =
    pte_to_pagemap_entry (penv\<lparr>vma_softdirty := b\<rparr>) show_pfn addr v AND NOT PM_SOFT_DIRTY"
proof (cases "pte_none v")
  case True
  then have "soft_cleared env addr v = v" by (simp add: soft_cleared_def)
  then show ?thesis
    using True by (simp add: pte_to_pagemap_entry_def make_pme_clear) (simp add: or_if_def)
next
  case False
  have some: "\<not> pte_none (soft_cleared env addr v)"
    using False assms present_not_none [of "pte_clear_soft_dirty (pte_wrprotect v)"] cleared_tests(1) [OF refl, of v]
    by (auto simp: soft_cleared_def marks_ignored_def split: if_splits)
  have "pme_frame (penv\<lparr>vma_softdirty := False\<rparr>) (soft_cleared env addr v) = pme_frame (penv\<lparr>vma_softdirty := b\<rparr>) v"
    using False assms cleared_tests(1,7) [OF refl, of v] swp_cleared_tests(3) [of v]
    by (auto simp: pme_frame_def Let_def soft_cleared_def marks_ignored_def split: if_splits)
  then show ?thesis
    using False some pme_flags_cleared [OF False assms, of b] by (simp add: pagemap_entry_nonempty make_pme_clear)
qed

section \<open>A walk over areas\<close>

text \<open>
  The generic walk from table to table of an area mapped by page tables (\<open>table\<close> gives the table of a
  PMD by its number), and over the areas that the test of the walk does not skip.
\<close>

definition clear_area :: "crenv \<Rightarrow> clear_refs_types \<Rightarrow> (u64 \<Rightarrow> u64) \<Rightarrow> u64 \<Rightarrow> u64 \<Rightarrow> page_state \<Rightarrow> page_state" where
  "clear_area env type table =
    chunk_walk (\<lambda>start. clear_refs_pte_range env type None (Some (pte_pointer table start)) start)"

definition clear_areas ::
  "(clear_vma \<Rightarrow> crenv) \<Rightarrow> (u64 \<Rightarrow> u64) \<Rightarrow> clear_refs_types \<Rightarrow> clear_vma list \<Rightarrow> page_state \<Rightarrow> page_state" where
  "clear_areas cenv table type vmas =
    fold (\<lambda>v. if clear_refs_test_walk type (xv_flags v) (xv_file v) = 0
      then clear_area (cenv v) type table (xv_start v) (xv_end v) else id) vmas"

abbreviation clear_pages :: "crenv \<Rightarrow> clear_refs_types \<Rightarrow> (u64 \<Rightarrow> u64) \<Rightarrow> nat list \<Rightarrow> page_state \<Rightarrow> page_state" where
  "clear_pages env type table \<equiv> fold (\<lambda>i. clear_pte env type (pg i) (pte_pointer table (pg i)))"

interpretation clears: page_step "\<lambda>start. clear_refs_pte_range env type None (Some (pte_pointer table start)) start"
  "\<lambda>i. clear_pte env type (pg i) (pte_pointer table (pg i))" for env type table
  by unfold_locales (simp add: clear_refs_pte_range_def clear_ptes_def pg_diff pte_run_pages)

lemma clear_area_pages:
  "k + j < 2 ^ 51 \<Longrightarrow>
   clear_area env type table (pg k) (pg (k + j)) s = clear_pages env type table [k..<k + j] s"
  unfolding clear_area_def by (rule clears.walk_pages)

lemma soft_pages:
  assumes "inj_on (\<lambda>i. pte_pointer table (pg i)) I" and "set is \<subseteq> I" and "distinct is" and "i \<in> I"
  shows "ps_pte (clear_pages env CLEAR_REFS_SOFT_DIRTY table is s) (pte_pointer table (pg i)) =
    (if i \<in> set is then soft_cleared env (pg i) (ps_pte s (pte_pointer table (pg i)))
     else ps_pte s (pte_pointer table (pg i)))"
  using assms(2,3)
proof (induction "is" arbitrary: s)
  case (Cons j js)
  have "pte_pointer table (pg j) = pte_pointer table (pg i) \<longleftrightarrow> j = i"
    using assms(1,4) Cons.prems(1) by (auto dest: inj_onD)
  then show ?case
    using Cons by (auto simp: clear_pte_def clear_soft_dirty_entry)
qed simp

definition page_in :: "nat \<Rightarrow> clear_vma \<Rightarrow> bool" where
  "page_in i v \<longleftrightarrow> xv_start v \<le> pg i \<and> pg i < xv_end v"

definition aligned :: "clear_vma \<Rightarrow> bool" where
  "aligned v \<longleftrightarrow> (\<exists>k j. xv_start v = pg k \<and> xv_end v = pg (k + j) \<and> k + j < 2 ^ 51)"

lemma soft_area:
  assumes "inj_on (\<lambda>i. pte_pointer table (pg i)) {..<2 ^ 51}" and "aligned v" and "i < 2 ^ 51"
  shows "ps_pte (clear_area env CLEAR_REFS_SOFT_DIRTY table (xv_start v) (xv_end v) s) (pte_pointer table (pg i)) =
    (if page_in i v then soft_cleared env (pg i) (ps_pte s (pte_pointer table (pg i)))
     else ps_pte s (pte_pointer table (pg i)))"
proof -
  obtain k j where v: "xv_start v = pg k" "xv_end v = pg (k + j)" "k + j < 2 ^ 51" using assms(2) by (auto simp: aligned_def)
  have "page_in i v \<longleftrightarrow> i \<in> set [k..<k + j]"
    using v assms(3) by (auto simp: page_in_def pg_less not_less [symmetric])
  moreover have "set [k..<k + j] \<subseteq> {..<2 ^ 51}" using v(3) by auto
  ultimately show ?thesis
    using v assms(3) soft_pages [OF assms(1) _ distinct_upt, of k "k + j" i env s] by (simp add: clear_area_pages)
qed

lemma soft_areas:
  assumes "inj_on (\<lambda>i. pte_pointer table (pg i)) {..<2 ^ 51}" and "i < 2 ^ 51"
    and "\<forall>v \<in> set vmas. aligned v" and "sorted_wrt (\<lambda>v w. xv_end v \<le> xv_start w) vmas"
    and "v \<in> set vmas" and "page_in i v" and "xv_flags v AND 0x400 = 0"
  shows "ps_pte (clear_areas cenv table CLEAR_REFS_SOFT_DIRTY vmas s) (pte_pointer table (pg i)) =
    soft_cleared (cenv v) (pg i) (ps_pte s (pte_pointer table (pg i)))"
  using assms(3-5)
proof (induction vmas arbitrary: s)
  case (Cons w ws)
  have other: "ps_pte (clear_areas cenv table CLEAR_REFS_SOFT_DIRTY us s) (pte_pointer table (pg i)) =
      ps_pte s (pte_pointer table (pg i))" if "\<forall>u \<in> set us. aligned u \<and> \<not> page_in i u" for us s
    using that by (induction us arbitrary: s) (auto simp: clear_areas_def soft_area [OF assms(1) _ assms(2)])
  have step: "clear_areas cenv table CLEAR_REFS_SOFT_DIRTY (w # ws) s = clear_areas cenv table CLEAR_REFS_SOFT_DIRTY ws
      ((if clear_refs_test_walk CLEAR_REFS_SOFT_DIRTY (xv_flags w) (xv_file w) = 0
        then clear_area (cenv w) CLEAR_REFS_SOFT_DIRTY table (xv_start w) (xv_end w) else id) s)"
    by (simp add: clear_areas_def)
  show ?case
  proof (cases "w = v")
    case True
    have "\<forall>u \<in> set ws. aligned u \<and> \<not> page_in i u"
      using Cons.prems(1,2) assms(6) True by (fastforce simp: page_in_def)
    then show ?thesis
      using True assms(6,7) Cons.prems(1) unfolding step
      by (simp add: other clear_refs_test_walk_def soft_area [OF assms(1) _ assms(2)])
  next
    case False
    then have v: "v \<in> set ws" using Cons.prems(3) by simp
    then have "\<not> page_in i w" using Cons.prems(2) assms(6) by (fastforce simp: page_in_def)
    then show ?thesis
      using Cons.IH v Cons.prems(1,2) unfolding step by (simp add: soft_area [OF assms(1) _ assms(2)])
  qed
qed simp

text \<open>The entries that the walk over the areas can reach, and that it touches nothing else.\<close>

definition reached :: "(u64 \<Rightarrow> u64) \<Rightarrow> clear_vma list \<Rightarrow> u64 \<Rightarrow> bool" where
  "reached table vmas p \<longleftrightarrow> (\<exists>v \<in> set vmas. \<exists>i < 2 ^ 51. page_in i v \<and> xv_flags v AND 0x400 = 0 \<and> p = pte_pointer table (pg i))"

lemma soft_pages_kept:
  "\<forall>i \<in> set is. p \<noteq> pte_pointer table (pg i) \<Longrightarrow> ps_pte (clear_pages env CLEAR_REFS_SOFT_DIRTY table is s) p = ps_pte s p"
  by (induction "is" arbitrary: s) (auto simp: clear_pte_def clear_soft_dirty_entry)

lemma soft_pages_other:
  "ps_pmd (clear_pages env CLEAR_REFS_SOFT_DIRTY table is s) = ps_pmd s \<and>
   ps_young (clear_pages env CLEAR_REFS_SOFT_DIRTY table is s) = ps_young s \<and>
   ps_referenced (clear_pages env CLEAR_REFS_SOFT_DIRTY table is s) = ps_referenced s"
  by (induction "is" arbitrary: s) (auto simp: clear_pte_def clear_soft_dirty_entry)

lemma soft_areas_kept:
  assumes "\<forall>v \<in> set vmas. aligned v"
  shows "\<not> reached table vmas p \<Longrightarrow> ps_pte (clear_areas cenv table CLEAR_REFS_SOFT_DIRTY vmas s) p = ps_pte s p"
    and "ps_pmd (clear_areas cenv table CLEAR_REFS_SOFT_DIRTY vmas s) = ps_pmd s \<and>
      ps_young (clear_areas cenv table CLEAR_REFS_SOFT_DIRTY vmas s) = ps_young s \<and>
      ps_referenced (clear_areas cenv table CLEAR_REFS_SOFT_DIRTY vmas s) = ps_referenced s"
proof -
  have area: "ps_pmd t = ps_pmd s \<and> ps_young t = ps_young s \<and> ps_referenced t = ps_referenced s \<and>
      (\<not> reached table [v] p \<longrightarrow> ps_pte t p = ps_pte s p)"
    if "aligned v" and t: "t = clear_areas cenv table CLEAR_REFS_SOFT_DIRTY [v] s" for v s t
  proof (cases "xv_flags v AND 0x400 = 0")
    case False
    then show ?thesis using t by (simp add: clear_areas_def clear_refs_test_walk_def)
  next
    case True
    obtain k j where v: "xv_start v = pg k" "xv_end v = pg (k + j)" "k + j < 2 ^ 51" using \<open>aligned v\<close> by (auto simp: aligned_def)
    have run: "t = clear_pages (cenv v) CLEAR_REFS_SOFT_DIRTY table [k..<k + j] s"
      using t True v by (simp add: clear_areas_def clear_refs_test_walk_def clear_area_pages)
    have "p \<noteq> pte_pointer table (pg i)" if "\<not> reached table [v] p" "i \<in> set [k..<k + j]" for i
    proof -
      have i: "i < 2 ^ 51" "k \<le> i" "i < k + j" using that(2) v(3) by simp_all
      then have "page_in i v" using v by (simp add: page_in_def pg_less not_less [symmetric])
      then show ?thesis using that(1) i(1) True by (auto simp: reached_def)
    qed
    then show ?thesis unfolding run using soft_pages_other soft_pages_kept [of "[k..<k + j]" p table] by blast
  qed
  have step: "clear_areas cenv table CLEAR_REFS_SOFT_DIRTY (v # vs) s =
      clear_areas cenv table CLEAR_REFS_SOFT_DIRTY vs (clear_areas cenv table CLEAR_REFS_SOFT_DIRTY [v] s)" for v vs s
    by (simp add: clear_areas_def)
  have all: "ps_pmd (clear_areas cenv table CLEAR_REFS_SOFT_DIRTY vmas s) = ps_pmd s \<and>
      ps_young (clear_areas cenv table CLEAR_REFS_SOFT_DIRTY vmas s) = ps_young s \<and>
      ps_referenced (clear_areas cenv table CLEAR_REFS_SOFT_DIRTY vmas s) = ps_referenced s \<and>
      (\<not> reached table vmas p \<longrightarrow> ps_pte (clear_areas cenv table CLEAR_REFS_SOFT_DIRTY vmas s) p = ps_pte s p)"
    using assms
  proof (induction vmas arbitrary: s)
    case Nil
    then show ?case by (simp add: clear_areas_def)
  next
    case (Cons v vs)
    have "\<not> reached table (v # vs) p \<Longrightarrow> \<not> reached table [v] p \<and> \<not> reached table vs p" by (simp add: reached_def)
    then show ?case
      using Cons.IH [of "clear_areas cenv table CLEAR_REFS_SOFT_DIRTY [v] s"] area [OF _ refl, of v s] Cons.prems
      unfolding step [of v vs s] by auto
  qed
  show "\<not> reached table vmas p \<Longrightarrow> ps_pte (clear_areas cenv table CLEAR_REFS_SOFT_DIRTY vmas s) p = ps_pte s p"
    using all by blast
  show "ps_pmd (clear_areas cenv table CLEAR_REFS_SOFT_DIRTY vmas s) = ps_pmd s \<and>
      ps_young (clear_areas cenv table CLEAR_REFS_SOFT_DIRTY vmas s) = ps_young s \<and>
      ps_referenced (clear_areas cenv table CLEAR_REFS_SOFT_DIRTY vmas s) = ps_referenced s"
    using all by blast
qed

section \<open>Resetting the soft-dirty state\<close>


text \<open>A process with one soft-dirty area of two pages, one present and written, one swapped out and marked.\<close>

definition demo_clear_vma :: clear_vma where
  "demo_clear_vma = \<lparr>xv_start = pg 512, xv_end = pg 514, xv_flags = 0x8000003, xv_file = False\<rparr>"

definition demo_crenv :: crenv where
  "demo_crenv = \<lparr>cr_soft_dirty = True, cr_shstk = True, cr_is_cow = True, cr_has_pinned = False, cr_normal_folio = \<lambda>_ _. None,
     cr_dma_pinned = \<lambda>_. False, cr_pmd_migration = \<lambda>_. False, cr_pmd_folio = id, cr_invalidate = \<lambda>p. (p, p),
     cr_pte_old = pte_mkold, cr_pmd_old = pmd_mkold\<rparr>"

definition demo_table :: "u64 \<Rightarrow> u64" where "demo_table i = i * 0x1000"

definition demo_clear_env :: clear_env where
  "demo_clear_env = \<lparr>ce_copy_faults = False, ce_parse = Inr 4, ce_task = Some 1, ce_mm = Some 2, ce_lock = 0,
     ce_walk = clear_areas (\<lambda>_. demo_crenv) demo_table\<rparr>"

definition demo_clear_state :: clear_state where
  "demo_clear_state = \<lparr>cs_vmas = [demo_clear_vma],
     cs_pages = \<lparr>ps_pte = (\<lambda>p. if p = 0x1000 then 0x12345867 else 0xFFFFF00000000202), ps_pmd = \<lambda>_. 0, ps_young = \<lambda>_. True,
       ps_referenced = \<lambda>_. True\<rparr>,
     cs_rss = 2, cs_hiwater_rss = 5, cs_flush_pending = 0, cs_flushes = 0\<rparr>"

lemma demo_pointer: "i < 2 ^ 51 \<Longrightarrow> unat (pte_pointer demo_table (pg i)) = 8 * i"
proof -
  assume i: "i < 2 ^ 51"
  have "pte_pointer demo_table (pg i) = of_nat (4096 * (i div 512) + 8 * (i mod 512))"
    using i by (simp add: pte_pointer_pg demo_table_def)
  also have "4096 * (i div 512) + 8 * (i mod 512) = 8 * i" using div_mult_mod_eq [of i 512] by linarith
  finally have "pte_pointer demo_table (pg i) = of_nat (8 * i)" .
  then show ?thesis using i unat_of_nat_small [of "8 * i"] by simp
qed


end
