(* ===== verification/Wp_Mark.thy ===== *)
theory Wp_Mark
  imports Clear_Refs Pagemap_Scan
begin

text \<open>
  The write-protecting side of \<open>PAGEMAP_SCAN\<close> in \<open>mapping_field_decode/task_mmu.c\<close>: the functions that
  mark an entry, a huge page or a hugetlb page as write-protected by userfaultfd. \<open>Pagemap_Scan\<close>
  records the addresses that are marked; here is what the mark does to the entry and to the categories
  a later scan reports.
\<close>

unbundle bit_operations_syntax

section \<open>Marking\<close>

text \<open>
  What the kernel tells: the marker that stands for a mark on an empty entry, what \<open>pmdp_invalidate_ad\<close>
  finds and leaves, which entries are migration entries, poisoned or markers, and its operations on
  hugetlb entries.
\<close>

record wpenv =
  wp_marker :: u64
  wp_invalidate_ad :: "u64 \<Rightarrow> u64 \<times> u64"
  wp_pmd_migration :: "u64 \<Rightarrow> bool"
  wp_hwpoison_or_marker :: "u64 \<Rightarrow> bool"
  wp_migration :: "u64 \<Rightarrow> bool"
  wp_huge_pte_none :: "u64 \<Rightarrow> bool"
  wp_huge_pte_mkuffd_wp :: "u64 \<Rightarrow> u64"

definition make_uffd_wp_pte :: "wpenv \<Rightarrow> u64 \<Rightarrow> u64 \<Rightarrow> page_state \<Rightarrow> page_state" where
  "make_uffd_wp_pte env pte ptent s =
    (if pte_present ptent then
       (let old_pte = ps_pte s pte;
            s = set_pte pte 0 s;
            ptent = pte_mkuffd_wp old_pte in
        set_pte pte ptent s)
     else if pte_none ptent then set_pte pte (wp_marker env) s
     else set_pte pte (pte_swp_mkuffd_wp ptent) s)"

definition make_uffd_wp_pmd :: "wpenv \<Rightarrow> u64 \<Rightarrow> page_state \<Rightarrow> page_state" where
  "make_uffd_wp_pmd env pmdp s =
    (let pmd = ps_pmd s pmdp in
     if pmd_present pmd then
       (let (old, invalid) = wp_invalidate_ad env pmd;
            s = set_pmd pmdp invalid s;
            pmd = pmd_mkuffd_wp old in
        set_pmd pmdp pmd s)
     else if wp_pmd_migration env pmd then set_pmd pmdp (pmd_swp_mkuffd_wp pmd) s
     else s)"

definition make_uffd_wp_huge_pte :: "wpenv \<Rightarrow> pmenv \<Rightarrow> u64 \<Rightarrow> u64 \<Rightarrow> page_state \<Rightarrow> page_state" where
  "make_uffd_wp_huge_pte env penv ptep ptent s =
    (if wp_huge_pte_none env ptent then set_pte ptep (wp_marker env) s else
     let entry = softleaf_from_pte penv ptent in
     if wp_hwpoison_or_marker env entry then s
     else if wp_migration env entry then set_pte ptep (pte_swp_mkuffd_wp ptent) s
     else set_pte ptep (wp_huge_pte_mkuffd_wp env ptent) s)"

section \<open>What a later scan reports\<close>

lemma bit_mkuffd_wp:
  "bit (pte_mkuffd_wp v) n \<longleftrightarrow>
    n \<noteq> 1 \<and> n \<noteq> 6 \<and> (n = 10 \<or> (if n = 58 then bit v 6 \<or> bit v 58 else bit v n))"
  unfolding pte_mkuffd_wp_def pte_set_flags_def pte_wrprotect_def pte_clear_flags_def pte_mksaveddirty_def bit_mksaveddirty
    word_bits bit_page_bit
  by (auto dest: bit_u64_bound)

lemma bit_swp_mkuffd: "bit (pte_swp_mkuffd_wp v) n \<longleftrightarrow> n = 2 \<or> bit v n"
  unfolding pte_swp_mkuffd_wp_def pte_set_flags_def word_bits bit_page_bit by auto

lemma uffd_marked_tests:
  "pte_present (pte_mkuffd_wp v) = pte_present v" "pte_uffd_wp (pte_mkuffd_wp v)"
  "pte_soft_dirty (pte_mkuffd_wp v) = pte_soft_dirty v" "pte_present v \<Longrightarrow> pte_pfn (pte_mkuffd_wp v) = pte_pfn v"
  "pte_dirty (pte_mkuffd_wp v) = pte_dirty v" "\<not> pte_write shstk (pte_mkuffd_wp v)"
proof -
  show "pte_present (pte_mkuffd_wp v) = pte_present v" "pte_uffd_wp (pte_mkuffd_wp v)"
    "pte_soft_dirty (pte_mkuffd_wp v) = pte_soft_dirty v" "pte_dirty (pte_mkuffd_wp v) = pte_dirty v"
    unfolding tests bit_mkuffd_wp by auto
  have "no_shstk (pte_mkuffd_wp v)" unfolding no_shstk_bits bit_mkuffd_wp by simp
  then show "\<not> pte_write shstk (pte_mkuffd_wp v)" by (simp add: write_tests bit_mkuffd_wp)
  assume "pte_present v"
  then have "bit v 0 \<or> bit v 8" unfolding tests .
  then have inv: "pte_needs_invert v \<longleftrightarrow> \<not> bit v 0" "pte_needs_invert (pte_mkuffd_wp v) \<longleftrightarrow> \<not> bit v 0"
    using needs_invert_bits [of v] needs_invert_bits [of "pte_mkuffd_wp v"] by (auto simp: bit_mkuffd_wp)
  show "pte_pfn (pte_mkuffd_wp v) = pte_pfn v"
    by (rule bit_eqI) (auto simp: bit_pte_pfn inv, auto simp: bit_mkuffd_wp)
qed

lemma swp_marked_tests:
  "pte_present (pte_swp_mkuffd_wp v) = pte_present v" "pte_swp_uffd_wp (pte_swp_mkuffd_wp v)"
  "pte_swp_soft_dirty (pte_swp_mkuffd_wp v) = pte_swp_soft_dirty v" "\<not> pte_none (pte_swp_mkuffd_wp v)"
  unfolding tests pte_none_bits bit_swp_mkuffd by (auto intro: exI [of _ 2])

text \<open>
  What the kernel's decoding promises: the mark does not change which page or swap entry an entry
  stands for; an entry of a swapped page counts as marked when it carries the mark or is a marker; a
  marker is an entry of no page.
\<close>

definition wp_laws :: "wpenv \<Rightarrow> scanenv \<Rightarrow> u64 \<Rightarrow> u64 \<Rightarrow> bool" where
  "wp_laws env senv addr v \<longleftrightarrow>
    vm_normal_page senv addr (pte_mkuffd_wp v) = vm_normal_page senv addr v \<and>
    softleaf_from_pte senv (pte_swp_mkuffd_wp v) = softleaf_from_pte senv v \<and>
    pte_swp_uffd_wp_any senv (pte_swp_mkuffd_wp v) \<and> pte_swp_uffd_wp_any senv (wp_marker env) \<and>
    \<not> pte_present (wp_marker env) \<and> \<not> pte_none (wp_marker env) \<and> \<not> pte_swp_soft_dirty (wp_marker env) \<and>
    \<not> is_guard_marker senv (softleaf_from_pte senv (wp_marker env)) \<and>
    \<not> softleaf_has_pfn senv (softleaf_from_pte senv (wp_marker env))"

text \<open>
  C19. Marking a page makes it unwritten for every later scan and changes nothing else a scan reports:
  after \<open>make_uffd_wp_pte\<close> the categories of a mapped or swapped page are those before without
  \<open>PAGE_IS_WRITTEN\<close>. An empty page, which had no category, gets a marker and is reported as swapped.
\<close>

theorem wp_mark_category:
  assumes "wp_laws env senv addr v" and "ps_pte s pte = v"
  shows "pagemap_page_category p senv addr (ps_pte (make_uffd_wp_pte env pte v s) pte) =
    (if pte_none v then PAGE_IS_SWAPPED else pagemap_page_category p senv addr v AND NOT PAGE_IS_WRITTEN)"
proof (cases "pte_present v")
  case True
  have some: "\<not> pte_none (pte_mkuffd_wp v)" using present_not_none [of "pte_mkuffd_wp v"] uffd_marked_tests(1) True by simp
  have "pagemap_page_category p senv addr (pte_mkuffd_wp v) = pagemap_page_category p senv addr v AND NOT PAGE_IS_WRITTEN"
    using True assms(1) present_not_none [OF True] uffd_marked_tests(1-4) [of v] some
    by (intro bit_eqI) (auto simp: pagemap_page_category_def Let_def wp_laws_def bit_or_if bit_BIT_ULL bit_and_iff bit_not_iff)
  then show ?thesis using True assms(2) present_not_none [OF True] by (simp add: make_uffd_wp_pte_def)
next
  case False
  have "pagemap_page_category p senv addr (wp_marker env) = PAGE_IS_SWAPPED"
    using assms(1) by (simp add: pagemap_page_category_def Let_def wp_laws_def) (simp add: or_if_def)
  moreover have "pagemap_page_category p senv addr (pte_swp_mkuffd_wp v) =
      pagemap_page_category p senv addr v AND NOT PAGE_IS_WRITTEN" if "\<not> pte_none v"
    using that False assms(1) swp_marked_tests [of v]
    by (intro bit_eqI)
      (auto simp: pagemap_page_category_def Let_def wp_laws_def bit_or_if bit_or_iff bit_BIT_ULL bit_and_iff bit_not_iff)
  ultimately show ?thesis using False by (simp add: make_uffd_wp_pte_def)
qed

text \<open>A marker as a swap entry of a type that swaps nothing, and an anonymous page that was written.\<close>

definition demo_wpenv :: wpenv where
  "demo_wpenv = \<lparr>wp_marker = 0x8000000000000004, wp_invalidate_ad = \<lambda>p. (p, 0), wp_pmd_migration = \<lambda>_. False,
     wp_hwpoison_or_marker = \<lambda>_. False, wp_migration = \<lambda>_. False, wp_huge_pte_none = pte_none,
     wp_huge_pte_mkuffd_wp = pte_mkuffd_wp\<rparr>"

definition demo_pages :: "u64 \<Rightarrow> page_state" where
  "demo_pages v = \<lparr>ps_pte = (\<lambda>p. if p = 8 then v else 0), ps_pmd = \<lambda>_. 0, ps_young = \<lambda>_. False, ps_referenced = \<lambda>_. False\<rparr>"

definition demo_scanenv :: scanenv where
  "demo_scanenv = scan_env\<lparr>pte_swp_uffd_wp_any := pte_swp_uffd_wp\<rparr>"

theorem wp_mark_category_witness:
  "pagemap_page_category written_request demo_scanenv 0x2000
     (ps_pte (make_uffd_wp_pte demo_wpenv 8 0x8000000000346067 (demo_pages 0x8000000000346067)) 8) = PAGE_IS_PRESENT \<and>
   pagemap_page_category written_request demo_scanenv 0x2000 0x8000000000346067 = PAGE_IS_PRESENT OR PAGE_IS_WRITTEN"
proof -
  have before: "pagemap_page_category written_request demo_scanenv 0x2000 0x8000000000346067 = PAGE_IS_PRESENT OR PAGE_IS_WRITTEN"
    by (simp add: pagemap_page_category_def pte_none_def pte_present_def pte_flags_def pte_uffd_wp_def pte_soft_dirty_def
        demo_scanenv_def scan_env_def pmenv.defs plain_env_def or_if_def)
  have "wp_laws demo_wpenv demo_scanenv 0x2000 0x8000000000346067"
    by (simp add: wp_laws_def demo_wpenv_def demo_scanenv_def scan_env_def pmenv.defs plain_env_def pte_swp_mkuffd_wp_def
        pte_set_flags_def page_bit_def pte_swp_uffd_wp_def pte_flags_def pte_present_def pte_none_def pte_swp_soft_dirty_def)
  then show ?thesis
    using wp_mark_category [of demo_wpenv demo_scanenv "0x2000" "0x8000000000346067" "demo_pages 0x8000000000346067" 8 written_request]
      before by (simp add: demo_pages_def pte_none_def BIT_ULL_def)
qed

end
