(* ===== verification/Numa_Maps.thy ===== *)
theory Numa_Maps
  imports Smaps
begin

text \<open>
  The file \<open>/proc/<pid>/numa_maps\<close> from \<open>mapping_field_decode/task_mmu.c\<close>: the statistics of the pages of
  an area by the node they are on, gathered by the callbacks of a page walk, and the line printed for
  the area. The properties say that the printed counts of the nodes are exactly the numbers of the
  pages of the area on each node, and that every other number of the line is exact, too.
\<close>

unbundle bit_operations_syntax

section \<open>Data\<close>

record numa_maps =
  nm_pages :: u64
  nm_anon :: u64
  nm_active :: u64
  nm_writeback :: u64
  nm_mapcount_max :: u64
  nm_dirty :: u64
  nm_swapcache :: u64
  nm_node :: "nat \<Rightarrow> u64"

text \<open>
  What the kernel tells about pages beside \<open>smapsenv\<close>; \<open>numa_nodes\<close> are the nodes with memory in the
  order of \<open>for_each_node_state\<close>.
\<close>

record numaenv = smapsenv +
  folio_test_swapcache :: "u64 \<Rightarrow> bool"
  folio_test_active :: "u64 \<Rightarrow> bool"
  folio_test_unevictable :: "u64 \<Rightarrow> bool"
  folio_test_writeback :: "u64 \<Rightarrow> bool"
  folio_nid :: "u64 \<Rightarrow> nat"
  page_to_nid :: "u64 \<Rightarrow> nat"
  is_zone_device_page :: "u64 \<Rightarrow> bool"
  page_reserved :: "u64 \<Rightarrow> bool"
  numa_nodes :: "nat list"

section \<open>Gathering\<close>

text \<open>The mapcount is an \<open>int\<close> compared with an \<open>unsigned long\<close>.\<close>

definition gather_stats :: "numaenv \<Rightarrow> u64 \<Rightarrow> numa_maps \<Rightarrow> bool \<Rightarrow> u64 \<Rightarrow> numa_maps" where
  "gather_stats env page md dirty nr_pages =
    (let folio = page_folio env page;
         cnt = of_int (if page_mapcount env then folio_precise_page_mapcount env folio page
                       else folio_average_page_mapcount env folio);
         md = md\<lparr>nm_pages := nm_pages md + nr_pages\<rparr>;
         md = (if dirty \<or> folio_test_dirty env folio then md\<lparr>nm_dirty := nm_dirty md + nr_pages\<rparr> else md);
         md = (if folio_test_swapcache env folio then md\<lparr>nm_swapcache := nm_swapcache md + nr_pages\<rparr> else md);
         md = (if folio_test_active env folio \<or> folio_test_unevictable env folio
               then md\<lparr>nm_active := nm_active md + nr_pages\<rparr> else md);
         md = (if folio_test_writeback env folio then md\<lparr>nm_writeback := nm_writeback md + nr_pages\<rparr> else md);
         md = (if folio_test_anon env folio then md\<lparr>nm_anon := nm_anon md + nr_pages\<rparr> else md);
         md = (if cnt > nm_mapcount_max md then md\<lparr>nm_mapcount_max := cnt\<rparr> else md);
         nid = folio_nid env folio in
     md\<lparr>nm_node := (nm_node md)(nid := nm_node md nid + nr_pages)\<rparr>)"

definition can_gather_numa_stats :: "numaenv \<Rightarrow> u64 \<Rightarrow> u64 \<Rightarrow> u64 option" where
  "can_gather_numa_stats env pte addr =
    (if \<not> pte_present pte then None else
     case vm_normal_page env addr pte of
       None \<Rightarrow> None
     | Some page \<Rightarrow>
       if is_zone_device_page env page then None else
       if page_reserved env page then None else
       let nid = page_to_nid env page in
       if nid \<notin> set (numa_nodes env) then None else Some page)"

definition can_gather_numa_stats_pmd :: "numaenv \<Rightarrow> u64 \<Rightarrow> u64 \<Rightarrow> u64 option" where
  "can_gather_numa_stats_pmd env pmd addr =
    (if \<not> pmd_present pmd then None else
     case normal_page_pmd env addr pmd of
       None \<Rightarrow> None
     | Some page \<Rightarrow>
       if page_reserved env page then None else
       let nid = page_to_nid env page in
       if nid \<notin> set (numa_nodes env) then None else Some page)"

definition gather_pte :: "numaenv \<Rightarrow> (u64 \<Rightarrow> u64) \<Rightarrow> u64 \<Rightarrow> u64 \<Rightarrow> numa_maps \<Rightarrow> numa_maps" where
  "gather_pte env ptep_get addr pte md =
    (let ptent = ptep_get pte in
     case can_gather_numa_stats env ptent addr of
       None \<Rightarrow> md
     | Some page \<Rightarrow> gather_stats env page md (pte_dirty ptent) 1)"

text \<open>
  \<open>huge\<close> is the PMD when it is a huge page, \<open>pte_map\<close> the first entry when the table could be mapped.
  The loop tests its end after the first entry: it runs once more than there are pages between the
  second address and the end.
\<close>

definition gather_pte_stats ::
  "numaenv \<Rightarrow> (u64 \<Rightarrow> u64) \<Rightarrow> u64 option \<Rightarrow> u64 option \<Rightarrow> u64 \<Rightarrow> u64 \<Rightarrow> numa_maps \<Rightarrow> numa_maps" where
  "gather_pte_stats env ptep_get huge pte_map addr end md =
    (case huge of
       Some pmd \<Rightarrow>
       (case can_gather_numa_stats_pmd env pmd addr of
          None \<Rightarrow> md
        | Some page \<Rightarrow> gather_stats env page md (pmd_dirty pmd) (0x200000 div 0x1000))
     | None \<Rightarrow>
       (case pte_map of
          None \<Rightarrow> md
        | Some pte \<Rightarrow> pte_run (gather_pte env ptep_get) (Suc (unat ((end - (addr + 0x1000)) div 4096))) pte addr md))"

definition gather_hugetlb_stats :: "numaenv \<Rightarrow> u64 \<Rightarrow> numa_maps \<Rightarrow> numa_maps" where
  "gather_hugetlb_stats env huge_pte md =
    (if \<not> pte_present huge_pte then md
     else let page = page_of_pte env huge_pte in gather_stats env page md (pte_dirty huge_pte) 1)"

section \<open>The line of an area\<close>

text \<open>
  The area as the function sees it: \<open>nv_policy\<close> is the policy of the area when it has one, in the words of
  \<open>mpol_to_str\<close>; the reference that \<open>mpol_cond_put\<close> gives back is the one the lookup of the policy took.
\<close>

record numa_vma =
  nv_mm :: bool
  nv_start :: u64
  nv_end :: u64
  nv_policy :: "string option"
  nv_file :: "string option"
  nv_heap :: bool
  nv_stack :: bool
  nv_hugetlb :: bool
  nv_kernel_pagesize :: u64

datatype numa_token =
    Np_policy string | Np_file string | Np_heap | Np_stack | Np_huge
  | Np_anon u64 | Np_dirty u64 | Np_mapped u64 | Np_mapmax u64 | Np_swapcache u64 | Np_active u64 | Np_writeback u64
  | Np_node nat u64 | Np_pagesize u64

definition no_numa :: numa_maps where
  "no_numa = \<lparr>nm_pages = 0, nm_anon = 0, nm_active = 0, nm_writeback = 0, nm_mapcount_max = 0, nm_dirty = 0,
     nm_swapcache = 0, nm_node = \<lambda>_. 0\<rparr>"

text \<open>\<open>walk\<close> is the page walk over the area with these callbacks; nothing is printed without an address space.\<close>

definition numa_tokens :: "numaenv \<Rightarrow> numa_vma \<Rightarrow> numa_maps \<Rightarrow> numa_token list" where
  "numa_tokens env vma md =
    (if nm_pages md = 0 then [] else
     (if nm_anon md \<noteq> 0 then [Np_anon (nm_anon md)] else []) @
     (if nm_dirty md \<noteq> 0 then [Np_dirty (nm_dirty md)] else []) @
     (if nm_pages md \<noteq> nm_anon md \<and> nm_pages md \<noteq> nm_dirty md then [Np_mapped (nm_pages md)] else []) @
     (if nm_mapcount_max md > 1 then [Np_mapmax (nm_mapcount_max md)] else []) @
     (if nm_swapcache md \<noteq> 0 then [Np_swapcache (nm_swapcache md)] else []) @
     (if nm_active md < nm_pages md \<and> \<not> nv_hugetlb vma then [Np_active (nm_active md)] else []) @
     (if nm_writeback md \<noteq> 0 then [Np_writeback (nm_writeback md)] else []) @
     concat (map (\<lambda>nid. if nm_node md nid \<noteq> 0 then [Np_node nid (nm_node md nid)] else []) (numa_nodes env)) @
     [Np_pagesize (drop_bit 10 (nv_kernel_pagesize vma))])"

definition show_numa_map ::
  "numaenv \<Rightarrow> (numa_vma \<Rightarrow> numa_maps \<Rightarrow> numa_maps) \<Rightarrow> string \<Rightarrow> numa_vma \<Rightarrow> (u64 \<times> numa_token list) option" where
  "show_numa_map env walk task_mempolicy vma =
    (if \<not> nv_mm vma then None else
     let buffer = (case nv_policy vma of Some pol \<Rightarrow> pol | None \<Rightarrow> task_mempolicy);
         toks = [Np_policy buffer];
         toks = toks @ (case nv_file vma of
             Some path \<Rightarrow> [Np_file path]
           | None \<Rightarrow> if nv_heap vma then [Np_heap] else if nv_stack vma then [Np_stack] else []);
         toks = toks @ (if nv_hugetlb vma then [Np_huge] else []);
         md = walk vma no_numa in
     Some (nv_start vma, toks @ numa_tokens env vma md))"

section \<open>A walk over page tables\<close>

text \<open>
  The generic walk over the area from PMD to PMD (\<open>nt_huge\<close> and \<open>nt_table\<close> give the huge page or the
  table of a PMD by its number), or over the huge entries of a \<open>hugetlb\<close> area. There is no callback for
  holes.
\<close>

record numa_tables =
  nt_ptep_get :: "u64 \<Rightarrow> u64"
  nt_huge :: "u64 \<Rightarrow> u64 option"
  nt_table :: "u64 \<Rightarrow> u64 option"
  nt_hugetlb :: "u64 list"

definition numa_step :: "numaenv \<Rightarrow> numa_tables \<Rightarrow> u64 \<Rightarrow> u64 \<Rightarrow> numa_maps \<Rightarrow> numa_maps" where
  "numa_step env nt start end md =
    (let huge = nt_huge nt (drop_bit 21 start); table = nt_table nt (drop_bit 21 start) in
     if huge = None \<and> table = None then md
     else gather_pte_stats env (nt_ptep_get nt) huge (map_option (\<lambda>t. pte_pointer (\<lambda>_. t) start) table) start end md)"

definition numa_walk :: "numaenv \<Rightarrow> numa_tables \<Rightarrow> numa_vma \<Rightarrow> numa_maps \<Rightarrow> numa_maps" where
  "numa_walk env nt vma =
    (if nv_hugetlb vma then fold (gather_hugetlb_stats env) (nt_hugetlb nt)
     else chunk_walk (numa_step env nt) (nv_start vma) (nv_end vma))"

text \<open>A page is on the node of its folio.\<close>

definition nid_law :: "numaenv \<Rightarrow> bool" where
  "nid_law env \<longleftrightarrow> (\<forall>page. page_to_nid env page = folio_nid env (page_folio env page))"

section \<open>The counts of the nodes add up\<close>

definition numa_sum :: "numaenv \<Rightarrow> numa_maps \<Rightarrow> bool" where
  "numa_sum env md \<longleftrightarrow> nm_pages md = sum_list (map (nm_node md) (numa_nodes env))"

lemma gather_stats_view:
  "nm_pages (gather_stats env page md dirty nr) = nm_pages md + nr"
  "nm_node (gather_stats env page md dirty nr) =
    (nm_node md)(folio_nid env (page_folio env page) := nm_node md (folio_nid env (page_folio env page)) + nr)"
  by (simp_all add: gather_stats_def Let_def)

lemma sum_list_upd:
  "distinct ns \<Longrightarrow> n \<in> set ns \<Longrightarrow> sum_list (map (f(n := f n + k)) ns) = sum_list (map f ns) + k" for k :: u64
proof (induction ns)
  case (Cons m ns)
  then show ?case by (cases "m = n") (auto simp: algebra_simps intro!: arg_cong [where f = sum_list])
qed simp

lemma gather_stats_sum:
  "numa_sum env md \<Longrightarrow> distinct (numa_nodes env) \<Longrightarrow> folio_nid env (page_folio env page) \<in> set (numa_nodes env) \<Longrightarrow>
   numa_sum env (gather_stats env page md dirty nr)"
  by (simp add: numa_sum_def gather_stats_view sum_list_upd)

lemma can_gather_nid:
  "can_gather_numa_stats env pte addr = Some page \<Longrightarrow> page_to_nid env page \<in> set (numa_nodes env)"
  "can_gather_numa_stats_pmd env pmd addr = Some page \<Longrightarrow> page_to_nid env page \<in> set (numa_nodes env)"
  by (auto simp: can_gather_numa_stats_def can_gather_numa_stats_pmd_def Let_def split: if_splits option.splits)

lemma pte_run_keeps: "P s \<Longrightarrow> (\<And>addr pte s. P s \<Longrightarrow> P (body addr pte s)) \<Longrightarrow> P (pte_run body n pte addr s)"
  by (induction n arbitrary: pte addr s) simp_all

lemma gather_pte_sum:
  "nid_law env \<Longrightarrow> distinct (numa_nodes env) \<Longrightarrow> numa_sum env md \<Longrightarrow> numa_sum env (gather_pte env ptep_get addr pte md)"
  by (auto simp: gather_pte_def Let_def nid_law_def dest!: can_gather_nid(1) split: option.split intro!: gather_stats_sum)

lemma gather_pte_stats_sum:
  assumes "nid_law env" "distinct (numa_nodes env)" "numa_sum env md"
  shows "numa_sum env (gather_pte_stats env ptep_get huge pte_map addr end md)"
proof -
  have "numa_sum env (pte_run (gather_pte env ptep_get) n pte addr md)" for n pte
    using assms(3) by (rule pte_run_keeps) (rule gather_pte_sum [OF assms(1,2)])
  then show ?thesis
    using assms unfolding gather_pte_stats_def
    by (auto simp: nid_law_def dest!: can_gather_nid(2) split: option.split intro!: gather_stats_sum simp del: pte_run.simps)
qed

lemma numa_walk_sum:
  assumes "nid_law env" "distinct (numa_nodes env)" "numa_sum env md"
    and "nv_hugetlb vma \<Longrightarrow> \<forall>e \<in> set (nt_hugetlb nt). pte_present e \<longrightarrow>
      folio_nid env (page_folio env (page_of_pte env e)) \<in> set (numa_nodes env)"
  shows "numa_sum env (numa_walk env nt vma md)"
proof (cases "nv_hugetlb vma")
  case True
  have "numa_sum env (fold (gather_hugetlb_stats env) es md)" if "set es \<subseteq> set (nt_hugetlb nt)" for es
    using that assms(3)
    by (induction es arbitrary: md)
      (use assms(4) [OF True] in \<open>simp_all add: gather_hugetlb_stats_def gather_stats_sum [OF _ assms(2)] Let_def\<close>)
  then show ?thesis using True by (simp add: numa_walk_def)
next
  case False
  have "numa_sum env (chunk_walk (numa_step env nt) start end md)" for start "end"
    using assms(3)
    by (rule chunk_walk_keeps) (simp add: numa_step_def Let_def gather_pte_stats_sum assms(1,2))
  then show ?thesis using False by (simp add: numa_walk_def)
qed

fun token_pages :: "numa_token \<Rightarrow> u64" where
  "token_pages (Np_node nid n) = n"
| "token_pages _ = 0"

definition node_total :: "numa_token list \<Rightarrow> u64" where
  "node_total toks = sum_list (map token_pages toks)"

lemma node_total_simps [simp]:
  "node_total [] = 0" "node_total (t # ts) = token_pages t + node_total ts"
  "node_total (xs @ ys) = node_total xs + node_total ys"
  by (simp_all add: node_total_def)

lemma node_total_nodes:
  "node_total (concat (map (\<lambda>nid. if f nid \<noteq> 0 then [Np_node nid (f nid)] else []) ns)) = sum_list (map f ns)"
  by (induction ns) simp_all

lemma node_total_tokens: "numa_sum env md \<Longrightarrow> node_total (numa_tokens env vma md) = nm_pages md"
  by (simp add: numa_tokens_def node_total_nodes numa_sum_def)

text \<open>The line is the header of the area and its statistics.\<close>

fun header_token :: "numa_token \<Rightarrow> bool" where
  "header_token (Np_policy pol) = True"
| "header_token (Np_file path) = True"
| "header_token Np_heap = True"
| "header_token Np_stack = True"
| "header_token Np_huge = True"
| "header_token _ = False"

lemma show_numa_map_header:
  assumes "show_numa_map env walk pol vma = Some (start, toks)"
  obtains pre where "toks = pre @ numa_tokens env vma (walk vma no_numa)" "list_all header_token pre" "start = nv_start vma"
  using assms that by (auto simp: show_numa_map_def Let_def simp del: append.simps split: if_splits)
    (force split: option.splits)+

lemma header_total: "list_all header_token pre \<Longrightarrow> node_total pre = 0"
proof (induction pre)
  case (Cons t pre)
  then show ?case by (cases t) simp_all
qed simp

section \<open>The counts of the nodes are exact\<close>

text \<open>
  The node of page \<open>i\<close>: of the page that its entry, or the huge page it is in, maps when it is present,
  if that is a page the kernel manages, not reserved, on a node with memory, and, for an entry, not
  memory of a device.
\<close>

definition on_memory :: "numaenv \<Rightarrow> u64 \<Rightarrow> nat option" where
  "on_memory env page =
    (if \<not> page_reserved env page \<and> page_to_nid env page \<in> set (numa_nodes env) then Some (page_to_nid env page) else None)"

definition page_nid :: "numaenv \<Rightarrow> numa_tables \<Rightarrow> nat \<Rightarrow> nat option" where
  "page_nid env nt i =
    (case nt_huge nt (of_nat (i div 512)) of
       Some pmd \<Rightarrow>
         Option.bind (if pmd_present pmd then normal_page_pmd env (pg (512 * (i div 512))) pmd else None) (on_memory env)
     | None \<Rightarrow>
       (case nt_table nt (of_nat (i div 512)) of
          None \<Rightarrow> None
        | Some table \<Rightarrow>
            let pte = nt_ptep_get nt (pte_pointer (\<lambda>_. table) (pg i)) in
            Option.bind (if pte_present pte then vm_normal_page env (pg i) pte else None)
              (\<lambda>page. if is_zone_device_page env page then None else on_memory env page)))"

text \<open>The two tests of the code decide that.\<close>

lemma gather_nid:
  "map_option (page_to_nid env) (can_gather_numa_stats env pte addr) =
    Option.bind (if pte_present pte then vm_normal_page env addr pte else None)
      (\<lambda>page. if is_zone_device_page env page then None else on_memory env page)"
  "map_option (page_to_nid env) (can_gather_numa_stats_pmd env pmd addr) =
    Option.bind (if pmd_present pmd then normal_page_pmd env addr pmd else None) (on_memory env)"
  by (simp_all add: can_gather_numa_stats_def can_gather_numa_stats_pmd_def on_memory_def Let_def split: option.split)

lemma page_nid_gather:
  "page_nid env nt i = map_option (page_to_nid env)
    (case nt_huge nt (of_nat (i div 512)) of
       Some pmd \<Rightarrow> can_gather_numa_stats_pmd env pmd (pg (512 * (i div 512)))
     | None \<Rightarrow>
       (case nt_table nt (of_nat (i div 512)) of
          None \<Rightarrow> None
        | Some table \<Rightarrow> can_gather_numa_stats env (nt_ptep_get nt (pte_pointer (\<lambda>_. table) (pg i))) (pg i)))"
  by (simp add: page_nid_def gather_nid [symmetric] Let_def split: option.split)

text \<open>The huge pages that the pages from \<open>k\<close> to \<open>l\<close> touch lie among them.\<close>

definition huge_inside :: "numa_tables \<Rightarrow> nat \<Rightarrow> nat \<Rightarrow> bool" where
  "huge_inside nt k l \<longleftrightarrow> (\<forall>h. nt_huge nt (of_nat h) \<noteq> None \<longrightarrow> 512 * h < l \<longrightarrow> k < 512 * (h + 1) \<longrightarrow>
     k \<le> 512 * h \<and> 512 * (h + 1) \<le> l)"

text \<open>
  What is found for page \<open>i\<close>: the page that counts and whether the entry that maps it, or the huge page
  it is in, is dirty.
\<close>

definition counted :: "numaenv \<Rightarrow> u64 \<Rightarrow> u64 option" where
  "counted env page =
    (if \<not> page_reserved env page \<and> page_to_nid env page \<in> set (numa_nodes env) then Some page else None)"

definition numa_page :: "numaenv \<Rightarrow> numa_tables \<Rightarrow> nat \<Rightarrow> (u64 \<times> bool) option" where
  "numa_page env nt i =
    (case nt_huge nt (of_nat (i div 512)) of
       Some pmd \<Rightarrow>
         map_option (\<lambda>page. (page, pmd_dirty pmd))
           (Option.bind (if pmd_present pmd then normal_page_pmd env (pg (512 * (i div 512))) pmd else None) (counted env))
     | None \<Rightarrow>
       (case nt_table nt (of_nat (i div 512)) of
          None \<Rightarrow> None
        | Some table \<Rightarrow>
            let pte = nt_ptep_get nt (pte_pointer (\<lambda>_. table) (pg i)) in
            map_option (\<lambda>page. (page, pte_dirty pte))
              (Option.bind (if pte_present pte then vm_normal_page env (pg i) pte else None)
                (\<lambda>page. if is_zone_device_page env page then None else counted env page))))"

lemma gather_counted:
  "can_gather_numa_stats env pte addr =
    Option.bind (if pte_present pte then vm_normal_page env addr pte else None)
      (\<lambda>page. if is_zone_device_page env page then None else counted env page)"
  "can_gather_numa_stats_pmd env pmd addr =
    Option.bind (if pmd_present pmd then normal_page_pmd env addr pmd else None) (counted env)"
  by (simp_all add: can_gather_numa_stats_def can_gather_numa_stats_pmd_def counted_def Let_def split: option.split)

lemma page_nid_page: "page_nid env nt i = map_option (\<lambda>(page, d). page_to_nid env page) (numa_page env nt i)"
  unfolding page_nid_gather numa_page_def gather_counted [symmetric]
  by (simp add: Let_def option.map_comp comp_def split: option.split)

text \<open>The statistics of a list of such pages: how many there are of each kind, and the largest mapcount.\<close>

definition number :: "numaenv \<Rightarrow> (u64 \<Rightarrow> bool \<Rightarrow> bool) \<Rightarrow> (u64 \<times> bool) list \<Rightarrow> nat" where
  "number env P items = length (filter (\<lambda>(page, dirty). P (page_folio env page) dirty) items)"

definition mapcount_of :: "numaenv \<Rightarrow> u64 \<Rightarrow> u64" where
  "mapcount_of env page =
    of_int (if page_mapcount env then folio_precise_page_mapcount env (page_folio env page) page
            else folio_average_page_mapcount env (page_folio env page))"

definition most_mapped :: "numaenv \<Rightarrow> (u64 \<times> bool) list \<Rightarrow> u64 \<Rightarrow> u64" where
  "most_mapped env = fold (\<lambda>(page, dirty) m. if mapcount_of env page > m then mapcount_of env page else m)"

definition tallies :: "numaenv \<Rightarrow> numa_maps \<Rightarrow> (u64 \<times> bool) list \<Rightarrow> numa_maps \<Rightarrow> bool" where
  "tallies env md items md' \<longleftrightarrow>
    nm_pages md' = nm_pages md + of_nat (length items) \<and>
    nm_anon md' = nm_anon md + of_nat (number env (\<lambda>f d. folio_test_anon env f) items) \<and>
    nm_dirty md' = nm_dirty md + of_nat (number env (\<lambda>f d. d \<or> folio_test_dirty env f) items) \<and>
    nm_swapcache md' = nm_swapcache md + of_nat (number env (\<lambda>f d. folio_test_swapcache env f) items) \<and>
    nm_active md' = nm_active md + of_nat (number env (\<lambda>f d. folio_test_active env f \<or> folio_test_unevictable env f) items) \<and>
    nm_writeback md' = nm_writeback md + of_nat (number env (\<lambda>f d. folio_test_writeback env f) items) \<and>
    nm_mapcount_max md' = most_mapped env items (nm_mapcount_max md) \<and>
    (\<forall>n. nm_node md' n = nm_node md n + of_nat (number env (\<lambda>f d. folio_nid env f = n) items))"

lemma number_simps [simp]:
  "number env P [] = 0"
  "number env P (xs @ ys) = number env P xs + number env P ys"
  "number env P (replicate n (page, d)) = (if P (page_folio env page) d then n else 0)"
  by (simp_all add: number_def filter_replicate)

lemma most_mapped_simps [simp]:
  "most_mapped env [] m = m"
  "most_mapped env (xs @ ys) m = most_mapped env ys (most_mapped env xs m)"
  "most_mapped env (replicate (Suc n) (page, d)) m = (if mapcount_of env page > m then mapcount_of env page else m)"
proof -
  show "most_mapped env (replicate (Suc n) (page, d)) m = (if mapcount_of env page > m then mapcount_of env page else m)"
    by (induction n arbitrary: m) (auto simp: most_mapped_def)
qed (simp_all add: most_mapped_def)

lemma tallies_Nil: "tallies env md [] md"
  by (simp add: tallies_def)

lemma tallies_append: "tallies env md is md' \<Longrightarrow> tallies env md' js md'' \<Longrightarrow> tallies env md (is @ js) md''"
  by (simp add: tallies_def)

lemma update_if:
  "(if c then md\<lparr>nm_dirty := x\<rparr> else md) = md\<lparr>nm_dirty := (if c then x else nm_dirty md)\<rparr>"
  "(if c then md\<lparr>nm_swapcache := x\<rparr> else md) = md\<lparr>nm_swapcache := (if c then x else nm_swapcache md)\<rparr>"
  "(if c then md\<lparr>nm_active := x\<rparr> else md) = md\<lparr>nm_active := (if c then x else nm_active md)\<rparr>"
  "(if c then md\<lparr>nm_writeback := x\<rparr> else md) = md\<lparr>nm_writeback := (if c then x else nm_writeback md)\<rparr>"
  "(if c then md\<lparr>nm_anon := x\<rparr> else md) = md\<lparr>nm_anon := (if c then x else nm_anon md)\<rparr>"
  "(if c then md\<lparr>nm_mapcount_max := x\<rparr> else md) = md\<lparr>nm_mapcount_max := (if c then x else nm_mapcount_max md)\<rparr>"
  by simp_all

lemma gather_stats_kinds:
  "nm_anon (gather_stats env page md dirty nr) =
    (if folio_test_anon env (page_folio env page) then nm_anon md + nr else nm_anon md)"
  "nm_dirty (gather_stats env page md dirty nr) =
    (if dirty \<or> folio_test_dirty env (page_folio env page) then nm_dirty md + nr else nm_dirty md)"
  "nm_swapcache (gather_stats env page md dirty nr) =
    (if folio_test_swapcache env (page_folio env page) then nm_swapcache md + nr else nm_swapcache md)"
  "nm_active (gather_stats env page md dirty nr) =
    (if folio_test_active env (page_folio env page) \<or> folio_test_unevictable env (page_folio env page)
     then nm_active md + nr else nm_active md)"
  "nm_writeback (gather_stats env page md dirty nr) =
    (if folio_test_writeback env (page_folio env page) then nm_writeback md + nr else nm_writeback md)"
  "nm_mapcount_max (gather_stats env page md dirty nr) =
    (let cnt = of_int (if page_mapcount env then folio_precise_page_mapcount env (page_folio env page) page
                       else folio_average_page_mapcount env (page_folio env page)) in
     if cnt > nm_mapcount_max md then cnt else nm_mapcount_max md)"
  unfolding gather_stats_def Let_def update_if by simp_all

lemma tallies_gather:
  "tallies env md (replicate (Suc n) (page, dirty)) (gather_stats env page md dirty (of_nat (Suc n)))"
  unfolding tallies_def number_simps most_mapped_simps length_replicate gather_stats_view gather_stats_kinds [folded mapcount_of_def]
  by simp

lemma tallies_found:
  assumes "is \<noteq> []" and "\<And>i. i \<in> set is \<Longrightarrow> f i = map_option (\<lambda>page. (page, dirty)) found" and "nr = of_nat (length is)"
  shows "tallies env md (List.map_filter f is) (case found of None \<Rightarrow> md | Some page \<Rightarrow> gather_stats env page md dirty nr)"
proof (cases found)
  case None
  then have "List.map_filter f is = []" using assms(2) by (simp add: List.map_filter_def filter_empty_conv)
  then show ?thesis using None by (simp add: tallies_Nil)
next
  case (Some page)
  then have "List.map_filter f is = map (\<lambda>_. (page, dirty)) is"
    using assms(2) by (simp add: List.map_filter_def filter_id_conv [THEN iffD2] cong: map_cong)
  then have "List.map_filter f is = replicate (Suc (length is - 1)) (page, dirty)" "nr = of_nat (Suc (length is - 1))"
    using assms(1,3) by (simp_all add: map_replicate_const)
  then show ?thesis using tallies_gather [of env md "length is - 1" page dirty] Some by simp
qed

lemma tallies_fold:
  "(\<And>i md. i \<in> set is \<Longrightarrow> tallies env md (List.map_filter f [i]) (body i md)) \<Longrightarrow>
   tallies env md (List.map_filter f is) (fold body is md)"
proof (induction "is" arbitrary: md)
  case (Cons i "is")
  then show ?case
    using tallies_append [of env md "List.map_filter f [i]" "body i md" "List.map_filter f is"] map_filter_append [of f "[i]" "is"]
    by simp
qed (simp add: tallies_Nil List.map_filter_simps)

lemma same_pmd:
  fixes p :: nat
  assumes "p mod 512 + m \<le> 512" "p \<le> i" "i < p + m"
  shows "i div 512 = p div 512"
proof -
  obtain q r where p: "p = 512 * q + r" "r < 512" by (metis mult_div_mod_eq mod_less_divisor zero_less_numeral)
  then have "512 * q \<le> i" "i < 512 * q + 512" using assms by simp_all
  then have "i div 512 = q" by (intro div_nat_eqI) simp_all
  then show ?thesis using p by simp
qed

lemma huge_pages: "0x200000 div 0x1000 = (512 :: u64)"
  by (rule word_unat_eq_iff [THEN iffD2]) (simp add: unat_div)

lemma numa_step_tallies:
  assumes "0 < m" "p mod 512 + m \<le> 512" "p + m < 2 ^ 51"
    and whole: "nt_huge nt (of_nat (p div 512)) \<noteq> None \<Longrightarrow> p mod 512 = 0 \<and> m = 512"
  shows "tallies env md (List.map_filter (numa_page env nt) [p..<p + m]) (numa_step env nt (pg p) (pg (p + m)) md)"
proof -
  have pmd: "i div 512 = p div 512" if "i \<in> set [p..<p + m]" for i
    using that assms(2) same_pmd [of p m i] by simp
  have num: "drop_bit 21 (pg p) = of_nat (p div 512)" using assms(3) by (simp add: drop_bit_pg)
  show ?thesis
  proof (cases "nt_huge nt (of_nat (p div 512))")
    case (Some h)
    then have 512: "m = 512" "512 * (p div 512) = p" using whole by auto
    have found: "numa_page env nt i = map_option (\<lambda>page. (page, pmd_dirty h)) (can_gather_numa_stats_pmd env h (pg p))"
      if "i \<in> set [p..<p + m]" for i
      unfolding numa_page_def gather_counted pmd [OF that] Some 512(2) option.case by (rule refl)
    have "[p..<p + m] \<noteq> []" "(512 :: u64) = of_nat (length [p..<p + m])" using 512(1) assms(1) by simp_all
    note tallies_found [OF this(1) found this(2)]
    then have "tallies env md (List.map_filter (numa_page env nt) [p..<p + m])
        (case can_gather_numa_stats_pmd env h (pg p) of None \<Rightarrow> md | Some page \<Rightarrow> gather_stats env page md (pmd_dirty h) 512)"
      .
    moreover have "numa_step env nt (pg p) (pg (p + m)) md =
        (case can_gather_numa_stats_pmd env h (pg p) of None \<Rightarrow> md | Some page \<Rightarrow> gather_stats env page md (pmd_dirty h) 512)"
      using Some unfolding numa_step_def gather_pte_stats_def huge_pages by (simp add: num Let_def)
    ultimately show ?thesis by (simp only:)
  next
    case None
    show ?thesis
    proof (cases "nt_table nt (of_nat (p div 512))")
      case no_table: None
      have "numa_page env nt i = None" if "i \<in> set [p..<p + m]" for i
        using None no_table pmd [OF that] by (simp add: numa_page_def)
      then have "List.map_filter (numa_page env nt) [p..<p + m] = []" by (simp add: List.map_filter_def filter_empty_conv)
      then show ?thesis using None no_table by (simp add: numa_step_def num tallies_Nil)
    next
      case (Some t)
      have run: "numa_step env nt (pg p) (pg (p + m)) md =
          fold (\<lambda>i. gather_pte env (nt_ptep_get nt) (pg i) (pte_pointer (\<lambda>_. t) (pg i))) [p..<p + m] md"
      proof -
        have "Suc (unat ((pg (p + m) - (pg p + 0x1000)) div 4096)) = m"
          using pg_diff [of "Suc p" "m - 1"] assms(1,3) by (simp add: pg_Suc)
        then show ?thesis
          using None Some pte_run_pages [of p m] assms(2,3)
          by (simp add: numa_step_def num gather_pte_stats_def)
      qed
      show ?thesis
        unfolding run
      proof (rule tallies_fold)
        fix i and md :: numa_maps
        assume i: "i \<in> set [p..<p + m]"
        show "tallies env md (List.map_filter (numa_page env nt) [i])
            (gather_pte env (nt_ptep_get nt) (pg i) (pte_pointer (\<lambda>_. t) (pg i)) md)"
          unfolding gather_pte_def Let_def
        proof (rule tallies_found)
          fix i' assume "i' \<in> set [i]"
          then have "i' = i" by simp
          then show "numa_page env nt i' = map_option (\<lambda>page. (page, pte_dirty (nt_ptep_get nt (pte_pointer (\<lambda>_. t) (pg i)))))
              (can_gather_numa_stats env (nt_ptep_get nt (pte_pointer (\<lambda>_. t) (pg i))) (pg i))"
            unfolding numa_page_def gather_counted Let_def using None Some pmd [OF i] by (simp only: option.case)
        qed simp_all
      qed
    qed
  qed
qed

lemma numa_walk_tallies:
  assumes "huge_inside nt k (k + j)" "k + j < 2 ^ 51"
  shows "tallies env md (List.map_filter (numa_page env nt) [k..<k + j]) (chunk_walk (numa_step env nt) (pg k) (pg (k + j)) md)"
proof (rule chunk_walk_pages [where I = "\<lambda>p. tallies env md (List.map_filter (numa_page env nt) [k..<p])"])
  fix p m md'
  assume I: "tallies env md (List.map_filter (numa_page env nt) [k..<p]) md'"
    and p: "k \<le> p" "0 < m" "p mod 512 + m \<le> 512" "p + m \<le> k + j"
    and ends: "p = k \<or> p mod 512 = 0" "p + m = k + j \<or> (p + m) mod 512 = 0"
  have "p mod 512 = 0 \<and> m = 512" if "nt_huge nt (of_nat (p div 512)) \<noteq> None"
  proof -
    obtain h r where h: "p = 512 * h + r" "r < 512" "h = p div 512" "r = p mod 512"
      by (metis mult_div_mod_eq mod_less_divisor zero_less_numeral)
    have "512 * h < k + j" "k < 512 * (h + 1)" using p(1,2,4) h(1,2) by simp_all
    moreover have "nt_huge nt (of_nat h) \<noteq> None" using that h(3) by simp
    ultimately have inside: "k \<le> 512 * h" "512 * (h + 1) \<le> k + j"
      using assms(1) [unfolded huge_inside_def, rule_format, of h] by simp_all
    have r: "r = 0" using ends(1) inside(1) h(1,2) by auto
    have "m = 512"
    proof (cases "p + m = k + j")
      case True
      then show ?thesis using inside(2) h(1) p(3) r by simp
    next
      case False
      then have "m mod 512 = 0" using ends(2) h(1) r by simp
      then show ?thesis using p(2,3) by (auto simp: mod_eq_0_iff_dvd dest: dvd_imp_le)
    qed
    then show ?thesis using r h(4) by metis
  qed
  then have "tallies env md' (List.map_filter (numa_page env nt) [p..<p + m]) (numa_step env nt (pg p) (pg (p + m)) md')"
    using numa_step_tallies [OF p(2,3)] p(4) assms(2) by simp
  with I have "tallies env md (List.map_filter (numa_page env nt) ([k..<p] @ [p..<p + m])) (numa_step env nt (pg p) (pg (p + m)) md')"
    unfolding map_filter_append by (rule tallies_append)
  then show "tallies env md (List.map_filter (numa_page env nt) [k..<p + m]) (numa_step env nt (pg p) (pg (p + m)) md')"
    using upt_add_eq_append [OF p(1), of m] by simp
qed (use assms(2) in \<open>simp_all add: tallies_Nil List.map_filter_simps\<close>)

lemma number_pages:
  "length (List.map_filter f is) = length (filter (\<lambda>i. f i \<noteq> None) is)"
  "number env P (List.map_filter f is) =
    length (filter (\<lambda>i. case f i of None \<Rightarrow> False | Some (page, d) \<Rightarrow> P (page_folio env page) d) is)"
  by (induction "is") (auto simp: number_def List.map_filter_simps split: option.split)

definition pages_on :: "numaenv \<Rightarrow> numa_tables \<Rightarrow> nat \<Rightarrow> nat \<Rightarrow> nat \<Rightarrow> nat" where
  "pages_on env nt k l n = length (filter (\<lambda>i. page_nid env nt i = Some n) [k..<l])"

lemma page_nid_memory: "page_nid env nt i = Some n \<Longrightarrow> n \<in> set (numa_nodes env)"
  by (auto simp: page_nid_gather dest: can_gather_nid split: option.splits)

lemma some_page_on: "0 < pages_on env nt k l n \<longleftrightarrow> (\<exists>i. k \<le> i \<and> i < l \<and> page_nid env nt i = Some n)"
  by (auto simp: pages_on_def filter_empty_conv)

lemma of_nat_length_filter:
  assumes "l < 2 ^ 51"
  shows "of_nat (length (filter P [k..<l])) = (0 :: u64) \<longleftrightarrow> length (filter P [k..<l]) = 0"
proof -
  define n where "n = length (filter P [k..<l])"
  have "n < 2 ^ 64" using length_filter_le [of P "[k..<l]"] assms by (simp add: n_def)
  then have u: "unat (of_nat n :: u64) = n" by (rule unat_of_nat_small)
  have "n = 0" if "of_nat n = (0 :: u64)" using u that by simp
  then show ?thesis unfolding n_def [symmetric] by auto
qed

lemma node_tokens:
  "Np_node n c \<in> set (numa_tokens env vma md) \<longleftrightarrow>
    nm_pages md \<noteq> 0 \<and> n \<in> set (numa_nodes env) \<and> nm_node md n \<noteq> 0 \<and> c = nm_node md n"
  by (auto simp: numa_tokens_def split: if_splits)

text \<open>
  C22. \<open>numa_maps\<close> says where the memory of an area is: for an area of the pages \<open>k\<close> to \<open>k + j\<close> mapped by
  tables and huge pages, a node is named exactly when some page of the area that counts (present, with
  a page the kernel manages, on a node with memory) is on it, and then with their number, a huge page
  counting as its 512 pages.
\<close>

theorem numa_maps_exact:
  assumes "nid_law env" and "nv_start vma = pg k" "nv_end vma = pg (k + j)" "k + j < 2 ^ 51" "\<not> nv_hugetlb vma"
    and "huge_inside nt k (k + j)" and "show_numa_map env (numa_walk env nt) pol vma = Some (start, toks)"
  shows "start = pg k \<and>
    (\<forall>n c. Np_node n c \<in> set toks \<longleftrightarrow> 0 < pages_on env nt k (k + j) n \<and> c = of_nat (pages_on env nt k (k + j) n))"
proof -
  let ?md = "numa_walk env nt vma no_numa" and ?nid = "page_nid env nt" and ?on = "pages_on env nt k (k + j)"
  have "tallies env no_numa (List.map_filter (numa_page env nt) [k..<k + j]) ?md"
    using numa_walk_tallies [OF assms(6,4)] assms(2,3,5) by (simp add: numa_walk_def)
  moreover have "(case numa_page env nt i of None \<Rightarrow> False | Some (page, d) \<Rightarrow> folio_nid env (page_folio env page) = n) \<longleftrightarrow>
      ?nid i = Some n" for i n
    using assms(1) by (auto simp: page_nid_page nid_law_def split: option.split)
  moreover have "numa_page env nt i \<noteq> None \<longleftrightarrow> ?nid i \<noteq> None" for i by (simp add: page_nid_page)
  ultimately have md: "nm_pages ?md = of_nat (length (filter (\<lambda>i. ?nid i \<noteq> None) [k..<k + j]))" "nm_node ?md n = of_nat (?on n)" for n
    by (simp_all add: tallies_def no_numa_def pages_on_def number_pages)
  obtain pre where toks: "toks = pre @ numa_tokens env vma ?md" "list_all header_token pre" "start = nv_start vma"
    using assms(7) by (rule show_numa_map_header)
  have "Np_node n c \<in> set toks \<longleftrightarrow> 0 < ?on n \<and> c = of_nat (?on n)" for n c
  proof -
    have "Np_node n c \<notin> set pre" using toks(2) by (auto simp: list_all_iff dest: bspec)
    then have "Np_node n c \<in> set toks \<longleftrightarrow>
        nm_pages ?md \<noteq> 0 \<and> n \<in> set (numa_nodes env) \<and> nm_node ?md n \<noteq> 0 \<and> c = of_nat (?on n)"
      by (simp add: toks(1) node_tokens md(2))
    moreover have "nm_node ?md n \<noteq> 0 \<longleftrightarrow> 0 < ?on n"
      unfolding md(2) pages_on_def of_nat_length_filter [OF assms(4)] by simp
    moreover have "nm_pages ?md \<noteq> 0 \<and> n \<in> set (numa_nodes env)" if on: "0 < ?on n"
    proof -
      obtain i where i: "k \<le> i" "i < k + j" "?nid i = Some n" using on some_page_on by blast
      then have "length (filter (\<lambda>i. ?nid i \<noteq> None) [k..<k + j]) \<noteq> 0" by (auto simp: filter_empty_conv)
      then show ?thesis
        using page_nid_memory [OF i(3)] unfolding md(1) by (simp only: of_nat_length_filter [OF assms(4)] simp_thms)
    qed
    ultimately show ?thesis by blast
  qed
  then show ?thesis using toks(3) assms(2) by simp
qed

section \<open>All the numbers of a line\<close>

text \<open>
  What is counted for an area: its pages from \<open>k\<close> to \<open>l\<close> that count, a huge page once for each of its 512
  pages, or the present huge entries of a \<open>hugetlb\<close> area, each once.
\<close>

definition numa_items :: "numaenv \<Rightarrow> numa_tables \<Rightarrow> numa_vma \<Rightarrow> nat \<Rightarrow> nat \<Rightarrow> (u64 \<times> bool) list" where
  "numa_items env nt vma k l =
    (if nv_hugetlb vma
     then List.map_filter (\<lambda>e. if pte_present e then Some (page_of_pte env e, pte_dirty e) else None) (nt_hugetlb nt)
     else List.map_filter (numa_page env nt) [k..<l])"

definition numa_shape :: "numa_tables \<Rightarrow> numa_vma \<Rightarrow> nat \<Rightarrow> nat \<Rightarrow> bool" where
  "numa_shape nt vma k l \<longleftrightarrow>
    (if nv_hugetlb vma then length (nt_hugetlb nt) < 2 ^ 51
     else nv_start vma = pg k \<and> nv_end vma = pg l \<and> k \<le> l \<and> l < 2 ^ 51 \<and> huge_inside nt k l)"

lemma numa_walk_items:
  assumes "numa_shape nt vma k l"
  shows "tallies env md (numa_items env nt vma k l) (numa_walk env nt vma md)"
proof (cases "nv_hugetlb vma")
  case True
  have "tallies env md (List.map_filter (\<lambda>e. if pte_present e then Some (page_of_pte env e, pte_dirty e) else None) [e])
      (gather_hugetlb_stats env e md)" for e md
    using tallies_gather [of env md 0 "page_of_pte env e" "pte_dirty e"]
    by (simp add: gather_hugetlb_stats_def List.map_filter_simps Let_def tallies_Nil)
  then show ?thesis using True by (simp add: numa_items_def numa_walk_def tallies_fold)
next
  case False
  then obtain j where l: "l = k + j" using assms by (auto simp: numa_shape_def le_iff_add)
  then show ?thesis
    using False assms numa_walk_tallies [of nt k j env md] by (simp add: numa_items_def numa_walk_def numa_shape_def)
qed

lemma numa_items_small:
  assumes "numa_shape nt vma k l"
  shows "length (numa_items env nt vma k l) < 2 ^ 51"
proof (cases "nv_hugetlb vma")
  case True
  then have "length (nt_hugetlb nt) < 2 ^ 51" using assms by (simp only: numa_shape_def if_True)
  then show ?thesis
    unfolding numa_items_def if_P [OF True] by (rule le_less_trans [OF length_map_filter])
next
  case False
  then have "l < 2 ^ 51" using assms by (simp only: numa_shape_def if_False simp_thms)
  then have "length [k..<l] < 2 ^ 51" by simp
  then show ?thesis
    unfolding numa_items_def if_not_P [OF False] by (rule le_less_trans [OF length_map_filter])
qed

lemma small_counts:
  assumes "a < 2 ^ 51" "b < 2 ^ 51"
  shows "of_nat a = (of_nat b :: u64) \<longleftrightarrow> a = b" "of_nat a < (of_nat b :: u64) \<longleftrightarrow> a < b" "of_nat a = (0 :: u64) \<longleftrightarrow> a = 0"
proof -
  have u: "unat (of_nat c :: u64) = c" if "c < 2 ^ 51" for c
    by (rule unat_of_nat_small) (use that in simp)
  note u = u [OF assms(1)] u [OF assms(2)]
  show "of_nat a = (of_nat b :: u64) \<longleftrightarrow> a = b" by (simp only: word_unat_eq_iff u)
  show "of_nat a < (of_nat b :: u64) \<longleftrightarrow> a < b" by (simp only: word_less_nat_alt u)
  show "of_nat a = (0 :: u64) \<longleftrightarrow> a = 0" by (simp only: word_unat_eq_iff u unsigned_0)
qed

lemma kind_tokens:
  "Np_anon c \<in> set (numa_tokens env vma md) \<longleftrightarrow> nm_pages md \<noteq> 0 \<and> nm_anon md \<noteq> 0 \<and> c = nm_anon md"
  "Np_dirty c \<in> set (numa_tokens env vma md) \<longleftrightarrow> nm_pages md \<noteq> 0 \<and> nm_dirty md \<noteq> 0 \<and> c = nm_dirty md"
  "Np_mapped c \<in> set (numa_tokens env vma md) \<longleftrightarrow>
    nm_pages md \<noteq> 0 \<and> nm_pages md \<noteq> nm_anon md \<and> nm_pages md \<noteq> nm_dirty md \<and> c = nm_pages md"
  "Np_mapmax c \<in> set (numa_tokens env vma md) \<longleftrightarrow> nm_pages md \<noteq> 0 \<and> nm_mapcount_max md > 1 \<and> c = nm_mapcount_max md"
  "Np_swapcache c \<in> set (numa_tokens env vma md) \<longleftrightarrow> nm_pages md \<noteq> 0 \<and> nm_swapcache md \<noteq> 0 \<and> c = nm_swapcache md"
  "Np_active c \<in> set (numa_tokens env vma md) \<longleftrightarrow>
    nm_pages md \<noteq> 0 \<and> nm_active md < nm_pages md \<and> \<not> nv_hugetlb vma \<and> c = nm_active md"
  "Np_writeback c \<in> set (numa_tokens env vma md) \<longleftrightarrow> nm_pages md \<noteq> 0 \<and> nm_writeback md \<noteq> 0 \<and> c = nm_writeback md"
  by (auto simp: numa_tokens_def split: if_splits)

text \<open>
  C27. Every number of a line is the number of the pages it names, and the numbers of the nodes add up to
  all of them: for an area of tables, huge pages and holes, or a \<open>hugetlb\<close> area, the counts printed for
  the nodes sum to the pages counted; the anonymous, dirty (by the entry or the folio), swap cache and
  writeback pages are named exactly when there are any, with their number; the mapped pages, with the
  number of all, when neither all are anonymous nor all dirty; the active (or unevictable) ones when they
  are not all, except in a \<open>hugetlb\<close> area; and the largest mapcount when it is above 1. That a \<open>hugetlb\<close>
  page is on a node with memory is not tested by the code and is assumed.
\<close>

theorem numa_maps_add_up:
  assumes "nid_law env" "distinct (numa_nodes env)" "numa_shape nt vma k l"
    and "nv_hugetlb vma \<Longrightarrow> \<forall>e \<in> set (nt_hugetlb nt). pte_present e \<longrightarrow>
      folio_nid env (page_folio env (page_of_pte env e)) \<in> set (numa_nodes env)"
    and "show_numa_map env (numa_walk env nt) pol vma = Some (start, toks)"
  shows "let items = numa_items env nt vma k l; all = length items;
      anon = number env (\<lambda>f d. folio_test_anon env f) items;
      dirty = number env (\<lambda>f d. d \<or> folio_test_dirty env f) items;
      cached = number env (\<lambda>f d. folio_test_swapcache env f) items;
      active = number env (\<lambda>f d. folio_test_active env f \<or> folio_test_unevictable env f) items;
      writeback = number env (\<lambda>f d. folio_test_writeback env f) items;
      most = most_mapped env items 0 in
    node_total toks = of_nat all \<and>
    (\<forall>c. Np_mapped c \<in> set toks \<longleftrightarrow> all \<noteq> 0 \<and> all \<noteq> anon \<and> all \<noteq> dirty \<and> c = of_nat all) \<and>
    (\<forall>c. Np_anon c \<in> set toks \<longleftrightarrow> anon \<noteq> 0 \<and> c = of_nat anon) \<and>
    (\<forall>c. Np_dirty c \<in> set toks \<longleftrightarrow> dirty \<noteq> 0 \<and> c = of_nat dirty) \<and>
    (\<forall>c. Np_swapcache c \<in> set toks \<longleftrightarrow> cached \<noteq> 0 \<and> c = of_nat cached) \<and>
    (\<forall>c. Np_writeback c \<in> set toks \<longleftrightarrow> writeback \<noteq> 0 \<and> c = of_nat writeback) \<and>
    (\<forall>c. Np_active c \<in> set toks \<longleftrightarrow> active < all \<and> \<not> nv_hugetlb vma \<and> c = of_nat active) \<and>
    (\<forall>c. Np_mapmax c \<in> set toks \<longleftrightarrow> 1 < most \<and> c = most)"
proof -
  let ?md = "numa_walk env nt vma no_numa" and ?items = "numa_items env nt vma k l"
  have "numa_sum env no_numa" by (simp add: numa_sum_def no_numa_def sum_list_0 del: sum_list_triv)
  then have sum: "numa_sum env ?md" using numa_walk_sum [OF assms(1,2) _ assms(4)] by blast
  obtain pre where toks: "toks = pre @ numa_tokens env vma ?md" "list_all header_token pre"
    using assms(5) by (rule show_numa_map_header)
  note md = numa_walk_items [OF assms(3), of env no_numa, unfolded tallies_def no_numa_def, simplified, folded no_numa_def]
  have small: "length ?items < 2 ^ 51" using assms(3) by (rule numa_items_small)
  have le: "number env P ?items \<le> length ?items" for P by (simp add: number_def)
  have few: "number env P ?items < 2 ^ 51" for P using small le [of P] by simp
  have none: "length ?items = 0 \<Longrightarrow> number env P ?items = 0" for P using le [of P] by simp
  have most: "length ?items = 0 \<Longrightarrow> most_mapped env ?items 0 = 0" by simp
  note counts = small_counts [OF small few] small_counts [OF few small] small_counts(3) [OF small small] small_counts(3) [OF few few]
  have "node_total toks = of_nat (length ?items)"
    using node_total_tokens [OF sum] header_total [OF toks(2)] md by (simp add: toks(1))
  moreover have "t \<in> set toks \<longleftrightarrow> t \<in> set (numa_tokens env vma ?md)" if "\<not> header_token t" for t
    using toks that by (auto simp: list_all_iff)
  ultimately show ?thesis
    unfolding Let_def using none most by (auto simp: kind_tokens md counts)
qed

section \<open>Examples\<close>

text \<open>
  An area of 514 pages: the first PMD is a huge page on node 1, the second a table with a page on node 0
  and an empty entry.
\<close>

definition two_nodes :: numaenv where
  "two_nodes = smapsenv.extend (shared_env\<lparr>normal_page_pmd := \<lambda>_ _. Some 0x80000\<rparr>)
     \<lparr>folio_test_swapcache = \<lambda>_. False, folio_test_active = \<lambda>_. True, folio_test_unevictable = \<lambda>_. False,
      folio_test_writeback = \<lambda>_. False, folio_nid = \<lambda>page. if page = 0x80000 then 1 else 0,
      page_to_nid = \<lambda>page. if page = 0x80000 then 1 else 0, is_zone_device_page = \<lambda>_. False,
      page_reserved = \<lambda>_. False, numa_nodes = [0, 1]\<rparr>"

definition mixed_tables :: numa_tables where
  "mixed_tables = \<lparr>nt_ptep_get = \<lambda>pte. if pte = 0x9000 then 0x45067 else 0, nt_huge = \<lambda>h. if h = 1 then Some 0x800000E7 else None,
     nt_table = \<lambda>h. if h = 2 then Some 0x9000 else None, nt_hugetlb = []\<rparr>"

definition mixed_area :: numa_vma where
  "mixed_area = \<lparr>nv_mm = True, nv_start = pg 512, nv_end = pg 1026, nv_policy = None, nv_file = None, nv_heap = True,
     nv_stack = False, nv_hugetlb = False, nv_kernel_pagesize = 0x1000\<rparr>"

lemmas two_nodes_eval = two_nodes_def shared_env_def plain_env_def pmenv.defs smapsenv.defs

lemma mixed_huge: "nt_huge mixed_tables (of_nat h) \<noteq> None \<Longrightarrow> 512 * h < 1026 \<Longrightarrow> h = 1"
  using unat_of_nat_small [of h] by (auto simp: mixed_tables_def split: if_splits)

lemma mixed_inside: "huge_inside mixed_tables 512 1026"
  using mixed_huge by (auto simp: huge_inside_def)

lemma mixed_law: "nid_law two_nodes"
  by (simp add: nid_law_def two_nodes_eval)

text \<open>The huge page lies on node 1.\<close>

lemma mixed_on_1: "pages_on two_nodes mixed_tables 512 1026 1 = 512"
proof -
  have huge: "page_nid two_nodes mixed_tables i = Some 1" if "512 \<le> i" "i < 1024" for i
  proof -
    have "i div 512 = 1" using that by (intro div_nat_eqI) simp_all
    then show ?thesis
      by (simp add: page_nid_gather mixed_tables_def can_gather_numa_stats_pmd_def two_nodes_eval pmd_present_def pmd_flags_def
          pmd_flags_mask_def pmd_pfn_mask_def Let_def)
  qed
  have "page_nid two_nodes mixed_tables i \<noteq> Some 1" if "1024 \<le> i" "i < 1026" for i
  proof -
    have "i div 512 = 2" using that by (intro div_nat_eqI) simp_all
    then show ?thesis
      by (simp add: page_nid_gather mixed_tables_def can_gather_numa_stats_def two_nodes_eval Let_def)
  qed
  moreover have "[512..<1026] = [512..<1024] @ [1024..<1026]" using upt_add_eq_append [of 512 1024 2] by (simp del: upt_rec_numeral)
  ultimately show ?thesis
    using huge by (simp add: pages_on_def filter_id_conv [THEN iffD2] del: upt_Suc upt_conv_Cons upt_rec_numeral)
qed

theorem numa_maps_exact_witness:
  "case show_numa_map two_nodes (numa_walk two_nodes mixed_tables) ''default'' mixed_area of
     None \<Rightarrow> False
   | Some (start, toks) \<Rightarrow> start = pg 512 \<and> Np_node 1 512 \<in> set toks"
proof -
  obtain toks where line: "show_numa_map two_nodes (numa_walk two_nodes mixed_tables) ''default'' mixed_area =
      Some (pg 512, toks)"
    by (simp add: show_numa_map_def mixed_area_def Let_def)
  have "512 + 514 = (1026 :: nat)" by simp
  then show ?thesis
    using numa_maps_exact [OF mixed_law _ _ _ _ _ line, of 512 514] line mixed_inside mixed_on_1
    by (simp add: mixed_area_def)
qed

theorem numa_maps_add_up_witness:
  "case show_numa_map two_nodes (numa_walk two_nodes mixed_tables) ''default'' mixed_area of
     None \<Rightarrow> False
   | Some (start, toks) \<Rightarrow>
       node_total toks = of_nat (length (numa_items two_nodes mixed_tables mixed_area 512 1026)) \<and>
       (\<forall>c. Np_active c \<notin> set toks \<and> Np_swapcache c \<notin> set toks)"
proof -
  obtain toks where line: "show_numa_map two_nodes (numa_walk two_nodes mixed_tables) ''default'' mixed_area =
      Some (pg 512, toks)"
    by (simp add: show_numa_map_def mixed_area_def Let_def)
  have nodes: "distinct (numa_nodes two_nodes)" by (simp add: two_nodes_eval)
  have shape: "numa_shape mixed_tables mixed_area 512 1026" using mixed_inside by (simp add: numa_shape_def mixed_area_def)
  have kinds: "folio_test_active two_nodes f" "\<not> folio_test_swapcache two_nodes f" for f by (simp_all add: two_nodes_eval)
  have numbers: "number two_nodes (\<lambda>f d. True) items = length items" "number two_nodes (\<lambda>f d. False) items = 0" for items
    by (simp_all add: number_def case_prod_beta)
  show ?thesis
    using numa_maps_add_up [OF mixed_law nodes shape _ line] line
    by (simp add: mixed_area_def Let_def kinds numbers)
qed

end
