(* ===== verification/Pagemap_Space.thy ===== *)
theory Pagemap_Space
  imports Page_Walk
begin

text \<open>
  The rest of \<open>pagemap\<close> in \<open>mapping_field_decode/task_mmu.c\<close>: the callbacks for the holes of an address
  space and for \<open>hugetlb\<close> pages, and the walk over an address space of areas mapped by tables, huge
  pages, nothing at all or \<open>hugetlb\<close> pages, with holes in between. The walk satisfies the contract
  \<open>pagemap_walker\<close>, so that the read operation returns the flat array of entries there, too.
\<close>

unbundle bit_operations_syntax

section \<open>Loops that store entries\<close>

text \<open>
  A loop that stores an entry and goes on until its condition fails or the buffer is full; its result
  is the error, the state it stopped in and the buffer.
\<close>

function store_loop ::
  "('s \<Rightarrow> bool) \<Rightarrow> ('s \<Rightarrow> u64) \<Rightarrow> ('s \<Rightarrow> 's) \<Rightarrow> 's \<Rightarrow> pagemapread \<Rightarrow> int \<times> 's \<times> pagemapread" where
  "store_loop cond entry step s pm =
    (if cond s then
       let (err, pm') = add_to_pagemap (entry s) pm in
       if err \<noteq> 0 then (err, s, pm') else store_loop cond entry step (step s) pm'
     else (0, s, pm))"
  by pat_completeness auto
termination
  by (relation "measure (\<lambda>(cond, entry, step, s, pm). pm_len pm - pm_pos pm)")
    (auto dest!: sym [of _ "add_to_pagemap _ _"] add_to_pagemap_more)

declare store_loop.simps [simp del]

lemma store_loop_progress:
  assumes "store_loop cond entry step s pm = (0, s', pm')"
  shows "pm_len pm' = pm_len pm \<and> pm_pos pm \<le> pm_pos pm' \<and> (cond s \<longrightarrow> pm_pos pm < pm_pos pm' \<and> pm_pos pm' < pm_len pm') \<and> \<not> cond s'"
  using assms
proof (induction cond entry step s pm rule: store_loop.induct)
  case (1 cond entry step s pm)
  show ?case
  proof (cases "cond s")
    case True
    obtain err q where add: "add_to_pagemap (entry s) pm = (err, q)" by fastforce
    then have err: "err = 0" and rest: "store_loop cond entry step (step s) q = (0, s', pm')"
      using 1(2) True by (auto simp: store_loop.simps [of cond entry step s pm] split: if_splits)
    then have "pm_len q = pm_len pm \<and> pm_pos pm < pm_pos q \<and> pm_pos q < pm_len q"
      using add_to_pagemap_more add by blast
    moreover have "q = pm'" if "\<not> cond (step s)"
      using rest that by (simp add: store_loop.simps [of cond entry step "step s"])
    ultimately show ?thesis using 1(1) [OF True refl add [symmetric]] rest err by auto
  next
    case False
    then show ?thesis using 1(2) by (simp add: store_loop.simps [of cond entry step s pm])
  qed
qed

text \<open>What a loop of \<open>n\<close> rounds stores when there is room.\<close>

lemma store_loop_store:
  assumes "\<And>i. i < n \<Longrightarrow> cond ((step ^^ i) s)" and "\<not> cond ((step ^^ n) s)"
    and "pm_pos pm + n \<le> pm_len pm" "length (pm_buffer pm) = pm_len pm" "n \<noteq> 0 \<or> pm_pos pm < pm_len pm"
  shows "\<exists>s'. store_loop cond entry step s pm =
      (let pm' = pm_store (map (\<lambda>i. entry ((step ^^ i) s)) [0..<n]) pm in (pm_full pm', s', pm')) \<and>
    (pm_full (pm_store (map (\<lambda>i. entry ((step ^^ i) s)) [0..<n]) pm) = 0 \<longrightarrow> s' = (step ^^ n) s)"
  using assms
proof (induction n arbitrary: s pm)
  case 0
  then show ?case by (simp add: store_loop.simps [of cond entry step s] pm_store_Nil pm_full_def Let_def)
next
  case (Suc n)
  let ?pm = "pm_store [entry s] pm" and ?f = "\<lambda>i. entry ((step ^^ i) s)"
  have "cond s" using Suc.prems(1) [of 0] by simp
  moreover have "add_to_pagemap (entry s) pm = (pm_full ?pm, ?pm)"
    using Suc.prems by (intro add_to_pagemap_store) simp
  ultimately have unfold: "store_loop cond entry step s pm =
      (if pm_full ?pm \<noteq> 0 then (pm_full ?pm, s, ?pm) else store_loop cond entry step (step s) ?pm)"
    by (simp add: store_loop.simps [of cond entry step s])
  have list: "map ?f [0..<Suc n] = entry s # map (\<lambda>i. entry ((step ^^ i) (step s))) [0..<n]"
    by (simp add: map_upt_Suc funpow_swap1 del: upt_Suc)
  show ?case
  proof (cases "n = 0 \<and> pm_pos ?pm \<ge> pm_len ?pm")
    case True
    then show ?thesis using unfold by (auto simp: pm_full_def PM_END_OF_BUFFER_def)
  next
    case False
    have room: "pm_pos ?pm < pm_len ?pm" using False Suc.prems by (auto simp: pm_store_fields)
    have again: "pm_store (map (\<lambda>i. entry ((step ^^ i) (step s))) [0..<n]) ?pm = pm_store (map ?f [0..<Suc n]) pm"
      unfolding list using Suc.prems by (subst pm_store_append) auto
    have "cond ((step ^^ i) (step s))" if "i < n" for i
      using Suc.prems(1) [of "Suc i"] that by (simp add: funpow_swap1)
    moreover have "\<not> cond ((step ^^ n) (step s))" using Suc.prems(2) by (simp add: funpow_swap1)
    ultimately obtain s' where
      "store_loop cond entry step (step s) ?pm =
        (let pm' = pm_store (map (\<lambda>i. entry ((step ^^ i) (step s))) [0..<n]) ?pm in (pm_full pm', s', pm'))"
      "pm_full (pm_store (map (\<lambda>i. entry ((step ^^ i) (step s))) [0..<n]) ?pm) = 0 \<longrightarrow> s' = (step ^^ n) (step s)"
      using Suc.IH [of "step s" ?pm] Suc.prems(3,4) room by (auto simp: pm_store_fields)
    moreover have "pm_full ?pm = 0" using room by (simp add: pm_full_def)
    ultimately show ?thesis using unfold unfolding again by (auto simp: funpow_swap1 simp del: upt_Suc)
  qed
qed

section \<open>Areas, holes and \<open>hugetlb\<close> pages\<close>

text \<open>
  What the kernel tells of a \<open>hugetlb\<close> area: the entry at a pointer, the pointer for an address, the mask
  of its page size, and about folios; \<open>hg_swp_uffd_wp_any\<close> is \<open>pte_swp_uffd_wp_any\<close>.
\<close>

record hugetlb_env =
  hg_ptep_get :: "u64 \<Rightarrow> u64"
  hg_ptep :: "u64 \<Rightarrow> u64"
  hg_mask :: u64
  hg_folio :: "u64 \<Rightarrow> u64"
  hg_folio_anon :: "u64 \<Rightarrow> bool"
  hg_maybe_shared :: "u64 \<Rightarrow> bool"
  hg_pmd_shared :: "u64 \<Rightarrow> bool"
  hg_swp_uffd_wp_any :: "u64 \<Rightarrow> bool"

text \<open>An area; \<open>vma_softdirty\<close> of its environment is its flag \<open>VM_SOFTDIRTY\<close>.\<close>

record pm_area =
  pa_start :: u64
  pa_end :: u64
  pa_env :: pmenv
  pa_hugetlb :: "hugetlb_env option"

definition find_vma :: "pm_area list \<Rightarrow> u64 \<Rightarrow> pm_area option" where
  "find_vma areas addr = find (\<lambda>v. addr < pa_end v) areas"

lemma find_vma_end: "find_vma areas addr = Some v \<Longrightarrow> addr < pa_end v"
  by (simp add: find_vma_def find_Some_iff) blast

text \<open>
  The callback for a range without page tables, which may span several areas. Each round stores an
  entry or ends, so that the loop ends when the buffer is full if not before.
\<close>

function pagemap_pte_hole :: "pm_area list \<Rightarrow> u64 \<Rightarrow> u64 \<Rightarrow> pagemapread \<Rightarrow> int \<times> pagemapread" where
  "pagemap_pte_hole areas addr end pm =
    (if \<not> addr < end then (0, pm) else
     let vma = find_vma areas addr;
         pme = make_pme 0 0;
         hole_end = (case vma of Some v \<Rightarrow> min end (pa_start v) | None \<Rightarrow> end);
         (err, addr', pm') = store_loop (\<lambda>a. a < hole_end) (\<lambda>_. pme) (\<lambda>a. a + 0x1000) addr pm in
     if err \<noteq> 0 then (err, pm') else
     case vma of
       None \<Rightarrow> (err, pm')
     | Some v \<Rightarrow>
       let pme = (if vma_softdirty (pa_env v) then make_pme 0 PM_SOFT_DIRTY else pme);
           (err, addr'', pm'') = store_loop (\<lambda>a. a < min end (pa_end v)) (\<lambda>_. pme) (\<lambda>a. a + 0x1000) addr' pm' in
       if err \<noteq> 0 then (err, pm'') else pagemap_pte_hole areas addr'' end pm'')"
  by pat_completeness auto
termination
proof (relation "measure (\<lambda>(areas, addr, end, pm). pm_len pm - pm_pos pm)", goal_cases)
  case 1
  then show ?case by simp
next
  case (2 areas addr "end" pm vma pme hole_end r err r1 addr' pm' v pme' r' err' r2 addr'' pm'')
  then have v: "addr < pa_end v" using find_vma_end by simp
  have one: "store_loop (\<lambda>a. a < hole_end) (\<lambda>_. pme) (\<lambda>a. a + 0x1000) addr pm = (0, addr', pm')"
    and two: "store_loop (\<lambda>a. a < min end (pa_end v)) (\<lambda>_. pme') (\<lambda>a. a + 0x1000) addr' pm' = (0, addr'', pm'')"
    using 2 by simp_all
  have "addr' = addr" if "\<not> addr < hole_end"
    using one that by (simp add: store_loop.simps [of "\<lambda>a. a < hole_end"])
  then show ?case
    using store_loop_progress [OF one] store_loop_progress [OF two] v 2(1) by (cases "addr < hole_end") auto
qed

declare pagemap_pte_hole.simps [simp del]

definition hugetlb_start :: "hugetlb_env \<Rightarrow> bool \<Rightarrow> bool \<Rightarrow> u64 \<Rightarrow> u64 \<Rightarrow> u64 \<times> u64" where
  "hugetlb_start hg softdirty show_pfn ptep addr =
    (let flags = or_if softdirty PM_SOFT_DIRTY 0;
         pte = hg_ptep_get hg ptep in
     if pte_present pte then
       (let folio = hg_folio hg pte;
            flags = or_if (\<not> hg_folio_anon hg folio) PM_FILE flags;
            flags = or_if (\<not> hg_maybe_shared hg folio \<and> \<not> hg_pmd_shared hg ptep) PM_MMAP_EXCLUSIVE flags;
            flags = or_if (pte_uffd_wp pte) PM_UFFD_WP flags;
            flags = flags OR PM_PRESENT in
        (flags, if show_pfn then pte_pfn pte + drop_bit 12 (addr AND NOT (hg_mask hg)) else 0))
     else (or_if (hg_swp_uffd_wp_any hg pte) PM_UFFD_WP flags, 0))"

definition hugetlb_next :: "bool \<Rightarrow> u64 \<Rightarrow> u64 \<times> u64 \<Rightarrow> u64 \<times> u64" where
  "hugetlb_next show_pfn flags = (\<lambda>(frame, addr).
    (if show_pfn \<and> flags AND PM_PRESENT \<noteq> 0 then frame + 1 else frame, addr + 0x1000))"

definition pagemap_hugetlb_range ::
  "hugetlb_env \<Rightarrow> bool \<Rightarrow> u64 \<Rightarrow> u64 \<Rightarrow> u64 \<Rightarrow> pagemapread \<Rightarrow> int \<times> pagemapread" where
  "pagemap_hugetlb_range hg softdirty ptep addr end pm =
    (let (flags, frame) = hugetlb_start hg softdirty (pm_show_pfn pm) ptep addr;
         (err, s, pm') = store_loop (\<lambda>(frame, addr). addr \<noteq> end) (\<lambda>(frame, addr). make_pme frame flags)
           (hugetlb_next (pm_show_pfn pm) flags) (frame, addr) pm in
     (err, pm'))"

section \<open>Holes in pages\<close>

lemma pg_le: "i < 2 ^ 52 \<Longrightarrow> j < 2 ^ 52 \<Longrightarrow> pg i \<le> pg j \<longleftrightarrow> i \<le> j"
  using pg_less [of j i] by (simp add: not_less [symmetric])

lemma pg_min: "i < 2 ^ 52 \<Longrightarrow> j < 2 ^ 52 \<Longrightarrow> min (pg i) (pg j) = pg (min i j)"
  by (simp add: min_def pg_le)

lemma pg_funpow: "((\<lambda>a. a + 0x1000) ^^ i) (pg s) = pg (s + i)"
  by (induction i) (simp_all add: pg_Suc)

text \<open>The loop of a callback that stores the same entry up to page \<open>e\<close>.\<close>

lemma fill_pages:
  assumes "s \<le> e" "e < 2 ^ 52" and "pm_pos pm + (e - s) \<le> pm_len pm" "length (pm_buffer pm) = pm_len pm"
    and "s < e \<or> pm_pos pm < pm_len pm"
  obtains a where "store_loop (\<lambda>a. a < pg e) (\<lambda>_. x) (\<lambda>a. a + 0x1000) (pg s) pm =
      (pm_full (pm_store (replicate (e - s) x) pm), a, pm_store (replicate (e - s) x) pm)"
    "pm_full (pm_store (replicate (e - s) x) pm) = 0 \<Longrightarrow> a = pg e"
proof -
  have list: "map (\<lambda>i. x) [0..<e - s] = replicate (e - s) x" by (simp add: map_replicate_const)
  have "pg (s + i) < pg e" if "i < e - s" for i using that assms(1,2) by (simp add: pg_less)
  then show thesis
    using store_loop_store [of "e - s" "\<lambda>a. a < pg e" "\<lambda>a. a + 0x1000" "pg s" pm "\<lambda>_. x"] assms that
    unfolding list pg_funpow Let_def by auto
qed

lemma fill_none: "\<not> s < e \<Longrightarrow> store_loop (\<lambda>a. a < e) (\<lambda>_. x) step s pm = (0, s, pm)"
  by (simp add: store_loop.simps [of "\<lambda>a. a < e"])

definition page_aligned :: "pm_area \<Rightarrow> bool" where
  "page_aligned v \<longleftrightarrow> (\<exists>a b. pa_start v = pg a \<and> pa_end v = pg b \<and> a < b \<and> b < 2 ^ 52)"

text \<open>The entry of an address without a page-table entry.\<close>

definition hole_entry :: "pm_area list \<Rightarrow> u64 \<Rightarrow> u64" where
  "hole_entry areas addr = (case find_vma areas addr of
     None \<Rightarrow> make_pme 0 0
   | Some v \<Rightarrow> if addr < pa_start v \<or> \<not> vma_softdirty (pa_env v) then make_pme 0 0 else make_pme 0 PM_SOFT_DIRTY)"

lemma find_vma_mono: "find_vma areas x = Some v \<Longrightarrow> x \<le> y \<Longrightarrow> y < pa_end v \<Longrightarrow> find_vma areas y = Some v"
  unfolding find_vma_def by (induction areas) (auto split: if_splits)

lemma find_vma_none: "find_vma areas x = None \<Longrightarrow> x \<le> y \<Longrightarrow> find_vma areas y = None"
  unfolding find_vma_def by (auto simp: find_None_iff)

lemma find_vma_in: "find_vma areas x = Some v \<Longrightarrow> v \<in> set areas"
  unfolding find_vma_def by (auto simp: find_Some_iff)

lemma pm_full_room:
  "pm_full pm \<noteq> 0 \<longleftrightarrow> pm_len pm \<le> pm_pos pm"
  by (simp add: pm_full_def PM_END_OF_BUFFER_def)

lemma map_replicate_upt:
  "(\<And>i. s \<le> i \<Longrightarrow> i < e \<Longrightarrow> f i = x) \<Longrightarrow> map f [s..<e] = replicate (e - s) x"
  by (rule replicate_eqI) auto

lemma pagemap_pte_hole_pages:
  assumes "\<forall>v \<in> set areas. page_aligned v" and "s + n < 2 ^ 52"
    and "pm_pos pm + n \<le> pm_len pm" "length (pm_buffer pm) = pm_len pm" "n \<noteq> 0 \<or> pm_pos pm < pm_len pm"
  shows "pagemap_pte_hole areas (pg s) (pg (s + n)) pm =
    (let pm' = pm_store (map (\<lambda>i. hole_entry areas (pg i)) [s..<s + n]) pm in (pm_full pm', pm'))"
  using assms(2-)
proof (induction n arbitrary: s pm rule: less_induct)
  case (less n)
  let ?e = "s + n" and ?f = "\<lambda>i. hole_entry areas (pg i)"
  consider (empty) "n = 0" | (unmapped) "0 < n" "find_vma areas (pg s) = None" | (area) v where "0 < n" "find_vma areas (pg s) = Some v"
    by (cases "find_vma areas (pg s)") auto
  then show ?case
  proof cases
    case empty
    then show ?thesis
      using less.prems(4) by (simp add: pagemap_pte_hole.simps [of areas] pm_store_Nil pm_full_def)
  next
    case unmapped
    have "?f i = make_pme 0 0" if "s \<le> i" "i < ?e" for i
      using that unmapped(2) less.prems(1) find_vma_none [of areas "pg s" "pg i"] by (simp add: hole_entry_def pg_le)
    then have list: "map ?f [s..<?e] = replicate n (make_pme 0 0)" using map_replicate_upt [of s ?e ?f] by simp
    obtain a where "store_loop (\<lambda>a. a < pg ?e) (\<lambda>_. make_pme 0 0) (\<lambda>a. a + 0x1000) (pg s) pm =
        (pm_full (pm_store (replicate n (make_pme 0 0)) pm), a, pm_store (replicate n (make_pme 0 0)) pm)"
      using fill_pages [of s ?e pm "make_pme 0 0"] less.prems unmapped(1) by auto
    moreover have "pg s < pg ?e" using less.prems(1) unmapped(1) by (simp add: pg_less)
    ultimately show ?thesis
      unfolding list by (simp add: pagemap_pte_hole.simps [of areas "pg s"] unmapped(2) Let_def)
  next
    case area
    obtain a b where v: "pa_start v = pg a" "pa_end v = pg b" "a < b" "b < 2 ^ 52"
      using assms(1) find_vma_in [OF area(2)] by (auto simp: page_aligned_def)
    have sb: "s < b" using find_vma_end [OF area(2)] v less.prems(1) by (simp add: pg_less)
    define m where "m = max s (min ?e a)"
    define l where "l = min ?e b"
    have ml: "s \<le> m" "m \<le> l" "l \<le> ?e" "s < l" using sb v(3) area(1) by (auto simp: m_def l_def)
    let ?sd = "if vma_softdirty (pa_env v) then make_pme 0 PM_SOFT_DIRTY else make_pme 0 0"
    have find: "find_vma areas (pg i) = Some v" if "s \<le> i" "i < l" for i
      using find_vma_mono [OF area(2)] that v less.prems(1) by (simp add: l_def pg_le pg_less)
    have "?f i = make_pme 0 0" if "s \<le> i" "i < m" for i
      using find [of i] that ml v less.prems(1) by (auto simp: hole_entry_def m_def pg_less)
    moreover have "?f i = ?sd" if "m \<le> i" "i < l" for i
      using find [of i] that ml v less.prems(1) by (auto simp: hole_entry_def m_def l_def pg_less)
    ultimately have lists: "map ?f [s..<m] = replicate (m - s) (make_pme 0 0)" "map ?f [m..<l] = replicate (l - m) ?sd"
      by (auto intro: map_replicate_upt)
    let ?pm1 = "pm_store (replicate (m - s) (make_pme 0 0)) pm"
    let ?pm2 = "pm_store (replicate (l - m) ?sd) ?pm1"
    have room: "pm_pos pm < pm_len pm" using less.prems(2) area(1) by simp
    have "store_loop (\<lambda>x. x < min (pg ?e) (pg a)) (\<lambda>_. make_pme 0 0) (\<lambda>a. a + 0x1000) (pg s) pm =
        store_loop (\<lambda>x. x < pg m) (\<lambda>_. make_pme 0 0) (\<lambda>a. a + 0x1000) (pg s) pm"
    proof (cases "s \<le> min ?e a")
      case True
      then show ?thesis using v less.prems(1) by (simp add: m_def pg_min)
    next
      case False
      then show ?thesis using v less.prems(1) by (simp add: m_def pg_min fill_none pg_less)
    qed
    moreover obtain a1 where "store_loop (\<lambda>x. x < pg m) (\<lambda>_. make_pme 0 0) (\<lambda>a. a + 0x1000) (pg s) pm =
        (pm_full ?pm1, a1, ?pm1)" and a1: "pm_full ?pm1 = 0 \<Longrightarrow> a1 = pg m"
    proof (rule fill_pages [of s m pm "make_pme 0 0"])
      show "pm_pos pm + (m - s) \<le> pm_len pm" using ml less.prems(2) by linarith
    qed (use ml less.prems(1,3) room in auto)
    ultimately have one: "store_loop (\<lambda>x. x < min (pg ?e) (pg a)) (\<lambda>_. make_pme 0 0) (\<lambda>a. a + 0x1000) (pg s) pm =
        (pm_full ?pm1, a1, ?pm1)"
      by simp
    have lt: "pg s < pg ?e" and upto: "min (pg ?e) (pg b) = pg l"
      using less.prems(1) area(1) v(4) by (simp_all add: pg_less pg_min l_def)
    have unfold: "pagemap_pte_hole areas (pg s) (pg ?e) pm =
        (if pm_full ?pm1 \<noteq> 0 then (pm_full ?pm1, ?pm1) else
         case store_loop (\<lambda>x. x < pg l) (\<lambda>_. ?sd) (\<lambda>a. a + 0x1000) a1 ?pm1 of
           (err, a2, pm2) \<Rightarrow> if err \<noteq> 0 then (err, pm2) else pagemap_pte_hole areas a2 (pg ?e) pm2)"
      unfolding pagemap_pte_hole.simps [of areas "pg s" "pg ?e" pm] area(2) Let_def option.case v(1,2) one upto prod.case
      by (simp only: lt not_True_eq_False if_False)
    have upto_l: "map ?f [s..<l] = map ?f [s..<m] @ map ?f [m..<l]" and upto_e: "map ?f [s..<?e] = map ?f [s..<l] @ map ?f [l..<?e]"
      using ml upt_add_eq_append [of s m "l - m"] upt_add_eq_append [of s l "?e - l"] by simp_all
    have pm1: "?pm1 = pm_store (map ?f [s..<m]) pm" by (simp only: lists)
    have pm2: "?pm2 = pm_store (map ?f [s..<l]) pm"
      unfolding upto_l lists using ml less.prems(2,3) by (subst pm_store_append) auto
    have pm3: "pm_store (map ?f [l..<?e]) (pm_store (map ?f [s..<l]) pm) = pm_store (map ?f [s..<?e]) pm"
      unfolding upto_e using ml less.prems(2,3) by (subst pm_store_append) auto
    show ?thesis
    proof (cases "pm_full ?pm1 = 0")
      case False
      then have "m = ?e" using ml less.prems(2) by (simp add: pm_full_room pm_store_fields)
      then show ?thesis using False unfold pm1 by (simp only: Let_def if_True simp_thms not_False_eq_True)
    next
      case True
      then have room1: "pm_pos ?pm1 < pm_len ?pm1" using pm_full_room [of ?pm1] by simp
      obtain a2 where two: "store_loop (\<lambda>x. x < pg l) (\<lambda>_. ?sd) (\<lambda>a. a + 0x1000) (pg m) ?pm1 =
          (pm_full ?pm2, a2, ?pm2)" and a2: "pm_full ?pm2 = 0 \<Longrightarrow> a2 = pg l"
      proof (rule fill_pages [of m l ?pm1 ?sd])
        show "pm_pos ?pm1 + (l - m) \<le> pm_len ?pm1" using ml less.prems(2) by (simp add: pm_store_fields)
      qed (use ml less.prems(1-3) room1 in \<open>auto simp: pm_store_fields\<close>)
      have step: "pagemap_pte_hole areas (pg s) (pg ?e) pm =
          (if pm_full ?pm2 \<noteq> 0 then (pm_full ?pm2, ?pm2) else pagemap_pte_hole areas a2 (pg ?e) ?pm2)"
        unfolding unfold a1 [OF True] two prod.case by (simp only: True simp_thms if_False)
      show ?thesis
      proof (cases "pm_full ?pm2 = 0")
        case False
        then have "l = ?e" using ml less.prems(2,3) by (simp add: pm_full_room pm_store_fields)
        then show ?thesis using False step pm2 by (simp only: Let_def if_True simp_thms not_False_eq_True)
      next
        case more: True
        have "pagemap_pte_hole areas (pg l) (pg (l + (?e - l))) ?pm2 =
          (let pm' = pm_store (map ?f [l..<l + (?e - l)]) ?pm2 in (pm_full pm', pm'))"
        proof (rule less.IH)
          show "pm_pos ?pm2 + (?e - l) \<le> pm_len ?pm2" using ml less.prems(2) by (simp add: pm_store_fields)
          show "?e - l \<noteq> 0 \<or> pm_pos ?pm2 < pm_len ?pm2" using more pm_full_room [of ?pm2] by simp
        qed (use ml less.prems(1-3) in \<open>simp_all add: pm_store_fields\<close>)
        moreover have "l + (?e - l) = ?e" using ml by simp
        ultimately show ?thesis
          unfolding step a2 [OF more] by (simp only: pm2 pm3 more [unfolded pm2] simp_thms if_False)
      qed
    qed
  qed
qed

section \<open>Huge pages in pages\<close>

text \<open>A loop that carries a frame number along with the address.\<close>

lemma frame_funpow:
  fixes g :: "'a \<Rightarrow> 'a"
  shows "((\<lambda>(frame, addr). (g frame, addr + 0x1000)) ^^ i) (frame, pg s) = ((g ^^ i) frame, pg (s + i))"
  by (induction i) (simp_all add: pg_Suc)

lemma frame_loop_pages:
  fixes g :: "'a \<Rightarrow> 'a"
  assumes "0 < n" "s + n < 2 ^ 52" and "pm_pos pm + n \<le> pm_len pm" "length (pm_buffer pm) = pm_len pm"
    and entry: "\<And>i. i < n \<Longrightarrow> h ((g ^^ i) frame) = entry (pg (s + i))"
  shows "\<exists>t. store_loop (\<lambda>(frame, addr). addr \<noteq> pg (s + n)) (\<lambda>(frame, addr). h frame)
      (\<lambda>(frame, addr). (g frame, addr + 0x1000)) (frame, pg s) pm =
    (let pm' = pm_store (map (\<lambda>i. entry (pg i)) [s..<s + n]) pm in (pm_full pm', t, pm'))"
proof -
  let ?step = "\<lambda>(frame, addr). (g frame, addr + 0x1000)" and ?s = "(frame, pg s)"
  have cond: "(\<lambda>(frame, addr). addr \<noteq> pg (s + n)) ((?step ^^ i) ?s)" if "i < n" for i
    using that assms(2) pg_less [of "s + i" "s + n"] by (auto simp: frame_funpow)
  have stop: "\<not> (\<lambda>(frame, addr). addr \<noteq> pg (s + n)) ((?step ^^ n) ?s)"
    by (simp add: frame_funpow)
  have list: "map (\<lambda>i. (\<lambda>(frame, addr). h frame) ((?step ^^ i) ?s)) [0..<n] = map (\<lambda>i. entry (pg i)) [s..<s + n]"
    by (rule nth_equalityI) (simp_all add: frame_funpow entry)
  show ?thesis
    using store_loop_store [where cond = "\<lambda>(frame, addr). addr \<noteq> pg (s + n)" and entry = "\<lambda>(frame, addr). h frame",
        OF cond stop assms(3,4)] assms(1)
    unfolding list by (auto simp: Let_def)
qed

definition thp_next :: "bool \<Rightarrow> u64 \<Rightarrow> u64 \<Rightarrow> u64" where
  "thp_next show_pfn flags frame =
    (if show_pfn then
       (if flags AND PM_PRESENT \<noteq> 0 then frame + 1
        else if flags AND PM_SWAP \<noteq> 0 then frame + push_bit 5 1 else frame)
     else frame)"

definition thp_flags :: "pmenv \<Rightarrow> u64 option \<Rightarrow> u64 \<Rightarrow> u64" where
  "thp_flags env page flags = (case page of
     None \<Rightarrow> flags
   | Some p \<Rightarrow> or_if (flags AND PM_PRESENT \<noteq> 0 \<and> mapped_exclusively env p) PM_MMAP_EXCLUSIVE flags)"

lemma add_to_pagemap_show: "add_to_pagemap x pm = (err, pm') \<Longrightarrow> pm_show_pfn pm' = pm_show_pfn pm"
  by (auto simp: add_to_pagemap_def Let_def split: if_splits)

lemma thp_loop_store:
  "thp_loop env page flags frame addr end pm =
    (case store_loop (\<lambda>(frame, addr). addr \<noteq> end) (\<lambda>(frame, addr). make_pme frame (thp_flags env page flags))
       (\<lambda>(frame, addr). (thp_next (pm_show_pfn pm) flags frame, addr + 0x1000)) (frame, addr) pm of
     (err, s, pm') \<Rightarrow> (err, pm'))"
proof (induction env page flags frame addr "end" pm rule: thp_loop.induct)
  case (1 env page flags frame addr "end" pm)
  show ?case
  proof (cases "addr = end")
    case True
    then show ?thesis by (simp add: thp_loop.simps [of _ _ _ _ "end"] store_loop.simps [of _ _ _ "(frame, end)"])
  next
    case False
    obtain err q where add: "add_to_pagemap (make_pme frame (thp_flags env page flags)) pm = (err, q)" by fastforce
    then have "pm_show_pfn q = pm_show_pfn pm" by (rule add_to_pagemap_show)
    then show ?thesis
      using False add 1 [OF False refl _ refl] 
      by (simp add: thp_loop.simps [of _ _ _ _ addr] store_loop.simps [of _ _ _ "(frame, addr)"] thp_flags_def thp_next_def
          Let_def split: option.splits)
  qed
qed

text \<open>A swap type has five bits.\<close>

definition swp_law :: "pmenv \<Rightarrow> bool" where
  "swp_law env \<longleftrightarrow> (\<forall>entry. swp_type env entry < 32)"

lemma swp_step: "t < 32 \<Longrightarrow> (t OR push_bit 5 x) + push_bit 5 1 = t OR push_bit 5 (x + 1)" for t x :: u64
proof -
  assume "t < 32"
  then have "take_bit 5 t = t" by (simp add: word_unat_eq_iff unsigned_take_bit_eq take_bit_nat_eq_self word_less_nat_alt)
  have sum: "t OR push_bit 5 y = t + push_bit 5 y" for y :: u64
  proof -
    have "t AND push_bit 5 y = 0"
    proof (rule bit_word_eqI)
      fix n
      have "\<not> bit t n" if "5 \<le> n"
        using \<open>take_bit 5 t = t\<close> that by (metis bit_take_bit_iff not_less)
      then show "bit (t AND push_bit 5 y) n = bit (0 :: u64) n"
        by (auto simp: bit_and_iff bit_push_bit_iff)
    qed
    then show ?thesis by (rule disjunctive_add_eq_or [symmetric])
  qed
  show ?thesis unfolding sum by (simp add: push_bit_add)
qed

lemma thp_start_next:
  assumes "swp_law env" and "thp_start env show_pfn pmd idx = (page, flags, frame)"
  shows "thp_start env show_pfn pmd (idx + 1) = (page, flags, thp_next show_pfn flags frame)"
proof -
  have law: "swp_type env e < 32" for e using assms(1) by (simp add: swp_law_def)
  show ?thesis
    using assms(2) swp_step [OF law]
    by (auto simp: thp_start_def thp_next_def and_BIT_ULL bit_or_if bit_BIT_ULL bit_or_iff Let_def add.assoc split: if_splits)
qed

lemma thp_start_funpow:
  assumes "swp_law env" and "thp_start env show_pfn pmd idx = (page, flags, frame)"
  shows "thp_start env show_pfn pmd (idx + of_nat i) = (page, flags, (thp_next show_pfn flags ^^ i) frame)"
proof (induction i)
  case (Suc i)
  then show ?case using thp_start_next [OF assms(1) Suc] by (simp add: ac_simps)
qed (simp add: assms(2))

text \<open>The entry of a page in a huge page.\<close>

definition thp_entry :: "pmenv \<Rightarrow> bool \<Rightarrow> u64 \<Rightarrow> u64 \<Rightarrow> u64" where
  "thp_entry env show_pfn pmd addr =
    (case thp_start env show_pfn pmd (drop_bit 12 (addr AND 0x1FFFFF)) of
       (page, flags, frame) \<Rightarrow> make_pme frame (thp_flags env page flags))"

lemma huge_index:
  assumes "i < 2 ^ 52"
  shows "drop_bit 12 (take_bit (12 + k) (pg i)) = of_nat (i mod 2 ^ k)"
proof -
  have "i mod 2 ^ k \<le> i" by simp
  then have "i mod 2 ^ k < 2 ^ 64" using assms by (rule le_less_trans [THEN less_trans]) simp
  then have "unat (of_nat (i mod 2 ^ k) :: u64) = i mod 2 ^ k" by (rule unat_of_nat_small)
  moreover have "4096 * i mod 2 ^ (12 + k) div 4096 = i mod 2 ^ k"
    using mult_mod_right [of 4096 i "2 ^ k"] by (simp add: power_add)
  ultimately show ?thesis
    by (simp only: word_unat_eq_iff unat_drop_bit unsigned_take_bit_eq take_bit_eq_mod [where 'a = nat] unat_pg [OF assms]) simp
qed

lemma thp_index: "i < 2 ^ 52 \<Longrightarrow> drop_bit 12 (pg i AND 0x1FFFFF) = of_nat (i mod 512)"
  unfolding and_low_mask(3) using huge_index [of i 9] by simp

lemma same_pmd_mod:
  fixes s :: nat
  assumes "s mod 512 + i < 512"
  shows "(s + i) mod 512 = s mod 512 + i" "(s + i) div 512 = s div 512"
proof -
  obtain q r where s: "s = 512 * q + r" "r < 512" by (metis mult_div_mod_eq mod_less_divisor zero_less_numeral)
  then have "s + i = 512 * q + (r + i)" "r + i < 512" using assms by simp_all
  then show "(s + i) mod 512 = s mod 512 + i" "(s + i) div 512 = s div 512"
    using s(2) unfolding s(1) by (simp_all only: div_mult_self4 mod_mult_self4 div_less mod_less)
qed

text \<open>A call of a callback that stores the entries of its \<open>n\<close> pages from \<open>s\<close> on.\<close>

definition stores :: "(u64 \<Rightarrow> u64) \<Rightarrow> nat \<Rightarrow> nat \<Rightarrow> pagemapread \<Rightarrow> int \<times> pagemapread \<Rightarrow> bool" where
  "stores entry s n pm res \<longleftrightarrow>
    res = (let pm' = pm_store (map (\<lambda>i. entry (pg i)) [s..<s + n]) pm in (pm_full pm', pm'))"

definition has_room :: "nat \<Rightarrow> pagemapread \<Rightarrow> bool" where
  "has_room n pm \<longleftrightarrow> pm_pos pm + n \<le> pm_len pm \<and> length (pm_buffer pm) = pm_len pm"

lemma thp_pages:
  assumes "swp_law env" "0 < n" "s mod 512 + n \<le> 512" "s + n < 2 ^ 52" "has_room n pm"
  shows "stores (thp_entry env (pm_show_pfn pm) pmd) s n pm (pagemap_pmd_range_thp env pmd (pg s) (pg (s + n)) pm)"
proof -
  obtain page flags frame where start: "thp_start env (pm_show_pfn pm) pmd (of_nat (s mod 512)) = (page, flags, frame)"
    by (metis prod_cases3)
  let ?g = "thp_next (pm_show_pfn pm) flags"
  have "make_pme ((?g ^^ i) frame) (thp_flags env page flags) = thp_entry env (pm_show_pfn pm) pmd (pg (s + i))"
    if "i < n" for i
  proof -
    have "drop_bit 12 (pg (s + i) AND 0x1FFFFF) = of_nat (s mod 512) + of_nat i"
      using that assms(3,4) same_pmd_mod(1) [of s i] thp_index [of "s + i"] by simp
    then show ?thesis unfolding thp_entry_def using thp_start_funpow [OF assms(1) start, of i] by simp
  qed
  then obtain t where "store_loop (\<lambda>(frame, addr). addr \<noteq> pg (s + n)) (\<lambda>(frame, addr). make_pme frame (thp_flags env page flags))
      (\<lambda>(frame, addr). (?g frame, addr + 0x1000)) (frame, pg s) pm =
    (let pm' = pm_store (map (\<lambda>i. thp_entry env (pm_show_pfn pm) pmd (pg i)) [s..<s + n]) pm in (pm_full pm', t, pm'))"
    using frame_loop_pages [of n s pm "\<lambda>frame. make_pme frame (thp_flags env page flags)" ?g frame
        "thp_entry env (pm_show_pfn pm) pmd"] assms(2-5) by (auto simp: has_room_def)
  moreover have "drop_bit 12 (pg s AND 0x1FFFFF) = of_nat (s mod 512)" using assms(4) by (intro thp_index) simp
  ultimately show ?thesis
    unfolding stores_def pagemap_pmd_range_thp_def by (simp only: Let_def start prod.case thp_loop_store)
qed

text \<open>The entry of a page in a \<open>hugetlb\<close> page, whose size is a power of two of at least 2 MB.\<close>

definition hugetlb_entry :: "hugetlb_env \<Rightarrow> bool \<Rightarrow> bool \<Rightarrow> u64 \<Rightarrow> u64" where
  "hugetlb_entry hg softdirty show_pfn addr =
    (case hugetlb_start hg softdirty show_pfn (hg_ptep hg (addr AND hg_mask hg)) addr of (flags, frame) \<Rightarrow> make_pme frame flags)"

definition hugetlb_law :: "hugetlb_env \<Rightarrow> bool" where
  "hugetlb_law hg \<longleftrightarrow> (\<exists>k. k \<le> 43 \<and> hg_mask hg = NOT (mask (21 + k)))"

lemma hugetlb_mask:
  assumes "hugetlb_law hg" "s mod 512 + i < 512" "s + i < 2 ^ 52"
  shows "pg (s + i) AND hg_mask hg = pg s AND hg_mask hg"
    and "drop_bit 12 (pg (s + i) AND NOT (hg_mask hg)) = drop_bit 12 (pg s AND NOT (hg_mask hg)) + of_nat i"
proof -
  obtain k where k: "k \<le> 43" "hg_mask hg = NOT (mask (21 + k))" using assms(1) by (auto simp: hugetlb_law_def)
  have page: "4096 * j div 2 ^ (21 + k) = j div 512 div 2 ^ k" for j :: nat
    using div_mult_mult1 [of 4096 j "512 * 2 ^ k"] by (simp add: power_add div_mult2_eq)
  have same: "(s + i) div 512 div 2 ^ k = s div 512 div 2 ^ k" using same_pmd_mod(2) [OF assms(2)] by simp
  show "pg (s + i) AND hg_mask hg = pg s AND hg_mask hg"
    unfolding k(2) word_unat_eq_iff unat_and_not_mask using assms(3) by (simp only: unat_pg page same)
  have index: "drop_bit 12 (pg j AND NOT (hg_mask hg)) = of_nat (j mod (512 * 2 ^ k))" if "j < 2 ^ 52" for j
    using huge_index [OF that, of "9 + k"] unfolding k(2) by (simp add: take_bit_eq_mask power_add)
  have "(s + i) mod (512 * 2 ^ k) = s mod (512 * 2 ^ k) + i"
    using same same_pmd_mod [OF assms(2)] by (simp add: mod_mult2_eq)
  then show "drop_bit 12 (pg (s + i) AND NOT (hg_mask hg)) = drop_bit 12 (pg s AND NOT (hg_mask hg)) + of_nat i"
    using index [OF assms(3)] index [of s] assms(3) by (metis add_lessD1 of_nat_add)
qed

lemma hugetlb_present:
  "hugetlb_start hg sd show_pfn ptep addr = (flags, frame) \<Longrightarrow> flags AND PM_PRESENT \<noteq> 0 \<longleftrightarrow> pte_present (hg_ptep_get hg ptep)"
  by (auto simp: hugetlb_start_def and_BIT_ULL bit_or_if bit_BIT_ULL bit_or_iff Let_def split: if_splits)

lemma count_funpow: "((\<lambda>x. if c then x + 1 else x) ^^ i) x = (if c then x + of_nat i else x)" for x :: u64
proof (induction i)
  case (Suc i)
  then show ?case by (cases c) (simp_all add: ac_simps)
qed simp

lemma hugetlb_pages:
  assumes "hugetlb_law hg" "0 < n" "s mod 512 + n \<le> 512" "s + n < 2 ^ 52" "has_room n pm"
  shows "stores (hugetlb_entry hg sd (pm_show_pfn pm)) s n pm
    (pagemap_hugetlb_range hg sd (hg_ptep hg (pg s AND hg_mask hg)) (pg s) (pg (s + n)) pm)"
proof -
  let ?ptep = "hg_ptep hg (pg s AND hg_mask hg)" and ?show = "pm_show_pfn pm"
  obtain flags frame where start: "hugetlb_start hg sd ?show ?ptep (pg s) = (flags, frame)" by fastforce
  let ?g = "\<lambda>frame :: u64. if ?show \<and> flags AND PM_PRESENT \<noteq> 0 then frame + 1 else frame"
  note run = count_funpow [where c = "?show \<and> flags AND PM_PRESENT \<noteq> 0"]
  have "make_pme ((?g ^^ i) frame) flags = hugetlb_entry hg sd ?show (pg (s + i))" if "i < n" for i
  proof -
    have "hugetlb_start hg sd ?show ?ptep (pg (s + i)) = (flags, (?g ^^ i) frame)"
      using start hugetlb_mask(2) [OF assms(1), of s i] that assms(3,4) hugetlb_present [OF start]
      unfolding run by (auto simp: hugetlb_start_def Let_def add.assoc split: if_splits)
    then show ?thesis
      using hugetlb_mask(1) [OF assms(1), of s i] that assms(3,4) by (simp add: hugetlb_entry_def)
  qed
  then obtain t where "store_loop (\<lambda>(frame, addr). addr \<noteq> pg (s + n)) (\<lambda>(frame, addr). make_pme frame flags)
      (\<lambda>(frame, addr). (?g frame, addr + 0x1000)) (frame, pg s) pm =
    (let pm' = pm_store (map (\<lambda>i. hugetlb_entry hg sd ?show (pg i)) [s..<s + n]) pm in (pm_full pm', t, pm'))"
    using frame_loop_pages [of n s pm "\<lambda>frame. make_pme frame flags" ?g frame "hugetlb_entry hg sd ?show"]
      assms(2-5) by (auto simp: has_room_def)
  then show ?thesis
    unfolding stores_def pagemap_hugetlb_range_def hugetlb_next_def by (simp only: Let_def start prod.case)
qed

section \<open>The walk over an address space\<close>

text \<open>
  An address space: its areas, its page-table entries, and the huge page or the table of a PMD by its
  number. The generic walk goes from area to area; in a hole, and in an area where a PMD has neither, it
  calls the operation for holes.
\<close>

record space =
  as_areas :: "pm_area list"
  as_ptep_get :: "u64 \<Rightarrow> u64"
  as_huge :: "u64 \<Rightarrow> u64 option"
  as_table :: "u64 \<Rightarrow> u64 option"

definition area_walk :: "space \<Rightarrow> pm_area \<Rightarrow> u64 \<Rightarrow> u64 \<Rightarrow> pagemapread \<Rightarrow> int \<times> pagemapread" where
  "area_walk sp v start end pm =
    (case pa_hugetlb v of
       Some hg \<Rightarrow>
         pagemap_hugetlb_range hg (vma_softdirty (pa_env v)) (hg_ptep hg (start AND hg_mask hg)) start end pm
     | None \<Rightarrow>
       (case as_huge sp (drop_bit 21 start) of
          Some pmd \<Rightarrow> pagemap_pmd_range (pa_env v) (as_ptep_get sp) (Trans_huge pmd) start end pm
        | None \<Rightarrow>
          (case as_table sp (drop_bit 21 start) of
             Some t \<Rightarrow> pagemap_pmd_range (pa_env v) (as_ptep_get sp) (Pte_table (pte_pointer (\<lambda>_. t) start)) start end pm
           | None \<Rightarrow> pagemap_pte_hole (as_areas sp) start end pm)))"

function space_walk :: "space \<Rightarrow> u64 \<Rightarrow> u64 \<Rightarrow> pagemapread \<Rightarrow> int \<times> pagemapread" where
  "space_walk sp start end pm =
    (if \<not> start < end then (0, pm) else
     case find_vma (as_areas sp) start of
       None \<Rightarrow> pagemap_pte_hole (as_areas sp) start end pm
     | Some v \<Rightarrow>
       let (nxt, err, pm') =
         (if start < pa_start v
          then (min end (pa_start v), pagemap_pte_hole (as_areas sp) start (min end (pa_start v)) pm)
          else (min end (pa_end v), area_walk sp v start (min end (pa_end v)) pm)) in
       if err \<noteq> 0 then (err, pm') else space_walk sp nxt end pm')"
  by pat_completeness auto
termination
proof (relation "measure (\<lambda>(sp, start, end, pm). unat end - unat start)", goal_cases)
  case 1
  then show ?case by simp
next
  case (2 sp start "end" pm v r nxt r' err pm')
  then have "nxt = min end (pa_start v) \<and> start < pa_start v \<or> nxt = min end (pa_end v)"
    by (auto split: if_splits)
  moreover have "start < pa_end v" using 2(2) by (rule find_vma_end)
  ultimately have "start < nxt" "nxt \<le> end" using 2(1) by (auto simp: min_def split: if_splits)
  then show ?case by (auto simp: word_less_nat_alt word_le_nat_alt)
qed

declare space_walk.simps [simp del]

definition space_entry :: "space \<Rightarrow> bool \<Rightarrow> u64 \<Rightarrow> u64" where
  "space_entry sp shown addr =
    (case find_vma (as_areas sp) addr of
       None \<Rightarrow> make_pme 0 0
     | Some v \<Rightarrow>
       if addr < pa_start v then make_pme 0 0 else
       case pa_hugetlb v of
         Some hg \<Rightarrow> hugetlb_entry hg (vma_softdirty (pa_env v)) shown addr
       | None \<Rightarrow>
         (case as_huge sp (drop_bit 21 addr) of
            Some pmd \<Rightarrow> thp_entry (pa_env v) shown pmd addr
          | None \<Rightarrow>
            (case as_table sp (drop_bit 21 addr) of
               Some t \<Rightarrow> pte_to_pagemap_entry (pa_env v) shown addr (as_ptep_get sp (pte_pointer (\<lambda>_. t) addr))
             | None \<Rightarrow> if vma_softdirty (pa_env v) then make_pme 0 PM_SOFT_DIRTY else make_pme 0 0)))"

definition space_law :: "space \<Rightarrow> bool" where
  "space_law sp \<longleftrightarrow> (\<forall>v \<in> set (as_areas sp). page_aligned v \<and> swp_law (pa_env v) \<and>
     (\<forall>hg. pa_hugetlb v = Some hg \<longrightarrow> hugetlb_law hg))"

lemma stores_cong:
  "(\<And>i. s \<le> i \<Longrightarrow> i < s + n \<Longrightarrow> entry (pg i) = entry' (pg i)) \<Longrightarrow> stores entry s n pm res = stores entry' s n pm res"
proof -
  assume "\<And>i. s \<le> i \<Longrightarrow> i < s + n \<Longrightarrow> entry (pg i) = entry' (pg i)"
  then have "map (\<lambda>i. entry (pg i)) [s..<s + n] = map (\<lambda>i. entry' (pg i)) [s..<s + n]" by simp
  then show ?thesis by (simp only: stores_def)
qed

lemma table_pages:
  assumes "0 < n" "s mod 512 + n \<le> 512" "s + n < 2 ^ 52" "has_room n pm"
  shows "stores (\<lambda>addr. pte_to_pagemap_entry env (pm_show_pfn pm) addr (ptep_get (pte_pointer table addr))) s n pm
    (pte_loop env ptep_get (pte_pointer table (pg s)) (pg s) (pg (s + n)) pm)"
proof -
  have "map (\<lambda>i. pte_to_pagemap_entry env (pm_show_pfn pm) (pg i) (ptep_get (pte_pointer table (pg i)))) [s..<s + n] =
      map (\<lambda>i. pte_to_pagemap_entry env (pm_show_pfn pm) (pg (s + i)) (ptep_get (pte_pointer table (pg s) + of_nat (8 * i)))) [0..<n]"
    by (rule nth_equalityI) (use assms(2,3) in \<open>simp_all add: pte_pointer_step\<close>)
  then show ?thesis
    using pte_loop_store [of pm n s env ptep_get "pte_pointer table (pg s)"] assms
    by (simp add: stores_def has_room_def)
qed

lemma hole_pages:
  "\<forall>v \<in> set areas. page_aligned v \<Longrightarrow> 0 < n \<Longrightarrow> s + n < 2 ^ 52 \<Longrightarrow> has_room n pm \<Longrightarrow>
   stores (hole_entry areas) s n pm (pagemap_pte_hole areas (pg s) (pg (s + n)) pm)"
  using pagemap_pte_hole_pages [of areas s n pm] by (simp add: stores_def has_room_def)

lemma area_pages:
  assumes "space_law sp" "v \<in> set (as_areas sp)" "0 < n" "s mod 512 + n \<le> 512" "s + n < 2 ^ 52" "has_room n pm"
    and within: "\<And>i. s \<le> i \<Longrightarrow> i < s + n \<Longrightarrow> find_vma (as_areas sp) (pg i) = Some v \<and> \<not> pg i < pa_start v"
  shows "stores (space_entry sp (pm_show_pfn pm)) s n pm (area_walk sp v (pg s) (pg (s + n)) pm)"
proof -
  have laws: "page_aligned u" "swp_law (pa_env u)" "pa_hugetlb u = Some hg \<Longrightarrow> hugetlb_law hg" if "u \<in> set (as_areas sp)" for u hg
    using assms(1) that by (auto simp: space_law_def)
  have pmd: "drop_bit 21 (pg i) = of_nat (s div 512)" if "s \<le> i" "i < s + n" for i
    using that assms(4,5) same_pmd_mod(2) [of s "i - s"] by (simp add: drop_bit_pg(2))
  let ?n = "of_nat (s div 512)" and ?sd = "vma_softdirty (pa_env v)" and ?show = "pm_show_pfn pm"
  consider (hugetlb) hg where "pa_hugetlb v = Some hg" | (huge) h where "pa_hugetlb v = None" "as_huge sp ?n = Some h"
    | (table) t where "pa_hugetlb v = None" "as_huge sp ?n = None" "as_table sp ?n = Some t"
    | (unmapped) "pa_hugetlb v = None" "as_huge sp ?n = None" "as_table sp ?n = None"
    by (cases "pa_hugetlb v"; cases "as_huge sp ?n"; cases "as_table sp ?n") auto
  then show ?thesis
  proof cases
    case hugetlb
    have "space_entry sp ?show (pg i) = hugetlb_entry hg ?sd ?show (pg i)" if "s \<le> i" "i < s + n" for i
      using within [OF that] hugetlb by (simp add: space_entry_def)
    from stores_cong [of s n "space_entry sp ?show" "hugetlb_entry hg ?sd ?show", OF this] show ?thesis
      using hugetlb_pages [OF laws(3) assms(3-6)] assms(2) hugetlb by (simp add: area_walk_def)
  next
    case huge
    have "space_entry sp ?show (pg i) = thp_entry (pa_env v) ?show h (pg i)" if "s \<le> i" "i < s + n" for i
      using within [OF that] huge pmd [OF that] by (simp add: space_entry_def)
    from stores_cong [of s n "space_entry sp ?show" "thp_entry (pa_env v) ?show h", OF this] show ?thesis
      using thp_pages [OF laws(2) assms(3-6)] assms(2,3) huge pmd [of s]
      by (simp add: area_walk_def pagemap_pmd_range_def)
  next
    case table
    have "space_entry sp ?show (pg i) = pte_to_pagemap_entry (pa_env v) ?show (pg i)
        (as_ptep_get sp (pte_pointer (\<lambda>_. t) (pg i)))" if "s \<le> i" "i < s + n" for i
      using within [OF that] table pmd [OF that] by (simp add: space_entry_def)
    from stores_cong [of s n "space_entry sp ?show" "\<lambda>addr. pte_to_pagemap_entry (pa_env v) ?show addr
        (as_ptep_get sp (pte_pointer (\<lambda>_. t) addr))", OF this] show ?thesis
      using table_pages [OF assms(3-6), of "pa_env v" "as_ptep_get sp" "\<lambda>_. t"] assms(3) table pmd [of s]
      by (simp add: area_walk_def pagemap_pmd_range_def)
  next
    case unmapped
    have "space_entry sp ?show (pg i) = hole_entry (as_areas sp) (pg i)" if "s \<le> i" "i < s + n" for i
      using within [OF that] unmapped pmd [OF that] by (simp add: space_entry_def hole_entry_def)
    from stores_cong [of s n "space_entry sp ?show" "hole_entry (as_areas sp)", OF this] show ?thesis
      using hole_pages [of "as_areas sp" n s pm] laws(1) assms(3,5,6) unmapped pmd [of s]
      by (simp add: area_walk_def)
  qed
qed

lemma stores_more:
  assumes "stores entry s m pm (pm_full pm1, pm1)" "has_room (m + k) pm" "pm_full pm1 = 0"
    and "stores entry (s + m) k pm1 res"
  shows "stores entry s (m + k) pm res"
proof -
  have pm1: "pm1 = pm_store (map (\<lambda>i. entry (pg i)) [s..<s + m]) pm" using assms(1) by (simp add: stores_def Let_def)
  have "[s..<s + (m + k)] = [s..<s + m] @ [s + m..<s + m + k]" using upt_add_eq_append [of s "s + m" k] by (simp add: add.assoc)
  then have "pm_store (map (\<lambda>i. entry (pg i)) [s + m..<s + m + k]) pm1 = pm_store (map (\<lambda>i. entry (pg i)) [s..<s + (m + k)]) pm"
    unfolding pm1 using assms(2) by (subst pm_store_append) (auto simp: has_room_def)
  then show ?thesis using assms(4) by (simp only: stores_def)
qed

lemma stores_fields:
  assumes "stores entry s m pm (err, pm1)" "has_room (m + k) pm"
  shows "err = pm_full pm1" "has_room k pm1" "pm_show_pfn pm1 = pm_show_pfn pm" "err \<noteq> 0 \<longleftrightarrow> pm_len pm \<le> pm_pos pm + m"
  using assms by (simp_all add: stores_def has_room_def Let_def pm_store_fields pm_full_room)

lemma space_walk_pages:
  assumes "space_law sp" "s mod 512 + n \<le> 512" "s + n < 2 ^ 52" "has_room n pm" "0 < n"
  shows "stores (space_entry sp (pm_show_pfn pm)) s n pm (space_walk sp (pg s) (pg (s + n)) pm)"
  using assms(2-)
proof (induction n arbitrary: s pm rule: less_induct)
  case (less n)
  let ?e = "s + n" and ?entry = "space_entry sp (pm_show_pfn pm)"
  have aligned: "\<forall>v \<in> set (as_areas sp). page_aligned v" using assms(1) by (simp add: space_law_def)
  have lt: "pg s < pg ?e" using less.prems by (simp add: pg_less)
  show ?case
  proof (cases "find_vma (as_areas sp) (pg s)")
    case None
    have "?entry (pg i) = hole_entry (as_areas sp) (pg i)" if "s \<le> i" "i < s + n" for i
      using that find_vma_none [OF None, of "pg i"] less.prems(2) by (simp add: space_entry_def hole_entry_def pg_le)
    from stores_cong [of s n ?entry "hole_entry (as_areas sp)", OF this] show ?thesis
      using hole_pages [OF aligned less.prems(4,2,3)] lt by (simp add: space_walk.simps [of sp "pg s"] None)
  next
    case (Some v)
    obtain a b where v: "pa_start v = pg a" "pa_end v = pg b" "a < b" "b < 2 ^ 52"
      using aligned find_vma_in [OF Some] by (auto simp: page_aligned_def)
    have sb: "s < b" using find_vma_end [OF Some] v less.prems(2) by (simp add: pg_less)
    define m where "m = (if s < a then min ?e a else min ?e b) - s"
    have m: "0 < m" "m \<le> n" "s + m = (if s < a then min ?e a else min ?e b)"
      using sb less.prems(4) by (auto simp: m_def)
    have room: "has_room m pm" using less.prems(3) m(2) by (simp add: has_room_def)
    have find: "find_vma (as_areas sp) (pg i) = Some v" if "s \<le> i" "i < s + m" for i
      using find_vma_mono [OF Some, of "pg i"] that m(3) v less.prems(2) by (simp add: pg_le pg_less split: if_splits)
    obtain err pm1 where call: "(if pg s < pa_start v
        then pagemap_pte_hole (as_areas sp) (pg s) (pg (s + m)) pm else area_walk sp v (pg s) (pg (s + m)) pm) = (err, pm1)"
      by fastforce
    have "stores ?entry s m pm (err, pm1)"
    proof (cases "s < a")
      case True
      have "?entry (pg i) = hole_entry (as_areas sp) (pg i)" if "s \<le> i" "i < s + m" for i
        using that find [OF that] True m(3) v less.prems(2) by (simp add: space_entry_def hole_entry_def pg_less)
      from stores_cong [of s m ?entry "hole_entry (as_areas sp)", OF this] show ?thesis
        using hole_pages [OF aligned m(1) _ room, of s] call True m(2) v less.prems(2) by (simp add: pg_less)
    next
      case False
      have "find_vma (as_areas sp) (pg i) = Some v \<and> \<not> pg i < pa_start v" if "s \<le> i" "i < s + m" for i
        using that find [OF that] False m(2) v less.prems(2) by (simp add: pg_less)
      then show ?thesis
        using area_pages [OF assms(1) find_vma_in [OF Some] m(1), of s pm] room call False m(2) v less.prems(1,2)
        by (simp add: pg_less)
    qed
    note one = this and fields = stores_fields [OF this, of "n - m"]
    have "space_walk sp (pg s) (pg ?e) pm = (if err \<noteq> 0 then (err, pm1) else space_walk sp (pg (s + m)) (pg ?e) pm1)"
      using lt call v m(3) less.prems(2)
      by (simp add: space_walk.simps [of sp "pg s" _ pm] Some pg_min pg_less split: if_splits)
    moreover have "stores ?entry s n pm (err, pm1)" if "err \<noteq> 0"
    proof -
      have "m = n" using fields(4) that less.prems(3) m(2) by (simp add: has_room_def)
      then show ?thesis using one by simp
    qed
    moreover have "stores ?entry s n pm (space_walk sp (pg (s + m)) (pg ?e) pm1)" if "err = 0"
    proof (cases "m = n")
      case True
      then show ?thesis using one fields(4) that less.prems(3) by (simp add: space_walk.simps [of sp "pg ?e"])
    next
      case False
      have "(s + m) mod 512 = s mod 512 + m" using same_pmd_mod(1) [of s m] less.prems(1) m(2) False by simp
      then have "stores ?entry (s + m) (n - m) pm1 (space_walk sp (pg (s + m)) (pg (s + m + (n - m))) pm1)"
        using less.IH [of "n - m" "s + m" pm1] fields(2,3) less.prems m(1,2) False by simp
      moreover have "s + m + (n - m) = ?e" "m + (n - m) = n" using m(2) by simp_all
      ultimately show ?thesis using stores_more [of ?entry s m pm pm1 "n - m"] one fields(1) that less.prems(3) by simp
    qed
    ultimately show ?thesis by simp
  qed
qed

text \<open>The walk satisfies the contract, for every address space that keeps the laws.\<close>

lemma space_walker:
  assumes "space_law sp"
  shows "pagemap_walker (space_walk sp) (space_entry sp shown) shown"
proof unfold_locales
  fix pm :: pagemapread and n s :: nat
  assume "pm_pos pm = 0" "length (pm_buffer pm) = pm_len pm" "pm_show_pfn pm = shown"
    "0 < n" "n \<le> pm_len pm" "s mod 512 + n \<le> 512" "s + n < 2 ^ 51"
  then show "space_walk sp (pg s) (pg (s + n)) pm =
      (let pm' = pm_store (map (\<lambda>i. space_entry sp shown (pg i)) [s..<s + n]) pm in (pm_full pm', pm'))"
    using space_walk_pages [OF assms, of s n pm] by (simp add: stores_def has_room_def)
qed

text \<open>
  C2. The file is the flat array of the entries of the address space, holes, huge pages and \<open>hugetlb\<close>
  areas included: reading \<open>c\<close> entries at entry \<open>p\<close> of a task of \<open>T\<close> pages copies exactly the entries of
  the pages \<open>p\<close>, \<open>p + 1\<close>, \<dots> up to the request or the end, in which a page outside every area is 0, one
  without a table shows the area's soft-dirty bit only, and a page inside a huge page shows the frame
  at its place in it, wherever the chunks of the read and the areas begin and end.
\<close>

theorem pagemap_read_space:
  assumes "space_law sp" and "re_mm re = Some mm" "re_mmget re" "re_buffer re \<noteq> 0"
    and "\<forall>k. re_lock re k = 0" "\<forall>k. \<not> re_copy_fails re k"
    and "re_task_size re = pg T" "T < 2 ^ 50" and "re_untag re (pg p) = pg p" "p < 2 ^ 50"
    and "0 < c" "c < 2 ^ 28"
  shows "case pagemap_read re (space_walk sp) (of_nat (8 * c)) (of_nat (8 * p)) of
      (ret, ppos, out, tr) \<Rightarrow>
        ret = int (8 * min c (T - p)) \<and> ppos = of_nat (8 * (p + min c (T - p))) \<and>
        out = map (\<lambda>i. space_entry sp (re_capable re) (pg i)) [p..<p + min c (T - p)]"
  using pagemap_walker.read_flat [OF space_walker [OF assms(1)], of re mm "re_capable re" T p c "min c (T - p)"] assms(2-)
  by auto

section \<open>An example\<close>

text \<open>
  A soft-dirty area of the pages 2 to 3 without tables and an area of the pages 512 to 1023 mapped by a
  huge page at frame \<open>0x80000\<close>; everything else is a hole. The read takes the last page of the hole
  before the huge page and the first two pages in it.
\<close>

definition small_space :: space where
  "small_space = \<lparr>as_areas = [\<lparr>pa_start = pg 2, pa_end = pg 4, pa_env = plain_env\<lparr>vma_softdirty := True\<rparr>, pa_hugetlb = None\<rparr>,
       \<lparr>pa_start = pg 512, pa_end = pg 1024, pa_env = plain_env, pa_hugetlb = None\<rparr>],
     as_ptep_get = \<lambda>_. 0, as_huge = \<lambda>h. if h = 1 then Some 0x800000E7 else None, as_table = \<lambda>_. None\<rparr>"

definition small_read :: read_env where
  "small_read = \<lparr>re_mm = Some 0x200, re_mmget = True, re_task_size = pg 2048, re_capable = True, re_buffer = 0x300,
     re_contents = \<lambda>_. 0, re_lock = \<lambda>_. 0, re_untag = id, re_copy_fails = \<lambda>_. False\<rparr>"

lemma small_space_law: "space_law small_space"
proof -
  have "page_aligned v" if "pa_start v = pg a" "pa_end v = pg b" "a < b" "b < 2 ^ 52" for v a b
    using that by (auto simp: page_aligned_def)
  then have "\<forall>v \<in> set (as_areas small_space). page_aligned v" by (simp add: small_space_def)
  moreover have "swp_law plain_env" "swp_law (plain_env\<lparr>vma_softdirty := True\<rparr>)"
    using take_bit_nat_less_exp [of 5] by (simp_all add: swp_law_def plain_env_def word_less_nat_alt unsigned_take_bit_eq)
  ultimately show ?thesis by (simp add: space_law_def) (simp add: small_space_def)
qed

lemma small_space_entries:
  "space_entry small_space True (pg 3) = PM_SOFT_DIRTY" "space_entry small_space True (pg 511) = 0"
  "space_entry small_space True (pg 512) = 0x80000 OR PM_PRESENT"
proof -
  have pmd: "drop_bit 21 (pg 3) = 0" "drop_bit 21 (pg 512) = 1" "drop_bit 12 (pg 512) AND 0x1FF = 0"
    using drop_bit_pg(2) [of 3] drop_bit_pg(2,3) [of 512] by simp_all
  have "pmd_present 0x800000E7" "\<not> pmd_none 0x800000E7" "\<not> pmd_soft_dirty 0x800000E7" "\<not> pmd_uffd_wp 0x800000E7"
    "pmd_pfn 0x800000E7 = 0x80000"
    by (simp_all add: pmd_none_def pmd_present_def pmd_soft_dirty_def pmd_uffd_wp_def pmd_pfn_def pmd_flags_def pmd_flags_mask_def
        pmd_pfn_mask_def protnone_mask_def pte_needs_invert_def)
  then have start: "thp_start plain_env True 0x800000E7 0 = (Some 0x800000E7, PM_PRESENT, 0x80000)"
    by (simp add: thp_start_def plain_env_def or_if_def)
  have "thp_entry plain_env True 0x800000E7 (pg 512) = 0x80000 OR PM_PRESENT"
    by (simp add: thp_entry_def pmd start) (simp add: thp_flags_def or_if_def plain_env_def make_pme_def)
  then show "space_entry small_space True (pg 3) = PM_SOFT_DIRTY" "space_entry small_space True (pg 511) = 0"
    "space_entry small_space True (pg 512) = 0x80000 OR PM_PRESENT"
    by (simp_all add: space_entry_def small_space_def find_vma_def pg_less pmd make_pme_def)
qed

theorem pagemap_read_space_witness:
  "case pagemap_read small_read (space_walk small_space) 16 4088 of
     (ret, ppos, out, tr) \<Rightarrow> ret = 16 \<and> ppos = 4104 \<and> out = [0, 0x80000 OR PM_PRESENT]"
  using pagemap_read_space [OF small_space_law, of small_read "0x200" 2048 511 2]
  by (simp add: small_read_def small_space_entries upt_rec)

end
