(* ===== verification/Map_Files.thy ===== *)
theory Map_Files
  imports Maps_Query Pagemap
begin

text \<open>
  Opening and releasing the files of \<open>mapping_field_decode/task_mmu.c\<close> (\<open>maps\<close>, \<open>smaps\<close>, \<open>numa_maps\<close>,
  \<open>smaps_rollup\<close>, \<open>pagemap\<close>), and the life of an open \<open>maps\<close> file: the composition of opening it, any
  passes and queries, and releasing it. The file pins the structure of the address space, not its
  memory, from open to release.
\<close>

section \<open>Opening and releasing\<close>

text \<open>The answer of a function that returns a pointer: an error, none, or an address.\<close>

datatype kptr = Err_ptr int | Null | Ptr u64

fun ptr_mm :: "kptr \<Rightarrow> u64 option" where
  "ptr_mm (Ptr mm) = Some mm"
| "ptr_mm _ = None"

text \<open>
  What opening depends on: the address of the private data (\<open>None\<close> when there is no memory), the answer
  of \<open>single_open\<close> and of \<open>proc_mem_open\<close>, which pins the address space it answers.
\<close>

record open_env =
  oe_private :: "u64 option"
  oe_single :: int
  oe_mem :: kptr

definition mem_open :: "open_env \<Rightarrow> kevent list" where
  "mem_open oe = (case oe_mem oe of Ptr mm \<Rightarrow> [Acquire (Mm_grab mm)] | _ \<Rightarrow> [])"

definition mmdrop :: "u64 option \<Rightarrow> kevent list" where
  "mmdrop mm = (case mm of None \<Rightarrow> [] | Some mm \<Rightarrow> [Release (Mm_grab mm)])"

text \<open>The operations of the sequence and the size of the private data that an open file gets.\<close>

datatype seq_ops = Pid_maps_op | Pid_smaps_op | Pid_numa_maps_op

datatype priv_size = Proc_maps_private | Numa_maps_private

record proc_file =
  pf_ops :: seq_ops
  pf_psize :: priv_size
  pf_priv :: u64
  pf_mm :: "u64 option"

definition proc_maps_open :: "seq_ops \<Rightarrow> priv_size \<Rightarrow> open_env \<Rightarrow> int \<times> proc_file option \<times> kevent list" where
  "proc_maps_open ops psize oe =
    (case oe_private oe of
       None \<Rightarrow> (-12, None, [])
     | Some priv \<Rightarrow>
       let tr = [Acquire (Seq_priv priv)] @ mem_open oe in
       case oe_mem oe of
         Err_ptr err \<Rightarrow> (err, None, tr @ [Release (Seq_priv priv)])
       | mm \<Rightarrow> (0, Some \<lparr>pf_ops = ops, pf_psize = psize, pf_priv = priv, pf_mm = ptr_mm mm\<rparr>, tr))"

definition proc_map_release :: "proc_file \<Rightarrow> int \<times> kevent list" where
  "proc_map_release f = (0, mmdrop (pf_mm f) @ [Release (Seq_priv (pf_priv f))])"

definition do_maps_open :: "seq_ops \<Rightarrow> open_env \<Rightarrow> int \<times> proc_file option \<times> kevent list" where
  "do_maps_open ops = proc_maps_open ops Proc_maps_private"

definition pid_maps_open :: "open_env \<Rightarrow> int \<times> proc_file option \<times> kevent list" where
  "pid_maps_open = do_maps_open Pid_maps_op"

definition pid_smaps_open :: "open_env \<Rightarrow> int \<times> proc_file option \<times> kevent list" where
  "pid_smaps_open = do_maps_open Pid_smaps_op"

definition pid_numa_maps_open :: "open_env \<Rightarrow> int \<times> proc_file option \<times> kevent list" where
  "pid_numa_maps_open = proc_maps_open Pid_numa_maps_op Numa_maps_private"

text \<open>For \<open>smaps_rollup\<close> and \<open>pagemap\<close> an open file is its private data and the address space.\<close>

definition smaps_rollup_open :: "open_env \<Rightarrow> int \<times> (u64 \<times> u64) option \<times> kevent list" where
  "smaps_rollup_open oe =
    (case oe_private oe of
       None \<Rightarrow> (-12, None, [])
     | Some priv \<Rightarrow>
       let tr = [Acquire (Kbuf priv)]; ret = oe_single oe in
       if ret \<noteq> 0 then (ret, None, tr @ [Release (Kbuf priv)]) else
       let tr = tr @ [Acquire (Seq_file ''smaps_rollup'')] @ mem_open oe;
           out_free = [Release (Seq_file ''smaps_rollup''), Release (Kbuf priv)] in
       case oe_mem oe of
         Err_ptr err \<Rightarrow> (err, None, tr @ out_free)
       | Null \<Rightarrow> (-3, None, tr @ out_free)
       | Ptr mm \<Rightarrow> (0, Some (priv, mm), tr))"

definition smaps_rollup_release :: "u64 \<times> u64 \<Rightarrow> int \<times> kevent list" where
  "smaps_rollup_release = (\<lambda>(priv, mm). (0, mmdrop (Some mm) @ [Release (Kbuf priv), Release (Seq_file ''smaps_rollup'')]))"

definition pagemap_open :: "open_env \<Rightarrow> int \<times> u64 option \<times> kevent list" where
  "pagemap_open oe =
    (case oe_mem oe of
       Err_ptr err \<Rightarrow> (err, None, mem_open oe)
     | Null \<Rightarrow> (-3, None, mem_open oe)
     | Ptr mm \<Rightarrow> (0, Some mm, mem_open oe))"

definition pagemap_release :: "u64 option \<Rightarrow> int \<times> kevent list" where
  "pagemap_release mm = (0, mmdrop mm)"

section \<open>The life of a file\<close>

text \<open>
  The calls on an open file between open and release: passes over the sequence, in which the buffer has
  room for \<open>n\<close> items, and queries. The private data starts zeroed.
\<close>

datatype maps_call = Pass maps_env nat | Query u32 query_io query_env

definition zeroed_priv :: maps_priv where
  "zeroed_priv = \<lparr>mp_task = None, mp_locked = False, mp_vma = None, mp_iter = 0, mp_last = 0, mp_calls = 0, mp_policy = None\<rparr>"

definition no_mm_pass :: "maps_env \<Rightarrow> maps_priv \<Rightarrow> int \<Rightarrow> maps_priv \<times> int \<times> kevent list" where
  "no_mm_pass env priv ppos = (let (r, priv, ppos, tr) = m_start env priv ppos in (priv, ppos, tr))"

fun file_calls :: "u32 \<Rightarrow> u64 option \<Rightarrow> maps_call list \<Rightarrow> maps_priv \<Rightarrow> int \<Rightarrow> kevent list" where
  "file_calls cmd mm [] priv ppos = []"
| "file_calls cmd mm (Pass env n # calls) priv ppos =
    (case mm of
       None \<Rightarrow>
         let (priv, ppos, tr) = no_mm_pass (env\<lparr>me_mm := None\<rparr>) priv ppos in tr @ file_calls cmd mm calls priv ppos
     | Some m \<Rightarrow>
         let (items, priv, ppos, tr) = seq_pass (env\<lparr>me_mm := Some m\<rparr>) m n priv ppos in
         tr @ file_calls cmd mm calls priv ppos)"
| "file_calls cmd mm (Query c io env # calls) priv ppos =
    (let (ret, out, name, build_id, tr) = procfs_procmap_ioctl cmd c (io\<lparr>qi_mm := mm\<rparr>) env in
     tr @ file_calls cmd mm calls priv ppos)"

definition maps_file_life :: "u32 \<Rightarrow> open_env \<Rightarrow> maps_call list \<Rightarrow> int \<times> kevent list" where
  "maps_file_life cmd oe calls =
    (case pid_maps_open oe of
       (err, None, tr) \<Rightarrow> (err, tr)
     | (err, Some f, tr) \<Rightarrow>
       let tr = tr @ file_calls cmd (pf_mm f) calls zeroed_priv 0;
           (ret, tr') = proc_map_release f in
       (ret, tr @ tr'))"

lemma no_mm_pass_balanced:
  assumes "mp_task priv = None" "no_mm_pass (env\<lparr>me_mm := None\<rparr>) priv ppos = (priv', ppos', tr)"
  shows "balanced tr \<and> mp_task priv' = None"
proof -
  obtain r p1 pos1 t1 where start: "m_start (env\<lparr>me_mm := None\<rparr>) priv ppos = (r, p1, pos1, t1)" by (metis prod_cases4)
  then show ?thesis
    using m_start_trace [OF start assms(1)] assms(2) by (simp add: no_mm_pass_def balanced_def held_def)
qed

lemma ioctl_balanced:
  "procfs_procmap_ioctl cmd c io env = (ret, out, name, build_id, tr) \<Longrightarrow> balanced tr"
  using query_trace_balanced [of io env] by (auto simp: procfs_procmap_ioctl_def split: if_splits)

lemma file_calls_balanced: "mp_task priv = None \<Longrightarrow> balanced (file_calls cmd mm calls priv ppos)"
proof (induction cmd mm calls priv ppos rule: file_calls.induct)
  case (2 cmd mm env n calls priv ppos)
  show ?case
  proof (cases mm)
    case None
    obtain priv' ppos' tr where "no_mm_pass (env\<lparr>me_mm := None\<rparr>) priv ppos = (priv', ppos', tr)" by (metis prod_cases3)
    then show ?thesis
      using None 2(1) [OF None refl] no_mm_pass_balanced [OF 2(3)] balanced_append by (auto simp: balanced_def)
  next
    case (Some m)
    obtain items priv' ppos' tr where pass: "seq_pass (env\<lparr>me_mm := Some m\<rparr>) m n priv ppos = (items, priv', ppos', tr)"
      by (metis prod_cases4)
    then have "balanced tr \<and> mp_task priv' = None"
      using seq_pass_balanced [OF 2(3), of "env\<lparr>me_mm := Some m\<rparr>" m n ppos] by simp
    then show ?thesis
      using Some pass 2(2) [OF Some refl] balanced_append by (auto simp: balanced_def)
  qed
next
  case (3 cmd mm c io env calls priv ppos)
  obtain ret out name build_id tr where
    q: "procfs_procmap_ioctl cmd c (io\<lparr>qi_mm := mm\<rparr>) env = (ret, out, name, build_id, tr)" by (metis prod_cases5)
  then show ?case
    using 3 ioctl_balanced [OF q] balanced_append by (auto simp: balanced_def)
qed simp

text \<open>
  C23. Over the whole life of a \<open>maps\<close> file nothing leaks and nothing is released twice: whether opening
  fails for memory, for permission or because the task is gone, whether the task has an address space,
  and for every sequence of passes of any length and of queries with any arguments, each ending in any
  of its ways, what opening, the calls and release together took they have given back.
\<close>

theorem maps_file_life_balanced:
  "case maps_file_life cmd oe calls of (ret, tr) \<Rightarrow> balanced tr"
proof -
  have "balanced (file_calls cmd mm calls zeroed_priv 0)" for mm
    by (rule file_calls_balanced) (simp add: zeroed_priv_def)
  then have run: "mrun rstep h (file_calls cmd mm calls zeroed_priv 0) = Some h" for h mm
    by (simp add: balanced_def held_def rm.unit_frame)
  show ?thesis
    by (auto simp: maps_file_life_def pid_maps_open_def do_maps_open_def proc_maps_open_def proc_map_release_def mem_open_def
        mmdrop_def balanced_def held_def mrun_append run Let_def split: option.split kptr.split)
qed

text \<open>
  Opening \<open>smaps_rollup\<close> or \<open>pagemap\<close>: on success the file and the address space are held and
  release gives back exactly them; an error is negative whenever the kernel's own errors are, a task
  without address space is refused with \<open>-ESRCH\<close>, and nothing stays held.
\<close>

theorem other_files_balanced:
  "(case smaps_rollup_open oe of
      (ret, None, tr) \<Rightarrow> balanced tr
    | (ret, Some f, tr) \<Rightarrow> ret = 0 \<and> balanced (tr @ snd (smaps_rollup_release f))) \<and>
   (case pagemap_open oe of
      (ret, None, tr) \<Rightarrow> tr = [] \<and> (if oe_mem oe = Null then ret = -3 else True)
    | (ret, Some mm, tr) \<Rightarrow> ret = 0 \<and> balanced (tr @ snd (pagemap_release (Some mm))))"
  by (auto simp: smaps_rollup_open_def smaps_rollup_release_def pagemap_open_def pagemap_release_def mem_open_def mmdrop_def
      balanced_def held_def Let_def split: option.split kptr.split)

end
