(* ===== verification/Smaps_File.thy ===== *)
theory Smaps_File
  imports Smaps Maps
begin

text \<open>
  What the files print around the statistics of \<open>mapping_field_decode/task_mmu.c\<close>: an entry of \<open>smaps\<close>
  with its sizes and flag letters, and the totals of \<open>status\<close> and \<open>statm\<close>. The properties compare the
  printed numbers with each other.
\<close>

unbundle bit_operations_syntax

section \<open>The totals of an address space\<close>

text \<open>
  The counters are sums over the processors; \<open>mc_pgtables\<close> is \<open>mm_pgtables_bytes\<close> and \<open>mc_hugetlb\<close> the
  lines of \<open>hugetlb_report_usage\<close>.
\<close>

record mm_counters =
  mc_anon :: u64
  mc_file :: u64
  mc_shmem :: u64
  mc_swapents :: u64
  mc_total_vm :: u64
  mc_hiwater_vm :: u64
  mc_hiwater_rss :: u64
  mc_locked_vm :: u64
  mc_pinned_vm :: u64
  mc_exec_vm :: u64
  mc_data_vm :: u64
  mc_stack_vm :: u64
  mc_start_code :: u64
  mc_end_code :: u64
  mc_pgtables :: u64
  mc_hugetlb :: "(string \<times> u64) list"

definition PAGE_ALIGN :: "u64 \<Rightarrow> u64" where
  "PAGE_ALIGN x = (x + 0xFFF) AND NOT 0xFFF"

text \<open>The text of the program in bytes.\<close>

definition code_bytes :: "mm_counters \<Rightarrow> u64" where
  "code_bytes mm = PAGE_ALIGN (mc_end_code mm) - (mc_start_code mm AND NOT 0xFFF)"

definition task_mem :: "mm_counters \<Rightarrow> (string \<times> u64) list" where
  "task_mem mm =
    (let anon = mc_anon mm;
         file = mc_file mm;
         shmem = mc_shmem mm;
         total_vm = mc_total_vm mm;
         hiwater_vm = (if total_vm < mc_hiwater_vm mm then mc_hiwater_vm mm else total_vm);
         total_rss = anon + file + shmem;
         hiwater_rss = (if total_rss < mc_hiwater_rss mm then mc_hiwater_rss mm else total_rss);
         code = min (code_bytes mm) (push_bit 12 (mc_exec_vm mm));
         lib = push_bit 12 (mc_exec_vm mm) - code;
         swapents = mc_swapents mm;
         dec = push_bit 2 in
     [(''VmPeak'', dec hiwater_vm), (''VmSize'', dec total_vm), (''VmLck'', dec (mc_locked_vm mm)),
      (''VmPin'', dec (mc_pinned_vm mm)), (''VmHWM'', dec hiwater_rss), (''VmRSS'', dec total_rss),
      (''RssAnon'', dec anon), (''RssFile'', dec file), (''RssShmem'', dec shmem), (''VmData'', dec (mc_data_vm mm)),
      (''VmStk'', dec (mc_stack_vm mm)), (''VmExe'', drop_bit 10 code), (''VmLib'', drop_bit 10 lib),
      (''VmPTE'', drop_bit 10 (mc_pgtables mm)), (''VmSwap'', dec swapents)] @ mc_hugetlb mm)"

definition task_vsize :: "mm_counters \<Rightarrow> u64" where
  "task_vsize mm = 0x1000 * mc_total_vm mm"

text \<open>The result with the four numbers it stores: shared, text, data, resident.\<close>

definition task_statm :: "mm_counters \<Rightarrow> u64 \<times> u64 \<times> u64 \<times> u64 \<times> u64" where
  "task_statm mm =
    (let shared = mc_file mm + mc_shmem mm;
         code = drop_bit 12 (code_bytes mm);
         data = mc_data_vm mm + mc_stack_vm mm;
         resid = shared + mc_anon mm in
     (mc_total_vm mm, shared, code, data, resid))"

lemma push_bit_2_add: "push_bit 2 (a + b) = push_bit 2 a + push_bit 2 b" for a b :: u64
  by (rule push_bit_add)

lemma unat_push_small: "unat x < 2 ^ (64 - k) \<Longrightarrow> unat (push_bit k x) = 2 ^ k * unat x" if "k \<le> 64" for x :: u64
proof -
  assume "unat x < 2 ^ (64 - k)"
  then have "2 ^ k * unat x < 2 ^ k * 2 ^ (64 - k)" by simp
  also have "\<dots> = 2 ^ 64" using that by (simp flip: power_add)
  finally show ?thesis
    by (simp add: unsigned_push_bit_eq push_bit_eq_mult [where 'a = nat] take_bit_nat_eq_self mult.commute)
qed

text \<open>The text is whole pages.\<close>

lemma code_bytes_pages: "unat (code_bytes mm) = 4096 * unat (drop_bit 12 (code_bytes mm))"
proof -
  have high: "x AND NOT (0xFFF :: u64) = push_bit 12 (drop_bit 12 x)" for x
    unfolding low_mask_numerals by (rule bit_word_eqI) (auto simp: bit_push_bit_iff bit_drop_bit_eq bit_and_iff bit_not_iff bit_mask_iff)
  have "code_bytes mm = push_bit 12 (drop_bit 12 (mc_end_code mm + 0xFFF) - drop_bit 12 (mc_start_code mm))"
    unfolding code_bytes_def PAGE_ALIGN_def high by (simp add: push_bit_eq_mult left_diff_distrib)
  then have "code_bytes mm AND NOT 0xFFF = code_bytes mm"
    unfolding low_mask_numerals
    by (simp only:) (rule bit_word_eqI, auto simp: bit_push_bit_iff bit_and_iff bit_not_iff bit_mask_iff)
  then have "unat (code_bytes mm) = unat (code_bytes mm) div 2 ^ 12 * 2 ^ 12"
    using unat_and_not_mask [of "code_bytes mm" 12] by (simp add: low_mask_numerals)
  then show ?thesis by (simp add: unat_drop_bit)
qed

lemma unat_min: "unat (min a b) = min (unat a) (unat b)" for a b :: u64
  by (simp add: min_def word_le_nat_alt)

lemma task_mem_code:
  assumes "unat (mc_exec_vm mm) < 2 ^ 52"
  defines "code \<equiv> min (code_bytes mm) (push_bit 12 (mc_exec_vm mm))"
  shows "drop_bit 10 code = min (push_bit 2 (drop_bit 12 (code_bytes mm))) (push_bit 2 (mc_exec_vm mm))"
    and "drop_bit 10 code + drop_bit 10 (push_bit 12 (mc_exec_vm mm) - code) = push_bit 2 (mc_exec_vm mm)"
proof -
  define t where "t = unat (drop_bit 12 (code_bytes mm))"
  let ?e = "unat (mc_exec_vm mm)"
  note t_def [symmetric, simp]
  have "unat (code_bytes mm) < 2 ^ LENGTH(64)" by (rule unsigned_less)
  then have t: "t < 2 ^ 52" using code_bytes_pages [of mm] by simp
  have exec: "unat (push_bit 12 (mc_exec_vm mm)) = 4096 * ?e" "unat (push_bit 2 (mc_exec_vm mm)) = 4 * ?e"
    "unat (push_bit 2 (drop_bit 12 (code_bytes mm))) = 4 * t"
    using unat_push_small [of 12 "mc_exec_vm mm"] unat_push_small [of 2 "mc_exec_vm mm"]
      unat_push_small [of 2 "drop_bit 12 (code_bytes mm)"] assms(1) t by simp_all
  have code: "unat code = 4096 * min t ?e"
    unfolding code_def unat_min exec code_bytes_pages [of mm] by (simp add: min_def)
  have "code \<le> push_bit 12 (mc_exec_vm mm)" by (simp add: code_def)
  then have lib: "unat (push_bit 12 (mc_exec_vm mm) - code) = 4096 * (?e - min t ?e)"
    by (simp add: unat_sub exec code diff_mult_distrib2)
  show "drop_bit 10 code = min (push_bit 2 (drop_bit 12 (code_bytes mm))) (push_bit 2 (mc_exec_vm mm))"
    unfolding word_unat_eq_iff unat_min exec unat_drop_bit code by (simp add: min_def)
  have "unat (drop_bit 10 code) + unat (drop_bit 10 (push_bit 12 (mc_exec_vm mm) - code)) = 4 * ?e"
    unfolding unat_drop_bit code lib by (simp add: min_def) linarith
  moreover have "4 * ?e < 2 ^ 64" using assms(1) by simp
  ultimately show "drop_bit 10 code + drop_bit 10 (push_bit 12 (mc_exec_vm mm) - code) = push_bit 2 (mc_exec_vm mm)"
    unfolding word_unat_eq_iff exec(2) by (simp add: unat_add_wrap)
qed

lemma push_2_mono:
  assumes "unat y < 2 ^ 62" "x \<le> y"
  shows "push_bit 2 x \<le> push_bit 2 (y :: u64)"
proof -
  have "unat x < 2 ^ 62" using assms by (simp add: word_le_nat_alt)
  then show ?thesis
    using assms unat_push_small [of 2 x] unat_push_small [of 2 y] by (simp add: word_le_nat_alt)
qed

definition status_line :: "mm_counters \<Rightarrow> string \<Rightarrow> u64" where
  "status_line mm name = (case map_of (task_mem mm) name of Some kb \<Rightarrow> kb | None \<Rightarrow> 0)"

lemma status_lines:
  "status_line mm ''VmSize'' = push_bit 2 (mc_total_vm mm)"
  "status_line mm ''VmPeak'' = push_bit 2 (max (mc_total_vm mm) (mc_hiwater_vm mm))"
  "status_line mm ''VmRSS'' = push_bit 2 (mc_anon mm + mc_file mm + mc_shmem mm)"
  "status_line mm ''VmHWM'' = push_bit 2 (max (mc_anon mm + mc_file mm + mc_shmem mm) (mc_hiwater_rss mm))"
  "status_line mm ''RssAnon'' = push_bit 2 (mc_anon mm)" "status_line mm ''RssFile'' = push_bit 2 (mc_file mm)"
  "status_line mm ''RssShmem'' = push_bit 2 (mc_shmem mm)" "status_line mm ''VmData'' = push_bit 2 (mc_data_vm mm)"
  "status_line mm ''VmStk'' = push_bit 2 (mc_stack_vm mm)"
  "status_line mm ''VmExe'' = drop_bit 10 (min (code_bytes mm) (push_bit 12 (mc_exec_vm mm)))"
  "status_line mm ''VmLib'' =
    drop_bit 10 (push_bit 12 (mc_exec_vm mm) - min (code_bytes mm) (push_bit 12 (mc_exec_vm mm)))"
  by (simp_all add: status_line_def task_mem_def Let_def max_def not_less)

text \<open>A small process: three pages of text in seven executable ones, ten pages resident.\<close>

definition example_mm :: mm_counters where
  "example_mm = \<lparr>mc_anon = 5, mc_file = 4, mc_shmem = 1, mc_swapents = 2, mc_total_vm = 100, mc_hiwater_vm = 120,
     mc_hiwater_rss = 11, mc_locked_vm = 0, mc_pinned_vm = 0, mc_exec_vm = 7, mc_data_vm = 8, mc_stack_vm = 4,
     mc_start_code = 0x400010, mc_end_code = 0x402F01, mc_pgtables = 0x5000, mc_hugetlb = []\<rparr>"

text \<open>
  C24. The memory lines of \<open>status\<close> agree with each other and with \<open>statm\<close> and \<open>vsize\<close>: the resident size
  is the sum of its three kinds, text and libraries add up to the executable areas, the peaks are at
  least the current sizes, and each is four times the number of pages in \<open>statm\<close>, except that the text
  of \<open>status\<close> is limited to the executable areas.
\<close>

theorem task_mem_consistent:
  assumes "unat (mc_exec_vm mm) < 2 ^ 52" and "unat (mc_total_vm mm) < 2 ^ 62" "unat (mc_hiwater_vm mm) < 2 ^ 62"
    and "unat (mc_anon mm + mc_file mm + mc_shmem mm) < 2 ^ 62" "unat (mc_hiwater_rss mm) < 2 ^ 62"
  shows "status_line mm ''VmRSS'' = status_line mm ''RssAnon'' + status_line mm ''RssFile'' + status_line mm ''RssShmem'' \<and>
    status_line mm ''VmExe'' + status_line mm ''VmLib'' = push_bit 2 (mc_exec_vm mm) \<and>
    status_line mm ''VmSize'' \<le> status_line mm ''VmPeak'' \<and> status_line mm ''VmRSS'' \<le> status_line mm ''VmHWM'' \<and>
    task_vsize mm = push_bit 10 (status_line mm ''VmSize'') \<and>
    (case task_statm mm of (all_vm, shared, code, data, resid) \<Rightarrow>
      status_line mm ''VmSize'' = push_bit 2 all_vm \<and> status_line mm ''VmRSS'' = push_bit 2 resid \<and>
      status_line mm ''RssFile'' + status_line mm ''RssShmem'' = push_bit 2 shared \<and>
      status_line mm ''VmData'' + status_line mm ''VmStk'' = push_bit 2 data \<and>
      status_line mm ''VmExe'' = min (push_bit 2 code) (push_bit 2 (mc_exec_vm mm)))"
proof -
  have "push_bit 2 (mc_total_vm mm) \<le> push_bit 2 (max (mc_total_vm mm) (mc_hiwater_vm mm))"
    "push_bit 2 (mc_anon mm + mc_file mm + mc_shmem mm) \<le>
      push_bit 2 (max (mc_anon mm + mc_file mm + mc_shmem mm) (mc_hiwater_rss mm))"
    using assms(2-5) by (intro push_2_mono; simp add: max_def)+
  moreover have "task_vsize mm = push_bit 10 (push_bit 2 (mc_total_vm mm))"
    by (simp add: task_vsize_def push_bit_eq_mult mult.commute)
  ultimately show ?thesis
    unfolding status_lines task_statm_def Let_def prod.case task_mem_code(2) [OF assms(1)]
    unfolding task_mem_code(1) [OF assms(1)] push_bit_2_add
    by (simp only: simp_thms add.commute add.left_commute add.assoc)
qed

theorem task_mem_consistent_witness:
  "let mm = example_mm in
    status_line mm ''VmRSS'' = status_line mm ''RssAnon'' + status_line mm ''RssFile'' + status_line mm ''RssShmem'' \<and>
    status_line mm ''VmExe'' + status_line mm ''VmLib'' = 28 \<and> task_vsize mm = push_bit 10 (status_line mm ''VmSize'')"
  using task_mem_consistent [of example_mm] by (simp add: example_mm_def Let_def)

lemma example_lines:
  "status_line example_mm ''VmRSS'' = 40" "status_line example_mm ''VmExe'' = 12" "status_line example_mm ''VmLib'' = 16"
  "status_line example_mm ''VmPeak'' = 480" "task_statm example_mm = (100, 5, 3, 12, 10)"
  unfolding status_lines
  by (simp_all add: example_mm_def code_bytes_def PAGE_ALIGN_def task_statm_def Let_def min_def max_def)

section \<open>The flags of an area\<close>

text \<open>
  The flags with a mnemonic on x86-64, in the order of the table (soft-dirty tracking, four bits of
  protection keys, minor faults and shadow stacks configured in). Their bits are the kernel's: \<open>ilog2\<close>.
\<close>

datatype vm_flag =
    VM_READ | VM_WRITE | VM_EXEC | VM_SHARED | VM_MAYREAD | VM_MAYWRITE | VM_MAYEXEC | VM_MAYSHARE | VM_GROWSDOWN
  | VM_PFNMAP | VM_MAYBE_GUARD | VM_LOCKED | VM_IO | VM_SEQ_READ | VM_RAND_READ | VM_DONTCOPY | VM_DONTEXPAND
  | VM_LOCKONFAULT | VM_ACCOUNT | VM_NORESERVE | VM_HUGETLB | VM_SYNC | VM_ARCH_1 | VM_WIPEONFORK | VM_DONTDUMP
  | VM_SOFTDIRTY | VM_MIXEDMAP | VM_HUGEPAGE | VM_NOHUGEPAGE | VM_MERGEABLE | VM_UFFD_MISSING | VM_UFFD_WP
  | VM_PKEY_BIT0 | VM_PKEY_BIT1 | VM_PKEY_BIT2 | VM_PKEY_BIT3 | VM_UFFD_MINOR | VM_SHADOW_STACK | VM_DROPPABLE
  | VM_SEALED

definition mnemonic_table :: "(vm_flag \<times> string) list" where
  "mnemonic_table =
    [(VM_READ, ''rd''), (VM_WRITE, ''wr''), (VM_EXEC, ''ex''), (VM_SHARED, ''sh''), (VM_MAYREAD, ''mr''),
     (VM_MAYWRITE, ''mw''), (VM_MAYEXEC, ''me''), (VM_MAYSHARE, ''ms''), (VM_GROWSDOWN, ''gd''), (VM_PFNMAP, ''pf''),
     (VM_MAYBE_GUARD, ''gu''), (VM_LOCKED, ''lo''), (VM_IO, ''io''), (VM_SEQ_READ, ''sr''), (VM_RAND_READ, ''rr''),
     (VM_DONTCOPY, ''dc''), (VM_DONTEXPAND, ''de''), (VM_LOCKONFAULT, ''lf''), (VM_ACCOUNT, ''ac''),
     (VM_NORESERVE, ''nr''), (VM_HUGETLB, ''ht''), (VM_SYNC, ''sf''), (VM_ARCH_1, ''ar''), (VM_WIPEONFORK, ''wf''),
     (VM_DONTDUMP, ''dd''), (VM_SOFTDIRTY, ''sd''), (VM_MIXEDMAP, ''mm''), (VM_HUGEPAGE, ''hg''),
     (VM_NOHUGEPAGE, ''nh''), (VM_MERGEABLE, ''mg''), (VM_UFFD_MISSING, ''um''), (VM_UFFD_WP, ''uw''),
     (VM_PKEY_BIT0, ''''), (VM_PKEY_BIT1, ''''), (VM_PKEY_BIT2, ''''), (VM_PKEY_BIT3, ''''), (VM_UFFD_MINOR, ''ui''),
     (VM_SHADOW_STACK, ''ss''), (VM_DROPPABLE, ''dp''), (VM_SEALED, ''sl'')]"

text \<open>The last initialiser of an element counts.\<close>

definition mnemonics :: "(vm_flag \<Rightarrow> nat) \<Rightarrow> nat \<Rightarrow> string" where
  "mnemonics ilog2 i =
    (case filter (\<lambda>(f, s). ilog2 f = i) mnemonic_table of [] \<Rightarrow> ''??'' | x # xs \<Rightarrow> snd (last (x # xs)))"

definition show_smap_vma_flags :: "(vm_flag \<Rightarrow> nat) \<Rightarrow> u64 \<Rightarrow> string list" where
  "show_smap_vma_flags ilog2 vm_flags =
    map (mnemonics ilog2) (filter (\<lambda>i. mnemonics ilog2 i \<noteq> [] \<and> vm_flags AND push_bit i 1 \<noteq> 0) [0..<64])"

definition mnemonic_of :: "vm_flag \<Rightarrow> string" where
  "mnemonic_of f = (case map_of mnemonic_table f of Some s \<Rightarrow> s | None \<Rightarrow> '''')"

text \<open>The place of a flag in the table.\<close>

definition flag_place :: "vm_flag \<Rightarrow> nat" where
  "flag_place f = length (takeWhile (\<lambda>(g, s). g \<noteq> f) mnemonic_table)"

lemma flag_place: "flag_place f < 40 \<and> mnemonic_table ! flag_place f = (f, mnemonic_of f)"
  by (cases f) (simp_all add: flag_place_def mnemonic_of_def mnemonic_table_def)

lemma flag_place_inj: "inj flag_place"
  using flag_place by (intro injI) (metis prod.inject)

lemma table_length: "length mnemonic_table = 40"
  by (simp add: mnemonic_table_def)

lemma table_entry: "(f, s) \<in> set mnemonic_table \<longleftrightarrow> s = mnemonic_of f"
proof
  assume "s = mnemonic_of f"
  then show "(f, s) \<in> set mnemonic_table"
    using flag_place [of f] nth_mem [of "flag_place f" mnemonic_table] by (simp add: table_length)
next
  have "distinct (map fst mnemonic_table)" by (simp add: mnemonic_table_def)
  moreover assume "(f, s) \<in> set mnemonic_table"
  ultimately show "s = mnemonic_of f" by (simp add: mnemonic_of_def)
qed

lemma mnemonics_eq:
  assumes "inj ilog2"
  shows "mnemonics ilog2 (ilog2 f) = mnemonic_of f" and "i \<notin> range ilog2 \<Longrightarrow> mnemonics ilog2 i = ''??''"
proof -
  let ?xs = "filter (\<lambda>(g, s). ilog2 g = ilog2 f) mnemonic_table"
  have only: "x = (f, mnemonic_of f)" if "x \<in> set ?xs" for x
  proof -
    obtain g s where "x = (g, s)" by fastforce
    then show ?thesis using that by (simp add: table_entry inj_eq [OF assms])
  qed
  have "(f, mnemonic_of f) \<in> set ?xs" by (simp add: table_entry)
  then obtain y ys where xs: "?xs = y # ys" by (cases ?xs) auto
  have "last (y # ys) = (f, mnemonic_of f)" using only [of "last (y # ys)"] last_in_set [of "y # ys"] unfolding xs by blast
  then show "mnemonics ilog2 (ilog2 f) = mnemonic_of f" unfolding mnemonics_def xs by simp
  assume "i \<notin> range ilog2"
  then have "filter (\<lambda>(g, s). ilog2 g = i) mnemonic_table = []" by (auto simp: filter_empty_conv)
  then show "mnemonics ilog2 i = ''??''" by (simp add: mnemonics_def)
qed

text \<open>No two flags share their letters, and no flag has those of an unknown bit.\<close>

lemma mnemonic_of_inj: "mnemonic_of f = mnemonic_of g \<Longrightarrow> mnemonic_of f \<noteq> [] \<Longrightarrow> f = g"
proof -
  define xs where "xs = filter (\<lambda>(f, s). s \<noteq> []) mnemonic_table"
  have "distinct (map snd xs)" by (simp add: xs_def mnemonic_table_def)
  moreover assume "mnemonic_of f = mnemonic_of g" "mnemonic_of f \<noteq> []"
  then have "(f, mnemonic_of f) \<in> set xs" "(g, mnemonic_of f) \<in> set xs" by (simp_all add: xs_def table_entry)
  ultimately show "f = g" by (metis distinct_map inj_onD prod.inject snd_conv)
qed

lemma mnemonic_known: "mnemonic_of f \<noteq> ''??''"
  by (cases f) (simp_all add: mnemonic_of_def mnemonic_table_def)

lemma flag_letters:
  "s \<in> set (show_smap_vma_flags ilog2 flags) \<longleftrightarrow> (\<exists>i < 64. mnemonics ilog2 i = s \<and> s \<noteq> [] \<and> bit flags i)"
proof -
  have bits: "(flags AND push_bit i 1 = 0) = (\<not> bit flags i)" for i
    using and_exp_eq_0_iff_not_bit [of flags i] by (simp add: push_bit_eq_mult)
  show ?thesis unfolding show_smap_vma_flags_def set_map set_filter bits image_iff by (auto simp only: mem_Collect_eq set_upt atLeastLessThan_iff)
qed

text \<open>
  C31. The line of flags is exact: when the kernel gives the flags different bits, the letters of a flag
  are printed exactly when its bit is set, and the two question marks exactly when a bit is set that
  has no name, so that no bit goes unreported but those of the protection key.
\<close>

theorem vma_flags_exact:
  assumes "inj ilog2" "\<forall>f. ilog2 f < 64"
  shows "(\<forall>f. mnemonic_of f \<noteq> [] \<longrightarrow> (mnemonic_of f \<in> set (show_smap_vma_flags ilog2 flags) \<longleftrightarrow> bit flags (ilog2 f))) \<and>
    (''??'' \<in> set (show_smap_vma_flags ilog2 flags) \<longleftrightarrow> (\<exists>i < 64. i \<notin> range ilog2 \<and> bit flags i))"
proof -
  note known = mnemonics_eq(1) [OF assms(1)] and unknown = mnemonics_eq(2) [OF assms(1)]
  show ?thesis unfolding flag_letters
  proof (intro conjI allI impI iffI)
    fix f assume f: "mnemonic_of f \<noteq> []"
    { assume "\<exists>i < 64. mnemonics ilog2 i = mnemonic_of f \<and> mnemonic_of f \<noteq> [] \<and> bit flags i"
      then obtain i where i: "mnemonics ilog2 i = mnemonic_of f" "bit flags i" by blast
      then have "i \<in> range ilog2" using unknown [of i] mnemonic_known [of f] by metis
      then obtain g where g: "i = ilog2 g" by blast
      have "mnemonic_of f = mnemonic_of g" using i(1) known [of g] unfolding g by (rule trans [OF sym])
      from mnemonic_of_inj [OF this f] show "bit flags (ilog2 f)" using i(2) unfolding g by simp }
    assume "bit flags (ilog2 f)"
    then show "\<exists>i < 64. mnemonics ilog2 i = mnemonic_of f \<and> mnemonic_of f \<noteq> [] \<and> bit flags i"
      using f known [of f] assms(2) by (intro exI [of _ "ilog2 f"]) simp
  next
    assume "\<exists>i < 64. mnemonics ilog2 i = ''??'' \<and> ''??'' \<noteq> [] \<and> bit flags i"
    then obtain i where i: "i < 64" "mnemonics ilog2 i = ''??''" "bit flags i" by blast
    have "i \<notin> range ilog2"
    proof
      assume "i \<in> range ilog2"
      then obtain f where "i = ilog2 f" by blast
      then show False using i(2) known [of f] mnemonic_known [of f] by simp
    qed
    then show "\<exists>i < 64. i \<notin> range ilog2 \<and> bit flags i" using i by blast
  next
    assume "\<exists>i < 64. i \<notin> range ilog2 \<and> bit flags i"
    then obtain i where "i < 64" "i \<notin> range ilog2" "bit flags i" by blast
    then show "\<exists>i < 64. mnemonics ilog2 i = ''??'' \<and> ''??'' \<noteq> [] \<and> bit flags i"
      using unknown [of i] by (intro exI [of _ i]) simp
  qed
qed

theorem vma_flags_exact_witness:
  "''rd'' \<in> set (show_smap_vma_flags flag_place 0x8000000000000005) \<and>
   ''wr'' \<notin> set (show_smap_vma_flags flag_place 0x8000000000000005) \<and>
   ''??'' \<in> set (show_smap_vma_flags flag_place 0x8000000000000005)"
proof -
  have "flag_place f < 64" for f using flag_place [of f] by simp
  then have "\<forall>f. flag_place f < 64" by simp
  note exact = vma_flags_exact [OF flag_place_inj this, of "0x8000000000000005"]
  have names: "mnemonic_of VM_READ = ''rd''" "mnemonic_of VM_WRITE = ''wr''" "flag_place VM_READ = 0" "flag_place VM_WRITE = 1"
    by (simp_all add: mnemonic_of_def mnemonic_table_def flag_place_def)
  have "63 \<notin> range flag_place"
  proof
    assume "63 \<in> range flag_place"
    then obtain f where "flag_place f = 63" by (metis rangeE)
    then show False using flag_place [of f] by simp
  qed
  then have "\<exists>i < 64. i \<notin> range flag_place \<and> bit (0x8000000000000005 :: u64) i" by (intro exI [of _ 63]) simp
  then show ?thesis
    using exact [THEN conjunct1, THEN spec, of VM_READ] exact [THEN conjunct1, THEN spec, of VM_WRITE] exact [THEN conjunct2]
    by (simp add: names)
qed

section \<open>An entry of the file\<close>

text \<open>
  What an entry shows of an area beside its line of \<open>maps\<close>: whether it maps shared memory, of which
  \<open>sm_shmem_swapped\<close> is swapped out, its page sizes, and what the kernel says of transparent huge pages
  and of its protection key (\<open>arch_pkeys_enabled\<close>).
\<close>

record smaps_vma = map_vma +
  sm_shmem :: bool
  sm_shmem_swapped :: u64
  sm_kernel_pagesize :: u64
  sm_mmu_pagesize :: u64
  sm_thp_eligible :: bool
  sm_pkey :: "u64 option"

definition stats_vma :: "smaps_vma \<Rightarrow> smap_vma" where
  "stats_vma vma = \<lparr>sv_start = mv_start vma, sv_end = mv_end vma, sv_flags = mv_flags vma, sv_shmem = sm_shmem vma,
     sv_shmem_swapped = sm_shmem_swapped vma\<rparr>"

datatype smap_line = Area_line map_line | Kb_line string u64 | Number_line string u64 | Flags_line "string list"

definition show_smap :: "(vm_flag \<Rightarrow> nat) \<Rightarrow> stats_walker \<Rightarrow> smaps_vma \<Rightarrow> smap_line list" where
  "show_smap ilog2 walk vma =
    (let mss = smap_gather_stats walk (stats_vma vma) no_stats 0 in
     [Area_line (show_map_vma (map_vma.truncate vma)),
      Kb_line ''Size'' (drop_bit 10 (mv_end vma - mv_start vma)),
      Kb_line ''KernelPageSize'' (drop_bit 10 (sm_kernel_pagesize vma)),
      Kb_line ''MMUPageSize'' (drop_bit 10 (sm_mmu_pagesize vma))] @
     map (\<lambda>(name, kb). Kb_line name kb) (show_smap_lines mss False) @
     [Number_line ''THPeligible'' (if sm_thp_eligible vma then 1 else 0)] @
     (case sm_pkey vma of Some key \<Rightarrow> [Number_line ''ProtectionKey'' key] | None \<Rightarrow> []) @
     [Flags_line (show_smap_vma_flags ilog2 (mv_flags vma))])"

text \<open>The number on a line in kB.\<close>

fun kb_of :: "smap_line list \<Rightarrow> string \<Rightarrow> u64" where
  "kb_of (Kb_line name kb # lines) key = (if name = key then kb else kb_of lines key)"
| "kb_of (_ # lines) key = kb_of lines key"
| "kb_of [] key = 0"

lemma show_smap_kb:
  defines "mss \<equiv> \<lambda>walk vma. smap_gather_stats walk (stats_vma vma) no_stats 0"
  shows "kb_of (show_smap ilog2 walk vma) ''Size'' = drop_bit 10 (mv_end vma - mv_start vma)"
    and "kb_of (show_smap ilog2 walk vma) ''Rss'' = drop_bit 10 (resident (mss walk vma))"
    and "kb_of (show_smap ilog2 walk vma) ''Pss'' = drop_bit 10 (drop_bit 12 (pss (mss walk vma)))"
    and "kb_of (show_smap ilog2 walk vma) ''Pss_Dirty'' = drop_bit 10 (drop_bit 12 (pss_dirty (mss walk vma)))"
    and "kb_of (show_smap ilog2 walk vma) ''Locked'' = drop_bit 10 (drop_bit 12 (pss_locked (mss walk vma)))"
    and "kb_of (show_smap ilog2 walk vma) ''Anonymous'' = drop_bit 10 (anonymous (mss walk vma))"
    and "kb_of (show_smap ilog2 walk vma) ''LazyFree'' = drop_bit 10 (lazyfree (mss walk vma))"
    and "kb_of (show_smap ilog2 walk vma) ''Referenced'' = drop_bit 10 (referenced (mss walk vma))"
    and "kb_of (show_smap ilog2 walk vma) ''KSM'' = drop_bit 10 (ksm (mss walk vma))"
  by (simp_all add: show_smap_def mss_def show_smap_lines_def Let_def)

lemma unat_drop_mono: "unat a \<le> unat b \<Longrightarrow> unat (drop_bit k a) \<le> unat (drop_bit k b)" for a b :: u64
  by (simp add: unat_drop_bit div_le_mono)

lemma unat_pss_kb: "unat p \<le> 4096 * r \<Longrightarrow> unat (drop_bit 10 (drop_bit 12 p)) \<le> r div 1024" for p :: u64
proof -
  assume "unat p \<le> 4096 * r"
  then have "unat p div 4096 div 1024 \<le> r div 1024" by (intro div_le_mono) simp
  then show ?thesis by (simp add: unat_drop_bit)
qed

lemma mss_within_sizes:
  assumes "mss_within n mss"
  shows "unat (resident mss) \<le> 4096 * n" "unat (pss mss) \<le> 4096 * unat (resident mss)"
    "unat (pss_dirty mss) \<le> unat (pss mss)" "unat (pss_locked mss) \<le> unat (pss mss)"
    "unat (anonymous mss) \<le> unat (resident mss)" "unat (lazyfree mss) \<le> unat (anonymous mss)"
    "unat (referenced mss) \<le> unat (resident mss)" "unat (ksm mss) \<le> unat (resident mss)"
  using assms unfolding mss_within_def view_within_def sizes_within_def mss_sum_def by metis+

text \<open>
  C26. The numbers of an entry bound each other: for an area of whole pages mapped by page tables the
  entry prints the size of the area exactly, the resident size within it, the proportional size within
  the resident size and its dirty and locked parts within that; anonymous, lazily freeable, referenced
  and merged memory are printed within the resident size. None of them has wrapped.
\<close>

theorem show_smap_bounds:
  assumes "mv_start vma = pg k" "mv_end vma = pg (k + j)" "k + j < 2 ^ 51" "j < 2 ^ 40"
    and "\<forall>i. st_huge st i = None"
  shows "let kb = \<lambda>name. unat (kb_of (show_smap ilog2 (stats_walk st) vma) name) in
    kb ''Size'' = 4 * j \<and> kb ''Rss'' \<le> kb ''Size'' \<and> kb ''Pss'' \<le> kb ''Rss'' \<and> kb ''Pss_Dirty'' \<le> kb ''Pss'' \<and>
    kb ''Locked'' \<le> kb ''Pss'' \<and> kb ''Anonymous'' \<le> kb ''Rss'' \<and> kb ''LazyFree'' \<le> kb ''Anonymous'' \<and>
    kb ''Referenced'' \<le> kb ''Rss'' \<and> kb ''KSM'' \<le> kb ''Rss''"
proof -
  let ?mss = "smap_gather_stats (stats_walk st) (stats_vma vma) no_stats 0"
  have "mss_within j ?mss"
    by (rule area_stats_within [of _ k]) (use assms in \<open>simp_all add: stats_vma_def\<close>)
  note b = mss_within_sizes [OF this]
  have "mv_end vma - mv_start vma = pg j" by (simp add: assms(1,2) pg_def distrib_right)
  then have size: "unat (drop_bit 10 (mv_end vma - mv_start vma)) = 4 * j"
    using assms(4) unat_pg [of j] by (simp add: unat_drop_bit)
  have "unat (drop_bit 10 (resident ?mss)) \<le> 4096 * j div 1024" unfolding unat_drop_bit using b(1) by (simp add: div_le_mono)
  then have rss: "unat (drop_bit 10 (resident ?mss)) \<le> 4 * j" by simp
  have pss: "unat (drop_bit 10 (drop_bit 12 (pss ?mss))) \<le> unat (drop_bit 10 (resident ?mss))"
    using unat_pss_kb [OF b(2)] by (simp add: unat_drop_bit)
  show ?thesis
    unfolding Let_def show_smap_kb size by (rule refl rss pss b | rule conjI | rule unat_drop_mono)+
qed

definition example_area :: smaps_vma where
  "example_area = map_vma.extend
     \<lparr>mv_start = 0x1000, mv_end = 0x2000, mv_flags = 3, mv_file = None, mv_has_mm = True, mv_anon_name = None,
      mv_ops_name = None, mv_arch_name = None, mv_heap = True, mv_stack = False\<rparr>
     \<lparr>sm_shmem = False, sm_shmem_swapped = 0, sm_kernel_pagesize = 0x1000, sm_mmu_pagesize = 0x1000,
      sm_thp_eligible = False, sm_pkey = Some 0\<rparr>"

theorem show_smap_bounds_witness:
  "let kb = \<lambda>name. unat (kb_of (show_smap flag_place (stats_walk two_tables) example_area) name) in
    kb ''Size'' = 4 \<and> kb ''Rss'' \<le> 4 \<and> kb ''Pss'' \<le> kb ''Rss'' \<and> kb ''Referenced'' \<le> kb ''Rss''"
  using show_smap_bounds [of example_area 1 1 two_tables flag_place]
  by (simp add: two_tables_def example_area_def map_vma.defs pg_def Let_def)

end
