(* ===== verification/Pagemap_Entries.thy ===== *)
theory Pagemap_Entries
  imports Pagemap_Space
begin

text \<open>
  What a reader of \<open>pagemap\<close> can see at all: the shape of every entry that a read returns, whatever the
  address space, the request and the failures on the way, and that the frame numbers stay in the kernel
  when the reader lacks the capability.
\<close>

unbundle bit_operations_syntax

section \<open>Entries\<close>

text \<open>The flags that an entry may have: swapped and present exclude each other, exclusive means present.\<close>

definition flags_ok :: "u64 \<Rightarrow> bool" where
  "flags_ok flags \<longleftrightarrow> (\<forall>n < 55. \<not> bit flags n) \<and> \<not> bit flags 59 \<and> \<not> bit flags 60 \<and>
    \<not> (bit flags 62 \<and> bit flags 63) \<and> (bit flags 56 \<longrightarrow> bit flags 63)"

definition pme_ok :: "bool \<Rightarrow> u64 \<Rightarrow> bool" where
  "pme_ok shown pme \<longleftrightarrow> \<not> bit pme 59 \<and> \<not> bit pme 60 \<and> \<not> (bit pme 62 \<and> bit pme 63) \<and>
    (bit pme 56 \<longrightarrow> bit pme 63) \<and> (\<not> shown \<longrightarrow> pme AND PM_PFRAME_MASK = 0)"

named_theorems flag_bits

lemmas [flag_bits] = bit_or_if bit_BIT_ULL bit_or_iff and_BIT_ULL

lemma make_pme_ok:
  assumes "flags_ok flags" "\<not> shown \<longrightarrow> frame = 0"
  shows "pme_ok shown (make_pme frame flags)"
proof -
  have "make_pme 0 flags AND PM_PFRAME_MASK = 0"
  proof (rule bit_word_eqI)
    fix n
    show "bit (make_pme 0 flags AND PM_PFRAME_MASK) n = bit (0 :: u64) n"
      using assms(1) bit_mask_iff [of 55 n, where 'a = u64]
      by (auto simp: bit_and_iff bit_make_pme flags_ok_def low_mask_numerals)
  qed
  then show ?thesis using assms by (auto simp: pme_ok_def bit_make_pme flags_ok_def)
qed

lemma plain_pme_ok: "pme_ok shown (make_pme 0 (or_if c PM_SOFT_DIRTY 0))" "pme_ok shown (make_pme 0 PM_SOFT_DIRTY)"
  "pme_ok shown (make_pme 0 0)"
  by (rule make_pme_ok; simp add: flags_ok_def flag_bits)+

lemma pte_pme_ok: "pme_ok shown (pte_to_pagemap_entry env shown addr pte)"
  unfolding pte_to_pagemap_entry_def
  by (auto simp: Let_def plain_pme_ok flags_ok_def flag_bits intro!: make_pme_ok split: option.split)

lemma thp_flags_ok:
  assumes "thp_start env shown pmd idx = (page, flags, frame)"
  shows "flags_ok (thp_flags env page flags)" and "\<not> shown \<Longrightarrow> frame = 0"
  using assms by (auto simp: thp_start_def thp_flags_def Let_def flags_ok_def flag_bits split: if_splits option.splits)

lemma hugetlb_flags_ok:
  assumes "hugetlb_start hg sd shown ptep addr = (flags, frame)"
  shows "flags_ok flags" and "\<not> shown \<Longrightarrow> frame = 0"
  using assms by (auto simp: hugetlb_start_def Let_def flags_ok_def flag_bits split: if_splits)

section \<open>The buffer\<close>

text \<open>Everything that was stored is fit to be seen.\<close>

definition buffer_ok :: "bool \<Rightarrow> pagemapread \<Rightarrow> bool" where
  "buffer_ok shown pm \<longleftrightarrow> pm_show_pfn pm = shown \<and> list_all (pme_ok shown) (take (pm_pos pm) (pm_buffer pm))"

lemma store_ok: "add_to_pagemap pme pm = (err, pm') \<Longrightarrow> buffer_ok shown pm \<Longrightarrow> pme_ok shown pme \<Longrightarrow> buffer_ok shown pm'"
proof -
  assume store: "add_to_pagemap pme pm = (err, pm')" and ok: "buffer_ok shown pm" "pme_ok shown pme"
  have "pm_show_pfn pm' = shown" using add_to_pagemap_show [OF store] ok(1) by (simp add: buffer_ok_def)
  moreover have "take (pm_pos pm') (pm_buffer pm') = take (pm_pos pm) (pm_buffer pm) @ (if pm_pos pm < length (pm_buffer pm) then [pme] else [])"
    using store by (auto simp: add_to_pagemap_def Let_def take_Suc_conv_app_nth list_update_beyond split: if_splits)
  ultimately show ?thesis using ok by (simp add: buffer_ok_def)
qed

lemma store_loop_ok:
  "store_loop cond entry step s pm = (err, s', pm') \<Longrightarrow> buffer_ok shown pm \<Longrightarrow> I s \<Longrightarrow>
    (\<And>s. I s \<Longrightarrow> pme_ok shown (entry s)) \<Longrightarrow> (\<And>s. I s \<Longrightarrow> I (step s)) \<Longrightarrow> buffer_ok shown pm'"
proof (induction cond entry step s pm rule: store_loop.induct)
  case (1 cond entry step s pm)
  note run = 1(2) and ok = 1(3)
  show ?case
  proof (cases "cond s")
    case True
    obtain e q where add: "add_to_pagemap (entry s) pm = (e, q)" by fastforce
    then have q: "buffer_ok shown q" using store_ok [OF add ok] 1(5) [OF 1(4)] by simp
    show ?thesis
    proof (cases "e = 0")
      case zero: True
      then have "store_loop cond entry step (step s) q = (err, s', pm')"
        using run True add by (simp add: store_loop.simps [of cond entry step s])
      then show ?thesis using 1(1) [OF True refl add [symmetric]] zero q 1(4-6) by simp
    next
      case False
      then show ?thesis using run True add q by (simp add: store_loop.simps [of cond entry step s])
    qed
  next
    case False
    then show ?thesis using run ok by (simp add: store_loop.simps [of cond entry step s])
  qed
qed

lemma fill_ok:
  "store_loop cond (\<lambda>_. pme) step s pm = (err, s', pm') \<Longrightarrow> buffer_ok shown pm \<Longrightarrow> pme_ok shown pme \<Longrightarrow> buffer_ok shown pm'"
  by (erule store_loop_ok [where I = "\<lambda>_. True"]) simp_all

section \<open>The callbacks\<close>

lemma pte_loop_ok: "pte_loop env ptep_get pte addr end pm = (err, pm') \<Longrightarrow> buffer_ok shown pm \<Longrightarrow> buffer_ok shown pm'"
proof (induction env ptep_get pte addr "end" pm rule: pte_loop.induct)
  case (1 env ptep_get pte addr "end" pm)
  obtain e q where add: "add_to_pagemap (pte_to_pagemap_entry env (pm_show_pfn pm) addr (ptep_get pte)) pm = (e, q)" by fastforce
  then have "buffer_ok shown q" using store_ok [OF add 1(3)] pte_pme_ok 1(3) by (simp add: buffer_ok_def)
  then show ?case
    using 1 add by (auto simp: pte_loop.simps [of env ptep_get pte addr] Let_def split: if_splits)
qed

lemma thp_ok: "pagemap_pmd_range_thp env pmd addr end pm = (err, pm') \<Longrightarrow> buffer_ok shown pm \<Longrightarrow> buffer_ok shown pm'"
proof -
  assume run: "pagemap_pmd_range_thp env pmd addr end pm = (err, pm')" and ok: "buffer_ok shown pm"
  have sh: "pm_show_pfn pm = shown" using ok by (simp add: buffer_ok_def)
  obtain page flags frame where start: "thp_start env shown pmd (drop_bit 12 (addr AND 0x1FFFFF)) = (page, flags, frame)"
    by (metis prod_cases3)
  note fl = thp_flags_ok [OF start]
  obtain t where "store_loop (\<lambda>(frame, addr). addr \<noteq> end) (\<lambda>(frame, addr). make_pme frame (thp_flags env page flags))
      (\<lambda>(frame, addr). (thp_next shown flags frame, addr + 0x1000)) (frame, addr) pm = (err, t, pm')"
    using run unfolding pagemap_pmd_range_thp_def sh Let_def start prod.case thp_loop_store by (auto split: prod.splits)
  then show ?thesis
    by (rule store_loop_ok [where I = "\<lambda>(frame, addr). \<not> shown \<longrightarrow> frame = 0"])
      (use ok fl in \<open>auto simp: thp_next_def intro!: make_pme_ok\<close>)
qed

lemma hugetlb_ok: "pagemap_hugetlb_range hg sd ptep addr end pm = (err, pm') \<Longrightarrow> buffer_ok shown pm \<Longrightarrow> buffer_ok shown pm'"
proof -
  assume run: "pagemap_hugetlb_range hg sd ptep addr end pm = (err, pm')" and ok: "buffer_ok shown pm"
  have sh: "pm_show_pfn pm = shown" using ok by (simp add: buffer_ok_def)
  obtain flags frame where start: "hugetlb_start hg sd shown ptep addr = (flags, frame)" by fastforce
  note fl = hugetlb_flags_ok [OF start]
  obtain t where "store_loop (\<lambda>(frame, addr). addr \<noteq> end) (\<lambda>(frame, addr). make_pme frame flags)
      (hugetlb_next shown flags) (frame, addr) pm = (err, t, pm')"
    using run by (auto simp: pagemap_hugetlb_range_def sh start split: prod.splits)
  then show ?thesis
    by (rule store_loop_ok [where I = "\<lambda>(frame, addr). \<not> shown \<longrightarrow> frame = 0"])
      (use ok fl in \<open>auto simp: hugetlb_next_def intro!: make_pme_ok\<close>)
qed

lemma hole_ok: "pagemap_pte_hole areas addr end pm = (err, pm') \<Longrightarrow> buffer_ok shown pm \<Longrightarrow> buffer_ok shown pm'"
proof (induction areas addr "end" pm rule: pagemap_pte_hole.induct)
  case (1 areas addr "end" pm)
  note IH = 1(1) and run = 1(2) and ok = 1(3)
  show ?case
  proof (cases "addr < end")
    case False
    then show ?thesis using run ok by (simp add: pagemap_pte_hole.simps [of areas addr])
  next
    case True
    define vma where "vma = find_vma areas addr"
    define hole_end where "hole_end = (case vma of Some v \<Rightarrow> min end (pa_start v) | None \<Rightarrow> end)"
    obtain e a q where one: "store_loop (\<lambda>a. a < hole_end) (\<lambda>_. make_pme 0 0) (\<lambda>a. a + 0x1000) addr pm = (e, a, q)"
      by (metis prod_cases3)
    then have q: "buffer_ok shown q" using fill_ok [OF one ok] plain_pme_ok by simp
    show ?thesis
    proof (cases "e = 0 \<and> vma \<noteq> None")
      case False
      then show ?thesis
        using run True one q by (auto simp: pagemap_pte_hole.simps [of areas addr] vma_def [symmetric] hole_end_def [symmetric] Let_def
            split: if_splits option.splits)
    next
      case e: True
      then obtain v where v: "vma = Some v" by auto
      define pme where "pme = (if vma_softdirty (pa_env v) then make_pme 0 PM_SOFT_DIRTY else make_pme 0 0)"
      obtain f b r where two: "store_loop (\<lambda>a. a < min end (pa_end v)) (\<lambda>_. pme) (\<lambda>a. a + 0x1000) a q = (f, b, r)"
        by (metis prod_cases3)
      then have r: "buffer_ok shown r" using fill_ok [OF two q] plain_pme_ok by (simp add: pme_def)
      have "pagemap_pte_hole areas addr end pm = (if f \<noteq> 0 then (f, r) else pagemap_pte_hole areas b end r)"
        using True one two e v
        by (simp add: pagemap_pte_hole.simps [of areas addr] vma_def [symmetric] hole_end_def pme_def [symmetric] Let_def)
      then show ?thesis
        using run r IH [of vma "make_pme 0 0" hole_end "(e, a, q)" e "(a, q)" a q v pme "(f, b, r)" f "(b, r)" b r] True one two e v
        by (auto simp: vma_def hole_end_def pme_def split: if_splits)
    qed
  qed
qed

section \<open>The read\<close>

text \<open>A chunk copies a part of what was stored.\<close>

lemma copied_ok:
  assumes "buffer_ok shown pm"
  shows "list_all (pme_ok shown) (take (unat (min (cnt :: u64) (8 * of_nat (pm_pos pm))) div 8) (pm_buffer pm))"
proof -
  let ?len = "min cnt (8 * of_nat (pm_pos pm))"
  have "unat ?len \<le> unat (8 * of_nat (pm_pos pm) :: u64)" by (simp add: min_def word_le_nat_alt)
  also have "\<dots> = 8 * pm_pos pm mod 2 ^ 64"
    using unat_of_nat [of "8 * pm_pos pm", where 'a = 64] by simp
  also have "\<dots> \<le> 8 * pm_pos pm" by (rule mod_less_eq_dividend)
  finally have "unat ?len div 8 \<le> pm_pos pm" by linarith
  then have "set (take (unat ?len div 8) (pm_buffer pm)) \<subseteq> set (take (pm_pos pm) (pm_buffer pm))" by (rule set_take_subset_set_take)
  then show ?thesis using assms by (auto simp: buffer_ok_def list_all_iff)
qed

lemma chunks_ok:
  "pagemap_chunks re walk mm k pm end_vaddr start_vaddr cnt ret copied = (res, out, tr) \<Longrightarrow> buffer_ok shown pm \<Longrightarrow>
    (\<And>start end pm err pm'. walk start end pm = (err, pm') \<Longrightarrow> buffer_ok shown pm \<Longrightarrow> buffer_ok shown pm') \<Longrightarrow>
    list_all (pme_ok shown) out"
proof (induction re walk mm k pm end_vaddr start_vaddr cnt ret copied arbitrary: res out tr rule: pagemap_chunks.induct)
  case (1 re walk mm k pm end_vaddr start_vaddr cnt ret copied)
  note run = 1(2) and keeps = 1(4)
  show ?case
  proof (cases "cnt \<noteq> 0 \<and> start_vaddr < end_vaddr \<and> re_lock re k = 0 \<and> \<not> re_copy_fails re k")
    case True
    let ?nxt = "chunk_end start_vaddr end_vaddr"
    obtain ret' pm' where w: "walk start_vaddr ?nxt (pm\<lparr>pm_pos := 0\<rparr>) = (ret', pm')" by fastforce
    have ok: "buffer_ok shown pm'" by (rule keeps [OF w]) (use 1(3) in \<open>simp add: buffer_ok_def\<close>)
    let ?len = "min cnt (8 * of_nat (pm_pos pm'))"
    obtain res' out' tr' where rec: "pagemap_chunks re walk mm (k + 1) pm' end_vaddr ?nxt (cnt - ?len) ret'
        (copied + int (unat ?len)) = (res', out', tr')"
      by (metis prod_cases3)
    have "list_all (pme_ok shown) out'" using 1(1) True w rec ok keeps by simp
    moreover have "out = take (unat ?len div 8) (pm_buffer pm') @ out'"
      using run True w rec by (subst (asm) pagemap_chunks.simps) (simp add: Let_def)
    ultimately show ?thesis using copied_ok [OF ok, of cnt] by simp
  next
    case False
    then show ?thesis
      using run by (subst (asm) pagemap_chunks.simps) (auto simp: Let_def split: if_splits prod.splits)
  qed
qed

text \<open>A walker that keeps the buffer fit to be seen, and what a read with it returns.\<close>

locale entry_keeper =
  fixes walk :: walker
  assumes walk_ok: "walk start end pm = (err, pm') \<Longrightarrow> buffer_ok shown pm \<Longrightarrow> buffer_ok shown pm'"
begin

lemma read_ok: "pagemap_read re walk cnt ppos = (ret, ppos', out, tr) \<Longrightarrow> list_all (pme_ok (re_capable re)) out"
  by (auto simp: pagemap_read_def Let_def buffer_ok_def split: if_splits option.splits prod.splits sum.splits
      dest!: chunks_ok [where shown = "re_capable re", OF _ _ walk_ok])

end

lemma area_walk_ok: "area_walk sp v start end pm = (err, pm') \<Longrightarrow> buffer_ok shown pm \<Longrightarrow> buffer_ok shown pm'"
  by (auto simp: area_walk_def pagemap_pmd_range_def split: option.splits dest: hugetlb_ok thp_ok pte_loop_ok hole_ok)

lemma space_walk_ok: "space_walk sp start end pm = (err, pm') \<Longrightarrow> buffer_ok shown pm \<Longrightarrow> buffer_ok shown pm'"
proof (induction sp start "end" pm rule: space_walk.induct)
  case (1 sp start "end" pm)
  show ?case
  proof (cases "find_vma (as_areas sp) start")
    case None
    then show ?thesis using 1(2,3) hole_ok by (auto simp: space_walk.simps [of sp start] split: if_splits)
  next
    case (Some v)
    obtain nxt e q where step: "(if start < pa_start v
          then (min end (pa_start v), pagemap_pte_hole (as_areas sp) start (min end (pa_start v)) pm)
          else (min end (pa_end v), area_walk sp v start (min end (pa_end v)) pm)) = (nxt, e, q)"
      by (metis prod_cases3)
    then have "buffer_ok shown q" using 1(3) hole_ok area_walk_ok by (auto split: if_splits)
    then show ?thesis
      using 1 Some step by (auto simp: space_walk.simps [of sp start] Let_def split: if_splits)
  qed
qed

interpretation seen: entry_keeper "space_walk sp" for sp
  by unfold_locales (rule space_walk_ok)

text \<open>
  C4. Every entry that a read of \<open>pagemap\<close> returns is well-formed, whatever the address space holds,
  whatever the request is and however the read ends: the reserved bits 59 and 60 are clear, no page is
  both present and swapped, only a present page is mapped exclusively; and a reader without the
  capability never gets a bit of a frame number or of a swap offset, of tables, huge pages and
  \<open>hugetlb\<close> pages alike.
\<close>

theorem pagemap_entries_ok:
  "case pagemap_read re (space_walk sp) cnt ppos of (ret, ppos', out, tr) \<Rightarrow> list_all (pme_ok (re_capable re)) out"
  using seen.read_ok [of re sp cnt ppos] by (auto split: prod.split)

end
