(* ===== verification/Entry_Memory.thy ===== *)
theory Entry_Memory
  imports Entry_Ops
begin

text \<open>
  Entries in memory: the operations of \<open>kernel_module/pgtable.h\<close> and \<open>pgtable_64.h\<close> that update an
  entry while the processors use it. The processors set the accessed bit of a present entry and the
  dirty bit of a writable one at any moment; the kernel's own updates of an entry are serialised by the
  page-table lock. An operation is a program of reads, writes, exchanges and compare-and-exchanges of
  one entry, run in an arbitrary order with the accesses of the processors.
\<close>

unbundle bit_operations_syntax

section \<open>Programs on one entry\<close>

text \<open>
  The continuation of a \<open>Cmpxchg old new\<close> that succeeds and of one that fails, which gets the value
  found. A loop need not end, so programs are possibly infinite.
\<close>

codatatype 'a prog =
    Ret 'a
  | Read "u64 \<Rightarrow> 'a prog"
  | Write u64 "'a prog"
  | Xchg u64 "u64 \<Rightarrow> 'a prog"
  | Cmpxchg u64 u64 "'a prog" "u64 \<Rightarrow> 'a prog"

definition kernel_step :: "'a prog \<Rightarrow> u64 \<Rightarrow> 'a prog \<times> u64" where
  "kernel_step p e = (case p of
     Ret a \<Rightarrow> (Ret a, e)
   | Read k \<Rightarrow> (k e, e)
   | Write new k \<Rightarrow> (k, new)
   | Xchg new k \<Rightarrow> (k e, new)
   | Cmpxchg old new yes no \<Rightarrow> if e = old then (yes, new) else (no e, e))"

text \<open>What a processor does with an entry: it loads or stores through it when the entry allows that.\<close>

datatype access = Load | Store

definition allowed :: "access \<Rightarrow> u64 \<Rightarrow> bool" where
  "allowed h e \<longleftrightarrow> bit e 0 \<and> (h = Store \<longrightarrow> bit e 1)"

definition mmu_step :: "access \<Rightarrow> u64 \<Rightarrow> u64" where
  "mmu_step h e = (if allowed h e then e OR (case h of Load \<Rightarrow> PG_ACCESSED | Store \<Rightarrow> PG_ACCESSED OR PG_DIRTY) else e)"

text \<open>A schedule of both, and whether a store to the page got through.\<close>

datatype event = Cpu | Mmu access

fun run :: "event list \<Rightarrow> 'a prog \<times> u64 \<Rightarrow> 'a prog \<times> u64" where
  "run [] s = s"
| "run (Cpu # es) (p, e) = run es (kernel_step p e)"
| "run (Mmu h # es) (p, e) = run es (p, mmu_step h e)"

fun stored :: "event list \<Rightarrow> 'a prog \<times> u64 \<Rightarrow> bool" where
  "stored [] s = False"
| "stored (Cpu # es) (p, e) = stored es (kernel_step p e)"
| "stored (Mmu h # es) (p, e) = (h = Store \<and> allowed h e \<or> stored es (p, mmu_step h e))"

fun mmus :: "event list \<Rightarrow> access list" where
  "mmus [] = []"
| "mmus (Cpu # es) = mmus es"
| "mmus (Mmu h # es) = h # mmus es"

definition mmu_run :: "access list \<Rightarrow> u64 \<Rightarrow> u64" where
  "mmu_run hs e = fold mmu_step hs e"

fun wrote :: "access list \<Rightarrow> u64 \<Rightarrow> bool" where
  "wrote [] e = False"
| "wrote (h # hs) e = (h = Store \<and> allowed h e \<or> wrote hs (mmu_step h e))"

section \<open>The operations\<close>

text \<open>
  Each takes what follows it, \<open>k\<close>, which gets its result. The checks \<open>page_table_check\<close>, which look at
  the values only, are left out.
\<close>

definition native_set_pte :: "u64 \<Rightarrow> 'a prog \<Rightarrow> 'a prog" where
  "native_set_pte pte k = Write pte k"

definition native_set_pmd :: "u64 \<Rightarrow> 'a prog \<Rightarrow> 'a prog" where
  "native_set_pmd pmd k = Write pmd k"

definition native_set_pud :: "u64 \<Rightarrow> 'a prog \<Rightarrow> 'a prog" where
  "native_set_pud pud k = Write pud k"

definition native_pte_clear :: "'a prog \<Rightarrow> 'a prog" where
  "native_pte_clear k = native_set_pte 0 k"

definition native_pmd_clear :: "'a prog \<Rightarrow> 'a prog" where
  "native_pmd_clear k = native_set_pmd 0 k"

definition native_pud_clear :: "'a prog \<Rightarrow> 'a prog" where
  "native_pud_clear k = native_set_pud 0 k"

definition native_local_ptep_get_and_clear :: "(u64 \<Rightarrow> 'a prog) \<Rightarrow> 'a prog" where
  "native_local_ptep_get_and_clear k = Read (\<lambda>res. native_pte_clear (k res))"

definition native_local_pmdp_get_and_clear :: "(u64 \<Rightarrow> 'a prog) \<Rightarrow> 'a prog" where
  "native_local_pmdp_get_and_clear k = Read (\<lambda>res. native_pmd_clear (k res))"

definition native_local_pudp_get_and_clear :: "(u64 \<Rightarrow> 'a prog) \<Rightarrow> 'a prog" where
  "native_local_pudp_get_and_clear k = Read (\<lambda>res. native_pud_clear (k res))"

text \<open>With several processors (\<open>CONFIG_SMP\<close>) an entry is cleared by an exchange.\<close>

definition native_ptep_get_and_clear :: "bool \<Rightarrow> (u64 \<Rightarrow> 'a prog) \<Rightarrow> 'a prog" where
  "native_ptep_get_and_clear smp k = (if smp then Xchg 0 k else Read (\<lambda>ret. native_pte_clear (k ret)))"

definition native_pmdp_get_and_clear :: "bool \<Rightarrow> (u64 \<Rightarrow> 'a prog) \<Rightarrow> 'a prog" where
  "native_pmdp_get_and_clear smp k = (if smp then Xchg 0 k else Read (\<lambda>ret. native_pmd_clear (k ret)))"

definition native_pudp_get_and_clear :: "bool \<Rightarrow> (u64 \<Rightarrow> 'a prog) \<Rightarrow> 'a prog" where
  "native_pudp_get_and_clear smp k = (if smp then Xchg 0 k else Read (\<lambda>ret. native_pud_clear (k ret)))"

definition ptep_get_and_clear :: "bool \<Rightarrow> (u64 \<Rightarrow> 'a prog) \<Rightarrow> 'a prog" where
  "ptep_get_and_clear smp k = native_ptep_get_and_clear smp (\<lambda>pte. k pte)"

definition ptep_get_and_clear_full :: "bool \<Rightarrow> bool \<Rightarrow> (u64 \<Rightarrow> 'a prog) \<Rightarrow> 'a prog" where
  "ptep_get_and_clear_full smp full k =
    (if full then native_local_ptep_get_and_clear (\<lambda>pte. k pte) else ptep_get_and_clear smp (\<lambda>pte. k pte))"

definition pmdp_huge_get_and_clear :: "bool \<Rightarrow> (u64 \<Rightarrow> 'a prog) \<Rightarrow> 'a prog" where
  "pmdp_huge_get_and_clear smp k = native_pmdp_get_and_clear smp (\<lambda>pmd. k pmd)"

definition pudp_huge_get_and_clear :: "bool \<Rightarrow> (u64 \<Rightarrow> 'a prog) \<Rightarrow> 'a prog" where
  "pudp_huge_get_and_clear smp k = native_pudp_get_and_clear smp (\<lambda>pud. k pud)"

definition set_pmd_at :: "u64 \<Rightarrow> 'a prog \<Rightarrow> 'a prog" where
  "set_pmd_at pmd k = native_set_pmd pmd k"

definition set_pud_at :: "u64 \<Rightarrow> 'a prog \<Rightarrow> 'a prog" where
  "set_pud_at pud k = native_set_pud pud k"

text \<open>A loop \<open>do { new = f(old); } while (!try_cmpxchg(p, &old, new))\<close>: a failure stores the value found in \<open>old\<close>.\<close>

primcorec cmpxchg_loop :: "(u64 \<Rightarrow> u64) \<Rightarrow> 'a prog \<Rightarrow> u64 \<Rightarrow> 'a prog" where
  "cmpxchg_loop f k old = Cmpxchg old (f old) k (\<lambda>now. cmpxchg_loop f k now)"

definition ptep_set_wrprotect :: "'a prog \<Rightarrow> 'a prog" where
  "ptep_set_wrprotect k = Read (\<lambda>old_pte. cmpxchg_loop pte_wrprotect k old_pte)"

definition pmdp_set_wrprotect :: "'a prog \<Rightarrow> 'a prog" where
  "pmdp_set_wrprotect k = Read (\<lambda>old_pmd. cmpxchg_loop pmd_wrprotect k old_pmd)"

definition pmdp_establish :: "bool \<Rightarrow> u64 \<Rightarrow> (u64 \<Rightarrow> 'a prog) \<Rightarrow> 'a prog" where
  "pmdp_establish smp pmd k = (if smp then Xchg pmd k else Read (\<lambda>old. Write pmd (k old)))"

definition pudp_establish :: "bool \<Rightarrow> u64 \<Rightarrow> (u64 \<Rightarrow> 'a prog) \<Rightarrow> 'a prog" where
  "pudp_establish smp pud k = (if smp then Xchg pud k else Read (\<lambda>old. Write pud (k old)))"

section \<open>The processors\<close>

lemma mmu_run_simps [simp]: "mmu_run [] e = e" "mmu_run (h # hs) e = mmu_run hs (mmu_step h e)"
  by (simp_all add: mmu_run_def)

lemma bit_mmu_step: "bit (mmu_step h e) n \<longleftrightarrow> bit e n \<or> allowed h e \<and> (n = 5 \<or> n = 6 \<and> h = Store)"
  by (cases h) (auto simp: mmu_step_def bit_or_iff bit_page_bit)

lemma allowed_step: "allowed h (mmu_step k e) = allowed h e"
  by (simp add: allowed_def bit_mmu_step)

lemma wrote_step: "wrote hs (mmu_step h e) = wrote hs e"
proof (induction hs arbitrary: h e)
  case (Cons k hs)
  then show ?case by (simp add: allowed_step)
qed simp

lemma wrote_iff: "wrote hs e \<longleftrightarrow> allowed Store e \<and> Store \<in> set hs"
  by (induction hs) (auto simp: wrote_step)

text \<open>The processors change the accessed bit and the dirty bit only.\<close>

lemma bit_mmu_run:
  "bit (mmu_run hs e) n \<longleftrightarrow> bit e n \<or> n = 5 \<and> (\<exists>h \<in> set hs. allowed h e) \<or> n = 6 \<and> wrote hs e"
proof (induction hs arbitrary: e)
  case (Cons h hs)
  show ?case unfolding mmu_run_simps Cons.IH by (auto simp: allowed_step wrote_step bit_mmu_step)
qed simp

lemma run_Ret: "run es (Ret a, e) = (Ret a, mmu_run (mmus es) e) \<and> stored es (Ret a, e) = wrote (mmus es) e"
proof (induction es arbitrary: e)
  case (Cons ev es)
  then show ?case by (cases ev) (simp_all add: kernel_step_def)
qed simp

section \<open>Operations that are atomic for the processors\<close>

text \<open>The contract of a write-protection in memory.\<close>

definition protected :: "u64 \<Rightarrow> bool \<Rightarrow> u64 \<Rightarrow> bool" where
  "protected e wr e' \<longleftrightarrow> \<not> bit e' 1 \<and> no_shstk e' \<and> (pte_dirty e' \<longleftrightarrow> pte_dirty e \<or> wr) \<and>
     (pte_young e \<longrightarrow> pte_young e') \<and> (pte_soft_dirty e' \<longleftrightarrow> pte_soft_dirty e) \<and> other_bits e' = other_bits e"

lemma protected_bits:
  assumes "\<And>n. n \<noteq> 5 \<Longrightarrow> bit e' n \<longleftrightarrow> (if n = 58 then bit x 58 \<or> bit x 6 else n \<noteq> 1 \<and> n \<noteq> 6 \<and> bit x n)"
    and "bit x 6 \<longleftrightarrow> bit e 6 \<or> wr" "\<And>n. n \<noteq> 5 \<Longrightarrow> n \<noteq> 6 \<Longrightarrow> bit x n = bit e n" "bit e 5 \<Longrightarrow> bit e' 5"
  shows "protected e wr e'"
proof -
  have "other_bits e' = other_bits e"
    by (rule bit_word_eqI) (use assms(1,3) in \<open>auto simp: bit_other_bits\<close>)
  then show ?thesis using assms by (auto simp: protected_def no_shstk_bits tests)
qed

text \<open>The contract of taking an entry out of a table.\<close>

definition taken :: "u64 \<Rightarrow> bool \<Rightarrow> u64 \<Rightarrow> u64 \<Rightarrow> bool" where
  "taken e wr a e' \<longleftrightarrow> e' = 0 \<and> (pte_dirty a \<longleftrightarrow> pte_dirty e \<or> wr) \<and> (pte_young e \<longrightarrow> pte_young a) \<and>
     (pte_soft_dirty a \<longleftrightarrow> pte_soft_dirty e) \<and> bit a 1 = bit e 1 \<and> other_bits a = other_bits e"

lemma taken_bits:
  assumes "a = x" "bit x 6 \<longleftrightarrow> bit e 6 \<or> wr" "\<And>n. n \<noteq> 5 \<Longrightarrow> n \<noteq> 6 \<Longrightarrow> bit x n = bit e n" "bit e 5 \<Longrightarrow> bit x 5" "e' = 0"
  shows "taken e wr a e'"
proof -
  have "other_bits x = other_bits e" by (rule bit_word_eqI) (use assms(3) in \<open>auto simp: bit_other_bits\<close>)
  then show ?thesis using assms by (auto simp: taken_def tests)
qed

text \<open>
  An operation acts on the entry at one moment, with \<open>f\<close>, and returns \<open>g\<close> of the value it had then; it
  leaves an entry through which nothing can be stored.
\<close>

definition at_once :: "event list \<Rightarrow> 'a prog \<Rightarrow> u64 \<Rightarrow> (u64 \<Rightarrow> u64) \<Rightarrow> 'a \<Rightarrow> (u64 \<Rightarrow> 'a) \<Rightarrow> u64 \<Rightarrow> bool" where
  "at_once es op e f a g e' \<longleftrightarrow> (\<exists>pre post. mmus es = pre @ post \<and> e' = mmu_run post (f (mmu_run pre e)) \<and>
     a = g (mmu_run pre e) \<and> stored es (op, e) = (wrote pre e \<or> wrote post (f (mmu_run pre e))))"

lemma at_once_mmu: "at_once es op (mmu_step h e) f a g e' \<Longrightarrow> at_once (Mmu h # es) op e f a g e'"
  unfolding at_once_def
  by (elim exE, rule_tac x = "h # pre" in exI, rule_tac x = post in exI) (auto simp: wrote_step)

locale atomic_op =
  fixes op :: "'a prog" and f :: "u64 \<Rightarrow> u64" and g :: "u64 \<Rightarrow> 'a"
  assumes atomic: "run es (op, e) = (Ret a, e') \<Longrightarrow> at_once es op e f a g e'"
    and closes: "\<not> allowed Store (f x)"
begin

text \<open>No store of a processor goes unnoticed: it is in the value the operation saw, or it was refused.\<close>

lemma nothing_lost:
  assumes "run es (op, e) = (Ret a, e')"
  obtains x where "a = g x" "bit x 6 \<longleftrightarrow> bit e 6 \<or> stored es (op, e)" "\<And>n. n \<noteq> 5 \<Longrightarrow> n \<noteq> 6 \<Longrightarrow> bit x n = bit e n"
    "bit e 5 \<Longrightarrow> bit x 5" "\<And>n. n \<noteq> 5 \<Longrightarrow> bit e' n = bit (f x) n" "bit (f x) 5 \<Longrightarrow> bit e' 5"
    "\<not> bit (f x) 0 \<Longrightarrow> e' = f x"
proof -
  obtain pre post where pp: "e' = mmu_run post (f (mmu_run pre e))" "a = g (mmu_run pre e)"
    "stored es (op, e) = (wrote pre e \<or> wrote post (f (mmu_run pre e)))"
    using atomic [OF assms] by (auto simp: at_once_def)
  define x where "x = mmu_run pre e"
  have late: "\<not> wrote post (f x)" using closes by (simp add: wrote_iff)
  have "e' = f x" if "\<not> bit (f x) 0"
    unfolding pp(1) x_def [symmetric] using that late by (intro bit_word_eqI) (simp add: bit_mmu_run allowed_def)
  then show thesis
    using that [of x] pp late by (auto simp: x_def [symmetric] bit_mmu_run) (auto simp: x_def bit_mmu_run)
qed

lemma protects:
  assumes "run es (op, e) = (Ret a, e')"
    and "\<And>x n. bit (f x) n \<longleftrightarrow> (if n = 58 then bit x 58 \<or> bit x 6 else n \<noteq> 1 \<and> n \<noteq> 6 \<and> bit x n)"
  shows "protected e (stored es (op, e)) e'"
proof (rule nothing_lost [OF assms(1)])
  fix x
  assume x: "bit x 6 \<longleftrightarrow> bit e 6 \<or> stored es (op, e)" "\<And>n. n \<noteq> 5 \<Longrightarrow> n \<noteq> 6 \<Longrightarrow> bit x n = bit e n"
    "bit e 5 \<Longrightarrow> bit x 5" "\<And>n. n \<noteq> 5 \<Longrightarrow> bit e' n = bit (f x) n" "bit (f x) 5 \<Longrightarrow> bit e' 5"
  show ?thesis
    by (rule protected_bits [of e' x]) (use x assms(2) in simp_all)
qed

lemma takes:
  assumes "run es (op, e) = (Ret a, e')" and "\<And>x. f x = 0"
  shows "\<exists>x. a = g x \<and> taken e (stored es (op, e)) x e'"
proof (rule nothing_lost [OF assms(1)])
  fix x
  assume x: "a = g x" "bit x 6 \<longleftrightarrow> bit e 6 \<or> stored es (op, e)" "\<And>n. n \<noteq> 5 \<Longrightarrow> n \<noteq> 6 \<Longrightarrow> bit x n = bit e n"
    "bit e 5 \<Longrightarrow> bit x 5" "\<not> bit (f x) 0 \<Longrightarrow> e' = f x"
  have "taken e (stored es (op, e)) x e'"
    by (rule taken_bits [of x x]) (use x assms(2) in simp_all)
  then show ?thesis using x(1) by blast
qed

end

lemma run_xchg:
  "run es (Xchg new k, e) = (Ret a, e') \<Longrightarrow> (\<And>v. k v = Ret (g v)) \<Longrightarrow> at_once es (Xchg new k) e (\<lambda>_. new) a g e'"
proof (induction es arbitrary: e)
  case (Cons ev es)
  show ?case
  proof (cases ev)
    case Cpu
    then have "a = g e" "e' = mmu_run (mmus es) new" "stored (ev # es) (Xchg new k, e) = wrote (mmus es) new"
      using Cons.prems run_Ret [of es "g e" new] by (simp_all add: kernel_step_def)
    then show ?thesis using Cpu unfolding at_once_def by (intro exI [of _ "[]"] exI [of _ "mmus es"]) simp
  next
    case (Mmu h)
    then show ?thesis using Cons by (auto intro: at_once_mmu)
  qed
qed simp

lemma run_loop:
  "run es (cmpxchg_loop f (Ret a) old, e) = (Ret b, e') \<Longrightarrow> at_once es (cmpxchg_loop f (Ret a) old) e f b (\<lambda>_. a) e'"
proof (induction es arbitrary: e old)
  case (Cons ev es)
  note loop = cmpxchg_loop.code [of f "Ret a" old]
  show ?case
  proof (cases ev)
    case Cpu
    show ?thesis
    proof (cases "e = old")
      case True
      then have "b = a" "e' = mmu_run (mmus es) (f e)" "stored (ev # es) (cmpxchg_loop f (Ret a) old, e) = wrote (mmus es) (f e)"
        using Cpu Cons.prems run_Ret [of es a "f e"] by (simp_all add: kernel_step_def loop)
      then show ?thesis using Cpu unfolding at_once_def by (intro exI [of _ "[]"] exI [of _ "mmus es"]) simp
    next
      case False
      then have step: "kernel_step (cmpxchg_loop f (Ret a) old) e = (cmpxchg_loop f (Ret a) e, e)"
        by (simp add: kernel_step_def loop)
      then show ?thesis using Cons Cpu by (simp add: at_once_def)
    qed
  next
    case (Mmu h)
    then show ?thesis using Cons by (auto intro: at_once_mmu)
  qed
next
  case Nil
  then show ?case using cmpxchg_loop.code [of f "Ret a" old] by simp
qed

lemma run_update:
  "run es (Read (\<lambda>old. cmpxchg_loop f (Ret a) old), e) = (Ret b, e') \<Longrightarrow>
    at_once es (Read (\<lambda>old. cmpxchg_loop f (Ret a) old)) e f b (\<lambda>_. a) e'"
proof (induction es arbitrary: e)
  case (Cons ev es)
  show ?case
  proof (cases ev)
    case Cpu
    then have "run es (cmpxchg_loop f (Ret a) e, e) = (Ret b, e')" using Cons.prems by (simp add: kernel_step_def)
    from run_loop [OF this] show ?thesis using Cpu by (simp add: at_once_def kernel_step_def)
  next
    case (Mmu h)
    then show ?thesis using Cons by (auto intro: at_once_mmu)
  qed
qed simp

lemma xchg_ends: "Cpu \<in> set es \<Longrightarrow> \<exists>a e'. run es (Xchg new Ret, e) = (Ret a, e')"
proof (induction es arbitrary: e)
  case (Cons ev es)
  then show ?case using run_Ret [of es e new] by (cases ev) (auto simp: kernel_step_def)
qed simp

text \<open>The loop is done after two steps of its own and one for each access that came in between.\<close>

lemma loop_ends:
  "length (mmus es) + (if e = old then 1 else 2) \<le> length (filter ((=) Cpu) es) \<Longrightarrow>
    \<exists>e'. run es (cmpxchg_loop f (Ret a) old, e) = (Ret a, e')"
proof (induction es arbitrary: e old)
  case (Cons ev es)
  note loop = cmpxchg_loop.code [of f "Ret a" old]
  show ?case
  proof (cases ev)
    case Cpu
    show ?thesis
    proof (cases "e = old")
      case True
      then show ?thesis using Cpu run_Ret [of es a "f old"] by (auto simp: kernel_step_def loop)
    next
      case False
      then have "kernel_step (cmpxchg_loop f (Ret a) old) e = (cmpxchg_loop f (Ret a) e, e)"
        by (simp add: kernel_step_def loop)
      then show ?thesis using Cons.IH [of e e] Cons.prems Cpu False by simp
    qed
  next
    case (Mmu h)
    have "\<exists>e'. run es (cmpxchg_loop f (Ret a) old, mmu_step h e) = (Ret a, e')"
      by (rule Cons.IH) (use Cons.prems Mmu in \<open>auto split: if_splits\<close>)
    then show ?thesis using Mmu by simp
  qed
qed (simp split: if_splits)

lemma update_ends:
  "length (mmus es) + 2 \<le> length (filter ((=) Cpu) es) \<Longrightarrow>
    \<exists>e'. run es (Read (\<lambda>old. cmpxchg_loop f (Ret a) old), e) = (Ret a, e')"
proof (induction es arbitrary: e)
  case (Cons ev es)
  show ?case
  proof (cases ev)
    case Cpu
    then show ?thesis using loop_ends [of es e e f a] Cons.prems by (simp add: kernel_step_def)
  next
    case (Mmu h)
    then show ?thesis using Cons.IH [of "mmu_step h e"] Cons.prems by simp
  qed
qed simp

section \<open>The kernel's operations are atomic\<close>

lemma wrprotect_closes: "\<not> allowed Store (pte_wrprotect x)" "\<not> allowed Store (pmd_wrprotect x)"
  by (auto simp: allowed_def pte_wrprotect_def pmd_wrprotect_def pte_mksaveddirty_def pmd_mksaveddirty_def
      pte_clear_flags_def pmd_clear_flags_def bit_mksaveddirty bit_and_iff bit_not_iff bit_page_bit)

interpretation pte_wp: atomic_op "ptep_set_wrprotect (Ret ())" pte_wrprotect "\<lambda>_. ()"
  by unfold_locales (use run_update wrprotect_closes in \<open>auto simp: ptep_set_wrprotect_def\<close>)

interpretation pmd_wp: atomic_op "pmdp_set_wrprotect (Ret ())" pmd_wrprotect "\<lambda>_. ()"
  by unfold_locales (use run_update wrprotect_closes in \<open>auto simp: pmdp_set_wrprotect_def\<close>)

lemma clear_atomic: "run es (Xchg 0 Ret, e) = (Ret a, e') \<Longrightarrow> at_once es (Xchg 0 Ret) e (\<lambda>_. 0) a (\<lambda>x. x) e'"
  using run_xchg [of es 0 Ret e a e' "\<lambda>x. x"] by simp

interpretation pte_clear: atomic_op "ptep_get_and_clear True Ret" "\<lambda>_. 0" "\<lambda>x. x"
  by unfold_locales (use clear_atomic in \<open>auto simp: ptep_get_and_clear_def native_ptep_get_and_clear_def allowed_def\<close>)

interpretation pmd_clear: atomic_op "pmdp_huge_get_and_clear True Ret" "\<lambda>_. 0" "\<lambda>x. x"
  by unfold_locales (use clear_atomic in \<open>auto simp: pmdp_huge_get_and_clear_def native_pmdp_get_and_clear_def allowed_def\<close>)

interpretation pud_clear: atomic_op "pudp_huge_get_and_clear True Ret" "\<lambda>_. 0" "\<lambda>x. x"
  by unfold_locales (use clear_atomic in \<open>auto simp: pudp_huge_get_and_clear_def native_pudp_get_and_clear_def allowed_def\<close>)

text \<open>What a write-protection leaves, in the terms of the tests.\<close>

lemma bit_wrprotect:
  "bit (pte_wrprotect x) n \<longleftrightarrow> (if n = 58 then bit x 58 \<or> bit x 6 else n \<noteq> 1 \<and> n \<noteq> 6 \<and> bit x n)"
  "bit (pmd_wrprotect x) n \<longleftrightarrow> (if n = 58 then bit x 58 \<or> bit x 6 else n \<noteq> 1 \<and> n \<noteq> 6 \<and> bit x n)"
  by (auto simp: pte_wrprotect_def pmd_wrprotect_def pte_mksaveddirty_def pmd_mksaveddirty_def pte_clear_flags_def
      pmd_clear_flags_def bit_mksaveddirty bit_and_iff bit_not_iff bit_page_bit dest: bit_u64_bound)

text \<open>
  C10. Write-protecting an entry in memory is correct under every interleaving with the accesses of the
  processors, on both levels: after two steps of its own and one for each access that comes in between,
  the operation has returned; the entry is then not writable and never in the form of a shadow stack;
  it says dirty exactly if it did before or some processor stored to the page meanwhile, so that no
  store is lost, and nothing else of it changed but the accessed bit.
\<close>

theorem set_wrprotect_races:
  assumes "length (mmus es) + 2 \<le> length (filter ((=) Cpu) es)"
  shows "(\<exists>e'. run es (ptep_set_wrprotect (Ret ()), e) = (Ret (), e') \<and>
      protected e (stored es (ptep_set_wrprotect (Ret ()), e)) e') \<and>
    (\<exists>e'. run es (pmdp_set_wrprotect (Ret ()), e) = (Ret (), e') \<and>
      protected e (stored es (pmdp_set_wrprotect (Ret ()), e)) e')"
proof
  obtain e' where r: "run es (ptep_set_wrprotect (Ret ()), e) = (Ret (), e')"
    using update_ends [OF assms, where f = pte_wrprotect and a = "()" and e = e] unfolding ptep_set_wrprotect_def by blast
  then show "\<exists>e'. run es (ptep_set_wrprotect (Ret ()), e) = (Ret (), e') \<and>
      protected e (stored es (ptep_set_wrprotect (Ret ()), e)) e'"
    using pte_wp.protects [OF r bit_wrprotect(1)] by blast
next
  obtain e' where r: "run es (pmdp_set_wrprotect (Ret ()), e) = (Ret (), e')"
    using update_ends [OF assms, where f = pmd_wrprotect and a = "()" and e = e] unfolding pmdp_set_wrprotect_def by blast
  then show "\<exists>e'. run es (pmdp_set_wrprotect (Ret ()), e) = (Ret (), e') \<and>
      protected e (stored es (pmdp_set_wrprotect (Ret ()), e)) e'"
    using pmd_wp.protects [OF r bit_wrprotect(2)] by blast
qed

theorem set_wrprotect_races_witness:
  "\<exists>e'. run [Cpu, Mmu Store, Cpu, Cpu] (ptep_set_wrprotect (Ret ()), 0x45007) = (Ret (), e') \<and>
     protected 0x45007 True e'"
proof -
  have "stored [Cpu, Mmu Store, Cpu, Cpu] (ptep_set_wrprotect (Ret ()), 0x45007)"
    by (simp add: ptep_set_wrprotect_def kernel_step_def allowed_def)
  then show ?thesis using set_wrprotect_races [of "[Cpu, Mmu Store, Cpu, Cpu]" "0x45007"] by simp
qed

text \<open>
  C32. Taking an entry out of a table with several processors loses no store: when the operation has
  returned, on any of the three levels, the entry is empty, and the value returned says dirty exactly
  if the entry did before or a processor stored to the page before it was taken out, which is every
  store that was let through at all; frame and rights are those it had.
\<close>

theorem get_and_clear_exact:
  assumes "op \<in> {ptep_get_and_clear True Ret, ptep_get_and_clear_full True False Ret, pmdp_huge_get_and_clear True Ret,
      pudp_huge_get_and_clear True Ret}" and "Cpu \<in> set es"
  shows "\<exists>a e'. run es (op, e) = (Ret a, e') \<and> taken e (stored es (op, e)) a e'"
proof -
  have "op = Xchg 0 Ret"
    using assms(1) by (auto simp: ptep_get_and_clear_full_def ptep_get_and_clear_def native_ptep_get_and_clear_def
        pmdp_huge_get_and_clear_def native_pmdp_get_and_clear_def pudp_huge_get_and_clear_def native_pudp_get_and_clear_def)
  then obtain a e' where r: "run es (op, e) = (Ret a, e')" using xchg_ends [OF assms(2)] by blast
  moreover have "taken e (stored es (op, e)) a e'"
    using assms(1) r pte_clear.takes pmd_clear.takes pud_clear.takes by (auto simp: ptep_get_and_clear_full_def)
  ultimately show ?thesis by blast
qed

theorem get_and_clear_exact_witness:
  "\<exists>a e'. run [Mmu Store, Cpu, Mmu Load] (ptep_get_and_clear True Ret, 0x45007) = (Ret a, e') \<and> taken 0x45007 True a e'"
proof -
  have "stored [Mmu Store, Cpu, Mmu Load] (ptep_get_and_clear True Ret, 0x45007)" by (simp add: allowed_def)
  then show ?thesis using get_and_clear_exact [of "ptep_get_and_clear True Ret" "[Mmu Store, Cpu, Mmu Load]" "0x45007"] by simp
qed

text \<open>
  C15. The variant for an address space that is being destroyed is right only there: when no processor
  uses the entry any more, two steps return the entry and leave it empty, but with processors running a
  store between the read and the write of a clean writable entry is lost: the page was written, and
  the value returned says clean.
\<close>

theorem full_clear_needs_idle:
  "(if mmus es = [] \<and> 2 \<le> length es then run es (ptep_get_and_clear_full smp True Ret, e) = (Ret e, 0) else True) \<and>
   (if allowed Store e \<and> \<not> pte_dirty e
    then stored [Cpu, Mmu Store, Cpu] (ptep_get_and_clear_full smp True Ret, e) \<and>
      (case run [Cpu, Mmu Store, Cpu] (ptep_get_and_clear_full smp True Ret, e) of
         (op, e') \<Rightarrow> op = Ret e \<and> \<not> pte_dirty e \<and> e' = 0)
    else True)"
proof -
  have idle: "run es (Ret e, 0) = (Ret e, 0)" if "mmus es = []" for es :: "event list"
    using run_Ret [of es e 0] that by simp
  have "run es (ptep_get_and_clear_full smp True Ret, e) = (Ret e, 0)" if es: "mmus es = []" "2 \<le> length es"
  proof -
    obtain x y zs where "es = x # y # zs" using es(2) by (cases es; cases "tl es") auto
    moreover from this have "x = Cpu" "y = Cpu" "mmus zs = []" using es(1) by (cases x; cases y; simp)+
    ultimately show ?thesis
      using idle by (simp add: kernel_step_def ptep_get_and_clear_full_def native_local_ptep_get_and_clear_def
          native_pte_clear_def native_set_pte_def)
  qed
  then show ?thesis
    by (simp add: kernel_step_def ptep_get_and_clear_full_def native_local_ptep_get_and_clear_def native_pte_clear_def
        native_set_pte_def)
qed

text \<open>Replacing an entry is atomic, too: the old value returned has every access up to the replacement.\<close>

lemma establish_at_once:
  "run es (pmdp_establish True pmd Ret, e) = (Ret a, e') \<Longrightarrow> at_once es (pmdp_establish True pmd Ret) e (\<lambda>_. pmd) a (\<lambda>x. x) e'"
  "run es (pudp_establish True pud Ret, e) = (Ret a, e') \<Longrightarrow> at_once es (pudp_establish True pud Ret) e (\<lambda>_. pud) a (\<lambda>x. x) e'"
  using run_xchg [of es _ Ret e a e' "\<lambda>x. x"] by (simp_all add: pmdp_establish_def pudp_establish_def)

end
