(* ===== verification/Entry_Formats.thy ===== *)
theory Entry_Formats
  imports Entry_Ops
begin

text \<open>
  Two formats of \<open>kernel_module/pgtable_64.h\<close> and \<open>pgtable.h\<close> beside the entries that map a page: entries
  that say where a page was swapped out to, and the pairs of top-level tables of page-table isolation.
\<close>

unbundle bit_operations_syntax

section \<open>Swap entries\<close>

text \<open>The macros \<open>__swp_type\<close>, \<open>__swp_offset\<close> and \<open>__swp_entry\<close>.\<close>

definition arch_swp_type :: "u64 \<Rightarrow> u64" where
  "arch_swp_type x = drop_bit (64 - 5) x"

definition arch_swp_offset :: "u64 \<Rightarrow> u64" where
  "arch_swp_offset x = drop_bit (9 + 5) (push_bit 5 (NOT x))"

definition arch_swp_entry :: "u64 \<Rightarrow> u64 \<Rightarrow> u64" where
  "arch_swp_entry t off = drop_bit 5 (push_bit (9 + 5) (NOT off)) OR push_bit (64 - 5) t"

text \<open>The marks a swapped entry can carry.\<close>

datatype swp_mark = Mark_soft_dirty | Mark_uffd_wp | Mark_exclusive

fun set_mark :: "swp_mark \<Rightarrow> u64 \<Rightarrow> u64" where
  "set_mark Mark_soft_dirty e = pte_swp_mksoft_dirty e"
| "set_mark Mark_uffd_wp e = pte_swp_mkuffd_wp e"
| "set_mark Mark_exclusive e = pte_swp_mkexclusive e"

fun clear_mark :: "swp_mark \<Rightarrow> u64 \<Rightarrow> u64" where
  "clear_mark Mark_soft_dirty e = pte_swp_clear_soft_dirty e"
| "clear_mark Mark_uffd_wp e = pte_swp_clear_uffd_wp e"
| "clear_mark Mark_exclusive e = pte_swp_clear_exclusive e"

fun has_mark :: "swp_mark \<Rightarrow> u64 \<Rightarrow> bool" where
  "has_mark Mark_soft_dirty e = pte_swp_soft_dirty e"
| "has_mark Mark_uffd_wp e = pte_swp_uffd_wp e"
| "has_mark Mark_exclusive e = pte_swp_exclusive e"

fun mark_bit :: "swp_mark \<Rightarrow> nat" where
  "mark_bit Mark_soft_dirty = 1" | "mark_bit Mark_uffd_wp = 2" | "mark_bit Mark_exclusive = 3"

fun change_mark :: "swp_mark \<times> bool \<Rightarrow> u64 \<Rightarrow> u64" where
  "change_mark (m, b) e = (if b then set_mark m e else clear_mark m e)"

lemma mark_bits:
  "bit (change_mark (m, b) e) n \<longleftrightarrow> (if n = mark_bit m then b else bit e n)" "has_mark m e \<longleftrightarrow> bit e (mark_bit m)"
proof -
  have set: "set_mark m e = e OR page_bit (mark_bit m)" and clear: "clear_mark m e = e AND NOT (page_bit (mark_bit m))"
    by (cases m; simp add: flag_op_defs)+
  have "mark_bit m < 64" by (cases m) simp_all
  then show "bit (change_mark (m, b) e) n \<longleftrightarrow> (if n = mark_bit m then b else bit e n)"
    unfolding change_mark.simps set clear by (cases b) (auto simp: word_bits bit_page_bit dest: bit_u64_bound)
  show "has_mark m e \<longleftrightarrow> bit e (mark_bit m)"
    by (cases m) (simp_all only: has_mark.simps mark_bit.simps tests pte_swp_exclusive_def and_page_bit bit_pte_flags, simp)
qed

lemma bit_swp_entry:
  "bit (arch_swp_entry t off) n \<longleftrightarrow> (if n < 9 then False else if n < 59 then \<not> bit off (n - 9) else n < 64 \<and> bit t (n - 59))"
proof -
  have places: "(9 :: nat) + 5 = 14" "(64 :: nat) - 5 = 59" by simp_all
  have "bit (drop_bit 5 (push_bit 14 (NOT off))) n \<longleftrightarrow> 14 \<le> 5 + n \<and> 5 + n < 64 \<and> 5 + n - 14 < 64 \<and> \<not> bit off (5 + n - 14)"
    unfolding bit_drop_bit_eq comp_def bit_push_bit_iff bit_not_iff by simp
  moreover have "5 + n - 14 = n - 9" by simp
  ultimately have "bit (drop_bit 5 (push_bit 14 (NOT off))) n \<longleftrightarrow> 9 \<le> n \<and> n < 59 \<and> \<not> bit off (n - 9)" by auto
  moreover have "bit (push_bit 59 t) n \<longleftrightarrow> 59 \<le> n \<and> n < 64 \<and> bit t (n - 59)"
    unfolding bit_push_bit_iff by simp
  moreover have "arch_swp_entry t off = drop_bit 5 (push_bit 14 (NOT off)) OR push_bit 59 t"
    unfolding arch_swp_entry_def by (simp only: places)
  ultimately have "bit (arch_swp_entry t off) n \<longleftrightarrow> 9 \<le> n \<and> n < 59 \<and> \<not> bit off (n - 9) \<or> 59 \<le> n \<and> n < 64 \<and> bit t (n - 59)"
    by (simp only: bit_or_iff)
  then show ?thesis by (simp add: not_less)
qed

lemma no_high_bits:
  fixes x :: u64
  assumes "unat x < 2 ^ k" "k \<le> n"
  shows "\<not> bit x n"
proof -
  have "bit x n = bit (unat x) n" by (simp add: bit_unsigned_iff)
  moreover have "(2 :: nat) ^ k \<le> 2 ^ n" using assms(2) by (rule power_increasing) simp
  then have "unat x < 2 ^ n" using assms(1) by (rule less_le_trans [rotated])
  ultimately show ?thesis by (simp add: bit_iff_odd)
qed

text \<open>A swapped entry in which marks were set and cleared.\<close>

lemma marked_bits:
  assumes "e = fold change_mark ms (arch_swp_entry t off)"
  shows "\<not> bit e 0" "4 \<le> n \<Longrightarrow> bit e n = bit (arch_swp_entry t off) n"
    "bit e (mark_bit m) \<longleftrightarrow> (case map_of (rev ms) m of Some b \<Rightarrow> b | None \<Rightarrow> False)"
proof -
  have run: "bit (fold change_mark ms x) n = bit x n" if "\<And>m. n \<noteq> mark_bit m" for n x
  proof (induction ms arbitrary: x)
    case (Cons p ms)
    then show ?case using that by (cases p) (simp add: mark_bits del: change_mark.simps)
  qed simp
  have "0 \<noteq> mark_bit m" and "4 \<le> n \<Longrightarrow> n \<noteq> mark_bit m" for m n by (cases m; simp)+
  then show "\<not> bit e 0" "4 \<le> n \<Longrightarrow> bit e n = bit (arch_swp_entry t off) n"
    using run assms bit_swp_entry by auto
  have inj: "mark_bit m = mark_bit k \<longleftrightarrow> m = k" for m k by (cases m; cases k; simp)
  have "bit (fold change_mark ms x) (mark_bit m) \<longleftrightarrow> (case map_of (rev ms) m of Some b \<Rightarrow> b | None \<Rightarrow> bit x (mark_bit m))" for x
  proof (induction ms arbitrary: x)
    case (Cons p ms)
    show ?case
    proof (cases p)
      case (Pair k b)
      show ?thesis unfolding Pair fold_Cons comp_def Cons.IH
        by (auto simp: mark_bits inj map_add_def split: option.splits simp del: change_mark.simps)
    qed
  qed simp
  moreover have "\<not> bit (arch_swp_entry t off) (mark_bit m)"
    using bit_swp_entry by (cases m) auto
  ultimately show "bit e (mark_bit m) \<longleftrightarrow> (case map_of (rev ms) m of Some b \<Rightarrow> b | None \<Rightarrow> False)"
    using assms by (simp split: option.split)
qed

text \<open>
  C33. A swapped entry keeps what was put into it: for a type of five bits and an offset of fifty the
  entry gives both back, whatever marks (soft-dirty, write-protected by userfaultfd, exclusive) are set
  and cleared on it in whatever order; each mark reads as it was last set, an entry without marks has
  none, and no such entry is ever taken for a present one on either level.
\<close>

theorem swap_entry_roundtrip:
  assumes "t < 32" "unat off < 2 ^ 50" and "e = fold change_mark ms (arch_swp_entry t off)"
  shows "arch_swp_type e = t \<and> arch_swp_offset e = off \<and> \<not> pte_present e \<and> \<not> pmd_present e \<and>
    (\<forall>m. has_mark m e \<longleftrightarrow> (case map_of (rev ms) m of Some b \<Rightarrow> b | None \<Rightarrow> False))"
proof -
  note bits = marked_bits [OF assms(3)] and entry = bit_swp_entry
  have "unat t < 2 ^ 5" using assms(1) by (simp add: word_less_nat_alt)
  note t = no_high_bits [OF this] and off = no_high_bits [OF assms(2)]
  have "bit t n \<Longrightarrow> n < 5" for n using t [of n] by (cases "n < 5") auto
  then have "arch_swp_type e = t"
    by (intro bit_word_eqI) (auto simp: arch_swp_type_def bit_drop_bit_eq bits(2) entry)
  moreover have "arch_swp_offset e = off"
    by (rule bit_word_eqI)
      (use off in \<open>auto simp: arch_swp_offset_def bit_drop_bit_eq bit_push_bit_iff bit_not_iff bits(2) entry\<close>)
  moreover have "\<not> pte_present e" "\<not> pmd_present e" using bits(1,2) by (auto simp: tests entry)
  ultimately show ?thesis using bits(3) by (auto simp: mark_bits(2))
qed

theorem swap_entry_roundtrip_witness:
  "arch_swp_type (pte_swp_clear_soft_dirty (pte_swp_mkexclusive (pte_swp_mksoft_dirty (arch_swp_entry 3 0x1234)))) = 3 \<and>
   arch_swp_offset (pte_swp_clear_soft_dirty (pte_swp_mkexclusive (pte_swp_mksoft_dirty (arch_swp_entry 3 0x1234)))) = 0x1234"
  using swap_entry_roundtrip [OF _ _ refl, of 3 "0x1234" "[(Mark_soft_dirty, True), (Mark_exclusive, True), (Mark_soft_dirty, False)]"]
  by simp

section \<open>Pairs of top-level tables\<close>

text \<open>
  \<open>memcpy\<close> of \<open>n\<close> entries, of which the source and the destination must not overlap; \<open>pti\<close> is
  \<open>static_cpu_has(X86_FEATURE_PTI)\<close>.
\<close>

definition copy_entries :: "u64 \<Rightarrow> u64 \<Rightarrow> nat \<Rightarrow> (u64 \<Rightarrow> u64) \<Rightarrow> u64 \<Rightarrow> u64" where
  "copy_entries dst src n mem = fold (\<lambda>i m. m(dst + 8 * of_nat i := mem (src + 8 * of_nat i))) [0..<n] mem"

definition clone_pgd_range :: "bool \<Rightarrow> u64 \<Rightarrow> u64 \<Rightarrow> nat \<Rightarrow> (u64 \<Rightarrow> u64) \<Rightarrow> u64 \<Rightarrow> u64" where
  "clone_pgd_range pti dst src n mem =
    (let mem = copy_entries dst src n mem in
     if \<not> pti then mem else copy_entries (kernel_to_user_pgdp dst) (kernel_to_user_pgdp src) n mem)"

lemma copy_entries_at:
  "copy_entries dst src n mem a = (if \<exists>i < n. a = dst + 8 * of_nat i then mem (src + (a - dst)) else mem a)"
proof (induction n)
  case 0
  then show ?case by (simp add: copy_entries_def)
next
  case (Suc n)
  have "copy_entries dst src (Suc n) mem = (copy_entries dst src n mem)(dst + 8 * of_nat n := mem (src + 8 * of_nat n))"
    by (simp add: copy_entries_def)
  then show ?case using Suc.IH less_Suc_eq by auto
qed

text \<open>Entries of one table keep its half of the pair.\<close>

lemma same_half:
  fixes x :: u64
  assumes "unat x mod 4096 + 8 * n \<le> 4096" "i < n"
  shows "bit (x + 8 * of_nat i) 12 = bit x 12"
proof -
  have odd: "bit y 12 \<longleftrightarrow> odd (unat y div 4096)" for y :: u64
  proof -
    have "bit (unat y) 12 = bit y 12" by (simp add: bit_unsigned_iff)
    then show ?thesis by (simp add: bit_iff_odd)
  qed
  obtain q r where x: "unat x = 4096 * q + r" "r < 4096" by (metis mult_div_mod_eq mod_less_divisor zero_less_numeral)
  have r: "r + 8 * i < 4096" using assms x by simp
  have i: "unat (8 * of_nat i :: u64) = 8 * i" using unat_of_nat_small [of "8 * i"] r by simp
  have "unat x < 2 ^ 64" by (rule unat_u64)
  then have "4096 * q + 4096 \<le> 2 ^ 64" unfolding x(1) by simp
  then have "unat (x + 8 * of_nat i) = 4096 * q + (r + 8 * i)"
    using r unat_add_small [of x "8 * of_nat i"] unfolding i x(1) by simp
  then show ?thesis using r x unfolding odd by simp
qed

lemma user_half:
  assumes "\<not> bit x 12" "unat x mod 4096 + 8 * n \<le> 4096"
  shows "bit (kernel_to_user_pgdp x) 12" "unat (kernel_to_user_pgdp x) mod 4096 + 8 * n \<le> 4096"
proof -
  show "bit (kernel_to_user_pgdp x) 12" by (simp add: kernel_to_user_pgdp_def bit_or_iff bit_page_bit)
  have "take_bit 12 (kernel_to_user_pgdp x) = take_bit 12 x"
    by (rule bit_word_eqI) (auto simp: kernel_to_user_pgdp_def bit_take_bit_iff bit_or_iff bit_page_bit)
  from arg_cong [OF this, of unat] show "unat (kernel_to_user_pgdp x) mod 4096 + 8 * n \<le> 4096"
    using assms(2) unfolding unsigned_take_bit_eq by (simp add: take_bit_eq_mod)
qed

text \<open>
  Copying a range of a top-level table keeps the pair of tables together: for ranges inside a table
  the entries of the kernel's half are copied, with page-table isolation those of the user's half as
  well, each half from its own, and nothing else in memory changes.
\<close>

theorem clone_pgd_range_exact:
  assumes "\<not> bit dst 12" "\<not> bit src 12" "unat dst mod 4096 + 8 * n \<le> 4096" "unat src mod 4096 + 8 * n \<le> 4096"
  shows "clone_pgd_range pti dst src n mem a =
    (if \<exists>i < n. a = dst + 8 * of_nat i then mem (src + (a - dst))
     else if pti \<and> (\<exists>i < n. a = kernel_to_user_pgdp dst + 8 * of_nat i)
     then mem (kernel_to_user_pgdp src + (a - kernel_to_user_pgdp dst)) else mem a)"
proof -
  let ?dst = "kernel_to_user_pgdp dst" and ?src = "kernel_to_user_pgdp src"
  have kernel: "\<not> bit (dst + 8 * of_nat i) 12" if "i < n" for i using same_half [OF assms(3) that] assms(1) by simp
  have user: "bit (?dst + 8 * of_nat i) 12" "bit (?src + 8 * of_nat i) 12" if "i < n" for i
    using same_half [OF user_half(2) that] user_half(1) assms by blast+
  define mem' where "mem' = copy_entries dst src n mem"
  have first: "mem' b = (if \<exists>i < n. b = dst + 8 * of_nat i then mem (src + (b - dst)) else mem b)" for b
    unfolding mem'_def by (rule copy_entries_at)
  have "mem' (?src + 8 * of_nat i) = mem (?src + 8 * of_nat i)" if "i < n" for i
    using first kernel user(2) [OF that] by metis
  then have second: "mem' (?src + (b - ?dst)) = mem (?src + (b - ?dst))" if "\<exists>i < n. b = ?dst + 8 * of_nat i" for b
    using that by auto
  have "(\<exists>i < n. a = dst + 8 * of_nat i) \<longrightarrow> \<not> (\<exists>i < n. a = ?dst + 8 * of_nat i)"
    using kernel user(1) by metis
  then show ?thesis
    unfolding clone_pgd_range_def Let_def mem'_def [symmetric] copy_entries_at [of ?dst]
    using first [of a] second [of a] 
    by (cases pti; cases "\<exists>i < n. a = dst + 8 * of_nat i"; cases "\<exists>i < n. a = ?dst + 8 * of_nat i")
      (simp_all only: if_True if_False simp_thms not_True_eq_False True_implies_equals)
qed

theorem clone_pgd_range_exact_witness:
  "clone_pgd_range True 0x10000 0x20000 256 (\<lambda>a. a) 0x11008 = 0x21008 \<and>
   clone_pgd_range False 0x10000 0x20000 256 (\<lambda>a. a) 0x11008 = 0x11008"
proof -
  have at: "\<exists>i < 256. (0x11008 :: u64) = 0x11000 + 8 * of_nat i" by (intro exI [of _ 1]) simp
  have half: "\<not> bit (0x10000 :: u64) 12" "\<not> bit (0x20000 :: u64) 12" by simp_all
  have user: "kernel_to_user_pgdp 0x10000 = 0x11000" "kernel_to_user_pgdp 0x20000 = 0x21000"
    by (simp_all add: kernel_to_user_pgdp_def page_bit_def)
  have "\<not> (\<exists>i < 256. (0x11008 :: u64) = 0x10000 + 8 * of_nat i)"
  proof
    assume "\<exists>i < 256. (0x11008 :: u64) = 0x10000 + 8 * of_nat i"
    then obtain i where "i < 256" "(0x11008 :: u64) = 0x10000 + 8 * of_nat i" by blast
    then have "bit (0x11008 :: u64) 12 = bit (0x10000 :: u64) 12" using same_half [of "0x10000" 256 i] by simp
    then show False by simp
  qed
  then show ?thesis
    using clone_pgd_range_exact [OF half, of 256 _ "\<lambda>a. a" "0x11008"] at by (simp add: user)
qed

end
