(* ===== verification/Stdio_Text.thy ===== *)
theory Stdio_Text
  imports Prelude "HOL-Library.Sublist"
begin

text \<open>
  The part of the C library with which the user-space programs read the files of \<open>/proc\<close>: \<open>fgets\<close>
  cutting a file into pieces of at most a buffer, \<open>strstr\<close>, and the conversions \<open>%lx\<close>, \<open>%lu\<close>, \<open>%s\<close> and
  the literals of \<open>sscanf\<close>. A conversion takes the text and answers what it read and the text after it,
  or nothing when it fails. The lemmas say how a conversion reads a number or a word that is followed
  by something else, whatever printed it.
\<close>

section \<open>Lines\<close>

abbreviation newline :: char where "newline \<equiv> CHR 0x0A"

text \<open>At most \<open>n\<close> characters, up to and with the first newline: what \<open>fgets\<close> with a buffer of \<open>n + 1\<close> stores.\<close>

fun fgets_take :: "nat \<Rightarrow> string \<Rightarrow> string" where
  "fgets_take (Suc n) (c # s) = (if c = newline then [c] else c # fgets_take n s)"
| "fgets_take _ _ = []"

lemma fgets_take_pos: "s \<noteq> [] \<Longrightarrow> 0 < n \<Longrightarrow> length s - length (fgets_take n s) < length s"
  by (cases s; cases n) simp_all

text \<open>The pieces a loop over \<open>fgets\<close> sees, to the end of the file.\<close>

function fgets_lines :: "nat \<Rightarrow> string \<Rightarrow> string list" where
  "fgets_lines cap s =
    (if s = [] \<or> cap < 2 then []
     else let line = fgets_take (cap - 1) s in line # fgets_lines cap (drop (length line) s))"
  by auto

termination
  by (relation "measure (\<lambda>(cap, s). length s)") (auto intro: fgets_take_pos)

declare fgets_lines.simps [simp del]

lemma fgets_take_line:
  assumes "newline \<notin> set s" "length s < n"
  shows "fgets_take n (s @ newline # t) = s @ [newline]"
  using assms
proof (induction s arbitrary: n)
  case Nil then show ?case by (cases n) simp_all
next
  case (Cons c s) then show ?case by (cases n) auto
qed

lemma fgets_take_full: "newline \<notin> set s \<Longrightarrow> fgets_take (length s) (s @ t) = s"
  by (induction s) auto

text \<open>A line that fits the buffer is read as it is; of a longer one the buffer holds the beginning.\<close>

lemma fgets_lines_fit:
  assumes "newline \<notin> set s" "length s + 1 < cap"
  shows "fgets_lines cap (s @ newline # t) = (s @ [newline]) # fgets_lines cap t"
  by (subst fgets_lines.simps) (use assms in \<open>simp add: fgets_take_line Let_def\<close>)

lemma fgets_lines_cut:
  assumes "newline \<notin> set s" "cap = length s + 1" "s \<noteq> []"
  shows "fgets_lines cap (s @ t) = s # fgets_lines cap t"
proof -
  have "fgets_take (cap - 1) (s @ t) = s" using assms fgets_take_full by simp
  then show ?thesis by (subst fgets_lines.simps) (use assms in \<open>cases s; simp add: Let_def\<close>)
qed

lemma fgets_lines_Nil [simp]: "fgets_lines cap [] = []"
  by (simp add: fgets_lines.simps)

text \<open>A file all of whose lines fit is read line by line.\<close>

definition fits :: "nat \<Rightarrow> string \<Rightarrow> bool" where
  "fits cap line \<longleftrightarrow> (\<exists>s. line = s @ [newline] \<and> newline \<notin> set s \<and> length s + 1 < cap)"

lemma fgets_lines_concat: "\<forall>line \<in> set ls. fits cap line \<Longrightarrow> fgets_lines cap (concat ls) = ls"
proof (induction ls)
  case Nil then show ?case by simp
next
  case (Cons l ls)
  then obtain s where "l = s @ [newline]" "newline \<notin> set s" "length s + 1 < cap" by (auto simp: fits_def)
  then show ?case using Cons fgets_lines_fit [of s cap "concat ls"] by simp
qed

section \<open>Searching\<close>

fun strstr :: "string \<Rightarrow> string \<Rightarrow> bool" where
  "strstr [] pat = (pat = [])"
| "strstr (c # s) pat = (prefix pat (c # s) \<or> strstr s pat)"

lemma strstr_iff: "strstr s pat \<longleftrightarrow> (\<exists>a b. s = a @ pat @ b)"
proof (induction s)
  case Nil then show ?case by auto
next
  case (Cons c s)
  have "(\<exists>a b. c # s = a @ pat @ b) \<longleftrightarrow> (\<exists>b. c # s = pat @ b) \<or> (\<exists>a b. s = a @ pat @ b)"
  proof
    assume "\<exists>a b. c # s = a @ pat @ b"
    then obtain a b where "c # s = a @ pat @ b" by blast
    then show "(\<exists>b. c # s = pat @ b) \<or> (\<exists>a b. s = a @ pat @ b)" by (cases a) auto
  qed (use append_Cons in blast | metis append_Nil append_Cons)+
  then show ?case by (simp add: Cons.IH prefix_def)
qed

lemma strstr_chars: "strstr s pat \<Longrightarrow> set pat \<subseteq> set s"
  by (auto simp: strstr_iff)

section \<open>Conversions\<close>

definition isspace :: "char \<Rightarrow> bool" where
  "isspace c \<longleftrightarrow> c = CHR '' '' \<or> (9 \<le> (of_char c :: nat) \<and> (of_char c :: nat) \<le> 13)"

definition dec_digit :: "char \<Rightarrow> nat option" where
  "dec_digit c = (let k = of_char c in if 48 \<le> k \<and> k \<le> 57 then Some (k - 48) else None)"

definition hex_digit :: "char \<Rightarrow> nat option" where
  "hex_digit c =
    (let k = of_char c in
     if 48 \<le> k \<and> k \<le> 57 then Some (k - 48)
     else if 97 \<le> k \<and> k \<le> 102 then Some (k - 87)
     else if 65 \<le> k \<and> k \<le> 70 then Some (k - 55) else None)"

definition digits_value :: "(char \<Rightarrow> nat option) \<Rightarrow> nat \<Rightarrow> string \<Rightarrow> nat" where
  "digits_value digit base s = foldl (\<lambda>n c. base * n + the (digit c)) 0 s"

definition scan_digits :: "(char \<Rightarrow> nat option) \<Rightarrow> nat \<Rightarrow> string \<Rightarrow> (nat \<times> string) option" where
  "scan_digits digit base s =
    (let ds = takeWhile (\<lambda>c. digit c \<noteq> None) s in
     if ds = [] then None else Some (digits_value digit base ds, drop (length ds) s))"

text \<open>\<open>strtoul\<close>: a value that does not fit is \<open>ULONG_MAX\<close>, a minus sign negates one that does.\<close>

definition to_ulong :: "bool \<Rightarrow> nat \<Rightarrow> u64" where
  "to_ulong neg n = (if 2 ^ 64 \<le> n then - 1 else if neg then - of_nat n else of_nat n)"

fun scan_sign :: "string \<Rightarrow> bool \<times> string" where
  "scan_sign (c # s) = (if c = CHR ''-'' then (True, s) else if c = CHR ''+'' then (False, s) else (False, c # s))"
| "scan_sign [] = (False, [])"

fun scan_prefix :: "string \<Rightarrow> string" where
  "scan_prefix (a # x # s) = (if a = CHR ''0'' \<and> (x = CHR ''x'' \<or> x = CHR ''X'') then s else a # x # s)"
| "scan_prefix s = s"

text \<open>\<open>%lx\<close>, \<open>%lu\<close>, \<open>%s\<close>, and a literal character, which must match.\<close>

definition scan_hex :: "string \<Rightarrow> (u64 \<times> string) option" where
  "scan_hex s =
    (let (neg, s) = scan_sign (dropWhile isspace s) in
     map_option (\<lambda>(n, rest). (to_ulong neg n, rest)) (scan_digits hex_digit 16 (scan_prefix s)))"

definition scan_dec :: "string \<Rightarrow> (u64 \<times> string) option" where
  "scan_dec s =
    (let (neg, s) = scan_sign (dropWhile isspace s) in
     map_option (\<lambda>(n, rest). (to_ulong neg n, rest)) (scan_digits dec_digit 10 s))"

definition scan_word :: "string \<Rightarrow> (string \<times> string) option" where
  "scan_word s =
    (let s = dropWhile isspace s; w = takeWhile (\<lambda>c. \<not> isspace c) s in
     if w = [] then None else Some (w, drop (length w) s))"

definition scan_char :: "char \<Rightarrow> string \<Rightarrow> string option" where
  "scan_char c s = (case s of d # t \<Rightarrow> if c = d then Some t else None | [] \<Rightarrow> None)"

section \<open>Reading what was printed\<close>

text \<open>
  \<open>prints digit base s n\<close>: \<open>s\<close> is \<open>n\<close> in digits of the base. Such text holds no space, sign or letter
  outside the digits, so a conversion that starts at it reads \<open>n\<close> and stops at the next character.
\<close>

definition prints :: "(char \<Rightarrow> nat option) \<Rightarrow> nat \<Rightarrow> string \<Rightarrow> nat \<Rightarrow> bool" where
  "prints digit base s n \<longleftrightarrow> s \<noteq> [] \<and> (\<forall>c \<in> set s. digit c \<noteq> None) \<and> digits_value digit base s = n"

lemma scan_digits_prints:
  assumes "prints digit base s n" "t = [] \<or> digit (hd t) = None"
  shows "scan_digits digit base (s @ t) = Some (n, t)"
proof -
  have "takeWhile (\<lambda>c. digit c \<noteq> None) t = []" using assms(2) by (cases t) auto
  then have "takeWhile (\<lambda>c. digit c \<noteq> None) (s @ t) = s"
    using assms(1) by (simp add: prints_def takeWhile_append2)
  then show ?thesis using assms(1) by (simp add: scan_digits_def prints_def Let_def)
qed

lemma digit_not_space: "hex_digit c \<noteq> None \<Longrightarrow> \<not> isspace c" "dec_digit c \<noteq> None \<Longrightarrow> \<not> isspace c"
  by (auto simp: hex_digit_def dec_digit_def isspace_def Let_def split: if_splits)

lemma digit_not_sign:
  "hex_digit c \<noteq> None \<Longrightarrow> c \<noteq> CHR ''-'' \<and> c \<noteq> CHR ''+'' \<and> c \<noteq> CHR ''x'' \<and> c \<noteq> CHR ''X''"
  "dec_digit c \<noteq> None \<Longrightarrow> c \<noteq> CHR ''-'' \<and> c \<noteq> CHR ''+''"
  by (auto simp: hex_digit_def dec_digit_def Let_def split: if_splits)

lemma to_ulong_unat: "to_ulong False (unat v) = v"
proof -
  have "unat v < 2 ^ 64" using unsigned_less [of v, where ?'a = nat] by simp
  then show ?thesis by (simp add: to_ulong_def)
qed

lemma skip_spaces: "\<forall>c \<in> set w. isspace c \<Longrightarrow> t = [] \<or> \<not> isspace (hd t) \<Longrightarrow> dropWhile isspace (w @ t) = t"
  by (cases t) (simp_all add: dropWhile_append)

lemma scan_hex_prints:
  assumes "\<forall>c \<in> set w. isspace c" "prints hex_digit 16 s (unat v)"
    and "t = [] \<or> hex_digit (hd t) = None \<and> hd t \<noteq> CHR ''x'' \<and> hd t \<noteq> CHR ''X''"
  shows "scan_hex (w @ s @ t) = Some (v, t)"
proof -
  obtain c s' where s: "s = c # s'" using assms(2) by (cases s) (auto simp: prints_def)
  then have c: "hex_digit c \<noteq> None" and all: "\<forall>d \<in> set s'. hex_digit d \<noteq> None"
    using assms(2) unfolding prints_def by simp_all
  have start: "dropWhile isspace (w @ s @ t) = s @ t"
    by (rule skip_spaces) (use assms(1) c s digit_not_space in simp_all)
  have sign: "scan_sign (s @ t) = (False, s @ t)" using digit_not_sign(1) [OF c] by (simp add: s)
  have "hd (s' @ t) \<noteq> CHR ''x'' \<and> hd (s' @ t) \<noteq> CHR ''X''" if "s' @ t \<noteq> []"
    using that assms(3) all digit_not_sign(1) [of "hd s'"] by (cases s') auto
  then have "scan_prefix (s @ t) = s @ t" by (cases "s' @ t") (auto simp: s)
  then show ?thesis
    using scan_digits_prints [OF assms(2), of t] assms(3)
    by (auto simp: scan_hex_def start sign to_ulong_unat)
qed

lemma scan_dec_prints:
  assumes "\<forall>c \<in> set w. isspace c" "prints dec_digit 10 s (unat v)" "t = [] \<or> dec_digit (hd t) = None"
  shows "scan_dec (w @ s @ t) = Some (v, t)"
proof -
  obtain c s' where s: "s = c # s'" using assms(2) by (cases s) (auto simp: prints_def)
  then have c: "dec_digit c \<noteq> None" using assms(2) unfolding prints_def by simp
  have start: "dropWhile isspace (w @ s @ t) = s @ t"
    by (rule skip_spaces) (use assms(1) c s digit_not_space in simp_all)
  have sign: "scan_sign (s @ t) = (False, s @ t)" using digit_not_sign(2) [OF c] by (simp add: s)
  show ?thesis
    using scan_digits_prints [OF assms(2,3)] by (simp add: scan_dec_def start sign to_ulong_unat)
qed

lemma scan_word_reads:
  assumes "\<forall>c \<in> set w. isspace c" "s \<noteq> []" "\<forall>c \<in> set s. \<not> isspace c" "t = [] \<or> isspace (hd t)"
  shows "scan_word (w @ s @ t) = Some (s, t)"
proof -
  have start: "dropWhile isspace (w @ s @ t) = s @ t"
    by (rule skip_spaces) (use assms in \<open>auto simp: hd_append\<close>)
  have "takeWhile (\<lambda>c. \<not> isspace c) t = []" using assms(4) by (cases t) auto
  then have "takeWhile (\<lambda>c. \<not> isspace c) (s @ t) = s" using assms(3) by (simp add: takeWhile_append2)
  then show ?thesis using assms(2) by (simp add: scan_word_def start Let_def)
qed

text \<open>A text that does not start with a number and the literal after it is no range.\<close>

lemma scan_hex_stops: "c \<noteq> CHR ''-'' \<Longrightarrow> c \<noteq> CHR ''+'' \<Longrightarrow> \<not> isspace c \<Longrightarrow> hex_digit c = None \<Longrightarrow> scan_hex (c # s) = None"
  by (cases s) (auto simp: scan_hex_def scan_digits_def hex_digit_def)

end
