(* ===== verification/Maps_Text.thy ===== *)
theory Maps_Text
  imports Stdio_Text Smaps_File
begin

text \<open>
  The text of \<open>maps\<close> and \<open>smaps\<close>: how the lines of \<open>show_map_vma\<close> and \<open>show_smap\<close> (task_mmu.c) reach
  the reader as characters. Numbers and padding are printed by the kernel's \<open>seq_file\<close>, which is a
  parameter: \<open>seq_text\<close> holds \<open>seq_put_hex_ll\<close> and \<open>seq_put_decimal_ull_width\<close> with their minimal
  widths and the blanks of \<open>seq_pad\<close>. The lemmas say how the library's conversions read such a line.
\<close>

record seq_text =
  sq_hex :: "nat \<Rightarrow> u64 \<Rightarrow> string"
  sq_dec :: "nat \<Rightarrow> u64 \<Rightarrow> string"
  sq_pad :: "string \<Rightarrow> string"

text \<open>
  What is relied on: hexadecimal numbers are digits of their value, decimal ones are digits after
  blanks, neither is longer than the width or the digits it needs, and the padding is blanks.
\<close>

definition seq_text_ok :: "seq_text \<Rightarrow> bool" where
  "seq_text_ok out \<longleftrightarrow>
    (\<forall>w v. prints hex_digit 16 (sq_hex out w v) (unat v)) \<and>
    (\<forall>w v k. 0 < k \<longrightarrow> unat v < 16 ^ k \<longrightarrow> length (sq_hex out w v) \<le> max w k) \<and>
    (\<forall>w v. \<exists>k s. sq_dec out w v = replicate k CHR '' '' @ s \<and> prints dec_digit 10 s (unat v)) \<and>
    (\<forall>w v k. 0 < k \<longrightarrow> unat v < 10 ^ k \<longrightarrow> length (sq_dec out w v) \<le> max w k) \<and>
    (\<forall>s. set (sq_pad out s) \<subseteq> {CHR '' ''})"

section \<open>The lines\<close>

definition header_text :: "seq_text \<Rightarrow> map_line \<Rightarrow> string" where
  "header_text out l =
    (case l of Map_line vm_start vm_end perms pgoff major minor ino name \<Rightarrow>
       sq_hex out 8 vm_start @ ''-'' @ sq_hex out 8 vm_end @ '' '' @ perms @ '' '' @ sq_hex out 8 pgoff @ '' '' @
       sq_hex out 2 (ucast major) @ '':'' @ sq_hex out 2 (ucast minor) @ '' '' @ sq_dec out 0 ino @ '' '')"

definition area_text :: "seq_text \<Rightarrow> map_line \<Rightarrow> string" where
  "area_text out l =
    (case l of Map_line vm_start vm_end perms pgoff major minor ino name \<Rightarrow>
       header_text out l @
       (case name of None \<Rightarrow> [] | Some n \<Rightarrow> sq_pad out (header_text out l) @ n) @ [newline])"

text \<open>A label with its colon and blanks: 16 characters, but for \<open>Private_Hugetlb\<close>, whose number is one shorter.\<close>

definition label_text :: "string \<Rightarrow> string" where
  "label_text name = name @ '':'' @ (if length name < 15 then replicate (15 - length name) CHR '' '' else '' '')"

fun smap_text :: "seq_text \<Rightarrow> smap_line \<Rightarrow> string" where
  "smap_text out (Area_line l) = area_text out l"
| "smap_text out (Kb_line name kb) =
    label_text name @ sq_dec out (if length name < 15 then 8 else 7) kb @ '' kB'' @ [newline]"
| "smap_text out (Number_line name n) = label_text name @ sq_dec out 8 n @ [newline]"
| "smap_text out (Flags_line names) = ''VmFlags: '' @ concat (map (\<lambda>s. s @ '' '') names) @ [newline]"

text \<open>The two files as a reader sees them.\<close>

definition maps_text :: "seq_text \<Rightarrow> map_vma list \<Rightarrow> string" where
  "maps_text out areas = concat (map (\<lambda>vma. area_text out (show_map_vma vma)) areas)"

definition smaps_text :: "seq_text \<Rightarrow> (vm_flag \<Rightarrow> nat) \<Rightarrow> stats_walker \<Rightarrow> smaps_vma list \<Rightarrow> string" where
  "smaps_text out ilog2 walk areas = concat (map (smap_text out) (concat (map (show_smap ilog2 walk) areas)))"

section \<open>Its characters\<close>

lemma seq_hex: "seq_text_ok out \<Longrightarrow> prints hex_digit 16 (sq_hex out w v) (unat v)"
  by (simp add: seq_text_ok_def)

lemma seq_dec:
  assumes "seq_text_ok out"
  obtains k s where "sq_dec out w v = replicate k CHR '' '' @ s" "prints dec_digit 10 s (unat v)"
proof -
  have "\<forall>w v. \<exists>k s. sq_dec out w v = replicate k CHR '' '' @ s \<and> prints dec_digit 10 s (unat v)"
    by (rule assms [unfolded seq_text_ok_def, THEN conjunct2, THEN conjunct2, THEN conjunct1])
  then show thesis using that by blast
qed

lemma seq_lengths:
  "seq_text_ok out \<Longrightarrow> \<forall>w v k. 0 < k \<longrightarrow> unat v < 16 ^ k \<longrightarrow> length (sq_hex out w v) \<le> max w k"
  "seq_text_ok out \<Longrightarrow> \<forall>w v k. 0 < k \<longrightarrow> unat v < 10 ^ k \<longrightarrow> length (sq_dec out w v) \<le> max w k"
  unfolding seq_text_ok_def by (elim conjE, assumption)+

lemma seq_dec_length:
  assumes "seq_text_ok out" shows "length (sq_dec out w v) \<le> max w 20"
proof -
  have "unat v < 2 ^ 64" using unsigned_less [of v, where ?'a = nat] by simp
  also have "(2 :: nat) ^ 64 \<le> 10 ^ 20" by simp
  finally show ?thesis by (intro seq_lengths(2) [OF assms, rule_format]) simp_all
qed

lemma seq_pad: "seq_text_ok out \<Longrightarrow> c \<in> set (sq_pad out s) \<Longrightarrow> c = CHR '' ''"
  by (auto simp: seq_text_ok_def)

text \<open>Characters no number contains.\<close>

lemma hex_chars:
  assumes "seq_text_ok out" "hex_digit c = None"
  shows "c \<notin> set (sq_hex out w v)"
  using seq_hex [OF assms(1), of w v] assms(2) by (auto simp: prints_def)

lemma dec_chars:
  assumes "seq_text_ok out" "dec_digit c = None" "c \<noteq> CHR '' ''"
  shows "c \<notin> set (sq_dec out w v)"
  using assms(2,3) by (rule_tac seq_dec [OF assms(1), of w v]) (auto simp: prints_def)

lemma not_hex:
  "hex_digit CHR ''z'' = None" "hex_digit CHR ''S'' = None" "hex_digit CHR ''H'' = None" "hex_digit CHR ''l'' = None"
  "hex_digit CHR ''r'' = None" "hex_digit CHR ''-'' = None" "hex_digit CHR '' '' = None" "hex_digit CHR '':'' = None"
  "hex_digit CHR 0x0A = None" "dec_digit CHR ''z'' = None" "dec_digit CHR ''S'' = None" "dec_digit CHR ''H'' = None"
  "dec_digit CHR ''l'' = None" "dec_digit CHR ''r'' = None" "dec_digit CHR '' '' = None" "dec_digit CHR 0x0A = None"
  by (simp_all add: hex_digit_def dec_digit_def)

text \<open>A pattern without blanks lies on one side of a blank.\<close>

lemma strstr_blank:
  assumes "CHR '' '' \<notin> set pat" "pat \<noteq> []"
  shows "strstr (a @ CHR '' '' # b) pat \<longleftrightarrow> strstr a pat \<or> strstr b pat"
proof
  assume "strstr (a @ CHR '' '' # b) pat"
  then obtain x y where e: "a @ CHR '' '' # b = x @ pat @ y" by (auto simp: strstr_iff)
  then consider us where "a = x @ us" "us @ CHR '' '' # b = pat @ y"
    | us where "x = a @ us" "CHR '' '' # b = us @ pat @ y"
    unfolding append_eq_append_conv2 by blast
  then show "strstr a pat \<or> strstr b pat"
  proof cases
    case 1
    from 1(2) consider vs where "us = pat @ vs" | vs where "pat = us @ vs" "CHR '' '' # b = vs @ y"
      unfolding append_eq_append_conv2 by blast
    then show ?thesis
    proof cases
      case 1 then show ?thesis using \<open>a = x @ us\<close> by (auto simp: strstr_iff)
    next
      case (2 vs)
      then have "vs = []" using assms(1) by (cases vs) auto
      then have "a = x @ pat @ []" using 2 \<open>a = x @ us\<close> by simp
      then show ?thesis unfolding strstr_iff by blast
    qed
  next
    case 2
    then have "us \<noteq> []" using assms by (cases us; cases pat) auto
    then obtain vs where "b = vs @ pat @ y" using 2(2) by (cases us) auto
    then show ?thesis by (auto simp: strstr_iff)
  qed
next
  assume "strstr a pat \<or> strstr b pat"
  then show "strstr (a @ CHR '' '' # b) pat"
    unfolding strstr_iff by (metis append.assoc append_Cons)
qed

lemma strstr_blanks:
  assumes "CHR '' '' \<notin> set pat" "pat \<noteq> []" "set w \<subseteq> {CHR '' ''}"
  shows "strstr (w @ b) pat \<longleftrightarrow> strstr b pat"
  using assms(3)
proof (induction w)
  case Nil then show ?case by simp
next
  case (Cons c w) then show ?case using strstr_blank [OF assms(1,2), of "[]" "w @ b"] assms(2) by simp
qed

section \<open>Searching a line\<close>

text \<open>The permissions of a line are one of four letters or a dash in each place.\<close>

lemma perm_letters: "set (perm_string flags) \<subseteq> set ''rwxsp-'' \<and> length (perm_string flags) = 4"
  by (simp add: perm_string_def)

definition header_chars :: "char \<Rightarrow> bool" where
  "header_chars c \<longleftrightarrow> hex_digit c = None \<and> dec_digit c = None \<and> c \<notin> set ''rwxsp-: ''"

lemma header_lacks:
  assumes "seq_text_ok out" "header_chars c" "set perms \<subseteq> set ''rwxsp-''"
  shows "c \<notin> set (header_text out (Map_line s e perms pgoff major minor ino name))"
  using assms hex_chars [OF assms(1)] dec_chars [OF assms(1)] by (auto simp: header_text_def header_chars_def)

lemma header_lacking: "header_chars CHR ''z''" "header_chars CHR ''H''" "header_chars CHR ''l''" "header_chars newline"
  by (simp_all add: header_chars_def hex_digit_def dec_digit_def)

text \<open>The name a line shows, empty when it shows none.\<close>

definition shown_name :: "map_line \<Rightarrow> string" where
  "shown_name l = (case l of Map_line s e perms pgoff major minor ino name \<Rightarrow> case name of None \<Rightarrow> [] | Some n \<Rightarrow> n)"

definition shown_perms :: "map_line \<Rightarrow> string" where
  "shown_perms l = (case l of Map_line s e perms pgoff major minor ino name \<Rightarrow> perms)"

lemma area_text_shape:
  assumes "seq_text_ok out"
  obtains w where "area_text out l = header_text out l @ w @ shown_name l @ [newline]" "set w \<subseteq> {CHR '' ''}"
proof (cases l)
  case (Map_line s e perms pgoff major minor ino name)
  show thesis
    by (rule that [of "case name of None \<Rightarrow> [] | Some n \<Rightarrow> sq_pad out (header_text out l)"])
      (use seq_pad [OF assms] in \<open>auto simp: area_text_def shown_name_def Map_line split: option.splits\<close>)
qed

text \<open>
  What a search for a word finds in the line of an area: it lies in the name or in the part before it,
  and there it is not when it has a character that part lacks.
\<close>

lemma header_ends:
  obtains h where "header_text out l = h @ '' ''"
  by (cases l) (auto simp: header_text_def)

lemma strstr_end: "newline \<notin> set pat \<Longrightarrow> pat \<noteq> [] \<Longrightarrow> strstr (s @ [newline]) pat \<longleftrightarrow> strstr s pat"
proof
  assume a: "newline \<notin> set pat" "pat \<noteq> []" "strstr (s @ [newline]) pat"
  then obtain x y where e: "s @ [newline] = x @ pat @ y" by (auto simp: strstr_iff)
  have "y \<noteq> []"
  proof
    assume "y = []"
    then have "last (x @ pat @ y) = last pat" using a(2) by simp
    then have "newline = last pat" using e by (metis last_snoc)
    then show False using a(1,2) last_in_set by metis
  qed
  then have "s = x @ pat @ butlast y" using e by (metis append.assoc butlast_append butlast_snoc)
  then show "strstr s pat" by (auto simp: strstr_iff)
next
  assume "strstr s pat"
  then show "strstr (s @ [newline]) pat" unfolding strstr_iff by (metis append.assoc)
qed

lemma strstr_area:
  assumes "seq_text_ok out" "CHR '' '' \<notin> set pat" "newline \<notin> set pat" "pat \<noteq> []"
  shows "strstr (area_text out l) pat \<longleftrightarrow> strstr (header_text out l) pat \<or> strstr (shown_name l) pat"
proof -
  obtain w where w: "area_text out l = header_text out l @ w @ shown_name l @ [newline]" "set w \<subseteq> {CHR '' ''}"
    using area_text_shape [OF assms(1)] .
  obtain h where h: "header_text out l = h @ '' ''" by (rule header_ends)
  have empty: "\<not> strstr [] pat" using assms(4) by simp
  show ?thesis
    unfolding w(1) h
    using strstr_blank [OF assms(2,4), of h "w @ shown_name l @ [newline]"] strstr_blank [OF assms(2,4), of h "[]"]
      strstr_blanks [OF assms(2,4) w(2)] strstr_end [OF assms(3,4)] empty by simp
qed

lemma strstr_name:
  assumes "seq_text_ok out" "CHR '' '' \<notin> set pat" "newline \<notin> set pat" "c \<in> set pat" "header_chars c"
    "set (shown_perms l) \<subseteq> set ''rwxsp-''"
  shows "strstr (area_text out l) pat \<longleftrightarrow> strstr (shown_name l) pat"
proof -
  have "c \<notin> set (header_text out l)"
    using header_lacks [OF assms(1,5)] assms(6) by (cases l) (simp add: shown_perms_def)
  then have "\<not> strstr (header_text out l) pat" using strstr_chars assms(4) by blast
  then show ?thesis using strstr_area [OF assms(1-3)] assms(4) by (metis empty_iff empty_set)
qed

lemma area_line:
  obtains pgoff dev ino name where "show_map_vma vma =
    Map_line (mv_start vma) (mv_end vma) (perm_string (mv_flags vma)) pgoff (drop_bit 20 dev) (dev AND 0xFFFFF) ino name"
    and "\<And>f. mv_file vma = Some f \<Longrightarrow> pgoff = push_bit 12 (mf_pgoff f) \<and> dev = mf_dev f \<and> ino = mf_ino f"
proof -
  obtain path name fmt where "get_vma_name vma = (path, name, fmt)" by (metis prod.exhaust)
  then show thesis
  proof (cases "mv_file vma")
    case None
    show thesis by (rule that [of 0 0 0]) (simp_all add: show_map_vma_def show_vma_header_prefix_def None \<open>get_vma_name vma = _\<close>)
  next
    case (Some f)
    show thesis
      by (rule that [of "push_bit 12 (mf_pgoff f)" "mf_dev f" "mf_ino f"])
        (simp_all add: show_map_vma_def show_vma_header_prefix_def Some \<open>get_vma_name vma = _\<close>)
  qed
qed

lemma perms_of_area [simp]: "shown_perms (show_map_vma vma) = perm_string (mv_flags vma)"
  by (simp add: show_map_vma_def show_vma_header_prefix_def shown_perms_def Let_def split: prod.splits)

lemma perms_ok: "set (shown_perms (show_map_vma vma)) \<subseteq> set ''rwxsp-''"
  using perm_letters by simp

section \<open>Lines that fit a buffer\<close>

text \<open>The line of an area that a program with a buffer of \<open>cap\<close> bytes reads in one piece.\<close>

definition readable :: "nat \<Rightarrow> seq_text \<Rightarrow> map_line \<Rightarrow> bool" where
  "readable cap out l \<longleftrightarrow> newline \<notin> set (shown_name l) \<and> length (area_text out l) < cap"

lemma fits_area:
  assumes "seq_text_ok out" "readable cap out l" "set (shown_perms l) \<subseteq> set ''rwxsp-''"
  shows "fits cap (area_text out l)"
proof -
  obtain w where w: "area_text out l = header_text out l @ w @ shown_name l @ [newline]" "set w \<subseteq> {CHR '' ''}"
    using area_text_shape [OF assms(1)] .
  have "newline \<notin> set (header_text out l)"
    using header_lacks [OF assms(1) header_lacking(4)] assms(3) by (cases l) (simp add: shown_perms_def)
  moreover have "newline \<notin> set w" using w(2) by auto
  ultimately show ?thesis using assms(2) unfolding readable_def fits_def w(1)
    by (intro exI [of _ "header_text out l @ w @ shown_name l"]) simp
qed

lemma maps_lines:
  assumes "seq_text_ok out" "\<forall>vma \<in> set areas. readable cap out (show_map_vma vma)"
  shows "fgets_lines cap (maps_text out areas) = map (\<lambda>vma. area_text out (show_map_vma vma)) areas"
  unfolding maps_text_def by (rule fgets_lines_concat) (use assms in \<open>auto intro!: fits_area [OF _ _ perms_ok]\<close>)

text \<open>The other lines of an entry of \<open>smaps\<close> are short: the longest names up to 64 flags.\<close>

lemma label_length: "length (label_text name) \<le> max 16 (length name + 2)"
  by (simp add: label_text_def)

lemma label_newline: "newline \<notin> set name \<Longrightarrow> newline \<notin> set (label_text name)"
  by (simp add: label_text_def)

lemma fits_label:
  assumes "seq_text_ok out" "newline \<notin> set name" "length name \<le> 15"
  shows "fits 256 (smap_text out (Kb_line name v))" "fits 256 (smap_text out (Number_line name v))"
proof -
  have "length (label_text name) \<le> 17" using label_length [of name] assms(3) by simp
  moreover have "length (sq_dec out 8 v) \<le> 20" "length (sq_dec out 7 v) \<le> 20"
    using seq_dec_length [OF assms(1), of 8 v] seq_dec_length [OF assms(1), of 7 v] by simp_all
  moreover have "newline \<notin> set (sq_dec out w v)" for w by (rule dec_chars [OF assms(1)]) (simp_all add: dec_digit_def)
  ultimately show "fits 256 (smap_text out (Kb_line name v))" "fits 256 (smap_text out (Number_line name v))"
    using label_newline [OF assms(2)] unfolding fits_def
    by (intro exI [of _ "label_text name @ sq_dec out (if length name < 15 then 8 else 7) v @ '' kB''"]
      exI [of _ "label_text name @ sq_dec out 8 v"]; simp)+
qed

lemma flag_name:
  assumes "s \<in> set (show_smap_vma_flags ilog2 flags)"
  shows "length s \<le> 2 \<and> set s \<inter> {CHR ''S'', CHR ''H'', newline} = {}"
proof -
  have table: "\<forall>(f, s) \<in> set mnemonic_table. length s \<le> 2 \<and> set s \<inter> {CHR ''S'', CHR ''H'', newline} = {}"
    by (simp add: mnemonic_table_def)
  obtain i where "s = mnemonics ilog2 i" using assms by (auto simp: show_smap_vma_flags_def)
  then consider "s = ''??''" | f where "(f, s) \<in> set mnemonic_table"
  proof (cases "filter (\<lambda>(f, s). ilog2 f = i) mnemonic_table")
    case Nil then show thesis using that \<open>s = mnemonics ilog2 i\<close> by (simp add: mnemonics_def)
  next
    case (Cons x xs)
    have "last (x # xs) \<in> set (filter (\<lambda>(f, s). ilog2 f = i) mnemonic_table)"
      unfolding Cons by (rule last_in_set) simp
    then have "last (x # xs) \<in> set mnemonic_table" by auto
    moreover have "s = snd (last (x # xs))" using Cons \<open>s = mnemonics ilog2 i\<close> by (simp add: mnemonics_def)
    ultimately show thesis using that(2) [of "fst (last (x # xs))"] by simp
  qed
  then show ?thesis using table by cases auto
qed

lemma flags_text:
  assumes "c \<in> {CHR ''S'', CHR ''H''}"
  shows "fits 256 (smap_text out (Flags_line (show_smap_vma_flags ilog2 flags)))"
    and "c \<notin> set (smap_text out (Flags_line (show_smap_vma_flags ilog2 flags)))"
proof -
  let ?names = "show_smap_vma_flags ilog2 flags" and ?text = "\<lambda>names. concat (map (\<lambda>s. s @ '' '') names)"
  have "length (?text names) \<le> 3 * length names" if "\<forall>s \<in> set names. length s \<le> 2" for names
    using that by (induction names) auto
  moreover have "\<forall>s \<in> set ?names. length s \<le> 2" using flag_name by blast
  moreover have "length ?names \<le> 64"
    unfolding show_smap_vma_flags_def length_map
    by (rule order_trans [OF length_filter_le]) simp
  ultimately have "length (?text ?names) \<le> 192" by fastforce
  moreover have lacks: "d \<notin> set (?text ?names)" if "d \<in> {CHR ''S'', CHR ''H'', newline}" for d
  proof -
    have "d \<notin> set s" if "s \<in> set ?names" for s using flag_name [OF that] \<open>d \<in> _\<close> by blast
    then show ?thesis using that by auto
  qed
  ultimately show "fits 256 (smap_text out (Flags_line ?names))"
    unfolding fits_def by (intro exI [of _ "''VmFlags: '' @ ?text ?names"]) (simp only: smap_text.simps, simp)
  show "c \<notin> set (smap_text out (Flags_line ?names))" using lacks [of c] assms by auto
qed

section \<open>A printer that satisfies the hypothesis\<close>

definition digit_char :: "nat \<Rightarrow> char" where
  "digit_char k = char_of (if k < 10 then 48 + k else 87 + k)"

fun number_text :: "nat \<Rightarrow> nat \<Rightarrow> string" where
  "number_text base n =
    (if base < 2 \<or> n < base then [digit_char n] else number_text base (n div base) @ [digit_char (n mod base)])"

declare number_text.simps [simp del]

lemma digit_char: "k < 16 \<Longrightarrow> hex_digit (digit_char k) = Some k" "k < 10 \<Longrightarrow> dec_digit (digit_char k) = Some k"
  by (auto simp: digit_char_def hex_digit_def dec_digit_def Let_def)

lemma number_text_prints:
  assumes "2 \<le> base" "\<And>k. k < base \<Longrightarrow> digit (digit_char k) = Some k"
  shows "prints digit base (number_text base n) n"
proof (induction n rule: less_induct)
  case (less n)
  show ?case
  proof (cases "n < base")
    case True
    then show ?thesis using assms by (subst number_text.simps) (simp add: prints_def digits_value_def)
  next
    case False
    then have "n div base < n" "n mod base < base" using assms(1) by (simp_all add: div_less_dividend)
    then show ?thesis using less.IH [of "n div base"] assms False
      by (subst number_text.simps) (auto simp: prints_def digits_value_def)
  qed
qed

lemma number_text_length: "n < base ^ k \<Longrightarrow> 0 < k \<Longrightarrow> length (number_text base n) \<le> k"
proof (induction k arbitrary: n)
  case 0 then show ?case by simp
next
  case (Suc k)
  show ?case
  proof (cases "base < 2 \<or> n < base")
    case True then show ?thesis by (subst number_text.simps) simp
  next
    case False
    then have "0 < k" using Suc.prems(1) by (cases k) auto
    moreover have "n div base < base ^ k" using Suc.prems(1) False by (simp add: less_mult_imp_div_less mult.commute)
    ultimately have "length (number_text base (n div base)) \<le> k" by (intro Suc.IH)
    then show ?thesis using False by (subst number_text.simps) simp
  qed
qed

definition plain_text :: seq_text where
  "plain_text = \<lparr>sq_hex = \<lambda>w v. let t = number_text 16 (unat v) in replicate (w - length t) CHR ''0'' @ t,
    sq_dec = \<lambda>w v. let t = number_text 10 (unat v) in replicate (w - length t) CHR '' '' @ t, sq_pad = \<lambda>s. []\<rparr>"

lemma prints_zeros: "digit CHR ''0'' = Some 0 \<Longrightarrow> prints digit base s n \<Longrightarrow> prints digit base (replicate k CHR ''0'' @ s) n"
proof (induction k)
  case 0 then show ?case by simp
next
  case (Suc k)
  then show ?case by (simp add: prints_def digits_value_def)
qed

lemma plain_text_ok: "seq_text_ok plain_text"
proof -
  have "prints hex_digit 16 (number_text 16 n) n" "prints dec_digit 10 (number_text 10 n) n" for n
    by (rule number_text_prints; simp add: digit_char)+
  moreover have "w - length (number_text b n) + length (number_text b n) \<le> max w k" if "n < b ^ k" "0 < k" for w b n k
    using number_text_length [OF that] by simp
  ultimately show ?thesis
    by (auto simp: seq_text_ok_def plain_text_def Let_def prints_zeros hex_digit_def)
qed

text \<open>Its text on numerals: the digits are computed once the number is known.\<close>

lemma plain_text_sel:
  "sq_hex plain_text w v = replicate (w - length (number_text 16 (unat v))) CHR ''0'' @ number_text 16 (unat v)"
  "sq_dec plain_text w v = replicate (w - length (number_text 10 (unat v))) CHR '' '' @ number_text 10 (unat v)"
  "sq_pad plain_text s = []"
  by (simp_all add: plain_text_def Let_def)

lemma number_text_numeral:
  "number_text (numeral b) (numeral n) =
    (if numeral b < (2 :: nat) \<or> numeral n < (numeral b :: nat) then [digit_char (numeral n)]
     else number_text (numeral b) (numeral n div numeral b) @ [digit_char (numeral n mod numeral b)])"
  "0 < m \<Longrightarrow> number_text m 0 = [digit_char 0]" "1 < m \<Longrightarrow> number_text m (Suc 0) = [digit_char 1]"
  by (subst number_text.simps, simp)+

end
