(* ===== verification/Maps_Readers.thy ===== *)
theory Maps_Readers
  imports Maps_Text
begin

text \<open>
  The user-space programs that read \<open>/proc/self/maps\<close> and \<open>/proc/self/smaps\<close>
  (\<open>numa_zone_trace/hugepage_proof.c\<close>, \<open>libc_map_trace.c\<close>, \<open>got_proof.c\<close>) against the text the kernel
  writes there: what they find in it, and when their fixed buffers hold it. A program that writes past
  a buffer or reads through a null stream has no further behaviour, which is the value \<open>None\<close>.
\<close>

section \<open>The entry of an address in smaps\<close>

text \<open>The conversions \<open>%lx-%lx\<close>.\<close>

definition scan_range :: "string \<Rightarrow> (u64 \<times> u64 \<times> string) option" where
  "scan_range line =
    (case scan_hex line of
       None \<Rightarrow> None
     | Some (x, s) \<Rightarrow>
       (case scan_char CHR ''-'' s of
          None \<Rightarrow> None
        | Some s \<Rightarrow> (case scan_hex s of None \<Rightarrow> None | Some (y, s) \<Rightarrow> Some (x, y, s))))"

definition smaps_matches :: "string \<Rightarrow> string list" where
  "smaps_matches line =
    (if strstr line ''AnonHugePages'' then [''  '' @ line] else []) @
    (if strstr line ''Size:'' then [''  '' @ line] else [])"

fun show_smaps_loop :: "u64 \<Rightarrow> bool \<Rightarrow> string list \<Rightarrow> string list" where
  "show_smaps_loop target found [] = []"
| "show_smaps_loop target found (line # lines) =
    (let found = (case scan_range line of
       Some (vm_start, vm_end, rest) \<Rightarrow> vm_start \<le> target \<and> target < vm_end | None \<Rightarrow> found) in
     (if found then smaps_matches line else []) @ show_smaps_loop target found lines)"

text \<open>\<open>smaps\<close> is what \<open>fopen\<close> gives to read; the result are the lines printed.\<close>

definition show_smaps_for_addr :: "u64 \<Rightarrow> string option \<Rightarrow> string list" where
  "show_smaps_for_addr target smaps =
    (case smaps of None \<Rightarrow> [] | Some text \<Rightarrow> show_smaps_loop target False (fgets_lines 256 text))"

text \<open>Which lines start with a range: those of the areas, and no other.\<close>

lemma read_hex:
  assumes "seq_text_ok out" "hex_digit c = None" "c \<noteq> CHR ''x''" "c \<noteq> CHR ''X''"
  shows "scan_hex (sq_hex out w v @ c # t) = Some (v, c # t)"
    and "scan_hex (CHR '' '' # sq_hex out w v @ c # t) = Some (v, c # t)"
  using scan_hex_prints [of "[]", OF _ seq_hex [OF assms(1)], of "c # t"]
    scan_hex_prints [of "[CHR '' '']", OF _ seq_hex [OF assms(1)], of "c # t"] assms(2-4)
  by (simp_all add: isspace_def)

lemma scan_range_area:
  assumes "seq_text_ok out"
  shows "\<exists>rest. scan_range (area_text out (Map_line s e perms pgoff major minor ino name)) = Some (s, e, rest)"
proof -
  obtain rest where t: "area_text out (Map_line s e perms pgoff major minor ino name) =
      sq_hex out 8 s @ CHR ''-'' # sq_hex out 8 e @ CHR '' '' # rest"
    by (simp add: area_text_def header_text_def)
  show ?thesis unfolding t scan_range_def by (simp add: read_hex [OF assms] not_hex scan_char_def)
qed

lemma scan_digits_one:
  "digit d = None \<Longrightarrow> scan_digits digit base (c # d # s) = (if digit c = None then None else Some (the (digit c), d # s))"
  by (simp add: scan_digits_def digits_value_def)

lemma no_range:
  assumes "\<not> isspace c" "c \<noteq> CHR ''-''" "c \<noteq> CHR ''+''"
    and "hex_digit c = None \<or> hex_digit d = None \<and> d \<noteq> CHR ''x'' \<and> d \<noteq> CHR ''X'' \<and> d \<noteq> CHR ''-''"
  shows "scan_range (c # d # s) = None"
proof (cases "hex_digit c = None")
  case True
  then show ?thesis using scan_hex_stops assms(1-3) by (simp add: scan_range_def)
next
  case False
  with assms(4) have d: "hex_digit d = None" "d \<noteq> CHR ''x''" "d \<noteq> CHR ''X''" "CHR ''-'' \<noteq> d" by auto
  then have "scan_hex (c # d # s) = Some (to_ulong False (the (hex_digit c)), d # s)"
    using False assms(1-3) by (auto simp: scan_hex_def scan_digits_one)
  then show ?thesis using d by (simp add: scan_range_def scan_char_def)
qed

lemma no_range_labels:
  assumes "name \<in> set [''Size'', ''KernelPageSize'', ''MMUPageSize'', ''Rss'', ''Pss'', ''Pss_Dirty'', ''Shared_Clean'',
     ''Shared_Dirty'', ''Private_Clean'', ''Private_Dirty'', ''Referenced'', ''Anonymous'', ''KSM'', ''LazyFree'',
     ''AnonHugePages'', ''ShmemPmdMapped'', ''FilePmdMapped'', ''Shared_Hugetlb'', ''Private_Hugetlb'', ''Swap'',
     ''SwapPss'', ''Locked'', ''THPeligible'', ''ProtectionKey'']"
  shows "scan_range (smap_text out (Kb_line name v)) = None" "scan_range (smap_text out (Number_line name v)) = None"
proof -
  have "scan_range (label_text name @ t) = None" for t
    using assms by (auto simp: label_text_def isspace_def hex_digit_def intro!: no_range)
  then show "scan_range (smap_text out (Kb_line name v)) = None" "scan_range (smap_text out (Number_line name v)) = None"
    by simp_all
qed

lemma no_range_flags: "scan_range (smap_text out (Flags_line names)) = None"
  by (auto simp: isspace_def hex_digit_def intro!: no_range)

lemma show_smaps_skip:
  "\<forall>line \<in> set lines. scan_range line = None \<Longrightarrow>
    show_smaps_loop target found (lines @ rest) =
      (if found then concat (map smaps_matches lines) else []) @ show_smaps_loop target found rest"
  by (induction lines) (simp_all add: Let_def)

text \<open>What is printed of the line of a label: its name decides.\<close>

lemma label_shape:
  assumes "seq_text_ok out" "CHR '' '' \<notin> set pat \<and> newline \<notin> set pat" "pat \<noteq> []"
    "CHR ''S'' \<in> set pat \<or> CHR ''H'' \<in> set pat"
  shows "strstr (label_text name @ sq_dec out w v @ '' kB'' @ [newline]) pat \<longleftrightarrow> strstr (name @ '':'') pat"
    and "strstr (label_text name @ sq_dec out w v @ [newline]) pat \<longleftrightarrow> strstr (name @ '':'') pat"
proof -
  obtain k where k: "label_text name = name @ '':'' @ CHR '' '' # replicate k CHR '' ''"
  proof (cases "length name < 15")
    case True
    then obtain m where "15 - length name = Suc m" by (metis Suc_pred zero_less_diff)
    then show thesis using that [of m] True by (simp add: label_text_def)
  next
    case False
    then show thesis using that [of 0] by (simp add: label_text_def)
  qed
  have pat: "CHR '' '' \<notin> set pat" "newline \<notin> set pat" using assms(2) by blast+
  have "CHR ''S'' \<notin> set (replicate k CHR '' '' @ sq_dec out w v @ t) \<and> CHR ''H'' \<notin> set (replicate k CHR '' '' @ sq_dec out w v @ t)"
    if "set t \<subseteq> set ('' kB'' @ [newline])" for t
    using that dec_chars [OF assms(1)] not_hex by auto
  then have tail: "\<not> strstr (replicate k CHR '' '' @ sq_dec out w v @ t) pat" if "set t \<subseteq> set ('' kB'' @ [newline])" for t
    using that strstr_chars assms(4) by blast
  have "strstr ((name @ '':'') @ CHR '' '' # (replicate k CHR '' '' @ sq_dec out w v @ t)) pat \<longleftrightarrow> strstr (name @ '':'') pat"
    if "set t \<subseteq> set ('' kB'' @ [newline])" for t
    using strstr_blank [OF pat(1) assms(3)] tail [OF that] by blast
  from this [of "'' kB'' @ [newline]"] this [of "[newline]"]
  show "strstr (label_text name @ sq_dec out w v @ '' kB'' @ [newline]) pat \<longleftrightarrow> strstr (name @ '':'') pat"
    and "strstr (label_text name @ sq_dec out w v @ [newline]) pat \<longleftrightarrow> strstr (name @ '':'') pat"
    by (simp_all add: k)
qed

lemma label_matches:
  assumes "seq_text_ok out"
  shows "smaps_matches (smap_text out (Kb_line name kb)) =
      (if strstr (name @ '':'') ''AnonHugePages'' then [''  '' @ smap_text out (Kb_line name kb)] else []) @
      (if strstr (name @ '':'') ''Size:'' then [''  '' @ smap_text out (Kb_line name kb)] else [])"
    and "smaps_matches (smap_text out (Number_line name n)) =
      (if strstr (name @ '':'') ''AnonHugePages'' then [''  '' @ smap_text out (Number_line name n)] else []) @
      (if strstr (name @ '':'') ''Size:'' then [''  '' @ smap_text out (Number_line name n)] else [])"
proof -
  have thp: "CHR '' '' \<notin> set ''AnonHugePages'' \<and> newline \<notin> set ''AnonHugePages''"
    and sized: "CHR '' '' \<notin> set ''Size:'' \<and> newline \<notin> set ''Size:''" by simp_all
  have "CHR ''H'' \<in> set ''AnonHugePages''" "CHR ''S'' \<in> set ''Size:''" by simp_all
  note shapes = label_shape [OF assms thp list.distinct(2) disjI2 [OF this(1)]]
    label_shape [OF assms sized list.distinct(2) disjI1 [OF this(2)]]
  show "smaps_matches (smap_text out (Kb_line name kb)) =
      (if strstr (name @ '':'') ''AnonHugePages'' then [''  '' @ smap_text out (Kb_line name kb)] else []) @
      (if strstr (name @ '':'') ''Size:'' then [''  '' @ smap_text out (Kb_line name kb)] else [])"
    unfolding smaps_matches_def smap_text.simps shapes by (rule refl)
  show "smaps_matches (smap_text out (Number_line name n)) =
      (if strstr (name @ '':'') ''AnonHugePages'' then [''  '' @ smap_text out (Number_line name n)] else []) @
      (if strstr (name @ '':'') ''Size:'' then [''  '' @ smap_text out (Number_line name n)] else [])"
    unfolding smaps_matches_def smap_text.simps shapes by (rule refl)
qed

text \<open>An entry of \<open>smaps\<close>: its line of the area decides whether the four lines are printed.\<close>

definition shown_sizes :: "string list" where
  "shown_sizes = [''Size'', ''KernelPageSize'', ''MMUPageSize'', ''AnonHugePages'']"

definition innocent :: "map_line \<Rightarrow> bool" where
  "innocent l \<longleftrightarrow> \<not> strstr (shown_name l) ''AnonHugePages'' \<and> \<not> strstr (shown_name l) ''Size:''"

lemma area_matches:
  assumes "seq_text_ok out" "innocent (show_map_vma vma)"
  shows "smaps_matches (area_text out (show_map_vma vma)) = []"
proof -
  have "strstr (area_text out (show_map_vma vma)) ''AnonHugePages'' = strstr (shown_name (show_map_vma vma)) ''AnonHugePages''"
    by (rule strstr_name [OF assms(1) _ _ _ header_lacking(2) perms_ok]) simp_all
  moreover have "strstr (area_text out (show_map_vma vma)) ''Size:'' = strstr (shown_name (show_map_vma vma)) ''Size:''"
    by (rule strstr_name [OF assms(1) _ _ _ header_lacking(1) perms_ok]) simp_all
  ultimately show ?thesis using assms(2) by (simp only: smaps_matches_def innocent_def) simp
qed

lemma flags_match: "smaps_matches (smap_text out (Flags_line (show_smap_vma_flags ilog2 flags))) = []"
proof -
  have "\<not> strstr (smap_text out (Flags_line (show_smap_vma_flags ilog2 flags))) pat"
    if "c \<in> {CHR ''S'', CHR ''H''}" "c \<in> set pat" for c pat
    using flags_text(2) [OF that(1)] that(2) strstr_chars by (meson subsetD)
  from this [of "CHR ''H''" "''AnonHugePages''"] this [of "CHR ''S''" "''Size:''"]
  show ?thesis by (simp del: smap_text.simps strstr.simps add: smaps_matches_def)
qed

lemma truncate_ends: "mv_start (map_vma.truncate vma) = mv_start vma" "mv_end (map_vma.truncate vma) = mv_end vma"
  by (simp_all add: map_vma.defs)

lemma entry_lines:
  assumes "seq_text_ok out" "innocent (show_map_vma (map_vma.truncate vma))"
  shows "show_smaps_loop target found (map (smap_text out) (show_smap ilog2 walk vma) @ rest) =
    (if mv_start vma \<le> target \<and> target < mv_end vma
     then map (\<lambda>name. ''  '' @ smap_text out (Kb_line name (kb_of (show_smap ilog2 walk vma) name))) shown_sizes
     else []) @
    show_smaps_loop target (mv_start vma \<le> target \<and> target < mv_end vma) rest"
proof -
  let ?in = "mv_start vma \<le> target \<and> target < mv_end vma"
  obtain body where body: "show_smap ilog2 walk vma = Area_line (show_map_vma (map_vma.truncate vma)) # body"
    by (simp add: show_smap_def Let_def)
  obtain perms pgoff major minor ino name where line:
    "show_map_vma (map_vma.truncate vma) = Map_line (mv_start vma) (mv_end vma) perms pgoff major minor ino name"
    using area_line [of "map_vma.truncate vma"] by (metis truncate_ends)
  have none: "\<forall>l \<in> set body. scan_range (smap_text out l) = None"
    using body by (auto simp: show_smap_def show_smap_lines_def Let_def no_range_flags no_range_labels
        simp del: smap_text.simps split: option.splits)
  have "show_smaps_loop target found (map (smap_text out) (show_smap ilog2 walk vma) @ rest) =
      (if ?in then concat (map smaps_matches (map (smap_text out) body)) else []) @ show_smaps_loop target ?in rest"
    using scan_range_area [OF assms(1), of "mv_start vma" "mv_end vma" perms pgoff major minor ino name]
      area_matches [OF assms] show_smaps_skip [of "map (smap_text out) body" target ?in rest] none
    by (auto simp: body line Let_def)
  moreover have "concat (map smaps_matches (map (smap_text out) body)) =
      map (\<lambda>name. ''  '' @ smap_text out (Kb_line name (kb_of (show_smap ilog2 walk vma) name))) shown_sizes"
    using body by (auto simp: show_smap_def show_smap_lines_def Let_def label_matches [OF assms(1)] flags_match
        shown_sizes_def simp del: smap_text.simps split: option.splits)
  ultimately show ?thesis by simp
qed

lemma entries_lines:
  assumes "seq_text_ok out" "\<forall>vma \<in> set areas. innocent (show_map_vma (map_vma.truncate vma))"
  shows "show_smaps_loop target found (concat (map (\<lambda>vma. map (smap_text out) (show_smap ilog2 walk vma)) areas)) =
    concat (map (\<lambda>vma. if mv_start vma \<le> target \<and> target < mv_end vma
      then map (\<lambda>name. ''  '' @ smap_text out (Kb_line name (kb_of (show_smap ilog2 walk vma) name))) shown_sizes
      else []) areas)"
  using assms(2)
proof (induction areas arbitrary: found)
  case Nil then show ?case by simp
next
  case (Cons vma areas)
  then show ?case using entry_lines [OF assms(1), of vma] by (simp del: show_smaps_loop.simps)
qed

lemma smaps_lines:
  assumes "seq_text_ok out" "\<forall>vma \<in> set areas. readable 256 out (show_map_vma (map_vma.truncate vma))"
  shows "fgets_lines 256 (smaps_text out ilog2 walk areas) =
    concat (map (\<lambda>vma. map (smap_text out) (show_smap ilog2 walk vma)) areas)"
proof -
  have "fits 256 (smap_text out l)" if "vma \<in> set areas" "l \<in> set (show_smap ilog2 walk vma)" for vma l
  proof -
    have "fits 256 (area_text out (show_map_vma (map_vma.truncate vma)))"
      by (rule fits_area [OF assms(1) _ perms_ok]) (use assms(2) that(1) in blast)
    moreover have "fits 256 (smap_text out (Flags_line (show_smap_vma_flags ilog2 (mv_flags vma))))"
      by (rule flags_text(1) [of "CHR ''S''"]) simp
    ultimately show ?thesis
      using that(2) by (auto simp: show_smap_def show_smap_lines_def Let_def fits_label [OF assms(1)]
          simp del: smap_text.simps(2-4) split: option.splits)
  qed
  then have "\<forall>line \<in> set (map (smap_text out) (concat (map (show_smap ilog2 walk) areas))). fits 256 line" by auto
  then show ?thesis unfolding smaps_text_def by (subst fgets_lines_concat) (simp_all add: map_concat comp_def)
qed

text \<open>
  C28. What the program prints is the kernel's entry: of the text the kernel writes for any areas whose
  lines fit its buffer and whose names do not hold the words it looks for, it prints the four lines with
  the size, the two page sizes and the huge pages of the areas that contain the address, with the
  numbers of their entry, and nothing else. Without the file it prints nothing.
\<close>

theorem show_smaps_for_addr_exact:
  assumes "seq_text_ok out"
    and "\<forall>vma \<in> set areas. readable 256 out (show_map_vma (map_vma.truncate vma)) \<and>
      innocent (show_map_vma (map_vma.truncate vma))"
  shows "show_smaps_for_addr target (Some (smaps_text out ilog2 walk areas)) =
    concat (map (\<lambda>vma. map (\<lambda>name. ''  '' @ smap_text out (Kb_line name (kb_of (show_smap ilog2 walk vma) name)))
        [''Size'', ''KernelPageSize'', ''MMUPageSize'', ''AnonHugePages''])
      (filter (\<lambda>vma. mv_start vma \<le> target \<and> target < mv_end vma) areas)) \<and>
    show_smaps_for_addr target None = []"
proof -
  have "concat (map (\<lambda>vma. if P vma then f vma else []) xs) = concat (map f (filter P xs))" for P f and xs :: "'z list"
    by (induction xs) simp_all
  note filtered = this
  have "fgets_lines 256 (smaps_text out ilog2 walk areas) =
      concat (map (\<lambda>vma. map (smap_text out) (show_smap ilog2 walk vma)) areas)"
    by (rule smaps_lines [OF assms(1)]) (use assms(2) in blast)
  moreover have "\<forall>vma \<in> set areas. innocent (show_map_vma (map_vma.truncate vma))" using assms(2) by blast
  note entries_lines [OF assms(1) this]
  ultimately show ?thesis
    by (simp only: show_smaps_for_addr_def option.case filtered shown_sizes_def simp_thms)
qed

theorem show_smaps_for_addr_exact_witness:
  "let smaps = smaps_text plain_text flag_place (stats_walk two_tables) [example_area] in
    length (show_smaps_for_addr 0x1800 (Some smaps)) = 4 \<and> show_smaps_for_addr 0x2000 (Some smaps) = []"
proof -
  have line: "show_map_vma (map_vma.truncate example_area) = Map_line 0x1000 0x2000 ''rw-p'' 0 0 0 0 (Some ''[heap]'')"
    by (simp add: example_area_def map_vma.defs show_map_vma_def show_vma_header_prefix_def get_vma_name_def
        perm_string_def)
  have "readable 256 plain_text (Map_line 0x1000 0x2000 ''rw-p'' 0 0 0 0 (Some ''[heap]''))"
    by (simp add: readable_def shown_name_def area_text_def header_text_def plain_text_sel number_text_numeral)
  moreover have "innocent (Map_line 0x1000 0x2000 ''rw-p'' 0 0 0 0 (Some ''[heap]''))"
    by (simp add: innocent_def shown_name_def)
  ultimately have "\<forall>vma \<in> set [example_area]. readable 256 plain_text (show_map_vma (map_vma.truncate vma)) \<and>
      innocent (show_map_vma (map_vma.truncate vma))"
    by (simp add: line)
  note exact = show_smaps_for_addr_exact [OF plain_text_ok this, THEN conjunct1]
  have ends: "mv_start example_area = 0x1000" "mv_end example_area = 0x2000"
    by (simp_all add: example_area_def map_vma.defs)
  show ?thesis unfolding Let_def exact by (simp add: ends del: smap_text.simps)
qed

text \<open>
  The condition on the lines is needed: of a longer line the rest is read as a line of its own, and a
  name that goes on with a range there stands for an area.
\<close>

lemma cut_name_misleads:
  assumes "newline \<notin> set s" "length s = 255" "newline \<notin> set t" "length t < 255"
    and "scan_range (t @ [newline]) = Some (x, y, r)" "x \<le> target" "target < y"
  shows "show_smaps_loop target False (fgets_lines 256 (s @ t @ newline # rest)) =
    show_smaps_loop target False [s] @ smaps_matches (t @ [newline]) @ show_smaps_loop target True (fgets_lines 256 rest)"
proof -
  have "fgets_lines 256 (s @ t @ newline # rest) = s # (t @ [newline]) # fgets_lines 256 rest"
    using fgets_lines_cut [of s 256 "t @ newline # rest"] fgets_lines_fit [of t 256 rest] assms(1-4) by fastforce
  then show ?thesis using assms(5-7) by (simp add: Let_def)
qed

section \<open>The areas of a library\<close>

text \<open>
  What \<open>sscanf\<close> leaves in the variables of the loop: it stores the conversions up to the first that
  fails, the others keep what they had. Each \<open>%s\<close> also writes a terminating zero.
\<close>

record libc_vma =
  lv_start :: u64
  lv_end :: u64
  lv_perms :: string
  lv_offset :: u64
  lv_dev :: string
  lv_inode :: u64
  lv_path :: string

definition scan_libc_vma :: "string \<Rightarrow> libc_vma \<Rightarrow> libc_vma" where
  "scan_libc_vma line v =
    (case scan_hex line of None \<Rightarrow> v | Some (n, s) \<Rightarrow>
     let v = v\<lparr>lv_start := n\<rparr> in
     case scan_char CHR ''-'' s of None \<Rightarrow> v | Some s \<Rightarrow>
     case scan_hex s of None \<Rightarrow> v | Some (n, s) \<Rightarrow>
     let v = v\<lparr>lv_end := n\<rparr> in
     case scan_word s of None \<Rightarrow> v | Some (w, s) \<Rightarrow>
     let v = v\<lparr>lv_perms := w\<rparr> in
     case scan_hex s of None \<Rightarrow> v | Some (n, s) \<Rightarrow>
     let v = v\<lparr>lv_offset := n\<rparr> in
     case scan_word s of None \<Rightarrow> v | Some (w, s) \<Rightarrow>
     let v = v\<lparr>lv_dev := w\<rparr> in
     case scan_dec s of None \<Rightarrow> v | Some (n, s) \<Rightarrow>
     let v = v\<lparr>lv_inode := n\<rparr> in
     case scan_word s of None \<Rightarrow> v | Some (w, s) \<Rightarrow> v\<lparr>lv_path := w\<rparr>)"

text \<open>The buffers: \<open>char perms[8], dev[16], path[256]\<close>.\<close>

definition libc_vma_fits :: "libc_vma \<Rightarrow> bool" where
  "libc_vma_fits v \<longleftrightarrow> length (lv_perms v) < 8 \<and> length (lv_dev v) < 16 \<and> length (lv_path v) < 256"

datatype libc_line =
    Ll_inode u64
  | Ll_size u64 u64
  | Ll_device u64 u64
  | Ll_processes int
  | is_Ll_vma: Ll_vma int u64 u64 string u64 u64
  | Ll_extent u64 u64
  | Ll_page u64 u64
  | Ll_access u64 u64
  | Ll_index u64
  | Ll_mapping u64
  | Ll_shared int int

text \<open>
  The loop over the program's own areas. \<open>stale i\<close> is what the variables of the block hold before the
  \<open>i\<close>-th match; the result the rows and the first area's start, end and offset.
\<close>

fun libc_vmas ::
  "(int \<Rightarrow> libc_vma) \<Rightarrow> string list \<Rightarrow> int \<Rightarrow> u64 \<times> u64 \<times> u64 \<Rightarrow> (libc_line list \<times> u64 \<times> u64 \<times> u64) option" where
  "libc_vmas stale [] vma_num first = Some ([], first)"
| "libc_vmas stale (line # lines) vma_num first =
    (if strstr line ''libc.so.6'' then
       let v = scan_libc_vma line (stale vma_num) in
       if \<not> libc_vma_fits v then None else
       let size_bytes = lv_end v - lv_start v;
           first = (if vma_num = 0 then (lv_start v, lv_end v, lv_offset v) else first) in
       (case libc_vmas stale lines (vma_num + 1) first of
          None \<Rightarrow> None
        | Some (rows, first) \<Rightarrow>
            Some (Ll_vma vma_num (lv_start v) (lv_end v) (lv_perms v) (lv_offset v) (size_bytes div 4096) # rows, first))
     else libc_vmas stale lines vma_num first)"

text \<open>An entry of \<open>/proc\<close>: whether it is a directory, its name and the text of its \<open>maps\<close>, if that opens.\<close>

definition maps_libc :: "bool \<times> string \<times> string option \<Rightarrow> bool" where
  "maps_libc = (\<lambda>(is_dir, d_name, maps).
    is_dir \<and> d_name \<noteq> [] \<and> 48 \<le> (of_char (hd d_name) :: nat) \<and> (of_char (hd d_name) :: nat) \<le> 57 \<and>
    (case maps of None \<Rightarrow> False | Some text \<Rightarrow> list_ex (\<lambda>line. strstr line ''libc.so.6'') (fgets_lines 512 text)))"

record libc_stat =
  ls_ino :: u64
  ls_size :: u64
  ls_major :: u64
  ls_minor :: u64

text \<open>
  \<open>libc_stat.st_ino\<close> is printed whether or not \<open>stat\<close> filled it in; \<open>junk\<close> is what the variable holds
  otherwise. Sizes are below \<open>2 ^ 63\<close>, so dividing the signed size is dividing the word.
\<close>

definition libc_map_trace ::
  "libc_stat option \<Rightarrow> u64 \<Rightarrow> (bool \<times> string \<times> string option) list option \<Rightarrow> (int \<Rightarrow> libc_vma) \<Rightarrow> string option \<Rightarrow>
   (int \<times> libc_line list) option" where
  "libc_map_trace stat junk proc stale self_maps =
    (let out = (case stat of None \<Rightarrow> [] | Some st \<Rightarrow>
           [Ll_inode (ls_ino st), Ll_size (ls_size st) (ls_size st div 4096), Ll_device (ls_major st) (ls_minor st)]) in
     case proc of
       None \<Rightarrow> Some (1, out)
     | Some entries \<Rightarrow>
         let count = int (length (filter maps_libc entries));
             out = out @ [Ll_processes count] in
         (case (case self_maps of None \<Rightarrow> Some ([], 0, 0, 0)
                | Some text \<Rightarrow> libc_vmas stale (fgets_lines 512 text) 0 (0, 0, 0)) of
            None \<Rightarrow> None
          | Some (rows, vm_start, vm_end, off) \<Rightarrow>
              Some (0, out @ rows @
                [Ll_extent off (off + (vm_end - vm_start)), Ll_page off (off div 4096),
                 Ll_access vm_start off, Ll_index (off div 4096),
                 Ll_mapping (case stat of None \<Rightarrow> junk | Some st \<Rightarrow> ls_ino st), Ll_shared count (count - 1)])))"

text \<open>The first word of a text, as \<open>%s\<close> reads it.\<close>

definition first_word :: "string \<Rightarrow> string" where
  "first_word s = takeWhile (\<lambda>c. \<not> isspace c) (dropWhile isspace s)"

lemma scan_first_word: "scan_word s = (if first_word s = [] then None else Some (first_word s, drop (length (first_word s)) (dropWhile isspace s)))"
  by (simp add: scan_word_def first_word_def Let_def)

lemma isspace_chars: "isspace CHR '' ''" "isspace newline" "\<not> isspace CHR ''l''" "\<not> isspace CHR ''.''"
  by (simp_all add: isspace_def)

lemma perm_word: "scan_word (CHR '' '' # perm_string flags @ CHR '' '' # t) = Some (perm_string flags, CHR '' '' # t)"
  using scan_word_reads [of "[CHR '' '']" "perm_string flags" "CHR '' '' # t"]
  by (auto simp: perm_string_def isspace_def)

lemma dev_word:
  assumes "seq_text_ok out"
  shows "scan_word (CHR '' '' # sq_hex out 2 m @ CHR '':'' # sq_hex out 2 n @ CHR '' '' # t) =
    Some (sq_hex out 2 m @ CHR '':'' # sq_hex out 2 n, CHR '' '' # t)"
proof -
  have "\<not> isspace c" if "c \<in> set (sq_hex out 2 v)" for c v
    using seq_hex [OF assms, of 2 v] that digit_not_space(1) by (auto simp: prints_def)
  then show ?thesis
    using scan_word_reads [of "[CHR '' '']" "sq_hex out 2 m @ CHR '':'' # sq_hex out 2 n" "CHR '' '' # t"]
    by (auto simp: isspace_def)
qed

lemma inode_number:
  assumes "seq_text_ok out"
  shows "scan_dec (CHR '' '' # sq_dec out 0 v @ CHR '' '' # t) = Some (v, CHR '' '' # t)"
proof -
  obtain k s where s: "sq_dec out 0 v = replicate k CHR '' '' @ s" "prints dec_digit 10 s (unat v)"
    using seq_dec [OF assms] .
  then show ?thesis
    using scan_dec_prints [of "replicate (Suc k) CHR '' ''" s v "CHR '' '' # t"] by (simp add: isspace_def dec_digit_def)
qed

lemma drop_blanks: "set w \<subseteq> {CHR '' ''} \<Longrightarrow> dropWhile isspace (w @ s) = dropWhile isspace s"
  by (induction w) (simp_all add: isspace_def)

lemma first_word_line: "first_word (s @ [newline]) = first_word s"
proof -
  have "dropWhile isspace (s @ [newline]) = (if dropWhile isspace s = [] then [] else dropWhile isspace s @ [newline])"
    by (induction s) (auto simp: isspace_chars)
  then show ?thesis
    by (auto simp: first_word_def isspace_chars takeWhile_tail dropWhile_eq_Nil_conv [THEN iffD2])
qed

text \<open>What the conversions read of a line: every field of the area, and the first word of its name.\<close>

lemma scan_area:
  assumes "seq_text_ok out" "show_map_vma vma = Map_line s e perms pgoff major minor ino name"
  shows "scan_libc_vma (area_text out (show_map_vma vma)) v =
    \<lparr>lv_start = s, lv_end = e, lv_perms = perms, lv_offset = pgoff,
     lv_dev = sq_hex out 2 (ucast major) @ CHR '':'' # sq_hex out 2 (ucast minor), lv_inode = ino,
     lv_path = (case name of None \<Rightarrow> lv_path v
       | Some n \<Rightarrow> if first_word n = [] then lv_path v else first_word n)\<rparr>"
proof -
  have perms: "perms = perm_string (mv_flags vma)" using perms_of_area [of vma] assms(2) by (simp add: shown_perms_def)
  obtain w where w: "area_text out (show_map_vma vma) = header_text out (show_map_vma vma) @ w @ shown_name (show_map_vma vma) @ [newline]"
    "set w \<subseteq> {CHR '' ''}"
    using area_text_shape [OF assms(1)] .
  have path: "first_word (CHR '' '' # w @ shown_name (show_map_vma vma) @ [newline]) =
      (case name of None \<Rightarrow> [] | Some n \<Rightarrow> first_word n)"
    using drop_blanks [OF w(2), of "shown_name (show_map_vma vma) @ [newline]"] first_word_line
    by (simp add: first_word_def shown_name_def assms(2) isspace_chars split: option.splits)
  have "area_text out (show_map_vma vma) = sq_hex out 8 s @ CHR ''-'' # sq_hex out 8 e @ CHR '' '' # perms @ CHR '' '' #
      sq_hex out 8 pgoff @ CHR '' '' # sq_hex out 2 (ucast major) @ CHR '':'' # sq_hex out 2 (ucast minor) @ CHR '' '' #
      sq_dec out 0 ino @ CHR '' '' # w @ shown_name (show_map_vma vma) @ [newline]"
    unfolding w(1) by (simp add: header_text_def assms(2))
  then show ?thesis
    by (simp add: scan_libc_vma_def read_hex [OF assms(1)] not_hex scan_char_def perms perm_word dev_word [OF assms(1)]
        inode_number [OF assms(1)] scan_first_word [of "CHR '' '' # w @ _"] path Let_def split: option.splits)
qed

text \<open>The areas of the library, by the name the line shows, and the row the program prints for one.\<close>

definition libc_areas :: "map_vma list \<Rightarrow> map_vma list" where
  "libc_areas areas = filter (\<lambda>vma. strstr (shown_name (show_map_vma vma)) ''libc.so.6'') areas"

definition libc_row :: "int \<Rightarrow> map_vma \<Rightarrow> libc_line" where
  "libc_row i vma =
    (case show_map_vma vma of Map_line s e perms pgoff major minor ino name \<Rightarrow> Ll_vma i s e perms pgoff ((e - s) div 4096))"

definition libc_start :: "map_vma \<Rightarrow> u64 \<times> u64 \<times> u64" where
  "libc_start vma = (case show_map_vma vma of Map_line s e perms pgoff major minor ino name \<Rightarrow> (s, e, pgoff))"

definition name_fits :: "map_vma \<Rightarrow> bool" where
  "name_fits vma \<longleftrightarrow> length (first_word (shown_name (show_map_vma vma))) < 256"

lemma has_word: "strstr s pat \<Longrightarrow> c \<in> set pat \<Longrightarrow> \<not> isspace c \<Longrightarrow> first_word s \<noteq> []"
  using strstr_chars [of s pat] hd_dropWhile [of isspace s] by (auto simp: first_word_def takeWhile_eq_Nil_iff)

lemma dev_length:
  fixes dev :: u32
  assumes "seq_text_ok out"
  shows "length (sq_hex out 2 (ucast (drop_bit 20 dev))) + length (sq_hex out 2 (ucast (dev AND 0xFFFFF))) \<le> 8"
proof -
  have "unat dev < 2 ^ 32" using unsigned_less [of dev, where ?'a = nat] by simp
  then have "unat (drop_bit 20 dev) < 16 ^ 3" by (simp add: unat_drop_bit less_mult_imp_div_less)
  moreover have "dev AND 0xFFFFF = take_bit 20 dev" by (simp add: take_bit_eq_mask mask_eq_exp_minus_1)
  then have "unat (dev AND 0xFFFFF) < 16 ^ 5" using take_bit_nat_less_exp [of 20 "unat dev"] by (simp add: unsigned_take_bit_eq)
  moreover have up: "unat (ucast x :: u64) = unat x" for x :: u32
    using unsigned_less [of x, where ?'a = nat] by (simp add: unsigned_ucast_eq take_bit_nat_eq_self)
  ultimately have "length (sq_hex out 2 (ucast (drop_bit 20 dev))) \<le> max 2 3"
    "length (sq_hex out 2 (ucast (dev AND 0xFFFFF))) \<le> max 2 5"
    by (intro seq_lengths(1) [OF assms, rule_format]; simp only: up; simp)+
  then show ?thesis by simp
qed

lemma libc_match:
  assumes "seq_text_ok out"
  shows "strstr (area_text out (show_map_vma vma)) ''libc.so.6'' = strstr (shown_name (show_map_vma vma)) ''libc.so.6''"
  by (rule strstr_name [OF assms _ _ _ header_lacking(3) perms_ok]) simp_all

lemma libc_vmas_step:
  fixes u :: libc_vma
  assumes "seq_text_ok out" "strstr (shown_name (show_map_vma vma)) ''libc.so.6''"
  defines "v \<equiv> scan_libc_vma (area_text out (show_map_vma vma)) u"
  shows "libc_vma_fits v = name_fits vma"
    and "(lv_start v, lv_end v, lv_offset v) = libc_start vma"
    and "Ll_vma i (lv_start v) (lv_end v) (lv_perms v) (lv_offset v) ((lv_end v - lv_start v) div 4096) = libc_row i vma"
proof -
  obtain pgoff dev ino name where l: "show_map_vma vma =
      Map_line (mv_start vma) (mv_end vma) (perm_string (mv_flags vma)) pgoff (drop_bit 20 dev) (dev AND 0xFFFFF) ino name"
    by (rule area_line)
  have word: "first_word (shown_name (show_map_vma vma)) \<noteq> []"
    using has_word [OF assms(2), of "CHR ''l''"] isspace_chars(3) by simp
  then obtain n where n: "name = Some n" using l by (cases name) (simp_all add: shown_name_def first_word_def)
  note v = scan_area [OF assms(1) l, of u, folded v_def]
  show "libc_vma_fits v = name_fits vma"
    using dev_length [OF assms(1), of dev] perm_letters [of "mv_flags vma"] word
    by (simp add: v libc_vma_fits_def name_fits_def n l shown_name_def)
  show "(lv_start v, lv_end v, lv_offset v) = libc_start vma" by (simp add: v libc_start_def l)
  show "Ll_vma i (lv_start v) (lv_end v) (lv_perms v) (lv_offset v) ((lv_end v - lv_start v) div 4096) = libc_row i vma"
    by (simp add: v libc_row_def l)
qed

lemma libc_vmas_areas:
  assumes "seq_text_ok out"
  shows "libc_vmas stale (map (\<lambda>vma. area_text out (show_map_vma vma)) areas) (int i) first =
    (if list_all name_fits (libc_areas areas)
     then Some (map (\<lambda>(i, vma). libc_row (int i) vma) (enumerate i (libc_areas areas)),
       if i = 0 \<and> libc_areas areas \<noteq> [] then libc_start (hd (libc_areas areas)) else first)
     else None)"
proof (induction areas arbitrary: i first)
  case Nil then show ?case by (simp add: libc_areas_def)
next
  case (Cons vma areas)
  show ?case
  proof (cases "strstr (shown_name (show_map_vma vma)) ''libc.so.6''")
    case False
    then show ?thesis using Cons.IH [of i first] libc_match [OF assms, of vma] by (simp add: libc_areas_def)
  next
    case True
    note step = libc_vmas_step [OF assms True]
    have "libc_areas (vma # areas) = vma # libc_areas areas" using True by (simp add: libc_areas_def)
    note facts = this libc_match [OF assms] step True
    show ?thesis
    proof (cases i)
      case 0
      then show ?thesis using Cons.IH [of 1] by (simp add: facts Let_def)
    next
      case (Suc j)
      then show ?thesis using Cons.IH [of "Suc i" first] by (simp add: facts Let_def add.commute)
    qed
  qed
qed

lemma rows_only: "filter is_Ll_vma (map (\<lambda>(i, vma). libc_row (f i) vma) xs) = map (\<lambda>(i, vma). libc_row (f i) vma) xs"
  by (induction xs) (auto simp: libc_row_def split: map_line.splits)

text \<open>
  C29. The program's own areas of the library: of the text the kernel writes it prints, in order and
  numbered from 0, the range, permissions, offset and pages of exactly the areas whose name holds
  \<open>libc.so.6\<close>, whatever its variables held before, and goes on with the first of them; but it writes
  past \<open>path\<close> exactly when such a name has 256 characters or more before a blank.
\<close>

theorem libc_map_trace_exact:
  assumes "seq_text_ok out" "\<forall>vma \<in> set areas. readable 512 out (show_map_vma vma)"
  shows "case libc_map_trace stat junk (Some entries) stale (Some (maps_text out areas)) of
      None \<Rightarrow> \<exists>vma \<in> set (libc_areas areas). 256 \<le> length (first_word (shown_name (show_map_vma vma)))
    | Some (r, lines) \<Rightarrow>
        r = 0 \<and> (\<forall>vma \<in> set (libc_areas areas). length (first_word (shown_name (show_map_vma vma))) < 256) \<and>
        filter is_Ll_vma lines = map (\<lambda>(i, vma). libc_row (int i) vma) (enumerate 0 (libc_areas areas)) \<and>
        (case libc_areas areas of [] \<Rightarrow> Ll_access 0 0 \<in> set lines
         | vma # _ \<Rightarrow> (case libc_start vma of (vm_start, vm_end, off) \<Rightarrow>
             {Ll_extent off (off + (vm_end - vm_start)), Ll_access vm_start off, Ll_index (off div 4096)} \<subseteq> set lines))"
proof -
  have loop: "libc_vmas stale (fgets_lines 512 (maps_text out areas)) 0 (0, 0, 0) =
      (if list_all name_fits (libc_areas areas)
       then Some (map (\<lambda>(i, vma). libc_row (int i) vma) (enumerate 0 (libc_areas areas)),
         if libc_areas areas \<noteq> [] then libc_start (hd (libc_areas areas)) else (0, 0, 0))
       else None)"
    using libc_vmas_areas [OF assms(1), of stale areas 0 "(0, 0, 0)"] by (simp add: maps_lines [OF assms])
  show ?thesis
  proof (cases "list_all name_fits (libc_areas areas)")
    case False
    then show ?thesis by (auto simp: libc_map_trace_def loop Let_def list_all_iff name_fits_def not_less)
  next
    case True
    then have "\<forall>vma \<in> set (libc_areas areas). length (first_word (shown_name (show_map_vma vma))) < 256"
      by (simp add: list_all_iff name_fits_def)
    then show ?thesis
      using True by (auto simp: libc_map_trace_def loop Let_def rows_only split: option.splits prod.splits list.splits)
  qed
qed

section \<open>Where a function of the library is mapped\<close>

text \<open>\<open>sscanf\<close> with \<open>%lx-%*lx %*s %lx\<close> into \<open>libc_start\<close> and \<open>libc_offset\<close>; a star reads without storing.\<close>

definition scan_got :: "string \<Rightarrow> u64 \<times> u64 \<Rightarrow> u64 \<times> u64" where
  "scan_got line = (\<lambda>(libc_start, libc_offset).
    (case scan_hex line of None \<Rightarrow> (libc_start, libc_offset) | Some (n, s) \<Rightarrow>
     case scan_char CHR ''-'' s of None \<Rightarrow> (n, libc_offset) | Some s \<Rightarrow>
     case scan_hex s of None \<Rightarrow> (n, libc_offset) | Some (_, s) \<Rightarrow>
     case scan_word s of None \<Rightarrow> (n, libc_offset) | Some (_, s) \<Rightarrow>
     case scan_hex s of None \<Rightarrow> (n, libc_offset) | Some (m, s) \<Rightarrow> (n, m)))"

text \<open>The loop stops at the first line with both words.\<close>

fun got_vma :: "string list \<Rightarrow> (u64 \<times> u64) option" where
  "got_vma [] = None"
| "got_vma (line # lines) =
    (if strstr line ''libc'' \<and> strstr line ''r-xp'' then Some (scan_got line (0, 0)) else got_vma lines)"

datatype got_line =
    Got_actual u64
  | Got_vma u64 u64
  | Got_offset u64
  | Got_expected u64 u64 u64 u64
  | Got_compare u64 u64
  | Got_match
  | Got_mismatch int
  | Got_symbol "string option" u64 u64
  | Got_trace u64 u64 u64 u64

text \<open>
  \<open>next\<close> and \<open>dflt\<close> are what \<open>dlsym\<close> answers, \<open>dladdr\<close> the symbol's name, base and address. The
  stream of \<open>fopen\<close> is not tested: without the file \<open>fgets\<close> gets a null stream.
\<close>

definition got_proof ::
  "u64 \<Rightarrow> u64 \<Rightarrow> (string option \<times> u64 \<times> u64) option \<Rightarrow> string option \<Rightarrow> got_line list option" where
  "got_proof dlsym_next dlsym_default dladdr maps =
    (let printf_addr = (if dlsym_next = 0 then dlsym_default else dlsym_next) in
     case maps of
       None \<Rightarrow> None
     | Some text \<Rightarrow>
         let found = got_vma (fgets_lines 512 text);
             (libc_start, libc_offset) = (case found of None \<Rightarrow> (0, 0) | Some v \<Rightarrow> v);
             printf_offset = 0x60100;
             vm_pgoff_bytes = libc_offset;
             expected_printf = libc_start + (printf_offset - vm_pgoff_bytes) in
         Some ([Got_actual printf_addr] @
           (case found of None \<Rightarrow> [] | Some v \<Rightarrow> [Got_vma libc_start libc_offset]) @
           [Got_offset printf_offset,
            Got_expected libc_start printf_offset vm_pgoff_bytes expected_printf,
            Got_compare printf_addr expected_printf,
            if printf_addr = expected_printf then Got_match else Got_mismatch (sint (printf_addr - expected_printf))] @
           (case dladdr of None \<Rightarrow> [] | Some (sname, fbase, saddr) \<Rightarrow> [Got_symbol sname fbase saddr]) @
           [Got_trace libc_start printf_offset expected_printf printf_addr]))"

text \<open>The area it takes: the first that is executable, not writable and private and of the library.\<close>

definition got_areas :: "map_vma list \<Rightarrow> map_vma list" where
  "got_areas areas = filter (\<lambda>vma. strstr (shown_name (show_map_vma vma)) ''libc'' \<and>
    (perm_string (mv_flags vma) = ''r-xp'' \<or> strstr (shown_name (show_map_vma vma)) ''r-xp'')) areas"

lemma offset_inside: "x \<le> y \<Longrightarrow> (x \<le> x + d \<and> x + d < y) = (d < y - x)" for x y d :: u64
  by uint_arith

lemma perm_is: "strstr (perm_string flags) ''r-xp'' \<longleftrightarrow> perm_string flags = ''r-xp''"
  by (simp add: perm_string_def)

lemma got_words:
  assumes "seq_text_ok out"
  shows "strstr (area_text out (show_map_vma vma)) ''libc'' = strstr (shown_name (show_map_vma vma)) ''libc''"
    and "strstr (area_text out (show_map_vma vma)) ''r-xp'' \<longleftrightarrow>
      perm_string (mv_flags vma) = ''r-xp'' \<or> strstr (shown_name (show_map_vma vma)) ''r-xp''"
proof -
  show "strstr (area_text out (show_map_vma vma)) ''libc'' = strstr (shown_name (show_map_vma vma)) ''libc''"
    by (rule strstr_name [OF assms _ _ _ header_lacking(3) perms_ok]) simp_all
  obtain pgoff dev ino name where l: "show_map_vma vma =
      Map_line (mv_start vma) (mv_end vma) (perm_string (mv_flags vma)) pgoff (drop_bit 20 dev) (dev AND 0xFFFFF) ino name"
    by (rule area_line)
  let ?front = "sq_hex out 8 (mv_start vma) @ CHR ''-'' # sq_hex out 8 (mv_end vma)"
  let ?tail = "sq_hex out 8 pgoff @ CHR '' '' # sq_hex out 2 (ucast (drop_bit 20 dev)) @ CHR '':'' #
    sq_hex out 2 (ucast (dev AND 0xFFFFF)) @ CHR '' '' # sq_dec out 0 ino @ '' ''"
  have "CHR ''r'' \<notin> set ?front" "CHR ''r'' \<notin> set ?tail"
    using hex_chars [OF assms not_hex(5)] dec_chars [OF assms, of "CHR ''r''"] by (simp_all add: dec_digit_def)
  then have sides: "\<not> strstr ?front ''r-xp''" "\<not> strstr ?tail ''r-xp''"
    using strstr_chars [of _ "''r-xp''"] by (metis insert_subset list.simps(15))+
  have pat: "CHR '' '' \<notin> set ''r-xp''" "newline \<notin> set ''r-xp''" "''r-xp'' \<noteq> []" by simp_all
  have "header_text out (show_map_vma vma) = ?front @ CHR '' '' # perm_string (mv_flags vma) @ CHR '' '' # ?tail"
    by (simp add: header_text_def l)
  then have "strstr (header_text out (show_map_vma vma)) ''r-xp'' \<longleftrightarrow> perm_string (mv_flags vma) = ''r-xp''"
    using strstr_blank [OF pat(1,3), of ?front "perm_string (mv_flags vma) @ CHR '' '' # ?tail"]
      strstr_blank [OF pat(1,3), of "perm_string (mv_flags vma)" ?tail] sides perm_is by metis
  then show "strstr (area_text out (show_map_vma vma)) ''r-xp'' \<longleftrightarrow>
      perm_string (mv_flags vma) = ''r-xp'' \<or> strstr (shown_name (show_map_vma vma)) ''r-xp''"
    using strstr_area [OF assms pat] by metis
qed

lemma scan_got_area:
  assumes "seq_text_ok out"
  shows "scan_got (area_text out (show_map_vma vma)) v =
    (case libc_start vma of (vm_start, vm_end, off) \<Rightarrow> (vm_start, off))"
proof -
  obtain pgoff dev ino name where l: "show_map_vma vma =
      Map_line (mv_start vma) (mv_end vma) (perm_string (mv_flags vma)) pgoff (drop_bit 20 dev) (dev AND 0xFFFFF) ino name"
    by (rule area_line)
  obtain rest where "area_text out (show_map_vma vma) =
      sq_hex out 8 (mv_start vma) @ CHR ''-'' # sq_hex out 8 (mv_end vma) @ CHR '' '' # perm_string (mv_flags vma) @
      CHR '' '' # sq_hex out 8 pgoff @ CHR '' '' # rest"
    by (simp add: area_text_def header_text_def l)
  then show ?thesis
    by (simp add: scan_got_def read_hex [OF assms] not_hex scan_char_def perm_word libc_start_def l split: prod.splits)
qed

lemma got_vma_areas:
  assumes "seq_text_ok out"
  shows "got_vma (map (\<lambda>vma. area_text out (show_map_vma vma)) areas) =
    (case got_areas areas of [] \<Rightarrow> None | vma # _ \<Rightarrow>
       Some (case libc_start vma of (vm_start, vm_end, off) \<Rightarrow> (vm_start, off)))"
  by (induction areas) (auto simp: got_areas_def got_words [OF assms] scan_got_area [OF assms])

text \<open>
  C30. The address the program expects is where the kernel mapped the function: in the first executable
  private area of the library it is the address at which the area shows the file's byte 0x60100, and it
  lies in the area exactly when the area shows that byte at all. The program reports a match exactly
  when the linker's address is this one, and without such an area when it is 0x60100 itself.
\<close>

theorem got_proof_exact:
  assumes "seq_text_ok out" "\<forall>vma \<in> set areas. readable 512 out (show_map_vma vma)" "dlsym_next \<noteq> 0"
  shows "case got_proof dlsym_next dlsym_default dladdr (Some (maps_text out areas)) of
      None \<Rightarrow> False
    | Some lines \<Rightarrow>
        (case got_areas areas of
           [] \<Rightarrow> Got_match \<in> set lines \<longleftrightarrow> dlsym_next = 0x60100
         | vma # _ \<Rightarrow> (case libc_start vma of (vm_start, vm_end, off) \<Rightarrow>
             \<exists>addr. Got_expected vm_start 0x60100 off addr \<in> set lines \<and> off + (addr - vm_start) = 0x60100 \<and>
               (vm_start \<le> vm_end \<longrightarrow>
                 (vm_start \<le> addr \<and> addr < vm_end \<longleftrightarrow> (0x60100 - off) < vm_end - vm_start)) \<and>
               (Got_match \<in> set lines \<longleftrightarrow> dlsym_next = addr)))"
proof -
  let ?text = "Some (maps_text out areas)"
  have found: "got_vma (fgets_lines 512 (maps_text out areas)) = (case got_areas areas of [] \<Rightarrow> None | vma # _ \<Rightarrow>
      Some (case libc_start vma of (vm_start, vm_end, off) \<Rightarrow> (vm_start, off)))"
    by (simp only: maps_lines [OF assms(1,2)] got_vma_areas [OF assms(1)])
  show ?thesis
  proof (cases "got_areas areas")
    case Nil
    then show ?thesis using assms(3) by (auto simp: got_proof_def found Let_def split: option.splits)
  next
    case (Cons vma rest)
    obtain vm_start vm_end off where v: "libc_start vma = (vm_start, vm_end, off)" by (metis prod.exhaust)
    let ?addr = "vm_start + (0x60100 - off)"
    have "\<exists>lines. got_proof dlsym_next dlsym_default dladdr ?text = Some lines \<and>
        Got_expected vm_start 0x60100 off ?addr \<in> set lines \<and> (Got_match \<in> set lines \<longleftrightarrow> dlsym_next = ?addr)"
      using assms(3) by (auto simp: got_proof_def found Cons v Let_def split: option.splits)
    then obtain lines where lines: "got_proof dlsym_next dlsym_default dladdr ?text = Some lines"
      "Got_expected vm_start 0x60100 off ?addr \<in> set lines" "Got_match \<in> set lines \<longleftrightarrow> dlsym_next = ?addr" by blast
    have "off + (?addr - vm_start) = 0x60100" by simp
    then show ?thesis
      unfolding lines(1) Cons option.case list.case v prod.case
      using lines(2,3) offset_inside [of vm_start vm_end "0x60100 - off"] by blast
  qed
qed

text \<open>An address space with the text of the library: file offset 0x28000, as the program's comments assume.\<close>

definition libc_text :: map_vma where
  "libc_text = \<lparr>mv_start = 0x7F0000028000, mv_end = 0x7F00001BD000, mv_flags = 5,
     mv_file = Some \<lparr>mf_pgoff = 0x28, mf_dev = 0, mf_ino = 77, mf_path = ''/lib/libc.so.6''\<rparr>,
     mv_has_mm = True, mv_anon_name = None, mv_ops_name = None, mv_arch_name = None, mv_heap = False, mv_stack = False\<rparr>"

lemma libc_text:
  "show_map_vma libc_text = Map_line 0x7F0000028000 0x7F00001BD000 ''r-xp'' 0x28000 0 0 77 (Some ''/lib/libc.so.6'')"
  by (simp add: libc_text_def show_map_vma_def show_vma_header_prefix_def get_vma_name_def perm_string_def Let_def)

lemma libc_text_readable: "\<forall>vma \<in> set [libc_text]. readable 512 plain_text (show_map_vma vma)"
  by (simp add: libc_text readable_def shown_name_def area_text_def header_text_def plain_text_sel number_text_numeral)

lemma libc_text_areas: "libc_areas [libc_text] = [libc_text]" "got_areas [libc_text] = [libc_text]"
  "libc_start libc_text = (0x7F0000028000, 0x7F00001BD000, 0x28000)"
  by (simp_all add: libc_areas_def got_areas_def libc_start_def libc_text shown_name_def)
    (simp add: libc_text_def perm_string_def)

theorem libc_map_trace_exact_witness:
  "case libc_map_trace None 7 (Some []) (\<lambda>i. scan_libc_vma [] undefined) (Some (maps_text plain_text [libc_text])) of
      None \<Rightarrow> False
    | Some (r, lines) \<Rightarrow>
        filter is_Ll_vma lines = [Ll_vma 0 0x7F0000028000 0x7F00001BD000 ''r-xp'' 0x28000 0x195] \<and>
        Ll_access 0x7F0000028000 0x28000 \<in> set lines"
proof -
  have "length (first_word ''/lib/libc.so.6'') < 256" by (simp add: first_word_def isspace_def)
  moreover have "libc_row 0 libc_text = Ll_vma 0 0x7F0000028000 0x7F00001BD000 ''r-xp'' 0x28000 0x195"
    by (simp add: libc_row_def libc_text)
  ultimately show ?thesis
    using libc_map_trace_exact [OF plain_text_ok libc_text_readable, of None 7 "[]" "\<lambda>i. scan_libc_vma [] undefined"]
    by (auto simp: libc_text_areas libc_text shown_name_def split: option.splits)
qed

theorem got_proof_exact_witness:
  "case got_proof 0x7F0000060100 0 None (Some (maps_text plain_text [libc_text])) of
      None \<Rightarrow> False | Some lines \<Rightarrow> Got_match \<in> set lines"
proof -
  have "off + (a - s) = n \<Longrightarrow> a = s + (n - off)" for off a s n :: u64 by (metis add_diff_cancel_left' diff_add_cancel add.commute)
  then have "(0x28000 :: u64) + (a - 0x7F0000028000) = 0x60100 \<Longrightarrow> a = 0x7F0000060100" for a by fastforce
  then show ?thesis
    using got_proof_exact [OF plain_text_ok libc_text_readable, of "0x7F0000060100" 0 None]
    by (auto simp: libc_text_areas split: option.splits)
qed

section \<open>The addresses the programs compute\<close>

text \<open>
  \<open>mapping_user.c\<close> maps 4 MB and takes the first 2 MB boundary in it; \<open>mlock_user.c\<close> takes the page and
  the offset of an address.
\<close>

definition thp_aligned :: "u64 \<Rightarrow> u64" where
  "thp_aligned raw_addr = (raw_addr + push_bit 21 1 - 1) AND NOT (push_bit 21 1 - 1)"

definition page_of_ptr :: "u64 \<Rightarrow> u64" where
  "page_of_ptr ptr = ptr AND NOT 0xFFF"

definition offset_in_page :: "u64 \<Rightarrow> u64" where
  "offset_in_page ptr = ptr AND 0xFFF"

text \<open>
  The aligned huge page lies in the 4 MB of any mapping below the top of the address space; of the
  value of a failed \<open>mmap\<close>, which the program does not test, the aligned address is null.
\<close>

lemma thp_aligned_inside:
  assumes "unat raw + 2 ^ 22 \<le> 2 ^ 64"
  shows "2 ^ 21 dvd unat (thp_aligned raw)" "unat raw \<le> unat (thp_aligned raw)"
    "unat (thp_aligned raw) + 2 ^ 21 \<le> unat raw + 2 ^ 22" and "thp_aligned (- 1) = 0"
proof -
  have low: "(push_bit 21 1 - 1 :: u64) = mask 21" by (simp add: mask_eq_exp_minus_1)
  have "raw + push_bit 21 1 - 1 = raw + 0x1FFFFF" by simp
  moreover have "unat (raw + 0x1FFFFF) = unat raw + 0x1FFFFF" using assms unat_add_small [of raw "0x1FFFFF"] by simp
  ultimately have n: "unat (thp_aligned raw) = (unat raw + 0x1FFFFF) div 2 ^ 21 * 2 ^ 21"
    unfolding thp_aligned_def low by (simp only: unat_and_not_mask)
  show "2 ^ 21 dvd unat (thp_aligned raw)" unfolding n by simp
  have "k \<le> (k + 0x1FFFFF) div 2 ^ 21 * 2 ^ 21" "(k + 0x1FFFFF) div 2 ^ 21 * 2 ^ 21 + 2 ^ 21 \<le> k + 2 ^ 22" for k :: nat
    by simp_all
  then show "unat raw \<le> unat (thp_aligned raw)" "unat (thp_aligned raw) + 2 ^ 21 \<le> unat raw + 2 ^ 22"
    unfolding n by blast+
  show "thp_aligned (- 1) = 0" unfolding thp_aligned_def by simp
qed

lemma page_and_offset: "page_of_ptr ptr + offset_in_page ptr = ptr" "unat (offset_in_page ptr) < 4096"
proof -
  have "page_of_ptr ptr AND offset_in_page ptr = 0" "page_of_ptr ptr OR offset_in_page ptr = ptr"
    by (rule bit_word_eqI, auto simp: page_of_ptr_def offset_in_page_def bit_simps)+
  then show "page_of_ptr ptr + offset_in_page ptr = ptr" by (simp add: disjunctive_add_eq_or)
  show "unat (offset_in_page ptr) < 4096"
    using take_bit_nat_less_exp [of 12 "unat ptr"] by (simp add: offset_in_page_def and_low_mask unsigned_take_bit_eq)
qed

end
