(* ===== verification/Lab_Homework.thy ===== *)
theory Lab_Homework
  imports Alloc_Labs
begin

text \<open>
  The homework variants of two labs of \<open>Alloc_Labs\<close>: \<open>metadata_union/metadata_union_hw.c\<close>, which also
  tests what \<open>virt_to_page\<close> answers, and \<open>flags_zone_node/flags_zone_node_hw.c\<close>, which computes the zone
  of its frame and single bits of the flags by hand.
\<close>

unbundle bit_operations_syntax

datatype union_hw_line =
    Uh_normal u64 u64
  | Uh_word8 u64
  | Uh_word16 u64
  | Uh_page_slab bool
  | Uh_object u64
  | Uh_slab u64 u64
  | Uh_compare8 u64 u64
  | Uh_compare16 u64 u64
  | Uh_both bool bool
  | Uh_different bool

text \<open>The null page of \<open>virt_to_page\<close> is 0. The file reads \<open>lru.prev\<close> for offset 8 and \<open>lru.next\<close> for 16.\<close>

definition metadata_union_hw_init ::
  "machine \<Rightarrow> (u64 \<Rightarrow> u64) \<Rightarrow> (u64 \<Rightarrow> bool) \<Rightarrow> (u64 \<Rightarrow> u64) \<Rightarrow> u64 option \<Rightarrow> u64 option \<Rightarrow>
   int \<times> union_hw_line list \<times> kevent list" where
  "metadata_union_hw_init m page_to_pfn page_slab virt_to_page alloc kmalloc =
    (case alloc of
       None \<Rightarrow> (- 12, [], [])
     | Some normal_page \<Rightarrow>
         let prev_normal = pg_lru_prev m normal_page;
             next_normal = pg_lru_next m normal_page;
             pgslab_normal = page_slab normal_page;
             out = [Uh_normal normal_page (page_to_pfn normal_page), Uh_word8 prev_normal, Uh_word16 next_normal,
                    Uh_page_slab pgslab_normal];
             tr = [Acquire (Page_ref normal_page)] in
         (case kmalloc of
            None \<Rightarrow> (- 12, out, tr @ [Release (Page_ref normal_page)])
          | Some slab_obj \<Rightarrow>
              let out = out @ [Uh_object slab_obj];
                  tr = tr @ [Acquire (Cache_obj slab_obj)];
                  free = [Release (Cache_obj slab_obj), Release (Page_ref normal_page)];
                  slab_page = virt_to_page slab_obj in
              if slab_page = 0 then (- 22, out, tr @ free) else
              let prev_slab = pg_lru_prev m slab_page;
                  next_slab = pg_lru_next m slab_page;
                  pgslab_slab = page_slab slab_page in
              (0, out @ [Uh_slab slab_page (page_to_pfn slab_page), Uh_page_slab pgslab_slab, Uh_word8 prev_slab,
                 Uh_word16 next_slab, Uh_compare8 prev_normal prev_slab, Uh_compare16 next_normal next_slab,
                 Uh_both pgslab_normal pgslab_slab, Uh_different (next_normal \<noteq> next_slab)],
               tr @ free)))"

datatype zone_hw_line =
    Fh_page u64 u64
  | Fh_flags u64
  | Fh_zone int
  | Fh_node int
  | Fh_calculated int int bool
  | Fh_phys u64 u64
  | Fh_bits u64 u64 u64
  | Fh_ends u64 u64

definition flags_zone_node_hw_init :: "machine \<Rightarrow> zone_api \<Rightarrow> u64 option \<Rightarrow> int \<times> zone_hw_line list \<times> kevent list" where
  "flags_zone_node_hw_init m api alloc =
    (case alloc of
       None \<Rightarrow> (- 12, [], [])
     | Some p \<Rightarrow>
         let pfn = za_pfn api p;
             flags = pg_flags m p;
             zone = za_zonenum api p;
             node = za_nid api p;
             calculated_zone = (if pfn < 4096 then 0 else if pfn < 1048576 then 1 else 2);
             phys_addr = push_bit 12 pfn in
         (0, [Fh_page p pfn, Fh_flags flags, Fh_zone zone, Fh_node node,
              Fh_calculated calculated_zone zone (calculated_zone = zone), Fh_phys phys_addr pfn,
              Fh_bits (drop_bit 0 flags AND 1) (drop_bit 4 flags AND 1) (drop_bit 5 flags AND 1), Fh_ends 4096 1048576],
          [Acquire (Page_ref p), Release (Page_ref p)]))"

text \<open>
  Both give back what they took on every path, in the reverse order, and load exactly when every call
  succeeded; the flags homework takes the zone from the frame's address as the lab does.
\<close>

theorem homework_nested:
  "(case metadata_union_hw_init m pfn_of slab v2p a0 a1 of (r, out, tr) \<Rightarrow>
      nested tr \<and> (r = 0 \<longleftrightarrow> (case (a0, a1) of (Some p, Some q) \<Rightarrow> v2p q \<noteq> 0 | _ \<Rightarrow> False))) \<and>
   (case flags_zone_node_hw_init m api a0 of (r, out, tr) \<Rightarrow> nested tr \<and> (r = 0 \<longleftrightarrow> a0 \<noteq> None))"
  by (auto simp: metadata_union_hw_init_def flags_zone_node_hw_init_def Let_def nested_def split: option.splits)

definition zone_number :: "zone_name \<Rightarrow> int" where
  "zone_number z = (case z of Zone_DMA \<Rightarrow> 0 | Zone_DMA32 \<Rightarrow> 1 | Zone_Normal \<Rightarrow> 2)"

theorem homework_zone:
  "Fh_calculated c z b \<in> set (fst (snd (flags_zone_node_hw_init m api (Some p)))) \<longleftrightarrow>
    c = zone_number (pfn_zone (za_pfn api p)) \<and> z = za_zonenum api p \<and> b = (c = z)"
  by (auto simp: flags_zone_node_hw_init_def Let_def pfn_zone_def zone_number_def word_less_nat_alt)

text \<open>With the lab's own answers the homework prints the same two words of each page.\<close>

theorem homework_agrees:
  assumes "v2p q \<noteq> 0"
  shows "case (metadata_union_init m pfn_of slab v2p (Some p) (Some q), metadata_union_hw_init m pfn_of slab v2p (Some p) (Some q)) of
    ((r, out, tr), (r', out', tr')) \<Rightarrow> r = r' \<and> tr = tr' \<and>
      [(x, y). Un_compare8 x y \<leftarrow> out] = [(x, y). Uh_compare8 x y \<leftarrow> out'] \<and>
      [(x, y). Un_compare16 x y \<leftarrow> out] = [(x, y). Uh_compare16 x y \<leftarrow> out']"
  using assms by (simp add: metadata_union_init_def metadata_union_hw_init_def Let_def)

end
