(* ===== verification/Spec2Isabelle.thy ===== *)
theory Spec2Isabelle
  imports Walk_Demos Table_Demos Sys_Demos Proc_Iface Page_Inspect Struct_Page Page_Labs Alloc_Labs
    Probes Pagemap Pagemap_Scan Scan_Command Smaps Maps Maps_Query Entry_Ops Clear_Refs Wp_Mark
    Numa_Maps Pagemap_Space Map_Files Smaps_File Pagemap_Entries Entry_Memory Entry_Formats
    Maps_Readers Lab_Homework
begin

text \<open>
  A verification library for a portfolio of Linux kernel modules and the programs that go with them
  (\<open>src/investigations\<close>). The modules read the page tables of an x86-64 machine, decode what they
  find there, inspect the kernel's page structures, plant probes and exercise the page allocators;
  nearly all of them do their work once, in an init function or in the \<open>show\<close> function of a file of
  \<open>/proc\<close>, and report by printing.

  \<^bold>\<open>How the code is modelled.\<close> A C function is a HOL function of what it reads. \<open>unsigned long\<close> is
  \<open>u64\<close>, \<open>unsigned int\<close> is \<open>u32\<close>, both as words that wrap. A function that prints returns the list of
  the lines that carry data, each a constructor with the printed values; lines of fixed text are left
  out. A function that takes references, locks or memory also returns its trace, the list of the
  \<open>Acquire\<close>, \<open>Use\<close> and \<open>Release\<close> events of \<open>Kernel_Trace\<close> in the order of the calls. The kernel's own
  functions, whose code is not here, are arguments: what an allocation answers, which page backs an
  address, what a page-table walker does.

  \<^bold>\<open>The theories, from the bottom.\<close>
  \<^item> \<open>Prelude\<close>: machine integers, the masks of the C code, generic word lemmas.
  \<^item> \<open>Paging\<close>: the machine (physical memory, CR3, the direct map), the abstract specification
    \<open>translate\<close> of four-level address translation, and the raw walker
    \<open>paging_demos/kernel_module_raw/raw_pagewalk.c\<close>, which refines it (\<open>walk_raw_refines\<close>).
  \<^item> \<open>Walk_Demos\<close>: \<open>demo_01\<close> to \<open>demo_09\<close> under \<open>paging_demos\<close>: CR3, index extraction, single entries,
    the searches for huge pages with their limits, and the walks of a 4 KB, 2 MB and 1 GB page.
    \<open>Table_Demos\<close>: \<open>demo_10\<close>, \<open>demo_11\<close>, \<open>demo_18\<close>, \<open>demo_19\<close>, the legacy walkers and
    \<open>prove_direct_map\<close>. \<open>Sys_Demos\<close>: \<open>demo_12\<close> to \<open>demo_17\<close> and \<open>demo_20\<close>, which list processes,
    zones, areas, slabs and buddy blocks. The lemmas show that what a demo prints is what the machine
    translates, that the loops stop at their limits and list nothing twice or wrongly.
  \<^item> \<open>Proc_Iface\<close>: the 23 modules with a \<open>/proc\<close> file as a state machine of loads, which may fail for
    want of memory, and unloads; opening and reading a file are no transitions. The invariant by rule
    induction is that the registered names, and the one slab cache, are those of the loaded modules.
  \<^item> \<open>X86_Pgtable\<close>: the entry accessors of \<open>kernel_module/pgtable.h\<close>. \<open>Page_Inspect\<close>:
    \<open>mm_exercise_hw.c\<close> (the ioctl) and \<open>phys_proof.c\<close>. \<open>Struct_Page\<close>: \<open>mapping_hw.c\<close>,
    \<open>anon_file_hw.c\<close>, \<open>lru_mlock_hw.c\<close>.
  \<^item> \<open>Kernel_Trace\<close>: traces, what makes one balanced or nested; the locale \<open>framed_monitor\<close> and its
    two interpretations carry the composition lemmas.
  \<^item> \<open>Page_Labs\<close> and \<open>Alloc_Labs\<close>: the labs on reference counts, page flags, compound pages, buddy and
    slab allocation, allocation contexts, zones, page-table locks and area lookup. The properties are
    about every error path: what was taken is given back, in order. \<open>Lab_Homework\<close>: the homework
    variants of two of them.
  \<^item> \<open>Probes\<close>: the kprobe modules that watch faults and forks: handlers, filters, counters,
    registration.
  \<^item> \<open>Pagemap\<close>: the file \<open>/proc/<pid>/pagemap\<close>, the kernel's side from \<open>mapping_field_decode/task_mmu.c\<close>
    and the programs that decode it. The locale \<open>pagemap_walker\<close> is the contract of the generic page
    walk, interpreted on the walk over a table; the read operation refines the flat array of entries.
    \<open>Page_Walk\<close>: a walk in steps of 2 MB and its invariant rule (locale \<open>page_step\<close>), shared by all
    files that walk. \<open>Pagemap_Space\<close>: the whole walk of a read, over holes, tables, huge pages and
    hugetlb areas; \<open>pagemap_read_space\<close> gives the entry of every page whatever chunks the walk makes.
    \<open>Pagemap_Entries\<close>: the shape of the entries, and that frame numbers stay in the kernel (locale
    \<open>entry_keeper\<close>).
  \<^item> \<open>Pagemap_Scan\<close>: the operations of the \<open>PAGEMAP_SCAN\<close> command of the same file: categories, the
    bounce buffer, the callbacks of the walk, the rounds. The abstraction \<open>region_pages\<close> reads a list
    of merged regions as the list of its pages; \<open>scanned\<close> is the contract of a walk, composed chunk by
    chunk. \<open>Scan_Command\<close>: the locale \<open>scan_walker\<close>, in which the rounds are shown to end and to be
    exact, its interpretation on the walk over an area with tables and holes, and the command.
  \<^item> \<open>Smaps\<close>: the statistics of \<open>smaps\<close> and \<open>smaps_rollup\<close>, from one page up to all areas with the lock
    dropped in between. The locale \<open>stats_keeper\<close> is an invariant that every walk keeps, interpreted on
    the walk over page tables with \<open>mss_sum\<close> (the totals add up); \<open>mss_within\<close> bounds them by the area.
    \<open>Smaps_File\<close>: the entry of \<open>smaps\<close> around them with its flag letters, and the memory lines of
    \<open>status\<close> and \<open>statm\<close>. \<open>Numa_Maps\<close>: the file \<open>numa_maps\<close>; the counters, per node and
    per kind, are the numbers of such pages of the area.
  \<^item> \<open>Maps\<close>: the iteration behind \<open>maps\<close> and \<open>smaps\<close> with area locks and the fallback to the lock of
    the address space, and the passes of a reader. \<open>Maps_Query\<close>: the \<open>PROCMAP_QUERY\<close> command, whose
    search refines a \<open>find\<close> over the areas. \<open>Map_Files\<close>: open and release of the memory files, composed
    with the passes and queries in between into the life of an open file.
  \<^item> \<open>Stdio_Text\<close>: \<open>fgets\<close>, \<open>strstr\<close> and the conversions of \<open>sscanf\<close> on strings. \<open>Maps_Text\<close>: the characters
    of the lines of \<open>maps\<close> and \<open>smaps\<close>, with the numbers of \<open>seq_file\<close> as a parameter. \<open>Maps_Readers\<close>: the
    programs under \<open>numa_zone_trace\<close> that read these files (\<open>hugepage_proof.c\<close>, \<open>libc_map_trace.c\<close>,
    \<open>got_proof.c\<close>), composed with the kernel's text: they find what the kernel wrote, as long as the
    lines and names fit their buffers; and the addresses two other programs compute.
  \<^item> \<open>Entry_Ops\<close>: the operations of \<open>kernel_module/pgtable.h\<close> that change an entry, on the three levels. The
    record \<open>entry_view\<close> is what the tests say of an entry; \<open>entry_ops_refine\<close> shows that every sequence
    of operations acts on it as the abstract operations do. \<open>Entry_Memory\<close>: the operations that update an
    entry in memory, as programs of reads, writes, exchanges and compare-and-exchanges that run
    interleaved with the processors' accesses; the locale \<open>atomic_op\<close> is the contract of an operation
    that takes effect at one moment, interpreted on five of them. \<open>Entry_Formats\<close>: swap entries, and the
    pairs of top-level tables. \<open>Clear_Refs\<close>: the write operation of
    \<open>clear_refs\<close> over a table in memory, composed with the read of \<open>pagemap\<close>. \<open>Wp_Mark\<close>: the marks
    that \<open>PAGEMAP_SCAN\<close> leaves in entries, composed with the categories of the next scan.

  \<^bold>\<open>Bounds.\<close> The demos' own limits (10 huge pages, 5 processes, 512 entries of a table) are in the
  definitions. No definition uses fuel: loops over tables recurse over the list of their indices, the
  loops of \<open>Pagemap\<close> end because the buffer fills or the address grows, which their termination
  proofs show. The rounds of \<open>PAGEMAP_SCAN\<close> need not end with an arbitrary walker, so \<open>scan_rounds\<close> is
  a partial function with the value \<open>None\<close> for that; \<open>pagemap_scan_exact\<close> includes that they end. The
  read and the scan are bounded by addresses below \<open>2 ^ 63\<close>, above every user address. The number of
  bytes a read of \<open>pagemap\<close> copied is an \<open>int\<close> in the code and an unbounded integer here; the two agree
  for counts below \<open>2 ^ 31\<close>, which is the most the kernel lets a read ask for.

  \<^bold>\<open>Not modelled.\<close> The copies of kernel headers under \<open>kernel_module\<close> apart from the accessors above,
  the generated \<open>*.mod.c\<close> files, the second copies of modules under \<open>kernel_exercises\<close>, modules that only
  print fixed text or measure addresses of their own code, templates with empty bodies, the parts of
  the user programs that only call \<open>mmap\<close>, \<open>fork\<close> or the shell and print, the
  operations the headers declare without a body (\<open>ptep_set_access_flags\<close>, \<open>ptep_test_and_clear_young\<close>), the
  page-table locks and lazy MMU mode around the
  loops of the scan (they change none of its state), and, except in \<open>Entry_Memory\<close> and where a lock is
  lost and taken again, the concurrency between a module and the rest of the kernel: a function runs as
  if alone.
\<close>

end
